(* ===== verification/Prelude.thy ===== *)
theory Prelude
  imports Main "HOL-Library.Word" "HOL-Library.AList"
begin

text \<open>
  Shared vocabulary of the development: the machine integer types of the Rust sources, the
  \<open>Result\<close> type with its question mark operator, panics as values, saturating and checked
  arithmetic, monotonic and wall clocks, the text of formatted numbers, and hash maps.

  A Rust \<open>Result<T, E>\<close> is \<open>'e + 't\<close> with \<open>Inl\<close> the error.  A function that can panic
  returns \<open>'a outcome\<close>.  A \<open>usize\<close> that counts elements of an in-memory collection is a
  \<open>nat\<close>; every other integer keeps its width as a word and wraps as the release profile does
  (the workspace sets no \<open>overflow-checks\<close>).  A Rust \<open>String\<close> is a \<open>string\<close> whose
  characters are the bytes of its UTF-8 encoding.
\<close>

named_theorems result_simps \<open>computation rules for results and readers\<close>
named_theorems hm_simps \<open>lookup laws of the hash map model\<close>

section \<open>Integer types\<close>

type_synonym u8 = "8 word"
type_synonym u16 = "16 word"
type_synonym u32 = "32 word"
type_synonym u64 = "64 word"
type_synonym bytes = "u8 list"

lemma unat_less_pow: "unat (w :: 'a::len word) < 2 ^ LENGTH('a)"
  by (rule unsigned_less)

definition saturating_sub :: "'a::len word \<Rightarrow> 'a word \<Rightarrow> 'a word" where
  "saturating_sub a b = (if a < b then 0 else a - b)"

definition saturating_add :: "'a::len word \<Rightarrow> 'a word \<Rightarrow> 'a word" where
  "saturating_add a b = (if unat a + unat b < 2 ^ LENGTH('a) then a + b else - 1)"

lemma unat_saturating_sub [simp]: "unat (saturating_sub a b) = unat a - unat b"
  by (auto simp: saturating_sub_def word_less_nat_alt not_less unat_sub_if_size)

lemma unat_minus_one_max: "unat (- 1 :: 'a::len word) = 2 ^ LENGTH('a) - 1"
  by transfer (simp add: take_bit_minus_one_eq_mask mask_eq_exp_minus_1 nat_diff_distrib nat_power_eq)

lemma unat_saturating_add:
  "unat (saturating_add a (b :: 'a::len word)) = min (unat a + unat b) (2 ^ LENGTH('a) - 1)"
proof (cases "unat a + unat b < 2 ^ LENGTH('a)")
  case True
  then show ?thesis by (simp add: saturating_add_def unat_word_ariths)
next
  case False
  then show ?thesis by (simp add: saturating_add_def unat_minus_one_max)
qed

section \<open>Results and panics\<close>

text \<open>The question mark operator: stop at the first error.\<close>

definition bindR :: "'e + 'a \<Rightarrow> ('a \<Rightarrow> 'e + 'b) \<Rightarrow> 'e + 'b" where
  "bindR r f = (case r of Inl e \<Rightarrow> Inl e | Inr x \<Rightarrow> f x)"

definition map_err :: "('e \<Rightarrow> 'f) \<Rightarrow> 'e + 'a \<Rightarrow> 'f + 'a" where
  "map_err g r = (case r of Inl e \<Rightarrow> Inl (g e) | Inr x \<Rightarrow> Inr x)"

definition ok_or :: "'e \<Rightarrow> 'a option \<Rightarrow> 'e + 'a" where
  "ok_or e m = (case m of None \<Rightarrow> Inl e | Some x \<Rightarrow> Inr x)"

lemma bindR_Inl [simp, result_simps]: "bindR (Inl e) f = Inl e"
  by (simp add: bindR_def)

lemma bindR_Inr [simp, result_simps]: "bindR (Inr x) f = f x"
  by (simp add: bindR_def)

lemma map_err_Inl [simp, result_simps]: "map_err g (Inl e) = Inl (g e)"
  by (simp add: map_err_def)

lemma map_err_Inr [simp, result_simps]: "map_err g (Inr x) = Inr x"
  by (simp add: map_err_def)

lemma ok_or_None [simp, result_simps]: "ok_or e None = Inl e"
  by (simp add: ok_or_def)

lemma ok_or_Some [simp, result_simps]: "ok_or e (Some x) = Inr x"
  by (simp add: ok_or_def)

lemma bindR_eq_Inr: "bindR r f = Inr y \<longleftrightarrow> (\<exists>x. r = Inr x \<and> f x = Inr y)"
  by (cases r) auto

lemma map_err_eq_Inr: "map_err g r = Inr y \<longleftrightarrow> r = Inr y"
  by (cases r) auto

lemma ok_or_eq_Inr: "ok_or e m = Inr y \<longleftrightarrow> m = Some y"
  by (cases m) auto

lemmas result_eq_Inr = bindR_eq_Inr map_err_eq_Inr ok_or_eq_Inr

text \<open>A call either returns or panics.\<close>

datatype 'a outcome = Panics | Returns 'a

text \<open>The question mark operator in a function that can also panic.\<close>

definition bindP :: "('e + 'a) outcome \<Rightarrow> ('a \<Rightarrow> ('e + 'b) outcome) \<Rightarrow> ('e + 'b) outcome" where
  "bindP r f = (case r of Panics \<Rightarrow> Panics
     | Returns v \<Rightarrow> (case v of Inl e \<Rightarrow> Returns (Inl e) | Inr x \<Rightarrow> f x))"

definition map_errP :: "('e \<Rightarrow> 'f) \<Rightarrow> ('e + 'a) outcome \<Rightarrow> ('f + 'a) outcome" where
  "map_errP g r = (case r of Panics \<Rightarrow> Panics | Returns v \<Rightarrow> Returns (map_err g v))"

lemma bindP_simps [simp, result_simps]:
  "bindP Panics f = Panics"
  "bindP (Returns (Inl e)) f = Returns (Inl e)"
  "bindP (Returns (Inr x)) f = f x"
  by (simp_all add: bindP_def)

lemma map_errP_simps [simp, result_simps]:
  "map_errP g Panics = Panics"
  "map_errP g (Returns v) = Returns (map_err g v)"
  by (simp_all add: map_errP_def)

lemma bindP_eq_Inr: "bindP r f = Returns (Inr y) \<longleftrightarrow> (\<exists>x. r = Returns (Inr x) \<and> f x = Returns (Inr y))"
  by (auto simp: bindP_def split: outcome.splits sum.splits)

lemma bindP_eq_Panics: "bindP r f = Panics \<longleftrightarrow> r = Panics \<or> (\<exists>x. r = Returns (Inr x) \<and> f x = Panics)"
  by (auto simp: bindP_def split: outcome.splits sum.splits)

lemma map_errP_eq_Inr: "map_errP g r = Returns (Inr y) \<longleftrightarrow> r = Returns (Inr y)"
  by (auto simp: map_errP_def map_err_eq_Inr split: outcome.splits)

lemma map_errP_eq_Panics: "map_errP g r = Panics \<longleftrightarrow> r = Panics"
  by (auto simp: map_errP_def split: outcome.splits)

section \<open>Clocks\<close>

text \<open>
  A \<open>Duration\<close> is a number of nanoseconds.  An \<open>Instant\<close> of the monotonic clock is a signed
  number of nanoseconds, as the timespec of the Unix targets is; \<open>Instant::checked_sub\<close> returns
  nothing below the smallest representable second, \<open>-2 ^ 63\<close>.  \<open>Instant::duration_since\<close> and
  \<open>Instant::elapsed\<close> saturate at zero.
\<close>

type_synonym duration = nat
type_synonym instant = int

definition NANOS_PER_SEC :: nat where
  "NANOS_PER_SEC = 1000000000"

definition from_secs :: "nat \<Rightarrow> duration" where
  "from_secs s = s * NANOS_PER_SEC"

definition INSTANT_MIN :: instant where
  "INSTANT_MIN = - (2 ^ 63) * int NANOS_PER_SEC"

definition duration_since :: "instant \<Rightarrow> instant \<Rightarrow> duration" where
  "duration_since later earlier = nat (later - earlier)"

definition instant_checked_sub :: "instant \<Rightarrow> duration \<Rightarrow> instant option" where
  "instant_checked_sub t d = (if t - int d < INSTANT_MIN then None else Some (t - int d))"

lemma duration_since_self [simp]: "duration_since t t = 0"
  by (simp add: duration_since_def)

section \<open>Formatted numbers\<close>

text \<open>The decimal text that \<open>format!("{}", n)\<close> produces for an unsigned integer.\<close>

fun show_nat :: "nat \<Rightarrow> string" where
  "show_nat n =
     (if n < 10 then [char_of (48 + n)] else show_nat (n div 10) @ [char_of (48 + n mod 10)])"

declare show_nat.simps [simp del]

section \<open>Hash maps\<close>

text \<open>
  A \<open>HashMap<K, V>\<close> is an association list with distinct keys; the list order stands for the
  iteration order, which the standard library leaves open.  \<open>values_mut\<close> loops and
  \<open>retain\<close> go over the list once.
\<close>

type_synonym ('k, 'v) hash_map = "('k \<times> 'v) list"

definition hm_wf :: "('k, 'v) hash_map \<Rightarrow> bool" where
  "hm_wf m \<longleftrightarrow> distinct (map fst m)"

definition hm_get :: "('k, 'v) hash_map \<Rightarrow> 'k \<Rightarrow> 'v option" where
  "hm_get m k = map_of m k"

definition hm_contains :: "('k, 'v) hash_map \<Rightarrow> 'k \<Rightarrow> bool" where
  "hm_contains m k \<longleftrightarrow> hm_get m k \<noteq> None"

definition hm_insert :: "'k \<Rightarrow> 'v \<Rightarrow> ('k, 'v) hash_map \<Rightarrow> ('k, 'v) hash_map" where
  "hm_insert k v m = AList.update k v m"

definition hm_remove :: "'k \<Rightarrow> ('k, 'v) hash_map \<Rightarrow> ('k, 'v) hash_map" where
  "hm_remove k m = AList.delete k m"

definition hm_retain :: "('k \<Rightarrow> 'v \<Rightarrow> bool) \<Rightarrow> ('k, 'v) hash_map \<Rightarrow> ('k, 'v) hash_map" where
  "hm_retain P m = filter (\<lambda>(k, v). P k v) m"

definition hm_map :: "('k \<Rightarrow> 'v \<Rightarrow> 'w) \<Rightarrow> ('k, 'v) hash_map \<Rightarrow> ('k, 'w) hash_map" where
  "hm_map f m = map (\<lambda>(k, v). (k, f k v)) m"

text \<open>\<open>entry(k).or_insert(d)\<close>: the value under the key, the given one where there is none.\<close>

definition hm_get_or :: "'v \<Rightarrow> ('k, 'v) hash_map \<Rightarrow> 'k \<Rightarrow> 'v" where
  "hm_get_or d m k = (case hm_get m k of None \<Rightarrow> d | Some v \<Rightarrow> v)"

lemma hm_get_Nil [simp]: "hm_get [] k = None"
  by (simp add: hm_get_def)

lemma hm_wf_Nil [simp]: "hm_wf []"
  by (simp add: hm_wf_def)

lemma hm_get_insert [simp, hm_simps]:
  "hm_get (hm_insert k v m) k' = (if k' = k then Some v else hm_get m k')"
  by (simp add: hm_get_def hm_insert_def update_conv')

lemma hm_get_remove [simp, hm_simps]:
  "hm_get (hm_remove k m) k' = (if k' = k then None else hm_get m k')"
  by (simp add: hm_get_def hm_remove_def delete_conv')

lemma hm_wf_insert [simp, intro]: "hm_wf m \<Longrightarrow> hm_wf (hm_insert k v m)"
  by (simp add: hm_wf_def hm_insert_def distinct_update)

lemma hm_wf_remove [simp, intro]: "hm_wf m \<Longrightarrow> hm_wf (hm_remove k m)"
  by (simp add: hm_wf_def hm_remove_def distinct_delete)

lemma hm_wf_retain [simp, intro]: "hm_wf m \<Longrightarrow> hm_wf (hm_retain P m)"
  by (induction m) (auto simp: hm_wf_def hm_retain_def)

lemma map_fst_hm_map [simp]: "map fst (hm_map f m) = map fst m"
  by (induction m) (auto simp: hm_map_def)

lemma hm_wf_map [simp]: "hm_wf (hm_map f m) = hm_wf m"
  by (simp add: hm_wf_def)

lemma hm_get_map [simp, hm_simps]: "hm_get (hm_map f m) k = map_option (f k) (hm_get m k)"
  by (induction m) (auto simp: hm_get_def hm_map_def)

lemma hm_get_retain [hm_simps]:
  assumes "hm_wf m"
  shows "hm_get (hm_retain P m) k =
    (case hm_get m k of None \<Rightarrow> None | Some v \<Rightarrow> if P k v then Some v else None)"
  using assms
proof (induction m)
  case Nil
  then show ?case by (simp add: hm_retain_def)
next
  case (Cons kv m)
  obtain k0 v0 where kv: "kv = (k0, v0)" by fastforce
  from Cons.prems kv have wf: "hm_wf m" and fresh: "k0 \<notin> fst ` set m"
    by (auto simp: hm_wf_def)
  from fresh have none: "map_of m k0 = None" by (simp add: map_of_eq_None_iff)
  have none': "map_of (filter (\<lambda>(k, v). P k v) m) k0 = None"
    using fresh by (force simp: map_of_eq_None_iff)
  from Cons.IH [OF wf] none none' show ?case
    by (auto simp: hm_get_def hm_retain_def kv split: option.splits)
qed

lemma hm_get_SomeD: "hm_get m k = Some v \<Longrightarrow> (k, v) \<in> set m"
  by (simp add: hm_get_def map_of_SomeD)

lemma hm_get_SomeI: "hm_wf m \<Longrightarrow> (k, v) \<in> set m \<Longrightarrow> hm_get m k = Some v"
  by (simp add: hm_get_def hm_wf_def map_of_is_SomeI)

lemma hm_in_set_iff: "hm_wf m \<Longrightarrow> (k, v) \<in> set m \<longleftrightarrow> hm_get m k = Some v"
  by (auto intro: hm_get_SomeI dest: hm_get_SomeD)

lemma hm_contains_iff: "hm_contains m k \<longleftrightarrow> k \<in> fst ` set m"
  by (simp add: hm_contains_def hm_get_def map_of_eq_None_iff)

lemma length_hm_insert:
  "length (hm_insert k v m) = (if hm_contains m k then length m else Suc (length m))"
  by (induction m) (auto simp: hm_insert_def hm_contains_iff)

lemma set_hm_insert_subset: "set (hm_insert k v m) \<subseteq> insert (k, v) (set m)"
  by (induction m) (auto simp: hm_insert_def)

lemma length_hm_remove_le: "length (hm_remove k m) \<le> length m"
  by (simp add: hm_remove_def length_delete_le)

lemma length_hm_remove:
  assumes "hm_wf m" "hm_contains m k"
  shows "Suc (length (hm_remove k m)) = length m"
  using assms
proof (induction m)
  case Nil
  then show ?case by (simp add: hm_contains_def)
next
  case (Cons kv m)
  then show ?case
    by (cases kv) (auto simp: hm_wf_def hm_remove_def hm_contains_iff)
qed

lemma length_hm_retain_le: "length (hm_retain P m) \<le> length m"
  by (simp add: hm_retain_def)

lemma hm_insert_fresh: "k \<notin> fst ` set m \<Longrightarrow> hm_insert k v m = m @ [(k, v)]"
  by (induction m) (auto simp: hm_insert_def)

section \<open>Iterators\<close>

text \<open>\<open>Iterator::min_by_key\<close>: the first element with the least key.\<close>

fun min_by_key :: "('a \<Rightarrow> 'k :: linorder) \<Rightarrow> 'a list \<Rightarrow> 'a option" where
  "min_by_key f [] = None"
| "min_by_key f (x # xs) =
     (case min_by_key f xs of
        None \<Rightarrow> Some x
      | Some y \<Rightarrow> if f y < f x then Some y else Some x)"

lemma min_by_key_None [simp]: "min_by_key f xs = None \<longleftrightarrow> xs = []"
  by (cases xs) (auto split: option.splits)

lemma min_by_key_SomeD:
  "min_by_key f xs = Some x \<Longrightarrow> x \<in> set xs \<and> (\<forall>y \<in> set xs. f x \<le> f y)"
proof (induction xs arbitrary: x)
  case Nil
  then show ?case by simp
next
  case (Cons a xs)
  show ?case
  proof (cases "min_by_key f xs")
    case None
    with Cons.prems show ?thesis by (simp del: min_by_key_None) (use None in simp)
  next
    case (Some y)
    from Cons.IH [OF this] show ?thesis using Cons.prems Some
      by (cases "f y < f a") (auto intro: order_trans)
  qed
qed

end
