(* ===== verification/Bytes.thy ===== *)
theory Bytes
  imports Prelude
begin

text \<open>
  Byte strings: the little- and big-endian conversions of the integer types, reading from a
  byte cursor, and the UTF-8 check of \<open>String::from_utf8\<close>.

  A cursor over a byte slice is the list of the bytes that are still unread, so that its position
  has reached the end of the slice exactly when that list is empty.
\<close>

section \<open>Endianness\<close>

fun nat_to_le :: "nat \<Rightarrow> nat \<Rightarrow> bytes" where
  "nat_to_le 0 x = []"
| "nat_to_le (Suc n) x = of_nat (x mod 256) # nat_to_le n (x div 256)"

fun le_to_nat :: "bytes \<Rightarrow> nat" where
  "le_to_nat [] = 0"
| "le_to_nat (b # bs) = unat b + 256 * le_to_nat bs"

lemma length_nat_to_le [simp]: "length (nat_to_le n x) = n"
  by (induction n arbitrary: x) auto

lemma nat_to_le_numeral:
  "nat_to_le (numeral k) x = of_nat (x mod 256) # nat_to_le (pred_numeral k) (x div 256)"
  by (subst numeral_eq_Suc) simp

lemma unat_byte_of_nat: "unat (of_nat n :: u8) = n mod 256"
  by (simp add: unat_of_nat)

lemma unat_u8_less [simp]: "unat (b :: u8) < 256"
  using unat_less_pow [of b] by simp

lemma le_to_nat_nat_to_le: "le_to_nat (nat_to_le n x) = x mod 256 ^ n"
proof (induction n arbitrary: x)
  case 0
  then show ?case by simp
next
  case (Suc n)
  have "x mod (256 * 256 ^ n) = 256 * (x div 256 mod 256 ^ n) + x mod 256"
    by (rule mod_mult2_eq)
  with Suc show ?case by (simp add: unat_byte_of_nat)
qed

lemma le_to_nat_less: "le_to_nat bs < 256 ^ length bs"
proof (induction bs)
  case Nil
  then show ?case by simp
next
  case (Cons b bs)
  have "unat b + 256 * le_to_nat bs < 256 + 256 * le_to_nat bs"
    by simp
  also have "\<dots> = 256 * Suc (le_to_nat bs)" by simp
  also have "\<dots> \<le> 256 * 256 ^ length bs" using Cons by (intro mult_le_mono) simp_all
  finally show ?case by simp
qed

lemma nat_to_le_le_to_nat: "length bs = n \<Longrightarrow> nat_to_le n (le_to_nat bs) = bs"
proof (induction bs arbitrary: n)
  case Nil
  then show ?case by simp
next
  case (Cons b bs)
  have "(unat b + 256 * le_to_nat bs) div 256 = le_to_nat bs"
    by (simp add: div_add1_eq)
  moreover have "of_nat ((unat b + 256 * le_to_nat bs) mod 256) = b"
    by (simp add: mod_less)
  ultimately show ?case using Cons by (cases n) simp_all
qed

lemma le_to_nat_inject: "length xs = length ys \<Longrightarrow> le_to_nat xs = le_to_nat ys \<Longrightarrow> xs = ys"
  by (metis nat_to_le_le_to_nat)

lemma le_to_nat_append: "le_to_nat (xs @ ys) = le_to_nat xs + 256 ^ length xs * le_to_nat ys"
  by (induction xs) (simp_all add: algebra_simps)

lemma le_to_nat_replicate_0 [simp]: "le_to_nat (replicate n 0) = 0"
  by (induction n) simp_all

lemma take_nat_to_le: "k \<le> n \<Longrightarrow> take k (nat_to_le n x) = nat_to_le k x"
proof (induction k arbitrary: n x)
  case (Suc k)
  then show ?case by (cases n) simp_all
qed simp

lemma nat_to_le_inject:
  "x < 256 ^ n \<Longrightarrow> y < 256 ^ n \<Longrightarrow> nat_to_le n x = nat_to_le n y \<Longrightarrow> x = y"
  by (metis le_to_nat_nat_to_le mod_less)

definition u16_to_le_bytes :: "u16 \<Rightarrow> bytes" where
  "u16_to_le_bytes w = nat_to_le 2 (unat w)"

definition u16_from_le_bytes :: "bytes \<Rightarrow> u16" where
  "u16_from_le_bytes bs = of_nat (le_to_nat bs)"

definition u32_to_le_bytes :: "u32 \<Rightarrow> bytes" where
  "u32_to_le_bytes w = nat_to_le 4 (unat w)"

definition u32_from_le_bytes :: "bytes \<Rightarrow> u32" where
  "u32_from_le_bytes bs = of_nat (le_to_nat bs)"

definition u64_to_le_bytes :: "u64 \<Rightarrow> bytes" where
  "u64_to_le_bytes w = nat_to_le 8 (unat w)"

definition u64_from_le_bytes :: "bytes \<Rightarrow> u64" where
  "u64_from_le_bytes bs = of_nat (le_to_nat bs)"

definition u32_to_be_bytes :: "u32 \<Rightarrow> bytes" where
  "u32_to_be_bytes w = rev (u32_to_le_bytes w)"

definition u64_to_be_bytes :: "u64 \<Rightarrow> bytes" where
  "u64_to_be_bytes w = rev (u64_to_le_bytes w)"

lemma length_to_le_bytes [simp]:
  "length (u16_to_le_bytes a) = 2" "length (u32_to_le_bytes b) = 4" "length (u64_to_le_bytes c) = 8"
  by (simp_all add: u16_to_le_bytes_def u32_to_le_bytes_def u64_to_le_bytes_def)

lemma u16_from_to_le [simp]: "u16_from_le_bytes (u16_to_le_bytes w) = w"
  using unat_less_pow [of w] by (simp add: u16_from_le_bytes_def u16_to_le_bytes_def le_to_nat_nat_to_le)

lemma u32_from_to_le [simp]: "u32_from_le_bytes (u32_to_le_bytes w) = w"
  using unat_less_pow [of w] by (simp add: u32_from_le_bytes_def u32_to_le_bytes_def le_to_nat_nat_to_le)

lemma u64_from_to_le [simp]: "u64_from_le_bytes (u64_to_le_bytes w) = w"
  using unat_less_pow [of w] by (simp add: u64_from_le_bytes_def u64_to_le_bytes_def le_to_nat_nat_to_le)

lemma u16_to_from_le: "length bs = 2 \<Longrightarrow> u16_to_le_bytes (u16_from_le_bytes bs) = bs"
  using le_to_nat_less [of bs]
  by (simp add: u16_from_le_bytes_def u16_to_le_bytes_def unat_of_nat nat_to_le_le_to_nat)

lemma u32_to_le_inject: "u32_to_le_bytes a = u32_to_le_bytes b \<longleftrightarrow> a = b"
  by (metis u32_from_to_le)

lemma u32_to_from_le: "length bs = 4 \<Longrightarrow> u32_to_le_bytes (u32_from_le_bytes bs) = bs"
  using le_to_nat_less [of bs]
  by (simp add: u32_from_le_bytes_def u32_to_le_bytes_def unat_of_nat nat_to_le_le_to_nat)

lemma u64_to_from_le: "length bs = 8 \<Longrightarrow> u64_to_le_bytes (u64_from_le_bytes bs) = bs"
  using le_to_nat_less [of bs]
  by (simp add: u64_from_le_bytes_def u64_to_le_bytes_def unat_of_nat nat_to_le_le_to_nat)

section \<open>Reading from a cursor\<close>

text \<open>
  \<open>Read::read_exact\<close> and the byteorder readers on a cursor: the value and the rest of the
  bytes, or nothing when the slice is too short.
\<close>

definition read_exact :: "nat \<Rightarrow> bytes \<Rightarrow> (bytes \<times> bytes) option" where
  "read_exact n cur = (if length cur < n then None else Some (take n cur, drop n cur))"

definition read_u8 :: "bytes \<Rightarrow> (u8 \<times> bytes) option" where
  "read_u8 cur = (case cur of [] \<Rightarrow> None | b # rest \<Rightarrow> Some (b, rest))"

definition read_u16 :: "bytes \<Rightarrow> (u16 \<times> bytes) option" where
  "read_u16 cur = map_option (\<lambda>(bs, rest). (u16_from_le_bytes bs, rest)) (read_exact 2 cur)"

definition read_u32 :: "bytes \<Rightarrow> (u32 \<times> bytes) option" where
  "read_u32 cur = map_option (\<lambda>(bs, rest). (u32_from_le_bytes bs, rest)) (read_exact 4 cur)"

definition read_u64 :: "bytes \<Rightarrow> (u64 \<times> bytes) option" where
  "read_u64 cur = map_option (\<lambda>(bs, rest). (u64_from_le_bytes bs, rest)) (read_exact 8 cur)"

lemma read_exact_append [simp]: "length xs = n \<Longrightarrow> read_exact n (xs @ ys) = Some (xs, ys)"
  by (simp add: read_exact_def)

lemma read_u8_Cons [simp]: "read_u8 (b # ys) = Some (b, ys)"
  by (simp add: read_u8_def)

lemma read_u16_append [simp]: "read_u16 (u16_to_le_bytes w @ ys) = Some (w, ys)"
  by (simp add: read_u16_def)

lemma read_u32_append [simp]: "read_u32 (u32_to_le_bytes w @ ys) = Some (w, ys)"
  by (simp add: read_u32_def)

lemma read_u64_append [simp]: "read_u64 (u64_to_le_bytes w @ ys) = Some (w, ys)"
  by (simp add: read_u64_def)

lemma read_exact_SomeD: "read_exact n cur = Some (xs, ys) \<Longrightarrow> cur = xs @ ys \<and> length xs = n"
  by (auto simp: read_exact_def split: if_splits)

lemma read_u8_SomeD: "read_u8 cur = Some (b, ys) \<Longrightarrow> cur = b # ys"
  by (auto simp: read_u8_def split: list.splits)

lemma read_u16_SomeD: "read_u16 cur = Some (w, ys) \<Longrightarrow> cur = u16_to_le_bytes w @ ys"
  by (auto simp: read_u16_def u16_to_from_le dest!: read_exact_SomeD)

lemma read_u32_SomeD: "read_u32 cur = Some (w, ys) \<Longrightarrow> cur = u32_to_le_bytes w @ ys"
  by (auto simp: read_u32_def u32_to_from_le dest!: read_exact_SomeD)

lemma read_u64_SomeD: "read_u64 cur = Some (w, ys) \<Longrightarrow> cur = u64_to_le_bytes w @ ys"
  by (auto simp: read_u64_def u64_to_from_le dest!: read_exact_SomeD)

lemmas read_SomeD = read_exact_SomeD read_u8_SomeD read_u16_SomeD read_u32_SomeD read_u64_SomeD

section \<open>Characters and UTF-8\<close>

definition byte_of_char :: "char \<Rightarrow> u8" where
  "byte_of_char c = of_nat (of_char c)"

definition char_of_byte :: "u8 \<Rightarrow> char" where
  "char_of_byte b = char_of (unat b)"

definition as_bytes :: "string \<Rightarrow> bytes" where
  "as_bytes s = map byte_of_char s"

lemma char_of_byte_of_char [simp]: "char_of_byte (byte_of_char c) = c"
  by (simp add: char_of_byte_def byte_of_char_def unat_byte_of_nat)

lemma byte_of_char_of_byte [simp]: "byte_of_char (char_of_byte b) = b"
  by (simp add: char_of_byte_def byte_of_char_def mod_less)

lemma length_as_bytes [simp]: "length (as_bytes s) = length s"
  by (simp add: as_bytes_def)

lemma as_bytes_chars [simp]: "as_bytes (map char_of_byte bs) = bs"
  by (simp add: as_bytes_def comp_def)

lemma chars_as_bytes [simp]: "map char_of_byte (as_bytes s) = s"
  by (simp add: as_bytes_def comp_def)

text \<open>
  The check of the standard library, which walks the bytes once and reports how many bytes
  are valid and how long the offending sequence is (none for a sequence cut off by the end).
\<close>

record utf8_error =
  valid_up_to :: nat
  error_len :: "nat option"

definition in_range :: "nat \<Rightarrow> nat \<Rightarrow> u8 \<Rightarrow> bool" where
  "in_range lo hi b \<longleftrightarrow> lo \<le> unat b \<and> unat b \<le> hi"

definition utf8_char_width :: "u8 \<Rightarrow> nat" where
  "utf8_char_width b =
     (if in_range 0 127 b then 1 else if in_range 194 223 b then 2
      else if in_range 224 239 b then 3 else if in_range 240 244 b then 4 else 0)"

definition utf8_second_ok :: "u8 \<Rightarrow> u8 \<Rightarrow> bool" where
  "utf8_second_ok b c =
     (if b = 224 then in_range 160 191 c
      else if b = 237 then in_range 128 159 c
      else if b = 240 then in_range 144 191 c
      else if b = 244 then in_range 128 143 c
      else in_range 128 191 c)"

definition utf8_fail :: "nat \<Rightarrow> nat option \<Rightarrow> utf8_error + unit" where
  "utf8_fail i l = Inl \<lparr>valid_up_to = i, error_len = l\<rparr>"

fun utf8_validate :: "nat \<Rightarrow> bytes \<Rightarrow> utf8_error + unit" where
  "utf8_validate i [] = Inr ()"
| "utf8_validate i (b # bs) =
     (case utf8_char_width b of
        Suc 0 \<Rightarrow> utf8_validate (i + 1) bs
      | Suc (Suc 0) \<Rightarrow>
          (case bs of [] \<Rightarrow> utf8_fail i None
           | c # bs' \<Rightarrow> if utf8_second_ok b c then utf8_validate (i + 2) bs' else utf8_fail i (Some 1))
      | Suc (Suc (Suc 0)) \<Rightarrow>
          (case bs of [] \<Rightarrow> utf8_fail i None
           | c # bs' \<Rightarrow> if \<not> utf8_second_ok b c then utf8_fail i (Some 1) else
               (case bs' of [] \<Rightarrow> utf8_fail i None
                | d # bs'' \<Rightarrow>
                    if in_range 128 191 d then utf8_validate (i + 3) bs'' else utf8_fail i (Some 2)))
      | Suc (Suc (Suc (Suc 0))) \<Rightarrow>
          (case bs of [] \<Rightarrow> utf8_fail i None
           | c # bs' \<Rightarrow> if \<not> utf8_second_ok b c then utf8_fail i (Some 1) else
               (case bs' of [] \<Rightarrow> utf8_fail i None
                | d # bs'' \<Rightarrow> if \<not> in_range 128 191 d then utf8_fail i (Some 2) else
                    (case bs'' of [] \<Rightarrow> utf8_fail i None
                     | e # bs''' \<Rightarrow>
                         if in_range 128 191 e then utf8_validate (i + 4) bs'''
                         else utf8_fail i (Some 3))))
      | _ \<Rightarrow> utf8_fail i (Some 1))"

definition from_utf8 :: "bytes \<Rightarrow> utf8_error + string" where
  "from_utf8 bs = bindR (utf8_validate 0 bs) (\<lambda>_. Inr (map char_of_byte bs))"

definition utf8_valid :: "string \<Rightarrow> bool" where
  "utf8_valid s \<longleftrightarrow> utf8_validate 0 (as_bytes s) = Inr ()"

definition utf8_error_display :: "utf8_error \<Rightarrow> string" where
  "utf8_error_display e =
     (case error_len e of
        Some l \<Rightarrow> ''invalid utf-8 sequence of '' @ show_nat l @ '' bytes from index '' @ show_nat (valid_up_to e)
      | None \<Rightarrow> ''incomplete utf-8 byte sequence from index '' @ show_nat (valid_up_to e))"

lemma from_utf8_as_bytes [simp]: "utf8_valid s \<Longrightarrow> from_utf8 (as_bytes s) = Inr s"
  by (simp add: from_utf8_def utf8_valid_def)

lemma from_utf8_InrD: "from_utf8 bs = Inr s \<Longrightarrow> utf8_valid s \<and> as_bytes s = bs"
  by (auto simp: from_utf8_def utf8_valid_def bindR_eq_Inr)

lemma utf8_validate_ascii:
  "\<forall>b \<in> set bs. unat b < 128 \<Longrightarrow> utf8_validate i bs = Inr ()"
  by (induction bs arbitrary: i) (auto simp: utf8_char_width_def in_range_def)

lemma utf8_valid_ascii: "\<forall>c \<in> set s. unat (byte_of_char c) < 128 \<Longrightarrow> utf8_valid s"
  by (simp add: utf8_valid_def as_bytes_def utf8_validate_ascii)

end
