(* ===== verification/Mining_Messages.thy ===== *)
theory Mining_Messages
  imports Bytes
begin

text \<open>
  The message types of \<open>zcash-mining-protocol/src/messages.rs\<close> and \<open>error.rs\<close>: the job
  that the pool sends, the share that a miner returns, the pool's answer, the share target and the
  worker identity.  A fixed-size array is a byte list whose length the well-formedness predicate
  of its record fixes; every value of the Rust type satisfies it.
\<close>

datatype ProtocolError =
    InvalidMessageType u8
  | MessageTooShort (expected: nat) (actual: nat)
  | InvalidNonceLength nat nat
  | InvalidSolutionLength nat
  | UnknownChannel u32
  | UnknownJob u32
  | StaleShare u32
  | DuplicateShare
  | InvalidSolution string
  | TargetNotMet
  | EncodingError string

definition NEW_EQUIHASH_JOB :: u8 where "NEW_EQUIHASH_JOB = 0x20"
definition SUBMIT_EQUIHASH_SHARE :: u8 where "SUBMIT_EQUIHASH_SHARE = 0x21"
definition SUBMIT_SHARES_RESPONSE :: u8 where "SUBMIT_SHARES_RESPONSE = 0x22"
definition SET_TARGET :: u8 where "SET_TARGET = 0x23"
definition SET_WORKER_IDENTITY :: u8 where "SET_WORKER_IDENTITY = 0x24"

record NewEquihashJob =
  nj_channel_id :: u32
  nj_job_id :: u32
  nj_future_job :: bool
  nj_version :: u32
  nj_prev_hash :: bytes
  nj_merkle_root :: bytes
  nj_block_commitments :: bytes
  nj_nonce_1 :: bytes
  nj_nonce_2_len :: u8
  nj_time :: u32
  nj_bits :: u32
  nj_target :: bytes
  nj_clean_jobs :: bool

record SubmitEquihashShare =
  ss_channel_id :: u32
  ss_sequence_number :: u32
  ss_job_id :: u32
  ss_nonce_2 :: bytes
  ss_time :: u32
  ss_solution :: bytes

datatype RejectReason =
    StaleJob | Duplicate | RejectInvalidSolution | LowDifficulty | OtherReason string

datatype ShareResult = Accepted | Rejected RejectReason

record SubmitSharesResponse =
  sr_channel_id :: u32
  sr_sequence_number :: u32
  sr_result :: ShareResult

record SetWorkerIdentity =
  worker_name :: string

record SetTarget =
  st_channel_id :: u32
  st_target :: bytes

definition SOLUTION_SIZE :: nat where
  "SOLUTION_SIZE = 1344"

definition MAX_WORKER_NAME_LEN :: nat where
  "MAX_WORKER_NAME_LEN = 64"

section \<open>Operations of the job\<close>

definition total_nonce_len :: "NewEquihashJob \<Rightarrow> nat" where
  "total_nonce_len job = length (nj_nonce_1 job) + unat (nj_nonce_2_len job)"

definition validate_nonce_len :: "NewEquihashJob \<Rightarrow> bool" where
  "validate_nonce_len job \<longleftrightarrow> total_nonce_len job = 32"

definition build_header :: "NewEquihashJob \<Rightarrow> bytes \<Rightarrow> bytes" where
  "build_header job nonce =
     u32_to_le_bytes (nj_version job) @ nj_prev_hash job @ nj_merkle_root job @
     nj_block_commitments job @ u32_to_le_bytes (nj_time job) @ u32_to_le_bytes (nj_bits job) @ nonce"

text \<open>
  The two slice copies panic when the first part does not fit into 32 bytes and when the second
  part does not fill the rest exactly.
\<close>

definition build_nonce :: "NewEquihashJob \<Rightarrow> bytes \<Rightarrow> bytes option outcome" where
  "build_nonce job nonce_2 =
     (if length nonce_2 \<noteq> unat (nj_nonce_2_len job) then Returns None
      else if 32 < length (nj_nonce_1 job) then Panics
      else if length nonce_2 \<noteq> 32 - length (nj_nonce_1 job) then Panics
      else Returns (Some (nj_nonce_1 job @ nonce_2)))"

section \<open>Worker names\<close>

definition is_ascii_alphanumeric :: "u8 \<Rightarrow> bool" where
  "is_ascii_alphanumeric b \<longleftrightarrow> in_range 48 57 b \<or> in_range 65 90 b \<or> in_range 97 122 b"

definition validate_worker_name :: "string \<Rightarrow> ProtocolError + unit" where
  "validate_worker_name name =
     (if name = [] \<or> MAX_WORKER_NAME_LEN < length name then
        Inl (EncodingError (''worker name must be 1-'' @ show_nat MAX_WORKER_NAME_LEN @ '' bytes''))
      else if \<not> (\<forall>b \<in> set (as_bytes name).
          is_ascii_alphanumeric b \<or> b = 46 \<or> b = 95 \<or> b = 45) then
        Inl (EncodingError ''worker name may only contain [A-Za-z0-9._-]'')
      else Inr ())"

section \<open>Well-formed values and lemmas\<close>

definition job_arrays :: "NewEquihashJob \<Rightarrow> bool" where
  "job_arrays job \<longleftrightarrow> length (nj_prev_hash job) = 32 \<and> length (nj_merkle_root job) = 32 \<and>
     length (nj_block_commitments job) = 32 \<and> length (nj_target job) = 32"

definition job_wf :: "NewEquihashJob \<Rightarrow> bool" where
  "job_wf job \<longleftrightarrow> job_arrays job \<and> validate_nonce_len job"

definition share_wf :: "SubmitEquihashShare \<Rightarrow> bool" where
  "share_wf share \<longleftrightarrow> length (ss_solution share) = SOLUTION_SIZE"

definition reject_reason_wf :: "RejectReason \<Rightarrow> bool" where
  "reject_reason_wf r = (case r of OtherReason msg \<Rightarrow> utf8_valid msg | _ \<Rightarrow> True)"

definition share_result_wf :: "ShareResult \<Rightarrow> bool" where
  "share_result_wf r = (case r of Accepted \<Rightarrow> True | Rejected reason \<Rightarrow> reject_reason_wf reason)"

definition set_target_wf :: "SetTarget \<Rightarrow> bool" where
  "set_target_wf m \<longleftrightarrow> length (st_target m) = 32"

lemma length_build_header:
  "job_arrays job \<Longrightarrow> length nonce = 32 \<Longrightarrow> length (build_header job nonce) = 140"
  by (simp add: build_header_def job_arrays_def)

lemma build_nonce_wf:
  assumes "validate_nonce_len job"
  shows "build_nonce job nonce_2 =
    Returns (if length nonce_2 = unat (nj_nonce_2_len job) then Some (nj_nonce_1 job @ nonce_2) else None)"
  using assms by (auto simp: build_nonce_def validate_nonce_len_def total_nonce_len_def)

lemma build_nonce_length:
  "build_nonce job nonce_2 = Returns (Some nonce) \<Longrightarrow> length nonce = 32"
  by (auto simp: build_nonce_def split: if_splits)

text \<open>The jobs that \<open>build_nonce\<close> can panic on are those whose lengths do not add up.\<close>

lemma build_nonce_panics_iff:
  "build_nonce job nonce_2 = Panics \<longleftrightarrow>
     length nonce_2 = unat (nj_nonce_2_len job) \<and> \<not> validate_nonce_len job"
  by (auto simp: build_nonce_def validate_nonce_len_def total_nonce_len_def)

lemma validate_worker_name_ok:
  "validate_worker_name name = Inr () \<longleftrightarrow>
     1 \<le> length name \<and> length name \<le> 64 \<and>
     (\<forall>b \<in> set (as_bytes name). is_ascii_alphanumeric b \<or> b = 46 \<or> b = 95 \<or> b = 45)"
  by (auto simp: validate_worker_name_def MAX_WORKER_NAME_LEN_def Suc_le_eq)

lemma worker_name_byte_ascii:
  "is_ascii_alphanumeric b \<or> b = 46 \<or> b = 95 \<or> b = 45 \<Longrightarrow> unat b < 128"
  by (auto simp: is_ascii_alphanumeric_def in_range_def)

lemma validate_worker_name_utf8: "validate_worker_name name = Inr () \<Longrightarrow> utf8_valid name"
  by (rule utf8_valid_ascii) (auto simp: validate_worker_name_ok as_bytes_def intro: worker_name_byte_ascii)

end
