(* ===== verification/Mining_Codec.thy ===== *)
theory Mining_Codec
  imports Mining_Messages
begin

text \<open>
  The binary codec of \<open>zcash-mining-protocol/src/codec.rs\<close>: the six byte frame header with its
  24 bit length, and an encoder and a decoder for each of the five messages.  The decoders share
  the opening of a frame, which the source repeats in each of them: header, message type, and
  the exact length of the data.

  The interface \<open>message_codec\<close> states what the two traits of the source promise together, and
  every message is an instance of it.
\<close>

section \<open>Frames\<close>

definition MAX_FRAME_PAYLOAD :: u32 where
  "MAX_FRAME_PAYLOAD = 1048576"

record MessageFrame =
  extension_type :: u16
  msg_type :: u8
  frame_length :: u32

definition HEADER_SIZE :: nat where
  "HEADER_SIZE = 6"

definition MessageFrame_encode :: "MessageFrame \<Rightarrow> bytes" where
  "MessageFrame_encode f =
     u16_to_le_bytes (extension_type f) @ [msg_type f] @ take 3 (u32_to_le_bytes (frame_length f))"

definition MessageFrame_decode :: "bytes \<Rightarrow> ProtocolError + MessageFrame" where
  "MessageFrame_decode data =
     (if length data < HEADER_SIZE then Inl (MessageTooShort HEADER_SIZE (length data))
      else let ext = u16_from_le_bytes (take 2 data);
               ty = data ! 2;
               len = u32_from_le_bytes (take 3 (drop 3 data) @ [0]) in
        if MAX_FRAME_PAYLOAD < len then
          Inl (EncodingError (''frame payload '' @ show_nat (unat len) @ '' exceeds maximum of '' @
            show_nat (unat MAX_FRAME_PAYLOAD) @ '' bytes''))
        else Inr \<lparr>extension_type = ext, msg_type = ty, frame_length = len\<rparr>)"

text \<open>The framing that every encoder ends with.\<close>

definition frame_message :: "u8 \<Rightarrow> bytes \<Rightarrow> bytes" where
  "frame_message ty payload =
     MessageFrame_encode \<lparr>extension_type = 0, msg_type = ty, frame_length = of_nat (length payload)\<rparr> @ payload"

text \<open>The checks that every decoder begins with; the result is the payload.\<close>

definition open_frame :: "u8 \<Rightarrow> bytes \<Rightarrow> ProtocolError + bytes" where
  "open_frame ty data =
     bindR (MessageFrame_decode data) (\<lambda>frame.
     if msg_type frame \<noteq> ty then Inl (InvalidMessageType (msg_type frame)) else
     let total_len = HEADER_SIZE + unat (frame_length frame) in
     if length data < total_len then Inl (MessageTooShort total_len (length data)) else
     if total_len < length data then Inl (EncodingError ''trailing bytes in message'') else
     Inr (take (unat (frame_length frame)) (drop HEADER_SIZE data)))"

text \<open>A failed read of the cursor, as \<open>map_err(|e| EncodingError(e.to_string()))\<close> reports it.\<close>

definition rd :: "('a \<times> bytes) option \<Rightarrow> ProtocolError + ('a \<times> bytes)" where
  "rd r = ok_or (EncodingError ''failed to fill whole buffer'') r"

section \<open>NewEquihashJob\<close>

definition bool_byte :: "bool \<Rightarrow> u8" where
  "bool_byte b = (if b then 1 else 0)"

definition encode_new_equihash_job :: "NewEquihashJob \<Rightarrow> ProtocolError + bytes" where
  "encode_new_equihash_job job =
     (let payload =
        u32_to_le_bytes (nj_channel_id job) @
        u32_to_le_bytes (nj_job_id job) @
        [bool_byte (nj_future_job job)] @
        u32_to_le_bytes (nj_version job) @
        nj_prev_hash job @
        nj_merkle_root job @
        nj_block_commitments job @
        [of_nat (length (nj_nonce_1 job))] @
        nj_nonce_1 job @
        [nj_nonce_2_len job] @
        u32_to_le_bytes (nj_time job) @
        u32_to_le_bytes (nj_bits job) @
        nj_target job @
        [bool_byte (nj_clean_jobs job)]
      in Inr (frame_message NEW_EQUIHASH_JOB payload))"

definition decode_new_equihash_job :: "bytes \<Rightarrow> ProtocolError + NewEquihashJob" where
  "decode_new_equihash_job data =
     bindR (open_frame NEW_EQUIHASH_JOB data) (\<lambda>cursor.
     bindR (rd (read_u32 cursor)) (\<lambda>(channel_id, cursor).
     bindR (rd (read_u32 cursor)) (\<lambda>(job_id, cursor).
     bindR (rd (read_u8 cursor)) (\<lambda>(future_job, cursor).
     bindR (rd (read_u32 cursor)) (\<lambda>(version, cursor).
     bindR (rd (read_exact 32 cursor)) (\<lambda>(prev_hash, cursor).
     bindR (rd (read_exact 32 cursor)) (\<lambda>(merkle_root, cursor).
     bindR (rd (read_exact 32 cursor)) (\<lambda>(block_commitments, cursor).
     bindR (rd (read_u8 cursor)) (\<lambda>(nonce_1_len, cursor).
     if 32 < unat nonce_1_len then
       Inl (EncodingError (''nonce_1_len '' @ show_nat (unat nonce_1_len) @ '' exceeds maximum of 32'')) else
     bindR (rd (read_exact (unat nonce_1_len) cursor)) (\<lambda>(nonce_1, cursor).
     bindR (rd (read_u8 cursor)) (\<lambda>(nonce_2_len, cursor).
     if 32 < unat nonce_2_len then
       Inl (EncodingError (''nonce_2_len '' @ show_nat (unat nonce_2_len) @ '' exceeds maximum of 32'')) else
     if unat nonce_1_len + unat nonce_2_len \<noteq> 32 then
       Inl (EncodingError (''nonce_1_len ('' @ show_nat (unat nonce_1_len) @ '') + nonce_2_len ('' @
         show_nat (unat nonce_2_len) @ '') must equal 32'')) else
     bindR (rd (read_u32 cursor)) (\<lambda>(time, cursor).
     bindR (rd (read_u32 cursor)) (\<lambda>(bits, cursor).
     bindR (rd (read_exact 32 cursor)) (\<lambda>(target, cursor).
     bindR (rd (read_u8 cursor)) (\<lambda>(clean_jobs, cursor).
     Inr \<lparr>nj_channel_id = channel_id, nj_job_id = job_id, nj_future_job = (future_job \<noteq> 0),
       nj_version = version, nj_prev_hash = prev_hash, nj_merkle_root = merkle_root,
       nj_block_commitments = block_commitments, nj_nonce_1 = nonce_1,
       nj_nonce_2_len = nonce_2_len, nj_time = time, nj_bits = bits, nj_target = target,
       nj_clean_jobs = (clean_jobs \<noteq> 0)\<rparr>)))))))))))))))"

section \<open>SubmitEquihashShare\<close>

definition encode_submit_share :: "SubmitEquihashShare \<Rightarrow> ProtocolError + bytes" where
  "encode_submit_share share =
     (let payload =
        u32_to_le_bytes (ss_channel_id share) @
        u32_to_le_bytes (ss_sequence_number share) @
        u32_to_le_bytes (ss_job_id share) @
        [of_nat (length (ss_nonce_2 share))] @
        ss_nonce_2 share @
        u32_to_le_bytes (ss_time share) @
        ss_solution share
      in Inr (frame_message SUBMIT_EQUIHASH_SHARE payload))"

definition decode_submit_share :: "bytes \<Rightarrow> ProtocolError + SubmitEquihashShare" where
  "decode_submit_share data =
     bindR (open_frame SUBMIT_EQUIHASH_SHARE data) (\<lambda>cursor.
     bindR (rd (read_u32 cursor)) (\<lambda>(channel_id, cursor).
     bindR (rd (read_u32 cursor)) (\<lambda>(sequence_number, cursor).
     bindR (rd (read_u32 cursor)) (\<lambda>(job_id, cursor).
     bindR (rd (read_u8 cursor)) (\<lambda>(nonce_2_len, cursor).
     if 32 < unat nonce_2_len then
       Inl (EncodingError (''nonce_2_len '' @ show_nat (unat nonce_2_len) @ '' exceeds maximum of 32'')) else
     bindR (rd (read_exact (unat nonce_2_len) cursor)) (\<lambda>(nonce_2, cursor).
     bindR (rd (read_u32 cursor)) (\<lambda>(time, cursor).
     bindR (rd (read_exact 1344 cursor)) (\<lambda>(solution, cursor).
     Inr \<lparr>ss_channel_id = channel_id, ss_sequence_number = sequence_number, ss_job_id = job_id,
       ss_nonce_2 = nonce_2, ss_time = time, ss_solution = solution\<rparr>))))))))"

section \<open>SetWorkerIdentity\<close>

definition encode_set_worker_identity :: "SetWorkerIdentity \<Rightarrow> ProtocolError + bytes" where
  "encode_set_worker_identity msg =
     bindR (validate_worker_name (worker_name msg)) (\<lambda>_.
     let payload = [of_nat (length (worker_name msg))] @ as_bytes (worker_name msg)
     in Inr (frame_message SET_WORKER_IDENTITY payload))"

definition decode_set_worker_identity :: "bytes \<Rightarrow> ProtocolError + SetWorkerIdentity" where
  "decode_set_worker_identity data =
     bindR (open_frame SET_WORKER_IDENTITY data) (\<lambda>payload.
     bindR (ok_or (MessageTooShort 1 0) (read_u8 payload)) (\<lambda>(name_len, cursor).
     bindR (ok_or (MessageTooShort (unat name_len) (length payload - 1))
       (read_exact (unat name_len) cursor)) (\<lambda>(name_bytes, cursor).
     if cursor \<noteq> [] then Inl (EncodingError ''trailing bytes in payload'') else
     bindR (map_err (\<lambda>_. EncodingError ''worker name is not UTF-8'') (from_utf8 name_bytes)) (\<lambda>name.
     bindR (validate_worker_name name) (\<lambda>_.
     Inr \<lparr>worker_name = name\<rparr>)))))"

section \<open>SubmitSharesResponse\<close>

definition ACCEPTED :: u8 where "ACCEPTED = 0x00"
definition REJECTED :: u8 where "REJECTED = 0x01"
definition STALE_JOB :: u8 where "STALE_JOB = 0x00"
definition DUPLICATE :: u8 where "DUPLICATE = 0x01"
definition INVALID_SOLUTION :: u8 where "INVALID_SOLUTION = 0x02"
definition LOW_DIFFICULTY :: u8 where "LOW_DIFFICULTY = 0x03"
definition OTHER :: u8 where "OTHER = 0xFF"

fun encode_reject_reason :: "RejectReason \<Rightarrow> bytes" where
  "encode_reject_reason StaleJob = [STALE_JOB]"
| "encode_reject_reason Duplicate = [DUPLICATE]"
| "encode_reject_reason RejectInvalidSolution = [INVALID_SOLUTION]"
| "encode_reject_reason LowDifficulty = [LOW_DIFFICULTY]"
| "encode_reject_reason (OtherReason msg) =
     (let msg_bytes = as_bytes msg; len = min (length msg_bytes) 255
      in [OTHER, of_nat len] @ take len msg_bytes)"

definition encode_submit_shares_response :: "SubmitSharesResponse \<Rightarrow> ProtocolError + bytes" where
  "encode_submit_shares_response resp =
     (let payload =
        u32_to_le_bytes (sr_channel_id resp) @
        u32_to_le_bytes (sr_sequence_number resp) @
        (case sr_result resp of
           Accepted \<Rightarrow> [ACCEPTED]
         | Rejected reason \<Rightarrow> [REJECTED] @ encode_reject_reason reason)
      in Inr (frame_message SUBMIT_SHARES_RESPONSE payload))"

definition decode_reject_reason :: "bytes \<Rightarrow> ProtocolError + RejectReason" where
  "decode_reject_reason cursor =
     bindR (rd (read_u8 cursor)) (\<lambda>(reason_code, cursor).
     if reason_code = STALE_JOB then Inr StaleJob
     else if reason_code = DUPLICATE then Inr Duplicate
     else if reason_code = INVALID_SOLUTION then Inr RejectInvalidSolution
     else if reason_code = LOW_DIFFICULTY then Inr LowDifficulty
     else if reason_code = OTHER then
       bindR (rd (read_u8 cursor)) (\<lambda>(msg_len, cursor).
       bindR (rd (read_exact (unat msg_len) cursor)) (\<lambda>(msg_bytes, cursor).
       bindR (map_err (\<lambda>e. EncodingError (''invalid UTF-8 in reject reason: '' @ utf8_error_display e))
         (from_utf8 msg_bytes)) (\<lambda>msg.
       Inr (OtherReason msg))))
     else Inl (EncodingError (''unknown reject reason code: '' @ show_nat (unat reason_code))))"

definition decode_submit_shares_response :: "bytes \<Rightarrow> ProtocolError + SubmitSharesResponse" where
  "decode_submit_shares_response data =
     bindR (open_frame SUBMIT_SHARES_RESPONSE data) (\<lambda>cursor.
     bindR (rd (read_u32 cursor)) (\<lambda>(channel_id, cursor).
     bindR (rd (read_u32 cursor)) (\<lambda>(sequence_number, cursor).
     bindR (rd (read_u8 cursor)) (\<lambda>(result_code, cursor).
     bindR (if result_code = ACCEPTED then Inr Accepted
            else if result_code = REJECTED then
              bindR (decode_reject_reason cursor) (\<lambda>reason. Inr (Rejected reason))
            else Inl (EncodingError (''unknown share result code: '' @ show_nat (unat result_code)))) (\<lambda>result.
     Inr \<lparr>sr_channel_id = channel_id, sr_sequence_number = sequence_number, sr_result = result\<rparr>)))))"

section \<open>SetTarget\<close>

definition encode_set_target :: "SetTarget \<Rightarrow> ProtocolError + bytes" where
  "encode_set_target msg =
     (let payload = u32_to_le_bytes (st_channel_id msg) @ st_target msg
      in Inr (frame_message SET_TARGET payload))"

definition decode_set_target :: "bytes \<Rightarrow> ProtocolError + SetTarget" where
  "decode_set_target data =
     bindR (open_frame SET_TARGET data) (\<lambda>cursor.
     bindR (rd (read_u32 cursor)) (\<lambda>(channel_id, cursor).
     bindR (rd (read_exact 32 cursor)) (\<lambda>(target, cursor).
     Inr \<lparr>st_channel_id = channel_id, st_target = target\<rparr>)))"

section \<open>Lemmas on frames\<close>

lemma rd_Some [simp]: "rd (Some x) = Inr x"
  by (simp add: rd_def)

lemma rd_None [simp]: "rd None = Inl (EncodingError ''failed to fill whole buffer'')"
  by (simp add: rd_def)

lemma rd_eq_Inr: "rd r = Inr x \<longleftrightarrow> r = Some x"
  by (simp add: rd_def ok_or_eq_Inr)

lemma take_3_le: "n < 2 ^ 24 \<Longrightarrow> take 3 (u32_to_le_bytes (of_nat n)) @ [0] = u32_to_le_bytes (of_nat n)"
  by (simp add: u32_to_le_bytes_def unat_of_nat nat_to_le_numeral div_mult2_eq [symmetric])

lemma MessageFrame_decode_encode:
  assumes "unat (frame_length f) \<le> 1048576"
  shows "MessageFrame_decode (MessageFrame_encode f @ rest) = Inr f"
proof -
  obtain e ty len where f: "f = \<lparr>extension_type = e, msg_type = ty, frame_length = len\<rparr>"
    by (cases f) simp
  have len: "take 3 (u32_to_le_bytes len) @ [0] = u32_to_le_bytes len"
    using take_3_le [of "unat len"] assms f by simp
  have "\<not> MAX_FRAME_PAYLOAD < len"
    using assms f by (simp add: MAX_FRAME_PAYLOAD_def word_less_nat_alt)
  then show ?thesis
    using len by (simp add: MessageFrame_decode_def MessageFrame_encode_def HEADER_SIZE_def f Let_def nth_append)
qed

lemma length_frame_message [simp]: "length (frame_message ty payload) = 6 + length payload"
  by (simp add: frame_message_def MessageFrame_encode_def)

lemma open_frame_message:
  assumes "length payload \<le> 1048576"
  shows "open_frame ty (frame_message ty payload) = Inr payload"
proof -
  have len: "unat (of_nat (length payload) :: u32) = length payload"
    using assms by (simp add: unat_of_nat)
  have h: "length (MessageFrame_encode f) = 6" for f
    by (simp add: MessageFrame_encode_def)
  show ?thesis
    unfolding open_frame_def frame_message_def
    using assms len h
    by (subst MessageFrame_decode_encode) (simp_all add: HEADER_SIZE_def Let_def)
qed

text \<open>What a decoder knows of data it accepts.\<close>

lemma open_frame_InrD:
  assumes "open_frame ty data = Inr payload"
  shows "\<exists>e l. data = u16_to_le_bytes e @ [ty] @ l @ payload \<and> length l = 3 \<and> length payload \<le> 1048576 \<and>
    u32_from_le_bytes (l @ [0]) = of_nat (length payload)"
proof -
  from assms obtain frame where
    dec: "MessageFrame_decode data = Inr frame" and ty: "msg_type frame = ty" and
    tot: "length data = HEADER_SIZE + unat (frame_length frame)" and
    pl: "payload = take (unat (frame_length frame)) (drop HEADER_SIZE data)"
    by (auto simp: open_frame_def bindR_eq_Inr Let_def split: if_splits)
  define l where "l = take 3 (drop 3 data)"
  from dec have big: "6 \<le> length data" and fr: "frame = \<lparr>extension_type = u16_from_le_bytes (take 2 data),
      msg_type = data ! 2, frame_length = u32_from_le_bytes (l @ [0])\<rparr>" and
    lim: "u32_from_le_bytes (l @ [0]) \<le> MAX_FRAME_PAYLOAD"
    by (auto simp: MessageFrame_decode_def Let_def HEADER_SIZE_def l_def not_less split: if_splits)
  have plen: "length payload = unat (frame_length frame)" and pdrop: "payload = drop 6 data"
    using tot pl by (simp_all add: HEADER_SIZE_def)
  have "data = take 2 data @ drop 2 data" by simp
  also have "drop 2 data = data ! 2 # drop 3 data"
    using big Cons_nth_drop_Suc [of 2 data] by simp
  also have "drop 3 data = l @ drop 6 data"
    using append_take_drop_id [of 3 "drop 3 data"] by (simp add: l_def)
  finally have "data = u16_to_le_bytes (u16_from_le_bytes (take 2 data)) @ [ty] @ l @ payload"
    using big ty fr pdrop by (simp add: u16_to_from_le)
  moreover have "length l = 3" using big by (simp add: l_def)
  moreover have "length payload \<le> 1048576"
    using lim plen fr by (simp add: MAX_FRAME_PAYLOAD_def word_le_nat_alt)
  moreover have "u32_from_le_bytes (l @ [0]) = of_nat (length payload)"
    using plen fr by simp
  ultimately show ?thesis by blast
qed

section \<open>The contract of a message codec\<close>

text \<open>
  \<open>Encodable\<close> and \<open>Decodable\<close>: a valid message survives the wire, and whatever a receiver
  decodes is valid.
\<close>

locale message_codec =
  fixes enc :: "'m \<Rightarrow> 'e + bytes"
    and dec :: "bytes \<Rightarrow> 'e + 'm"
    and valid :: "'m \<Rightarrow> bool"
  assumes dec_enc: "valid m \<Longrightarrow> \<exists>bs. enc m = Inr bs \<and> dec bs = Inr m"
    and dec_valid: "dec bs = Inr m \<Longrightarrow> valid m"
begin

lemma enc_inject: "valid m \<Longrightarrow> valid m' \<Longrightarrow> enc m = enc m' \<Longrightarrow> m = m'"
  by (metis dec_enc sum.inject(2))

lemma decodable_iff: "(\<exists>bs. dec bs = Inr m) \<longleftrightarrow> valid m"
  using dec_enc dec_valid by blast

lemma roundtrip_iff: "bindR (enc m) dec = Inr m \<longleftrightarrow> valid m"
  using dec_enc dec_valid by (auto simp: bindR_eq_Inr)

lemma reencode: "dec bs = Inr m \<Longrightarrow> \<exists>bs'. enc m = Inr bs' \<and> dec bs' = Inr m"
  using dec_enc dec_valid by blast

end

section \<open>The messages are instances\<close>

definition share_valid :: "SubmitEquihashShare \<Rightarrow> bool" where
  "share_valid share \<longleftrightarrow> share_wf share \<and> length (ss_nonce_2 share) \<le> 32"

definition reason_valid :: "RejectReason \<Rightarrow> bool" where
  "reason_valid r = (case r of OtherReason msg \<Rightarrow> utf8_valid msg \<and> length msg \<le> 255 | _ \<Rightarrow> True)"

definition response_valid :: "SubmitSharesResponse \<Rightarrow> bool" where
  "response_valid resp = (case sr_result resp of Accepted \<Rightarrow> True | Rejected r \<Rightarrow> reason_valid r)"

lemma bool_byte_eq_0 [simp]: "bool_byte b = 0 \<longleftrightarrow> \<not> b"
  by (simp add: bool_byte_def)

lemma unat_of_nat_u8 [simp]: "n < 256 \<Longrightarrow> unat (of_nat n :: u8) = n"
  by (simp add: unat_byte_of_nat)

lemma u8_le_255: "unat (b :: u8) \<le> 255"
  using unat_u8_less [of b] by linarith

lemma read_exact_all [simp]: "length xs = n \<Longrightarrow> read_exact n xs = Some (xs, [])"
  using read_exact_append [of xs n "[]"] by simp

lemmas framed = open_frame_message bindR_Inr Let_def

lemma decode_encode_job:
  assumes "job_arrays job" "length (nj_nonce_1 job) < 256"
  shows "bindR (encode_new_equihash_job job) decode_new_equihash_job =
    (if 32 < length (nj_nonce_1 job) then
       Inl (EncodingError (''nonce_1_len '' @ show_nat (length (nj_nonce_1 job)) @ '' exceeds maximum of 32''))
     else if 32 < unat (nj_nonce_2_len job) then
       Inl (EncodingError (''nonce_2_len '' @ show_nat (unat (nj_nonce_2_len job)) @ '' exceeds maximum of 32''))
     else if total_nonce_len job \<noteq> 32 then
       Inl (EncodingError (''nonce_1_len ('' @ show_nat (length (nj_nonce_1 job)) @ '') + nonce_2_len ('' @
         show_nat (unat (nj_nonce_2_len job)) @ '') must equal 32''))
     else Inr job)"
  using assms
  by (simp add: encode_new_equihash_job_def decode_new_equihash_job_def framed job_arrays_def
      total_nonce_len_def)

lemma decode_job_valid: "decode_new_equihash_job data = Inr job \<Longrightarrow> job_wf job"
  by (auto simp: decode_new_equihash_job_def bindR_eq_Inr rd_eq_Inr job_wf_def job_arrays_def
      validate_nonce_len_def total_nonce_len_def split: if_splits dest!: read_exact_SomeD)

lemma decode_encode_share:
  assumes "share_wf share" "length (ss_nonce_2 share) < 256"
  shows "bindR (encode_submit_share share) decode_submit_share =
    (if 32 < length (ss_nonce_2 share) then
       Inl (EncodingError (''nonce_2_len '' @ show_nat (length (ss_nonce_2 share)) @ '' exceeds maximum of 32''))
     else Inr share)"
  using assms
  by (simp add: encode_submit_share_def decode_submit_share_def framed share_wf_def SOLUTION_SIZE_def)

lemma decode_share_valid: "decode_submit_share data = Inr share \<Longrightarrow> share_valid share"
  by (auto simp: decode_submit_share_def bindR_eq_Inr rd_eq_Inr share_valid_def share_wf_def
      SOLUTION_SIZE_def split: if_splits dest!: read_exact_SomeD)

lemmas reason_codes =
  ACCEPTED_def REJECTED_def STALE_JOB_def DUPLICATE_def INVALID_SOLUTION_def LOW_DIFFICULTY_def OTHER_def

lemma decode_encode_reason:
  "reason_valid r \<Longrightarrow> decode_reject_reason (encode_reject_reason r) = Inr r"
  by (cases r) (simp_all add: decode_reject_reason_def reason_codes reason_valid_def Let_def)

lemma length_encode_reason: "length (encode_reject_reason r) \<le> 257"
  by (cases r) (simp_all add: Let_def)

lemma decode_encode_response_eq:
  "bindR (encode_submit_shares_response resp) decode_submit_shares_response =
     (case sr_result resp of
        Accepted \<Rightarrow> Inr resp
      | Rejected r \<Rightarrow> bindR (decode_reject_reason (encode_reject_reason r))
          (\<lambda>r'. Inr (resp\<lparr>sr_result := Rejected r'\<rparr>)))"
proof (cases "sr_result resp")
  case Accepted
  then show ?thesis
    by (simp add: encode_submit_shares_response_def decode_submit_shares_response_def framed reason_codes)
next
  case (Rejected r)
  have "length (encode_reject_reason r) \<le> 1048567"
    using length_encode_reason [of r] by linarith
  with Rejected show ?thesis
    by (cases "decode_reject_reason (encode_reject_reason r)")
      (simp_all add: encode_submit_shares_response_def decode_submit_shares_response_def framed reason_codes)
qed

lemma decode_encode_response:
  "response_valid resp \<Longrightarrow>
    bindR (encode_submit_shares_response resp) decode_submit_shares_response = Inr resp"
  by (auto simp: decode_encode_response_eq response_valid_def decode_encode_reason split: ShareResult.splits)

lemma decode_reason_valid: "decode_reject_reason bs = Inr r \<Longrightarrow> reason_valid r"
  by (auto simp: decode_reject_reason_def bindR_eq_Inr rd_eq_Inr map_err_eq_Inr reason_valid_def
      u8_le_255 split: if_splits dest!: read_exact_SomeD from_utf8_InrD)

lemma decode_response_valid: "decode_submit_shares_response data = Inr resp \<Longrightarrow> response_valid resp"
  by (auto simp: decode_submit_shares_response_def bindR_eq_Inr rd_eq_Inr response_valid_def
      decode_reason_valid split: if_splits)

lemma decode_encode_target:
  "set_target_wf msg \<Longrightarrow> bindR (encode_set_target msg) decode_set_target = Inr msg"
  by (simp add: encode_set_target_def decode_set_target_def framed set_target_wf_def)

lemma decode_target_valid: "decode_set_target data = Inr msg \<Longrightarrow> set_target_wf msg"
  by (auto simp: decode_set_target_def bindR_eq_Inr rd_eq_Inr set_target_wf_def dest!: read_exact_SomeD)

lemma encode_identity:
  "encode_set_worker_identity msg =
     bindR (validate_worker_name (worker_name msg)) (\<lambda>_. Inr (frame_message SET_WORKER_IDENTITY
       (of_nat (length (worker_name msg)) # as_bytes (worker_name msg))))"
  by (simp add: encode_set_worker_identity_def)

lemma decode_encode_identity:
  assumes "validate_worker_name (worker_name msg) = Inr ()"
  shows "bindR (encode_set_worker_identity msg) decode_set_worker_identity = Inr msg"
proof -
  have "length (worker_name msg) \<le> 64" using assms by (simp add: validate_worker_name_ok)
  then show ?thesis
    using assms validate_worker_name_utf8 [OF assms]
    by (simp add: encode_identity decode_set_worker_identity_def framed)
qed

lemma decode_identity_valid:
  "decode_set_worker_identity data = Inr msg \<Longrightarrow> validate_worker_name (worker_name msg) = Inr ()"
  by (auto simp: decode_set_worker_identity_def bindR_eq_Inr split: if_splits)

lemma encoded_InrI: "bindR (enc m) dec = Inr m \<Longrightarrow> \<exists>bs. enc m = Inr bs \<and> dec bs = Inr m"
  by (simp add: bindR_eq_Inr)

interpretation job_codec: message_codec encode_new_equihash_job decode_new_equihash_job job_wf
proof
  fix job assume "job_wf job"
  then have "job_arrays job" "length (nj_nonce_1 job) \<le> 32" "unat (nj_nonce_2_len job) \<le> 32"
    "total_nonce_len job = 32"
    by (auto simp: job_wf_def validate_nonce_len_def total_nonce_len_def)
  then show "\<exists>bs. encode_new_equihash_job job = Inr bs \<and> decode_new_equihash_job bs = Inr job"
    by (intro encoded_InrI) (subst decode_encode_job, simp_all)
qed (rule decode_job_valid)

interpretation share_codec: message_codec encode_submit_share decode_submit_share share_valid
proof
  fix share assume "share_valid share"
  then show "\<exists>bs. encode_submit_share share = Inr bs \<and> decode_submit_share bs = Inr share"
    by (intro encoded_InrI) (subst decode_encode_share, simp_all add: share_valid_def)
qed (rule decode_share_valid)

interpretation response_codec:
  message_codec encode_submit_shares_response decode_submit_shares_response response_valid
  by unfold_locales (auto intro: encoded_InrI decode_encode_response decode_response_valid)

interpretation target_codec: message_codec encode_set_target decode_set_target set_target_wf
  by unfold_locales (auto intro: encoded_InrI decode_encode_target decode_target_valid)

interpretation identity_codec:
  message_codec encode_set_worker_identity decode_set_worker_identity
    "\<lambda>msg. validate_worker_name (worker_name msg) = Inr ()"
  by unfold_locales (auto intro: encoded_InrI decode_encode_identity decode_identity_valid)

section \<open>Properties\<close>

text \<open>A job used in the witnesses: a four byte prefix and 28 bytes for the miner.\<close>

definition sample_job :: NewEquihashJob where
  "sample_job = \<lparr>nj_channel_id = 1, nj_job_id = 7, nj_future_job = False, nj_version = 5,
     nj_prev_hash = replicate 32 1, nj_merkle_root = replicate 32 2,
     nj_block_commitments = replicate 32 3, nj_nonce_1 = [1, 2, 3, 4], nj_nonce_2_len = 28,
     nj_time = 1700000000, nj_bits = 520159231, nj_target = replicate 32 255, nj_clean_jobs = True\<rparr>"

definition sample_share :: SubmitEquihashShare where
  "sample_share = \<lparr>ss_channel_id = 1, ss_sequence_number = 9, ss_job_id = 7,
     ss_nonce_2 = replicate 28 5, ss_time = 1700000001, ss_solution = replicate 1344 6\<rparr>"

lemma sample_job_wf: "job_wf sample_job"
  by (simp add: sample_job_def job_wf_def job_arrays_def validate_nonce_len_def total_nonce_len_def)

lemma sample_share_valid: "share_valid sample_share"
  by (simp add: sample_share_def share_valid_def share_wf_def SOLUTION_SIZE_def)

text \<open>
  C32.  A \<open>NewEquihashJob\<close> whose prefix has a length that fits its length byte survives encoding
  and decoding unchanged exactly when its two nonce lengths add up to 32; otherwise the decoder
  refuses what the encoder produced.
\<close>

theorem new_job_roundtrip_iff:
  assumes "job_arrays job" "length (nj_nonce_1 job) < 256"
  shows "bindR (encode_new_equihash_job job) decode_new_equihash_job = Inr job \<longleftrightarrow> validate_nonce_len job"
  using assms by (auto simp: decode_encode_job validate_nonce_len_def total_nonce_len_def)

theorem new_job_roundtrip_iff_witness:
  "bindR (encode_new_equihash_job sample_job) decode_new_equihash_job = Inr sample_job"
  using new_job_roundtrip_iff [of sample_job] sample_job_wf
  by (simp add: job_wf_def) (simp add: sample_job_def)

text \<open>
  A \<open>SubmitEquihashShare\<close> survives encoding and decoding unchanged exactly when its
  miner nonce has at most 32 bytes, and a longer one is refused with the length in the error.
\<close>

theorem share_roundtrip:
  assumes "share_wf share" "length (ss_nonce_2 share) < 256"
  shows "bindR (encode_submit_share share) decode_submit_share =
    (if length (ss_nonce_2 share) \<le> 32 then Inr share
     else Inl (EncodingError (''nonce_2_len '' @ show_nat (length (ss_nonce_2 share)) @ '' exceeds maximum of 32'')))"
  using assms by (simp add: decode_encode_share)

theorem share_roundtrip_witness:
  "bindR (encode_submit_share sample_share) decode_submit_share = Inr sample_share"
  using share_roundtrip [of sample_share] sample_share_valid
  by (simp add: share_valid_def)

end
