(* ===== verification/F64.thy ===== *)
theory F64
  imports Prelude Complex_Main "HOL-Library.Log_Nat" "HOL-Library.Product_Lexorder"
begin

text \<open>
  The \<open>f64\<close> type of Rust: IEEE 754 binary64 with round to nearest, ties to even.  A finite
  number other than negative zero is the rational it denotes; the payload of a NaN is not
  observable in the sources and is dropped.  Every arithmetic operation computes the exact
  rational result and rounds it once.  The lemmas give the order, that rounding is monotone and
  leaves representable numbers alone, and the bounds of clamping that the difficulty code uses.
\<close>

datatype f64 = NaN | Infinity bool | NegZero | Finite rat

section \<open>Order\<close>

fun is_finite :: "f64 \<Rightarrow> bool" where
  "is_finite NaN = False"
| "is_finite (Infinity s) = False"
| "is_finite NegZero = True"
| "is_finite (Finite q) = True"

fun f64_val :: "f64 \<Rightarrow> rat" where
  "f64_val (Finite q) = q"
| "f64_val x = 0"

fun f64_key :: "f64 \<Rightarrow> int \<times> rat" where
  "f64_key (Infinity s) = (if s then - 1 else 1, 0)"
| "f64_key x = (0, f64_val x)"

definition f64_lt :: "f64 \<Rightarrow> f64 \<Rightarrow> bool" where
  "f64_lt x y \<longleftrightarrow> x \<noteq> NaN \<and> y \<noteq> NaN \<and> f64_key x < f64_key y"

definition f64_le :: "f64 \<Rightarrow> f64 \<Rightarrow> bool" where
  "f64_le x y \<longleftrightarrow> x \<noteq> NaN \<and> y \<noteq> NaN \<and> f64_key x \<le> f64_key y"

definition f64_eq :: "f64 \<Rightarrow> f64 \<Rightarrow> bool" where
  "f64_eq x y \<longleftrightarrow> x \<noteq> NaN \<and> y \<noteq> NaN \<and> f64_key x = f64_key y"

lemma f64_lt_NaN [simp]: "\<not> f64_lt NaN y" "\<not> f64_lt x NaN"
  by (simp_all add: f64_lt_def)

lemma f64_le_NaN [simp]: "\<not> f64_le NaN y" "\<not> f64_le x NaN"
  by (simp_all add: f64_le_def)

lemma f64_eq_NaN [simp]: "\<not> f64_eq NaN y" "\<not> f64_eq x NaN"
  by (simp_all add: f64_eq_def)

lemma f64_le_refl [simp]: "f64_le x x \<longleftrightarrow> x \<noteq> NaN"
  by (simp add: f64_le_def)

lemma f64_le_Infinity [simp]: "f64_le x (Infinity False) \<longleftrightarrow> x \<noteq> NaN"
  by (cases x) (auto simp: f64_le_def)

lemma f64_le_trans: "f64_le x y \<Longrightarrow> f64_le y z \<Longrightarrow> f64_le x z"
  by (auto simp: f64_le_def)

lemma f64_lt_le_trans: "f64_lt x y \<Longrightarrow> f64_le y z \<Longrightarrow> f64_lt x z"
  by (auto simp: f64_lt_def f64_le_def)

lemma f64_not_le: "x \<noteq> NaN \<Longrightarrow> y \<noteq> NaN \<Longrightarrow> \<not> f64_le x y \<longleftrightarrow> f64_lt y x"
  by (auto simp: f64_lt_def f64_le_def not_le)

lemma f64_not_lt: "x \<noteq> NaN \<Longrightarrow> y \<noteq> NaN \<Longrightarrow> \<not> f64_lt x y \<longleftrightarrow> f64_le y x"
  by (auto simp: f64_lt_def f64_le_def not_less)

lemma f64_le_imp_not_lt: "f64_le x y \<Longrightarrow> \<not> f64_lt y x"
  by (auto simp: f64_le_def f64_lt_def)

lemma f64_lt_imp_not_le: "f64_lt x y \<Longrightarrow> \<not> f64_le y x"
  by (auto simp: f64_le_def f64_lt_def)

lemma f64_lt_imp_le: "f64_lt x y \<Longrightarrow> f64_le x y"
  by (auto simp: f64_lt_def f64_le_def intro: less_imp_le)

lemma f64_lt_finite [simp]: "f64_lt (Finite a) (Finite b) \<longleftrightarrow> a < b"
  by (simp add: f64_lt_def)

lemma f64_le_finite [simp]: "f64_le (Finite a) (Finite b) \<longleftrightarrow> a \<le> b"
  by (simp add: f64_le_def)

lemma f64_eq_finite [simp]: "f64_eq (Finite a) (Finite b) \<longleftrightarrow> a = b"
  by (simp add: f64_eq_def)

lemma f64_finite_between:
  "f64_le lo x \<Longrightarrow> f64_le x hi \<Longrightarrow> is_finite lo \<Longrightarrow> is_finite hi \<Longrightarrow> is_finite x"
  by (cases x; cases lo; cases hi) (auto simp: f64_le_def split: if_splits)

text \<open>\<open>0 < x\<close> and finite, the guard the sources put on difficulties.\<close>

definition f64_pos :: "f64 \<Rightarrow> bool" where
  "f64_pos x \<longleftrightarrow> is_finite x \<and> \<not> f64_le x (Finite 0)"

lemma f64_pos_iff: "f64_pos x \<longleftrightarrow> (\<exists>q. x = Finite q \<and> 0 < q)"
  by (cases x) (auto simp: f64_pos_def f64_le_def)

lemma f64_pos_between: "f64_pos lo \<Longrightarrow> is_finite hi \<Longrightarrow> f64_le lo x \<Longrightarrow> f64_le x hi \<Longrightarrow> f64_pos x"
  by (cases x; cases hi) (auto simp: f64_pos_iff f64_le_def split: if_splits)

section \<open>Rounding\<close>

text \<open>Round a rational to an integer, ties to even.\<close>

definition rne :: "rat \<Rightarrow> int" where
  "rne q = (let f = \<lfloor>q\<rfloor>; d = q - of_int f in
     if d < 1 / 2 then f else if 1 / 2 < d then f + 1 else if even f then f else f + 1)"

text \<open>The binary exponent of a positive rational: \<open>2 ^ ilog2 q \<le> q < 2 ^ (ilog2 q + 1)\<close>.\<close>

definition ilog2 :: "rat \<Rightarrow> int" where
  "ilog2 q = (if 1 \<le> q then bitlen \<lfloor>q\<rfloor> - 1 else - bitlen (\<lceil>1 / q\<rceil> - 1))"

definition ulp_exp :: "rat \<Rightarrow> int" where
  "ulp_exp q = max (- 1074) (ilog2 q - 52)"

definition round_mag :: "rat \<Rightarrow> rat" where
  "round_mag q = of_int (rne (q / 2 powi ulp_exp q)) * 2 powi ulp_exp q"

text \<open>The first power of two above the finite range.\<close>

definition F64_LIMIT :: rat where
  "F64_LIMIT = 2 ^ 1024"

definition f64_round :: "rat \<Rightarrow> f64" where
  "f64_round q =
     (let m = round_mag \<bar>q\<bar> in
      if F64_LIMIT \<le> m then Infinity (q < 0)
      else if m = 0 then (if q < 0 then NegZero else Finite 0)
      else Finite (if q < 0 then - m else m))"

lemma rne_bounds: "q - 1 / 2 \<le> of_int (rne q)" "of_int (rne q) \<le> q + 1 / 2"
proof -
  have "of_int \<lfloor>q\<rfloor> \<le> q" "q < of_int \<lfloor>q\<rfloor> + 1"
    using floor_correct [of q] by simp_all
  then show "q - 1 / 2 \<le> of_int (rne q)" "of_int (rne q) \<le> q + 1 / 2"
    by (auto simp: rne_def Let_def field_simps simp del: of_int_floor_le)
qed

lemma rne_of_int [simp]: "rne (of_int n) = n"
  by (simp add: rne_def)

lemma rne_add_small: "0 \<le> d \<Longrightarrow> d < 1 / 2 \<Longrightarrow> rne (of_int n + d) = n"
proof -
  assume "0 \<le> d" "d < 1 / 2"
  then have "\<lfloor>of_int n + d\<rfloor> = n" by (simp add: floor_eq_iff)
  with \<open>d < 1 / 2\<close> show ?thesis by (simp add: rne_def)
qed

lemma rne_mono: "a \<le> b \<Longrightarrow> rne a \<le> rne b"
proof -
  assume ab: "a \<le> b"
  have fl: "\<lfloor>a\<rfloor> \<le> \<lfloor>b\<rfloor>" using ab by (rule floor_mono)
  have up: "rne a \<le> \<lfloor>a\<rfloor> + 1" and lo: "\<lfloor>b\<rfloor> \<le> rne b"
    by (simp_all add: rne_def Let_def)
  show ?thesis
  proof (cases "\<lfloor>a\<rfloor> = \<lfloor>b\<rfloor>")
    case True
    with ab show ?thesis by (auto simp: rne_def Let_def)
  next
    case False
    with fl up lo show ?thesis by linarith
  qed
qed

lemma rne_nonneg: "0 \<le> q \<Longrightarrow> 0 \<le> rne q"
  using rne_mono [of 0 q] rne_of_int [of 0] by simp

lemma two_powi_pos [simp]: "0 < (2 :: rat) powi k"
  by simp

lemma two_powi_add: "(2 :: rat) powi (a + b) = 2 powi a * 2 powi b"
  by (simp add: power_int_add)

lemma two_powi_mono: "a \<le> b \<Longrightarrow> (2 :: rat) powi a \<le> 2 powi b"
  by (rule power_int_increasing) simp_all

lemma ilog2_bounds:
  assumes "0 < q"
  shows "2 powi ilog2 q \<le> q" "q < 2 powi (ilog2 q + 1)"
proof -
  have "2 powi ilog2 q \<le> q \<and> q < 2 powi (ilog2 q + 1)"
  proof (cases "1 \<le> q")
    case True
    define n where "n = \<lfloor>q\<rfloor>"
    have n1: "1 \<le> n" using True by (simp add: n_def le_floor_iff)
    then have b: "2 ^ nat (bitlen n - 1) \<le> n" "n < 2 ^ nat (bitlen n)"
      using bitlen_bounds [of n] by auto
    have bp: "1 \<le> bitlen n"
      using n1 bitlen_eq_zero_iff [of n] bitlen_nonneg [of n] by linarith
    have "(2 :: rat) powi (bitlen n - 1) = of_int (2 ^ nat (bitlen n - 1))"
      using bp by (simp add: power_int_nonneg_exp)
    also have "\<dots> \<le> of_int n" using b(1) by (simp only: of_int_le_iff)
    also have "\<dots> \<le> q" by (simp add: n_def)
    finally have lo: "(2 :: rat) powi (bitlen n - 1) \<le> q" .
    have "q < of_int n + 1" using floor_correct [of q] by (simp add: n_def)
    also have "\<dots> \<le> of_int (2 ^ nat (bitlen n))"
      using b(2) by (metis of_int_1 of_int_add of_int_le_iff zless_imp_add1_zle)
    also have "\<dots> = (2 :: rat) powi bitlen n"
      using bp by (simp add: power_int_nonneg_exp)
    finally show ?thesis using lo True by (simp add: ilog2_def n_def)
  next
    case False
    define n where "n = \<lceil>1 / q\<rceil> - 1"
    have "1 < 1 / q" using False assms by simp
    then have n1: "1 \<le> n" by (simp add: n_def less_ceiling_iff)
    then have b: "2 ^ nat (bitlen n - 1) \<le> n" "n < 2 ^ nat (bitlen n)"
      using bitlen_bounds [of n] by auto
    have bp: "1 \<le> bitlen n"
      using n1 bitlen_eq_zero_iff [of n] bitlen_nonneg [of n] by linarith
    have "1 / q \<le> of_int (n + 1)" by (simp add: n_def)
    also have "\<dots> \<le> of_int (2 ^ nat (bitlen n))"
      using b(2) by (simp only: of_int_le_iff)
    also have "\<dots> = (2 :: rat) powi bitlen n"
      using bp by (simp add: power_int_nonneg_exp)
    finally have lo: "2 powi (- bitlen n) \<le> q"
      using assms by (simp add: power_int_minus field_simps)
    have "(2 :: rat) powi (bitlen n - 1) = of_int (2 ^ nat (bitlen n - 1))"
      using bp by (simp add: power_int_nonneg_exp)
    also have "\<dots> \<le> of_int n" using b(1) by (simp only: of_int_le_iff)
    also have "\<dots> < 1 / q" unfolding n_def by linarith
    finally have "q < 1 / 2 powi (bitlen n - 1)"
      using assms by (simp add: field_simps)
    also have "\<dots> = 2 powi (1 - bitlen n)"
      by (metis minus_diff_eq power_int_minus_divide)
    finally show ?thesis using lo False by (simp add: ilog2_def n_def)
  qed
  then show "2 powi ilog2 q \<le> q" "q < 2 powi (ilog2 q + 1)" by simp_all
qed

lemma two_powi_less_imp_less: "(2 :: rat) powi a < 2 powi b \<Longrightarrow> a < b"
  by (meson leD not_le_imp_less two_powi_mono)

lemma two_powi_le_imp_le: "(2 :: rat) powi a \<le> 2 powi b \<Longrightarrow> a \<le> b"
  using power_int_strict_increasing [of b a "2 :: rat"] by (cases "a \<le> b") simp_all

lemma ilog2_mono: "0 < a \<Longrightarrow> a \<le> b \<Longrightarrow> ilog2 a \<le> ilog2 b"
  using ilog2_bounds(1) [of a] ilog2_bounds(2) [of b]
    two_powi_less_imp_less [of "ilog2 a" "ilog2 b + 1"] by linarith

lemma ilog2_less: "0 < q \<Longrightarrow> q < 2 powi k \<Longrightarrow> ilog2 q < k"
  using ilog2_bounds(1) [of q] two_powi_less_imp_less [of "ilog2 q" k] by linarith

lemma ulp_exp_mono: "0 < a \<Longrightarrow> a \<le> b \<Longrightarrow> ulp_exp a \<le> ulp_exp b"
  using ilog2_mono [of a b] by (simp add: ulp_exp_def)

lemma round_mag_nonneg: "0 \<le> q \<Longrightarrow> 0 \<le> round_mag q"
  by (simp add: round_mag_def rne_nonneg)

lemma scaled_less: "0 < q \<Longrightarrow> q / 2 powi ulp_exp q < 2 ^ 53"
proof -
  assume q: "0 < q"
  have "q < 2 powi (ilog2 q + 1)" using q by (rule ilog2_bounds)
  also have "\<dots> \<le> 2 powi (53 + ulp_exp q)" by (rule two_powi_mono) (simp add: ulp_exp_def)
  also have "\<dots> = 2 ^ 53 * 2 powi ulp_exp q" by (simp only: two_powi_add) simp
  finally show ?thesis by (simp add: field_simps)
qed

lemma scaled_ge: "0 < q \<Longrightarrow> - 1074 < ulp_exp q \<Longrightarrow> 2 ^ 52 \<le> q / 2 powi ulp_exp q"
proof -
  assume q: "0 < q" and e: "- 1074 < ulp_exp q"
  have "ilog2 q = 52 + ulp_exp q" using e by (simp add: ulp_exp_def split: if_splits)
  with ilog2_bounds(1) [OF q] have "2 powi (52 + ulp_exp q) \<le> q" by simp
  moreover have "(2 :: rat) powi (52 + ulp_exp q) = 2 ^ 52 * 2 powi ulp_exp q"
    by (simp only: two_powi_add) simp
  ultimately show ?thesis by (simp add: field_simps)
qed

lemma rne_scaled_le: "0 < q \<Longrightarrow> rne (q / 2 powi ulp_exp q) \<le> 2 ^ 53"
  using rne_mono [OF less_imp_le [OF scaled_less]] rne_of_int [of "2 ^ 53"] by simp

lemma rne_scaled_ge: "0 < q \<Longrightarrow> - 1074 < ulp_exp q \<Longrightarrow> 2 ^ 52 \<le> rne (q / 2 powi ulp_exp q)"
  using rne_mono [OF scaled_ge] rne_of_int [of "2 ^ 52"] by simp

text \<open>Rounding keeps the order.\<close>

lemma round_mag_mono:
  assumes "0 < a" "a \<le> b"
  shows "round_mag a \<le> round_mag b"
proof (cases "ulp_exp a = ulp_exp b")
  case True
  have "a / 2 powi ulp_exp a \<le> b / 2 powi ulp_exp a"
    using assms by (intro divide_right_mono) simp_all
  then have "rne (a / 2 powi ulp_exp a) \<le> rne (b / 2 powi ulp_exp b)"
    using True rne_mono by simp
  with True show ?thesis by (simp add: round_mag_def mult_right_mono)
next
  case False
  with ulp_exp_mono [OF assms] have less: "ulp_exp a + 1 \<le> ulp_exp b" by simp
  have b: "0 < b" using assms by simp
  have low: "- 1074 < ulp_exp b" using less by (simp add: ulp_exp_def split: if_splits)
  have "of_int (rne (a / 2 powi ulp_exp a)) \<le> (of_int (2 ^ 53) :: rat)"
    using rne_scaled_le [OF assms(1)] by (simp only: of_int_le_iff)
  then have "round_mag a \<le> of_int (2 ^ 53) * 2 powi ulp_exp a"
    unfolding round_mag_def by (rule mult_right_mono) simp
  also have "\<dots> = of_int (2 ^ 52) * 2 powi (ulp_exp a + 1)" by (simp add: two_powi_add)
  also have "\<dots> \<le> of_int (2 ^ 52) * 2 powi ulp_exp b"
    using two_powi_mono [OF less] by (intro mult_left_mono) simp_all
  also have "\<dots> \<le> round_mag b"
  proof -
    have "(of_int (2 ^ 52) :: rat) \<le> of_int (rne (b / 2 powi ulp_exp b))"
      using rne_scaled_ge [OF b low] by (simp only: of_int_le_iff)
    then show ?thesis unfolding round_mag_def by (rule mult_right_mono) simp
  qed
  finally show ?thesis .
qed

text \<open>A number with a mantissa of at most 53 bits is not changed by rounding.\<close>

lemma round_mag_exact_iff: "round_mag q = q \<longleftrightarrow> (\<exists>n. q / 2 powi ulp_exp q = of_int n)"
proof
  assume "round_mag q = q"
  then show "\<exists>n. q / 2 powi ulp_exp q = of_int n"
    by (intro exI [of _ "rne (q / 2 powi ulp_exp q)"]) (simp add: round_mag_def field_simps)
next
  assume "\<exists>n. q / 2 powi ulp_exp q = of_int n"
  then obtain n where "q / 2 powi ulp_exp q = of_int n" by blast
  then show "round_mag q = q" by (simp add: round_mag_def) (simp add: field_simps)
qed

lemma round_mag_exact:
  assumes q: "q = of_int m * 2 powi e" and m: "0 < m" "m \<le> 2 ^ 53" and e: "- 1074 \<le> e"
  shows "round_mag q = q"
proof -
  have "(of_int m :: rat) \<le> of_int (2 ^ 53)"
    using m by (simp only: of_int_le_iff)
  then have "of_int m * 2 powi e \<le> of_int (2 ^ 53) * (2 powi e :: rat)"
    by (rule mult_right_mono) simp
  then have "q \<le> 2 powi (53 + e)" by (simp add: q two_powi_add)
  moreover have qp: "0 < q" using q m by simp
  ultimately have "2 powi ilog2 q \<le> (2 :: rat) powi (53 + e)"
    using ilog2_bounds(1) [of q] by linarith
  then have le: "ilog2 q \<le> 53 + e"
    by (rule two_powi_le_imp_le)
  show ?thesis
  proof (cases "ilog2 q = 53 + e")
    case True
    with ilog2_bounds(1) [OF qp] \<open>q \<le> 2 powi (53 + e)\<close> have "q = 2 powi (53 + e)" by simp
    moreover have "ulp_exp q = e + 1" using True e by (simp add: ulp_exp_def)
    ultimately have "q / 2 powi ulp_exp q = of_int (2 ^ 52)"
      by (simp add: two_powi_add)
    then show ?thesis unfolding round_mag_exact_iff by blast
  next
    case False
    with le e have "ulp_exp q \<le> e" by (simp add: ulp_exp_def)
    then obtain k where k: "e = ulp_exp q + int k" by (metis zle_iff_zadd)
    define u where "u = ulp_exp q"
    have "q = of_int m * 2 powi (u + int k)" using q k unfolding u_def [symmetric] by simp
    then have "q / 2 powi u = of_int (m * 2 ^ k)" by (simp add: two_powi_add)
    then have "q / 2 powi ulp_exp q = of_int (m * 2 ^ k)" by (simp only: u_def)
    then show ?thesis unfolding round_mag_exact_iff by blast
  qed
qed

lemma round_mag_idem:
  assumes "0 < q" "round_mag q \<noteq> 0"
  shows "round_mag (round_mag q) = round_mag q"
proof (rule round_mag_exact)
  show "round_mag q = of_int (rne (q / 2 powi ulp_exp q)) * 2 powi ulp_exp q"
    by (simp add: round_mag_def)
  show "rne (q / 2 powi ulp_exp q) \<le> 2 ^ 53" using assms(1) by (rule rne_scaled_le)
  show "- 1074 \<le> ulp_exp q" by (simp add: ulp_exp_def)
  have "rne (q / 2 powi ulp_exp q) \<noteq> 0" using assms(2) by (simp add: round_mag_def)
  moreover have "0 \<le> rne (q / 2 powi ulp_exp q)" using assms(1) by (intro rne_nonneg) simp
  ultimately show "0 < rne (q / 2 powi ulp_exp q)" by simp
qed

text \<open>Well-formed values: the finite numbers are the representable rationals.\<close>

definition f64_rep :: "rat \<Rightarrow> bool" where
  "f64_rep q \<longleftrightarrow> q = 0 \<or> (round_mag \<bar>q\<bar> = \<bar>q\<bar> \<and> \<bar>q\<bar> < F64_LIMIT)"

fun f64_wf :: "f64 \<Rightarrow> bool" where
  "f64_wf (Finite q) = f64_rep q"
| "f64_wf x = True"

lemma f64_wf_round [simp]: "f64_wf (f64_round q)"
proof (cases "q = 0")
  case True
  then show ?thesis by (simp add: f64_round_def f64_rep_def Let_def round_mag_def rne_def F64_LIMIT_def)
next
  case False
  then show ?thesis
    using round_mag_idem [of "\<bar>q\<bar>"] round_mag_nonneg [of "\<bar>q\<bar>"]
    by (auto simp: f64_round_def f64_rep_def Let_def)
qed

lemma f64_round_rep: "f64_rep q \<Longrightarrow> q \<noteq> 0 \<Longrightarrow> f64_round q = Finite q"
  by (auto simp: f64_rep_def f64_round_def Let_def)

lemma f64_round_not_NaN [simp]: "f64_round q \<noteq> NaN"
  by (simp add: f64_round_def Let_def)

lemma f64_le_round_nonneg: "0 < q \<Longrightarrow> f64_le (Finite 0) (f64_round q)"
  using round_mag_nonneg [of q] by (auto simp: f64_round_def Let_def f64_le_def)

lemma f64_le_round:
  assumes "f64_rep a" "0 \<le> a" "a \<le> q" "0 < q"
  shows "f64_le (Finite a) (f64_round q)"
proof (cases "a = 0")
  case True
  with assms show ?thesis by (simp add: f64_le_round_nonneg)
next
  case False
  with assms have "round_mag a = a" by (simp add: f64_rep_def)
  moreover have "round_mag a \<le> round_mag q" using False assms by (intro round_mag_mono) simp_all
  ultimately have "a \<le> round_mag q" by simp
  with False assms show ?thesis by (auto simp: f64_round_def Let_def f64_le_def)
qed

lemma f64_round_le:
  assumes "f64_rep b" "0 < q" "q \<le> b"
  shows "f64_le (f64_round q) (Finite b)"
proof -
  from assms have "round_mag b = b" "b < F64_LIMIT" by (auto simp: f64_rep_def)
  moreover have "round_mag q \<le> round_mag b" using assms by (intro round_mag_mono) simp_all
  ultimately have "round_mag q \<le> b" "b < F64_LIMIT" by simp_all
  with assms show ?thesis by (auto simp: f64_round_def Let_def f64_le_def)
qed

section \<open>Operations\<close>

fun f64_neg_sign :: "f64 \<Rightarrow> bool" where
  "f64_neg_sign NaN = False"
| "f64_neg_sign (Infinity s) = s"
| "f64_neg_sign NegZero = True"
| "f64_neg_sign (Finite q) = (q < 0)"

definition f64_zero :: "bool \<Rightarrow> f64" where
  "f64_zero s = (if s then NegZero else Finite 0)"

definition f64_is_zero :: "f64 \<Rightarrow> bool" where
  "f64_is_zero x \<longleftrightarrow> is_finite x \<and> f64_val x = 0"

fun f64_neg :: "f64 \<Rightarrow> f64" where
  "f64_neg NaN = NaN"
| "f64_neg (Infinity s) = Infinity (\<not> s)"
| "f64_neg NegZero = Finite 0"
| "f64_neg (Finite q) = (if q = 0 then NegZero else Finite (- q))"

fun f64_abs :: "f64 \<Rightarrow> f64" where
  "f64_abs NaN = NaN"
| "f64_abs (Infinity s) = Infinity False"
| "f64_abs NegZero = Finite 0"
| "f64_abs (Finite q) = Finite \<bar>q\<bar>"

definition f64_add :: "f64 \<Rightarrow> f64 \<Rightarrow> f64" where
  "f64_add x y =
     (case (x, y) of
        (NaN, _) \<Rightarrow> NaN
      | (_, NaN) \<Rightarrow> NaN
      | (Infinity s, Infinity t) \<Rightarrow> if s = t then Infinity s else NaN
      | (Infinity s, _) \<Rightarrow> Infinity s
      | (_, Infinity t) \<Rightarrow> Infinity t
      | _ \<Rightarrow> let s = f64_val x + f64_val y in
          if s = 0 then f64_zero (x = NegZero \<and> y = NegZero) else f64_round s)"

definition f64_sub :: "f64 \<Rightarrow> f64 \<Rightarrow> f64" where
  "f64_sub x y = f64_add x (f64_neg y)"

definition f64_mul :: "f64 \<Rightarrow> f64 \<Rightarrow> f64" where
  "f64_mul x y =
     (let s = (f64_neg_sign x \<noteq> f64_neg_sign y) in
      if x = NaN \<or> y = NaN then NaN
      else if \<not> is_finite x \<or> \<not> is_finite y then
        (if f64_is_zero x \<or> f64_is_zero y then NaN else Infinity s)
      else if f64_is_zero x \<or> f64_is_zero y then f64_zero s
      else f64_round (f64_val x * f64_val y))"

definition f64_div :: "f64 \<Rightarrow> f64 \<Rightarrow> f64" where
  "f64_div x y =
     (let s = (f64_neg_sign x \<noteq> f64_neg_sign y) in
      if x = NaN \<or> y = NaN then NaN
      else if \<not> is_finite x then (if is_finite y then Infinity s else NaN)
      else if \<not> is_finite y then f64_zero s
      else if f64_is_zero y then (if f64_is_zero x then NaN else Infinity s)
      else if f64_is_zero x then f64_zero s
      else f64_round (f64_val x / f64_val y))"

text \<open>Rust's \<open>%\<close>: the exact remainder of the truncated quotient, with the sign of the dividend.\<close>

definition f64_rem :: "f64 \<Rightarrow> f64 \<Rightarrow> f64" where
  "f64_rem x y =
     (if x = NaN \<or> y = NaN \<or> \<not> is_finite x \<or> f64_is_zero y then NaN
      else if \<not> is_finite y then x
      else let a = \<bar>f64_val x\<bar>; b = \<bar>f64_val y\<bar>; r = a - of_int \<lfloor>a / b\<rfloor> * b in
        if r = 0 then f64_zero (f64_neg_sign x)
        else f64_round (if f64_neg_sign x then - r else r))"

text \<open>\<open>f64::min\<close> and \<open>f64::max\<close> return the other argument when one is a NaN.\<close>

definition f64_min :: "f64 \<Rightarrow> f64 \<Rightarrow> f64" where
  "f64_min x y = (if x = NaN then y else if y = NaN then x else if f64_lt y x then y else x)"

definition f64_max :: "f64 \<Rightarrow> f64 \<Rightarrow> f64" where
  "f64_max x y = (if x = NaN then y else if y = NaN then x else if f64_lt x y then y else x)"

text \<open>\<open>f64::clamp\<close> panics unless \<open>lo <= hi\<close>.\<close>

definition f64_clamp :: "f64 \<Rightarrow> f64 \<Rightarrow> f64 \<Rightarrow> f64 outcome" where
  "f64_clamp x lo hi =
     (if \<not> f64_le lo hi then Panics
      else let y = (if f64_lt x lo then lo else x) in
        Returns (if f64_lt hi y then hi else y))"

text \<open>\<open>as f64\<close> on an unsigned integer, and the value of a literal.\<close>

definition f64_of_nat :: "nat \<Rightarrow> f64" where
  "f64_of_nat n = (if n = 0 then Finite 0 else f64_round (of_nat n))"

definition f64_lit :: "rat \<Rightarrow> f64" where
  "f64_lit q = (if q = 0 then Finite 0 else f64_round q)"

text \<open>\<open>as u8\<close> and \<open>as u32\<close>: truncation that saturates, zero for a NaN.\<close>

definition f64_to_uint :: "nat \<Rightarrow> f64 \<Rightarrow> nat" where
  "f64_to_uint hi x =
     (case x of NaN \<Rightarrow> 0 | Infinity s \<Rightarrow> if s then 0 else hi | NegZero \<Rightarrow> 0
      | Finite q \<Rightarrow> min hi (nat \<lfloor>q\<rfloor>))"

text \<open>\<open>Duration::as_secs_f64\<close>.\<close>

definition as_secs_f64 :: "duration \<Rightarrow> f64" where
  "as_secs_f64 d =
     f64_add (f64_of_nat (d div NANOS_PER_SEC))
       (f64_div (f64_of_nat (d mod NANOS_PER_SEC)) (f64_of_nat NANOS_PER_SEC))"

section \<open>Facts about the operations\<close>

lemma f64_clamp_bounds:
  assumes "f64_le lo hi" "x \<noteq> NaN"
  shows "\<exists>y. f64_clamp x lo hi = Returns y \<and> f64_le lo y \<and> f64_le y hi"
proof -
  have nan: "lo \<noteq> NaN" "hi \<noteq> NaN" using assms(1) by auto
  show ?thesis
  proof (cases "f64_lt x lo")
    case True
    then have "\<not> f64_lt hi lo" using assms(1) nan f64_not_lt [of hi lo] by simp
    with True assms nan show ?thesis by (simp add: f64_clamp_def Let_def)
  next
    case False
    then have "f64_le lo x" using f64_not_lt [of x lo] assms(2) nan by simp
    with False assms nan f64_not_lt [of hi x] show ?thesis
      by (auto simp: f64_clamp_def Let_def)
  qed
qed

lemma f64_clamp_NaN: "f64_le lo hi \<Longrightarrow> f64_clamp NaN lo hi = Returns NaN"
  by (simp add: f64_clamp_def)

lemma f64_clamp_no_panic: "f64_le lo hi \<Longrightarrow> f64_clamp x lo hi \<noteq> Panics"
  by (simp add: f64_clamp_def Let_def)

lemma f64_add_finite:
  "is_finite x \<Longrightarrow> is_finite y \<Longrightarrow> f64_add x y =
     (let s = f64_val x + f64_val y in
      if s = 0 then f64_zero (x = NegZero \<and> y = NegZero) else f64_round s)"
  by (cases x; cases y) (simp_all add: f64_add_def Let_def)

text \<open>Adding a positive number never lowers a non-negative sum and never makes a NaN.\<close>

lemma f64_add_pos_ge:
  assumes "f64_wf x" "f64_le (Finite 0) x" "f64_pos y"
  shows "f64_le x (f64_add x y)"
proof -
  obtain q where y: "y = Finite q" "0 < q" using assms(3) by (auto simp: f64_pos_iff)
  show ?thesis
  proof (cases x)
    case (Infinity s)
    with y show ?thesis by (simp add: f64_add_def)
  next
    case NegZero
    with y have "f64_add x y = f64_round q" by (simp add: f64_add_finite Let_def)
    moreover have "f64_le x (f64_round q)"
      using f64_le_round_nonneg [OF y(2)] NegZero by (simp add: f64_le_def)
    ultimately show ?thesis by simp
  next
    case (Finite p)
    with assms(1,2) have "f64_rep p" "0 \<le> p" by simp_all
    with Finite y show ?thesis by (simp add: f64_add_finite Let_def f64_le_round)
  qed (use assms(2) in simp)
qed

lemma f64_add_pos_nonneg:
  "f64_wf x \<Longrightarrow> f64_le (Finite 0) x \<Longrightarrow> f64_pos y \<Longrightarrow> f64_le (Finite 0) (f64_add x y)"
  by (meson f64_add_pos_ge f64_le_trans)

lemma f64_wf_zero [simp]: "f64_wf (f64_zero s)"
  by (simp add: f64_zero_def f64_rep_def)

lemma f64_wf_ops [simp]:
  "f64_wf (f64_add x y)" "f64_wf (f64_mul x y)" "f64_wf (f64_div x y)" "f64_wf (f64_of_nat n)"
  "f64_wf (f64_lit q)"
  by (simp_all add: f64_add_def f64_mul_def f64_div_def f64_of_nat_def f64_lit_def Let_def
      f64_rep_def split: f64.split)

section \<open>Exact results\<close>

lemma f64_round_mono: "0 < a \<Longrightarrow> a \<le> b \<Longrightarrow> f64_le (f64_round a) (f64_round b)"
  using round_mag_mono [of a b] round_mag_nonneg [of a]
  by (auto simp: f64_round_def Let_def f64_le_def)

lemma f64_repI:
  assumes "q = of_int m * 2 powi e" "0 \<le> m" "m \<le> 2 ^ 53" "- 1074 \<le> e" "q < F64_LIMIT"
  shows "f64_rep q"
proof (cases "m = 0")
  case True
  with assms(1) show ?thesis by (simp add: f64_rep_def)
next
  case False
  with assms(2) have m: "0 < m" by simp
  then have "0 < q" using assms(1) by simp
  with round_mag_exact [OF assms(1) m assms(3,4)] assms(5) show ?thesis by (simp add: f64_rep_def)
qed

lemma f64_repE:
  assumes "f64_rep q" "0 \<le> q"
  obtains m where "q = of_int m * 2 powi ulp_exp q" "0 \<le> m" "m \<le> 2 ^ 53"
proof (cases "q = 0")
  case True
  then show ?thesis using that [of 0] by simp
next
  case False
  with assms have q: "0 < q" "round_mag q = q" by (simp_all add: f64_rep_def)
  have "rne (q / 2 powi ulp_exp q) \<le> 2 ^ 53" using q(1) by (rule rne_scaled_le)
  moreover have "0 \<le> rne (q / 2 powi ulp_exp q)" using q(1) by (intro rne_nonneg) simp
  moreover have "q = of_int (rne (q / 2 powi ulp_exp q)) * 2 powi ulp_exp q"
    using q(2) by (simp add: round_mag_def)
  ultimately show ?thesis using that by blast
qed

lemma ulp_exp_ge: "- 1074 \<le> ulp_exp q"
  by (simp add: ulp_exp_def)

lemma F64_LIMIT_pow: "k < 1024 \<Longrightarrow> (2 :: rat) ^ k < F64_LIMIT"
  unfolding F64_LIMIT_def by (rule power_strict_increasing) simp_all

lemma F64_LIMIT_le: "q \<le> 2 ^ k \<Longrightarrow> k < 1024 \<Longrightarrow> q < F64_LIMIT"
  using F64_LIMIT_pow [of k] by linarith

lemma f64_rep_pow2: "k < 1024 \<Longrightarrow> f64_rep (2 ^ k)"
  by (rule f64_repI [of _ 1 "int k"]) (simp_all add: F64_LIMIT_pow)

lemma f64_rep_of_int: "0 \<le> n \<Longrightarrow> n \<le> 2 ^ 53 \<Longrightarrow> f64_rep (of_int n)"
proof (rule f64_repI [of _ n 0])
  assume "0 \<le> n" "n \<le> 2 ^ 53"
  then have "(of_int n :: rat) \<le> of_int (2 ^ 53)" by (simp only: of_int_le_iff)
  then show "(of_int n :: rat) < F64_LIMIT" by (intro F64_LIMIT_le [of _ 53]) simp_all
qed simp_all

lemma f64_rep_of_nat: "n \<le> 2 ^ 53 \<Longrightarrow> f64_rep (of_nat n)"
proof -
  assume "n \<le> 2 ^ 53"
  then have "int n \<le> 2 ^ 53" by (metis of_nat_le_iff of_nat_numeral of_nat_power)
  then show ?thesis using f64_rep_of_int [of "int n"] by simp
qed

lemma f64_rep_0 [simp]: "f64_rep 0"
  by (simp add: f64_rep_def)

lemma f64_of_nat_exact: "n \<le> 2 ^ 53 \<Longrightarrow> f64_of_nat n = Finite (of_nat n)"
  using f64_rep_of_nat [of n] by (simp add: f64_of_nat_def f64_round_rep)

lemma f64_sub_exact: "f64_rep (x - y) \<Longrightarrow> f64_sub (Finite x) (Finite y) = Finite (x - y)"
  by (auto simp: f64_sub_def f64_add_finite Let_def f64_zero_def f64_round_rep)

lemma f64_add_exact: "f64_rep (x + y) \<Longrightarrow> f64_add (Finite x) (Finite y) = Finite (x + y)"
  by (auto simp: f64_add_finite Let_def f64_zero_def f64_round_rep)

lemma f64_mul_exact:
  "f64_rep (x * y) \<Longrightarrow> 0 \<le> x \<Longrightarrow> 0 \<le> y \<Longrightarrow> f64_mul (Finite x) (Finite y) = Finite (x * y)"
  by (auto simp: f64_mul_def Let_def f64_zero_def f64_is_zero_def f64_round_rep)

lemma f64_div_exact:
  "f64_rep (x / y) \<Longrightarrow> 0 \<le> x \<Longrightarrow> 0 < y \<Longrightarrow> f64_div (Finite x) (Finite y) = Finite (x / y)"
  by (auto simp: f64_div_def Let_def f64_zero_def f64_is_zero_def f64_round_rep)

lemma f64_rem_exact:
  assumes "f64_rep (x - of_int \<lfloor>x / y\<rfloor> * y)" "0 \<le> x" "0 < y"
  shows "f64_rem (Finite x) (Finite y) = Finite (x - of_int \<lfloor>x / y\<rfloor> * y)"
  using assms by (auto simp: f64_rem_def Let_def f64_zero_def f64_is_zero_def f64_round_rep)

lemma f64_round_pos_cases:
  assumes "0 < q"
  obtains "f64_round q = Infinity False" | p where "f64_round q = Finite p" "0 \<le> p" "f64_rep p"
proof (cases "f64_round q")
  case (Finite p)
  with f64_wf_round [of q] f64_le_round_nonneg [OF assms] that(2) show ?thesis by simp
qed (use assms that(1) in \<open>auto simp: f64_round_def Let_def split: if_splits\<close>)

text \<open>Rounding a positive integer gives an integer, and is exact up to \<open>2 ^ 53\<close>.\<close>

lemma round_mag_integer:
  assumes "1 \<le> q" "\<exists>n. q = of_int n"
  shows "\<exists>n. round_mag q = of_int n"
proof (cases "0 \<le> ulp_exp q")
  case True
  then have "(2 :: rat) powi ulp_exp q = of_int (2 ^ nat (ulp_exp q))"
    by (simp add: power_int_nonneg_exp)
  then show ?thesis unfolding round_mag_def by (metis of_int_mult)
next
  case False
  obtain n where n: "q = of_int n" using assms(2) by blast
  define k where "k = nat (- ulp_exp q)"
  have "ulp_exp q = - int k" using False unfolding k_def by linarith
  then have "(2 :: rat) powi ulp_exp q = 1 / 2 ^ k"
    by (simp only: power_int_minus power_int_of_nat inverse_eq_divide)
  then have "q / 2 powi ulp_exp q = q * 2 ^ k" by (simp only:) simp
  then have "q / 2 powi ulp_exp q = of_int (n * 2 ^ k)" using n by (metis of_int_mult of_int_numeral of_int_power)
  then have "round_mag q = q" unfolding round_mag_exact_iff by blast
  with n show ?thesis by blast
qed

text \<open>Bounds for the value of a literal, by multiples of one 64th.\<close>

lemma f64_rep_64ths: "0 \<le> n \<Longrightarrow> n \<le> 2 ^ 53 \<Longrightarrow> f64_rep (of_int n / 64)"
proof (rule f64_repI [of _ n "- 6"])
  assume "0 \<le> n" "n \<le> 2 ^ 53"
  then have "(of_int n :: rat) \<le> of_int (2 ^ 53)" by (simp only: of_int_le_iff)
  moreover have "(0 :: rat) \<le> of_int n" using \<open>0 \<le> n\<close> by simp
  ultimately have "(of_int n / 64 :: rat) \<le> 2 ^ 53" by simp
  then show "(of_int n / 64 :: rat) < F64_LIMIT" by (rule F64_LIMIT_le) simp
qed (simp_all add: power_int_minus field_simps)

lemma f64_lit_between:
  assumes "0 \<le> m" "n \<le> 2 ^ 53" "of_int m / 64 \<le> q" "q \<le> of_int n / 64" "0 < q"
  shows "f64_le (Finite (of_int m / 64)) (f64_lit q)" "f64_le (f64_lit q) (Finite (of_int n / 64))"
proof -
  have mn: "(of_int m :: rat) \<le> of_int n" using assms by linarith
  then have "m \<le> n" by (simp only: of_int_le_iff)
  then have "f64_rep (of_int m / 64)" "f64_rep (of_int n / 64)"
    using assms(1,2) by (auto intro!: f64_rep_64ths)
  then show "f64_le (Finite (of_int m / 64)) (f64_lit q)" "f64_le (f64_lit q) (Finite (of_int n / 64))"
    using assms by (simp_all add: f64_lit_def f64_le_round f64_round_le)
qed

lemma f64_not_NaN_finite: "is_finite x \<Longrightarrow> x \<noteq> NaN"
  by auto

lemma f64_finite_lit: "0 < q \<Longrightarrow> q \<le> 64 \<Longrightarrow> is_finite (f64_lit q)"
  using f64_lit_between [of 0 4096 q] f64_finite_between by auto

section \<open>Non-negative numbers\<close>

definition f64_nonneg :: "f64 \<Rightarrow> bool" where
  "f64_nonneg x \<longleftrightarrow> f64_le (Finite 0) x"

lemma f64_nonneg_cases:
  "f64_nonneg x \<longleftrightarrow> x = Infinity False \<or> x = NegZero \<or> (\<exists>q. x = Finite q \<and> 0 \<le> q)"
  by (cases x) (auto simp: f64_nonneg_def f64_le_def)

lemma f64_nonneg_not_NaN: "f64_nonneg x \<Longrightarrow> x \<noteq> NaN"
  by (auto simp: f64_nonneg_def)

lemma f64_nonneg_simps [simp]:
  "f64_nonneg NegZero" "f64_nonneg (Infinity False)" "f64_nonneg (Finite q) \<longleftrightarrow> 0 \<le> q"
  "f64_nonneg (f64_zero s)"
  by (simp_all add: f64_nonneg_def f64_le_def f64_zero_def)

lemma f64_nonneg_round: "0 \<le> q \<Longrightarrow> f64_nonneg (f64_round q)"
  using f64_le_round_nonneg [of q] by (cases "q = 0") (auto simp: f64_nonneg_def f64_round_def
      round_mag_def rne_def F64_LIMIT_def)

lemma f64_pos_nonneg: "f64_pos x \<Longrightarrow> f64_nonneg x"
  by (auto simp: f64_pos_iff)

lemma f64_mul_nonneg: "f64_pos x \<Longrightarrow> f64_nonneg y \<Longrightarrow> f64_nonneg (f64_mul x y)"
  by (auto simp: f64_pos_iff f64_nonneg_cases [of y] f64_mul_def Let_def f64_is_zero_def
      intro!: f64_nonneg_round)

lemma f64_mul_nonneg': "f64_nonneg x \<Longrightarrow> f64_pos y \<Longrightarrow> f64_nonneg (f64_mul x y)"
  by (auto simp: f64_pos_iff f64_nonneg_cases [of x] f64_mul_def Let_def f64_is_zero_def
      intro!: f64_nonneg_round)

lemma f64_div_nonneg: "f64_nonneg x \<Longrightarrow> f64_pos y \<Longrightarrow> f64_nonneg (f64_div x y)"
  by (auto simp: f64_pos_iff f64_nonneg_cases [of x] f64_div_def Let_def f64_is_zero_def
      intro!: f64_nonneg_round)

lemma f64_div_nonneg_finite:
  "f64_nonneg (Finite q) \<Longrightarrow> f64_lt (Finite 0) y \<Longrightarrow> f64_nonneg (f64_div (Finite q) y)"
  by (cases y) (auto simp: f64_lt_def f64_div_def Let_def f64_is_zero_def intro!: f64_nonneg_round
      split: if_splits)

lemma f64_add_nonneg: "f64_nonneg x \<Longrightarrow> f64_nonneg y \<Longrightarrow> f64_nonneg (f64_add x y)"
  by (auto simp: f64_nonneg_cases [of x] f64_nonneg_cases [of y] f64_add_def Let_def
      intro!: f64_nonneg_round)

lemma f64_div_self: "f64_pos x \<Longrightarrow> f64_div x x = Finite 1"
  using f64_round_rep [of 1] f64_rep_pow2 [of 0]
  by (auto simp: f64_pos_iff f64_div_def f64_is_zero_def Let_def)

end
