(* ===== verification/Once_Set.thy ===== *)
theory Once_Set
  imports Prelude
begin

text \<open>
  The contract of the duplicate filters: a bounded set that admits each key once as long as it has
  room.  Both the tracker's cross-path filter and the per-job detector of the pool server satisfy
  it; what follows for a sequence of submissions is proved here once.
\<close>

text \<open>Apply an operation to a sequence of arguments and collect the answers.\<close>

fun run_all :: "('s \<Rightarrow> 'a \<Rightarrow> 'b \<times> 's) \<Rightarrow> 's \<Rightarrow> 'a list \<Rightarrow> 'b list \<times> 's" where
  "run_all f s [] = ([], s)"
| "run_all f s (a # as) =
     (let (b, s') = f s a; (bs, s'') = run_all f s' as in (b # bs, s''))"

lemma length_run_all [simp]: "length (fst (run_all f s as)) = length as"
  by (induction as arbitrary: s) (auto simp: split_beta Let_def)

lemma run_all_append:
  "run_all f s (xs @ ys) =
     (fst (run_all f s xs) @ fst (run_all f (snd (run_all f s xs)) ys), snd (run_all f (snd (run_all f s xs)) ys))"
  by (induction xs arbitrary: s) (auto simp: split_beta Let_def)

lemma all_less_Suc_shift: "(\<forall>j < Suc k. P j) \<longleftrightarrow> P 0 \<and> (\<forall>j < k. P (Suc j))"
  using less_Suc_eq_0_disj by auto

locale once_set =
  fixes inv :: "'s \<Rightarrow> bool"
    and mem :: "'s \<Rightarrow> 'k set"
    and room :: "'s \<Rightarrow> nat"
    and ins :: "'s \<Rightarrow> 'a \<Rightarrow> bool \<times> 's"
    and key :: "'a \<Rightarrow> 'k"
    and admissible :: "'a \<Rightarrow> bool"
  assumes ins_answer: "inv s \<Longrightarrow> 0 < room s \<Longrightarrow> fst (ins s a) \<longleftrightarrow> admissible a \<and> key a \<notin> mem s"
    and ins_mem: "inv s \<Longrightarrow> 0 < room s \<Longrightarrow>
      mem (snd (ins s a)) = (if admissible a then insert (key a) (mem s) else mem s)"
    and ins_inv: "inv s \<Longrightarrow> inv (snd (ins s a))"
    and ins_room: "inv s \<Longrightarrow> room s \<le> Suc (room (snd (ins s a)))"
begin

text \<open>An argument is answered with yes exactly when it is the first admissible one with its key.\<close>

lemma run_all_first:
  assumes "inv s" "length as \<le> room s" "i < length as"
  shows "fst (run_all ins s as) ! i \<longleftrightarrow>
    admissible (as ! i) \<and> key (as ! i) \<notin> mem s
    \<and> (\<forall>j < i. admissible (as ! j) \<longrightarrow> key (as ! j) \<noteq> key (as ! i))"
  using assms
proof (induction as arbitrary: s i)
  case Nil
  then show ?case by simp
next
  case (Cons a as)
  define s' where "s' = snd (ins s a)"
  have s': "inv s'" "length as \<le> room s'"
    using ins_inv [OF Cons.prems(1), of a] ins_room [OF Cons.prems(1), of a] Cons.prems(2)
    by (simp_all add: s'_def)
  have mem: "mem s' = (if admissible a then insert (key a) (mem s) else mem s)"
    unfolding s'_def using Cons.prems(1,2) by (intro ins_mem) simp_all
  have run: "fst (run_all ins s (a # as)) = fst (ins s a) # fst (run_all ins s' as)"
    by (simp add: s'_def split_beta Let_def)
  show ?case
  proof (cases i)
    case 0
    with run ins_answer [OF Cons.prems(1), of a] Cons.prems(2) show ?thesis by simp
  next
    case (Suc k)
    have "fst (run_all ins s (a # as)) ! i = fst (run_all ins s' as) ! k"
      unfolding run by (simp add: Suc)
    also have "\<dots> \<longleftrightarrow> admissible (as ! k) \<and> key (as ! k) \<notin> mem s'
        \<and> (\<forall>j < k. admissible (as ! j) \<longrightarrow> key (as ! j) \<noteq> key (as ! k))"
      using Cons.IH [OF s'] Cons.prems(3) Suc by simp
    also have "\<dots> \<longleftrightarrow> admissible ((a # as) ! i) \<and> key ((a # as) ! i) \<notin> mem s
        \<and> (\<forall>j < i. admissible ((a # as) ! j) \<longrightarrow> key ((a # as) ! j) \<noteq> key ((a # as) ! i))"
      unfolding mem Suc by (auto simp: all_less_Suc_shift)
    finally show ?thesis .
  qed
qed

lemma run_all_no_duplicate:
  assumes "inv s" "length as \<le> room s" "i < j" "j < length as" "key (as ! i) = key (as ! j)"
  shows "\<not> (fst (run_all ins s as) ! i \<and> fst (run_all ins s as) ! j)"
  using assms run_all_first [OF assms(1,2), of i] run_all_first [OF assms(1,2), of j]
  by (metis less_trans)

lemma run_all_inv: "inv s \<Longrightarrow> inv (snd (run_all ins s as))"
  by (induction as arbitrary: s) (simp_all add: split_beta Let_def ins_inv)

end

end
