(* ===== verification/Rate_Limit.thy ===== *)
theory Rate_Limit
  imports F64 Once_Set
begin

text \<open>
  The token bucket for share submissions, \<open>zcash-pool-server/src/ratelimit.rs\<close>.  Tokens are a
  binary64 number.  The lemmas show that the bucket stays between zero and its capacity and that a
  burst is allowed exactly as many requests as there are whole tokens.
\<close>

record RateLimiter =
  rl_capacity :: u32
  rl_tokens :: f64
  rl_refill_rate :: f64
  rl_last_refill :: instant

datatype RateLimitResult = Allowed | Limited

definition is_allowed :: "RateLimitResult \<Rightarrow> bool" where
  "is_allowed self = (self = Allowed)"

definition RateLimiter_new :: "instant \<Rightarrow> u32 \<Rightarrow> f64 \<Rightarrow> RateLimiter" where
  "RateLimiter_new now capacity refill_rate =
     \<lparr>rl_capacity = capacity, rl_tokens = f64_of_nat (unat capacity), rl_refill_rate = refill_rate,
      rl_last_refill = now\<rparr>"

definition for_shares :: "instant \<Rightarrow> RateLimiter" where
  "for_shares now = RateLimiter_new now 100 (Finite 20)"

definition refill :: "instant \<Rightarrow> RateLimiter \<Rightarrow> RateLimiter" where
  "refill now self =
     (let elapsed = duration_since now (rl_last_refill self);
          self = self\<lparr>rl_last_refill := now\<rparr>;
          new_tokens = f64_mul (as_secs_f64 elapsed) (rl_refill_rate self) in
      self\<lparr>rl_tokens := f64_min (f64_add (rl_tokens self) new_tokens)
        (f64_of_nat (unat (rl_capacity self)))\<rparr>)"

definition rate_check :: "instant \<Rightarrow> RateLimiter \<Rightarrow> RateLimitResult \<times> RateLimiter" where
  "rate_check now self =
     (let self = refill now self in
      if f64_le (Finite 1) (rl_tokens self)
      then (Allowed, self\<lparr>rl_tokens := f64_sub (rl_tokens self) (Finite 1)\<rparr>)
      else (Limited, self))"

definition available_tokens :: "RateLimiter \<Rightarrow> nat" where
  "available_tokens self = f64_to_uint (2 ^ 32 - 1) (rl_tokens self)"

text \<open>\<open>Duration::MAX\<close>, and \<open>Duration::from_secs_f64\<close>, which rounds to the nearest nanosecond and
  panics on a negative, infinite, NaN or too large argument.\<close>

definition DURATION_MAX :: duration where
  "DURATION_MAX = 2 ^ 64 * NANOS_PER_SEC - 1"

definition from_secs_f64 :: "f64 \<Rightarrow> duration outcome" where
  "from_secs_f64 x =
     (case x of
        Finite q \<Rightarrow>
          let n = rne (q * of_nat NANOS_PER_SEC) in
          if q < 0 \<or> int DURATION_MAX < n then Panics else Returns (nat n)
      | NegZero \<Rightarrow> Returns 0
      | _ \<Rightarrow> Panics)"

definition time_until_available :: "RateLimiter \<Rightarrow> duration outcome" where
  "time_until_available self =
     (if f64_le (Finite 1) (rl_tokens self) then Returns 0
      else if f64_lt (Finite 0) (rl_refill_rate self) then
        let needed = f64_sub (Finite 1) (rl_tokens self) in
        from_secs_f64 (f64_div needed (rl_refill_rate self))
      else Returns DURATION_MAX)"

section \<open>The bucket stays in range\<close>

definition rate_inv :: "RateLimiter \<Rightarrow> bool" where
  "rate_inv r \<longleftrightarrow> f64_pos (rl_refill_rate r) \<and>
     (\<exists>q. rl_tokens r = Finite q \<and> f64_rep q \<and> 0 \<le> q \<and> q \<le> of_nat (unat (rl_capacity r)))"

lemma capacity_exact: "f64_of_nat (unat (c :: u32)) = Finite (of_nat (unat c))"
  and capacity_rep: "f64_rep (of_nat (unat (c :: u32)))"
proof -
  have "unat c \<le> 2 ^ 53" using unat_less_pow [of c] by simp
  then show "f64_of_nat (unat c) = Finite (of_nat (unat c))" "f64_rep (of_nat (unat c))"
    by (rule f64_of_nat_exact, rule f64_rep_of_nat)
qed

lemma as_secs_f64_nonneg: "f64_nonneg (as_secs_f64 d)"
proof -
  have nat: "f64_nonneg (f64_of_nat n)" for n by (simp add: f64_of_nat_def f64_nonneg_round)
  have "f64_of_nat NANOS_PER_SEC = Finite 1000000000"
    using f64_of_nat_exact [of NANOS_PER_SEC] by (simp add: NANOS_PER_SEC_def)
  then have "f64_pos (f64_of_nat NANOS_PER_SEC)" by (simp add: f64_pos_iff)
  with nat show ?thesis unfolding as_secs_f64_def by (intro f64_add_nonneg f64_div_nonneg)
qed

lemma as_secs_f64_0: "as_secs_f64 0 = Finite 0"
proof -
  have "f64_of_nat NANOS_PER_SEC = Finite 1000000000"
    using f64_of_nat_exact [of NANOS_PER_SEC] by (simp add: NANOS_PER_SEC_def)
  then have "f64_div (Finite 0) (f64_of_nat NANOS_PER_SEC) = Finite 0"
    by (simp add: f64_div_def f64_is_zero_def f64_zero_def Let_def)
  then show ?thesis by (simp add: as_secs_f64_def f64_of_nat_def f64_add_finite f64_zero_def)
qed

lemma f64_min_cap:
  assumes "f64_nonneg x" "f64_wf x" "x \<noteq> NegZero" "f64_rep c" "0 \<le> c"
  obtains q where "f64_min x (Finite c) = Finite q" "f64_rep q" "0 \<le> q" "q \<le> c"
  using assms that
  by (cases x; cases "f64_lt (Finite c) x") (auto simp: f64_min_def f64_lt_def f64_nonneg_cases)

lemma f64_add_not_NegZero:
  assumes "0 \<le> q" "f64_nonneg y"
  shows "f64_add (Finite q) y \<noteq> NegZero"
proof (cases "is_finite y")
  case True
  then have "0 \<le> f64_val y" using assms(2) by (cases y) auto
  with True assms(1) show ?thesis
    by (auto simp: f64_add_finite Let_def f64_zero_def f64_round_def split: if_splits)
next
  case False
  with assms show ?thesis by (cases y) (auto simp: f64_add_def f64_nonneg_cases)
qed

lemma refill_inv:
  assumes "rate_inv r"
  shows "rate_inv (refill now r)"
proof -
  obtain q where q: "rl_tokens r = Finite q" "f64_rep q" "0 \<le> q" "q \<le> of_nat (unat (rl_capacity r))"
    using assms by (auto simp: rate_inv_def)
  let ?new = "f64_mul (as_secs_f64 (duration_since now (rl_last_refill r))) (rl_refill_rate r)"
  have new: "f64_nonneg ?new"
    using assms by (intro f64_mul_nonneg' as_secs_f64_nonneg) (simp add: rate_inv_def)
  have sum: "f64_nonneg (f64_add (Finite q) ?new)" using q new by (intro f64_add_nonneg) simp_all
  obtain p where "f64_min (f64_add (Finite q) ?new) (Finite (of_nat (unat (rl_capacity r)))) = Finite p"
    "f64_rep p" "0 \<le> p" "p \<le> of_nat (unat (rl_capacity r))"
    using f64_min_cap [OF sum f64_wf_ops(1) f64_add_not_NegZero [OF q(3) new] capacity_rep of_nat_0_le_iff] .
  then show ?thesis
    using assms by (simp add: rate_inv_def refill_def Let_def q(1) capacity_exact del: of_nat_unat)
qed

text \<open>Taking one token is exact below \<open>2 ^ 53\<close>.\<close>

lemma f64_rep_minus_one:
  assumes "f64_rep q" "1 \<le> q" "q < 2 ^ 53"
  shows "f64_rep (q - 1)"
proof -
  have "0 \<le> q" using assms(2) by simp
  then obtain m where m: "q = of_int m * 2 powi ulp_exp q" "0 \<le> m" "m \<le> 2 ^ 53"
    using f64_repE [OF assms(1)] by blast
  have "ilog2 q < 53" using assms(2,3) ilog2_less [of q 53] by simp
  then have e: "ulp_exp q \<le> 0" by (simp add: ulp_exp_def)
  define k where "k = nat (- ulp_exp q)"
  have k: "ulp_exp q = - int k" using e by (simp add: k_def)
  have one: "(1 :: rat) = of_int (2 ^ k) * 2 powi ulp_exp q"
    by (simp add: k power_int_minus)
  have eq: "q - 1 = of_int (m - 2 ^ k) * 2 powi ulp_exp q"
    using m(1) one by (simp add: left_diff_distrib)
  moreover have "0 \<le> m - 2 ^ k"
  proof -
    have "0 * (2 :: rat) powi ulp_exp q \<le> of_int (m - 2 ^ k) * 2 powi ulp_exp q"
      unfolding eq [symmetric] using assms(2) by simp
    then have "(0 :: rat) \<le> of_int (m - 2 ^ k)" by (rule mult_right_le_imp_le) simp
    then show ?thesis by (simp only: of_int_0_le_iff)
  qed
  moreover have "m - 2 ^ k \<le> 2 ^ 53" using m(3) using zero_le_power [of "2 :: int" k] by linarith
  moreover have "q - 1 < F64_LIMIT" using assms(3) by (intro F64_LIMIT_le [of _ 53]) simp_all
  ultimately show ?thesis using ulp_exp_ge by (intro f64_repI)
qed

text \<open>A check at the time of the last refill: the refill changes nothing, so the answer and the
  remaining tokens depend on the tokens alone.\<close>

lemma refill_same_instant:
  assumes "rate_inv r"
  shows "refill (rl_last_refill r) r = r"
proof -
  obtain q p where q: "rl_tokens r = Finite q" "f64_rep q" "q \<le> of_nat (unat (rl_capacity r))"
    and p: "rl_refill_rate r = Finite p" "0 < p"
    using assms by (auto simp: rate_inv_def f64_pos_iff)
  have "f64_mul (Finite 0) (Finite p) = Finite 0" using p(2)
    by (simp add: f64_mul_def Let_def f64_zero_def f64_is_zero_def)
  then show ?thesis using q p(1)
    by (cases r) (simp add: refill_def Let_def as_secs_f64_0 f64_add_exact capacity_exact
        f64_min_def f64_lt_def del: of_nat_unat)
qed

lemma rl_last_refill_check [simp]: "rl_last_refill (snd (rate_check now r)) = now"
  by (simp add: rate_check_def refill_def Let_def)

lemma rate_check_inv:
  assumes "rate_inv r"
  shows "rate_inv (snd (rate_check now r))"
proof -
  obtain q where q: "rl_tokens (refill now r) = Finite q" "f64_rep q" "0 \<le> q"
    "q \<le> of_nat (unat (rl_capacity (refill now r)))" "f64_pos (rl_refill_rate (refill now r))"
    using refill_inv [OF assms, of now] by (auto simp: rate_inv_def)
  have "(of_nat (unat (rl_capacity (refill now r))) :: rat) \<le> of_nat (2 ^ 32)"
    using unat_less_pow [of "rl_capacity (refill now r)"] by (simp only: of_nat_le_iff) simp
  then have "q < 2 ^ 53" using q(4) by simp
  then show ?thesis using q refill_inv [OF assms, of now] f64_rep_minus_one [of q]
    by (auto simp: rate_check_def Let_def rate_inv_def f64_le_def f64_sub_exact)
qed

definition whole_tokens :: "RateLimiter \<Rightarrow> nat" where
  "whole_tokens r = nat \<lfloor>f64_val (rl_tokens r)\<rfloor>"

lemma rate_check_same_instant:
  assumes "rate_inv r" "rl_last_refill r = now"
  shows "fst (rate_check now r) = (if 0 < whole_tokens r then Allowed else Limited)"
    "whole_tokens (snd (rate_check now r)) = whole_tokens r - 1"
proof -
  obtain q where q: "rl_tokens r = Finite q" "f64_rep q" "0 \<le> q"
    "q \<le> of_nat (unat (rl_capacity r))" using assms by (auto simp: rate_inv_def)
  have same: "refill now r = r" using refill_same_instant [OF assms(1)] assms(2) by simp
  have "(of_nat (unat (rl_capacity r)) :: rat) \<le> of_nat (2 ^ 32)"
    using unat_less_pow [of "rl_capacity r"] by (simp only: of_nat_le_iff) simp
  then have sub: "1 \<le> q \<Longrightarrow> f64_sub (Finite q) (Finite 1) = Finite (q - 1)"
    using q by (intro f64_sub_exact f64_rep_minus_one) simp_all
  have whole: "whole_tokens r = nat \<lfloor>q\<rfloor>" by (simp add: whole_tokens_def q(1))
  have "fst (rate_check now r) = (if 0 < whole_tokens r then Allowed else Limited)
    \<and> whole_tokens (snd (rate_check now r)) = whole_tokens r - 1"
  proof (cases "1 \<le> q")
    case True
    then show ?thesis unfolding whole
      by (simp add: rate_check_def same q(1) sub f64_le_def) (simp add: whole_tokens_def nat_diff_distrib')
  next
    case False
    then show ?thesis unfolding whole by (simp add: rate_check_def same q(1) f64_le_def whole)
  qed
  then show "fst (rate_check now r) = (if 0 < whole_tokens r then Allowed else Limited)"
    "whole_tokens (snd (rate_check now r)) = whole_tokens r - 1" by simp_all
qed

lemma burst_at_instant:
  assumes "rate_inv r" "rl_last_refill r = now"
  shows "fst (run_all (\<lambda>r t. rate_check t r) r (replicate n now)) =
    replicate (min n (whole_tokens r)) Allowed @ replicate (n - whole_tokens r) Limited"
  using assms
proof (induction n arbitrary: r)
  case 0
  then show ?case by simp
next
  case (Suc n)
  note check = rate_check_same_instant [OF Suc.prems]
  have "rate_inv (snd (rate_check now r))" using Suc.prems(1) by (rule rate_check_inv)
  note IH = Suc.IH [OF this rl_last_refill_check]
  show ?case
    by (cases "whole_tokens r") (simp_all add: split_beta Let_def IH check replicate_append_same)
qed

lemma rl_fields_check [simp]:
  "rl_capacity (snd (rate_check now r)) = rl_capacity r"
  "rl_refill_rate (snd (rate_check now r)) = rl_refill_rate r"
  "rl_capacity (refill now r) = rl_capacity r"
  by (simp_all add: rate_check_def refill_def Let_def)

abbreviation run_checks :: "RateLimiter \<Rightarrow> instant list \<Rightarrow> RateLimitResult list \<times> RateLimiter" where
  "run_checks \<equiv> run_all (\<lambda>r t. rate_check t r)"

lemma run_checks_inv:
  assumes "rate_inv r"
  shows "rate_inv (snd (run_checks r ts))"
    "rl_capacity (snd (run_checks r ts)) = rl_capacity r"
    "rl_refill_rate (snd (run_checks r ts)) = rl_refill_rate r"
  using assms
  by (induction ts arbitrary: r) (simp_all add: split_beta Let_def rate_check_inv)

lemma RateLimiter_new_inv: "f64_pos rate \<Longrightarrow> rate_inv (RateLimiter_new now c rate)"
  by (simp add: rate_inv_def RateLimiter_new_def capacity_exact capacity_rep del: of_nat_unat)

lemma rate_check_refilled:
  assumes "rate_inv r"
  shows "rate_check now (refill now r) = rate_check now r"
proof -
  have "refill now (refill now r) = refill now r"
    using refill_same_instant [OF refill_inv [OF assms, of now]] by (simp add: refill_def Let_def)
  then show ?thesis by (simp add: rate_check_def)
qed

lemma burst_refilled:
  assumes "rate_inv r"
  shows "fst (run_checks r (replicate n now)) =
    replicate (min n (whole_tokens (refill now r))) Allowed
    @ replicate (n - whole_tokens (refill now r)) Limited"
proof -
  have "rl_last_refill (refill now r) = now" by (simp add: refill_def Let_def)
  moreover have "fst (run_checks r (replicate n now)) = fst (run_checks (refill now r) (replicate n now))"
    using rate_check_refilled [OF assms, of now] by (cases n) simp_all
  ultimately show ?thesis using burst_at_instant [OF refill_inv [OF assms]] by simp
qed

lemma whole_tokens_le:
  assumes "rate_inv r"
  shows "whole_tokens r \<le> unat (rl_capacity r)" "available_tokens r = whole_tokens r"
proof -
  obtain q where q: "rl_tokens r = Finite q" "q \<le> of_nat (unat (rl_capacity r))"
    using assms by (auto simp: rate_inv_def)
  then have "\<lfloor>q\<rfloor> \<le> int (unat (rl_capacity r))" by (metis floor_mono floor_of_nat)
  then show le: "whole_tokens r \<le> unat (rl_capacity r)"
    unfolding whole_tokens_def q(1) by (simp only: f64_val.simps nat_le_iff)
  show "available_tokens r = whole_tokens r"
    using le unat_less_pow [of "rl_capacity r"] unfolding whole_tokens_def available_tokens_def q(1)
    by (simp add: f64_to_uint_def)
qed

text \<open>The wait of the share limiter: one token at twenty per second is at most 50 milliseconds, also
  after the rounding of the subtraction, the division and the conversion.\<close>

lemma f64_round_le_rep:
  assumes "0 < q" "q \<le> u" "f64_rep u"
  obtains p where "f64_round q = Finite p" "0 \<le> p" "p \<le> u"
proof -
  have "f64_round u = Finite u" using assms by (intro f64_round_rep) simp_all
  then have "f64_le (f64_round q) (Finite u)" using f64_round_mono [OF assms(1,2)] by simp
  then show ?thesis
    using that by (cases rule: f64_round_pos_cases [OF assms(1)]) (auto simp: f64_le_def)
qed

definition twentieth_up :: rat where
  "twentieth_up = 3602879701896397 / 2 ^ 56"

lemma f64_rep_twentieth_up: "f64_rep twentieth_up"
proof (rule f64_repI [of _ 3602879701896397 "- 56"])
  show "twentieth_up < F64_LIMIT" by (rule F64_LIMIT_le [of _ 0]) (simp_all add: twentieth_up_def)
qed (simp_all add: twentieth_up_def power_int_minus)

lemma rne_twentieth_up: "rne (twentieth_up * of_nat NANOS_PER_SEC) = 50000000"
proof -
  have "twentieth_up * of_nat NANOS_PER_SEC = of_int 50000000 + 200000000 / 2 ^ 56"
    by (simp add: twentieth_up_def NANOS_PER_SEC_def)
  moreover have "rne (of_int 50000000 + 200000000 / 2 ^ 56) = 50000000" by (rule rne_add_small) simp_all
  ultimately show ?thesis by (simp only:)
qed

lemma wait_le_50ms:
  assumes "rate_inv r" "rl_refill_rate r = Finite 20"
  shows "\<exists>d \<le> 50000000. time_until_available r = Returns d"
proof -
  obtain q where q: "rl_tokens r = Finite q" "0 \<le> q" using assms(1) by (auto simp: rate_inv_def)
  show ?thesis
  proof (cases "1 \<le> q")
    case True
    then show ?thesis by (simp add: time_until_available_def q(1) f64_le_def)
  next
    case False
    have "f64_rep 1" using f64_rep_of_nat [of 1] by simp
    with False q(2) obtain p where p: "f64_round (1 - q) = Finite p" "0 \<le> p" "p \<le> 1"
      using f64_round_le_rep [of "1 - q" 1] by auto
    have sub: "f64_sub (Finite 1) (Finite q) = Finite p"
      using False p(1) by (cases "q = 0") (simp_all add: f64_sub_def f64_add_finite Let_def)
    obtain y where y: "f64_div (Finite p) (Finite 20) = Finite y" "0 \<le> y" "y \<le> twentieth_up"
    proof (cases "p = 0")
      case True
      then show ?thesis using that [of 0]
        by (simp add: f64_div_def f64_is_zero_def f64_zero_def Let_def twentieth_up_def)
    next
      case False
      then have "0 < p / 20" "p / 20 \<le> twentieth_up" using p by (simp_all add: twentieth_up_def)
      then obtain y where "f64_round (p / 20) = Finite y" "0 \<le> y" "y \<le> twentieth_up"
        using f64_round_le_rep f64_rep_twentieth_up by blast
      with False show ?thesis using that [of y]
        by (simp add: f64_div_def f64_is_zero_def f64_zero_def Let_def)
    qed
    have "rne (y * of_nat NANOS_PER_SEC) \<le> 50000000"
      unfolding rne_twentieth_up [symmetric] using y(3) by (intro rne_mono mult_right_mono) simp_all
    moreover have "(50000000 :: int) \<le> int DURATION_MAX" by (simp add: DURATION_MAX_def NANOS_PER_SEC_def)
    ultimately show ?thesis using False y(2)
      by (simp add: time_until_available_def q(1) f64_le_def f64_lt_def assms(2) sub y(1)
          from_secs_f64_def Let_def)
  qed
qed

section \<open>Claims\<close>

text \<open>
  A rate limiter allows a burst exactly as many requests as it has whole tokens.  Take a
  limiter created with a positive finite refill rate and let any checks go by.  Of \<open>n\<close> further
  checks at one instant, the first \<open>k\<close> are allowed and the rest are limited, where \<open>k\<close> is what
  \<open>available_tokens\<close> reports at that instant; and \<open>k\<close> never exceeds the capacity.
\<close>

theorem rate_limiter_burst_exact:
  assumes "f64_pos rate"
    and "r = snd (run_checks (RateLimiter_new t0 c rate) ts)"
    and "k = available_tokens (refill now r)"
  shows "fst (run_checks r (replicate n now)) = replicate (min n k) Allowed @ replicate (n - k) Limited
    \<and> k \<le> unat c"
proof -
  have inv: "rate_inv r" "rl_capacity r = c"
    unfolding assms(2) using run_checks_inv [OF RateLimiter_new_inv [OF assms(1)]]
    by (simp_all add: RateLimiter_new_def)
  then have "fst (run_checks r (replicate n now)) = replicate (min n k) Allowed @ replicate (n - k) Limited"
    using assms(3) burst_refilled [of r n now] whole_tokens_le(2) [OF refill_inv] by simp
  moreover have "k \<le> unat c"
    using inv assms(3) whole_tokens_le [OF refill_inv [of r now]] by simp
  ultimately show ?thesis by simp
qed

theorem rate_limiter_burst_exact_witness:
  "fst (run_checks (for_shares 0) (replicate 101 0)) = replicate 100 Allowed @ [Limited]"
proof -
  have "available_tokens (refill 0 (for_shares 0)) = 100"
    using refill_same_instant [OF RateLimiter_new_inv, of "Finite 20" 0 100]
      f64_of_nat_exact [of 100]
    by (simp add: for_shares_def RateLimiter_new_def available_tokens_def f64_to_uint_def f64_pos_iff)
  then show ?thesis
    using rate_limiter_burst_exact [of "Finite 20" "for_shares 0" 0 100 "[]" 100 0 101]
    by (simp add: for_shares_def f64_pos_iff numeral_eq_Suc)
qed

text \<open>
  The wait reported for the share limiter is never more than its period.  Whatever
  checks went by, \<open>time_until_available\<close> of a limiter made by \<open>for_shares\<close> does not panic in
  \<open>Duration::from_secs_f64\<close> and answers at most 50 milliseconds, the time one token takes.
\<close>

theorem share_limiter_wait_bounded:
  "\<exists>d \<le> 50000000. time_until_available (snd (run_checks (for_shares t0) ts)) = Returns d"
proof -
  have "rate_inv (for_shares t0)" by (simp add: for_shares_def RateLimiter_new_inv f64_pos_iff)
  then show ?thesis using run_checks_inv [of "for_shares t0" ts] wait_le_50ms
    by (simp add: for_shares_def RateLimiter_new_def)
qed

end
