(* ===== verification/Difficulty.thy ===== *)
theory Difficulty
  imports Bytes F64
begin

unbundle bit_operations_syntax

text \<open>
  Targets and difficulties, \<open>zcash-equihash-validator/src/difficulty.rs\<close>.  A target is 32
  bytes, read as a little-endian 256 bit number.  The loops over the bytes from the most
  significant one are recursions on the number of bytes still to compare.  The lemmas relate the
  byte loops to the numbers they stand for and show that the conversions to and from floating
  point are monotone.
\<close>

type_synonym Target = bytes

datatype cmp_ordering = Less | Equal | Greater

definition byte_cmp :: "u8 \<Rightarrow> u8 \<Rightarrow> cmp_ordering" where
  "byte_cmp a b = (if a < b then Less else if a = b then Equal else Greater)"

definition max_mainnet :: Target where
  "max_mainnet = (replicate 32 0xff)[28 := 0x07, 29 := 0x00, 30 := 0x00, 31 := 0x00]"

definition mainnet_pow_limit :: Target where
  "mainnet_pow_limit = (replicate 32 0xff)[30 := 0x07, 31 := 0x00]"

definition testnet_pow_limit :: Target where
  "testnet_pow_limit = (replicate 32 0xff)[31 := 0x07]"

fun is_met_by_loop :: "nat \<Rightarrow> Target \<Rightarrow> bytes \<Rightarrow> bool" where
  "is_met_by_loop 0 target hash = True"
| "is_met_by_loop (Suc i) target hash =
     (case byte_cmp (hash ! i) (target ! i) of
        Less \<Rightarrow> True
      | Greater \<Rightarrow> False
      | Equal \<Rightarrow> is_met_by_loop i target hash)"

definition is_met_by :: "Target \<Rightarrow> bytes \<Rightarrow> bool" where
  "is_met_by target hash = is_met_by_loop 32 target hash"

fun Target_cmp_loop :: "nat \<Rightarrow> Target \<Rightarrow> Target \<Rightarrow> cmp_ordering" where
  "Target_cmp_loop 0 a b = Equal"
| "Target_cmp_loop (Suc i) a b =
     (case byte_cmp (a ! i) (b ! i) of Equal \<Rightarrow> Target_cmp_loop i a b | other \<Rightarrow> other)"

definition Target_cmp :: "Target \<Rightarrow> Target \<Rightarrow> cmp_ordering" where
  "Target_cmp a b = Target_cmp_loop 32 a b"

section \<open>Compact targets\<close>

definition compact_exponent :: "u32 \<Rightarrow> nat" where
  "compact_exponent bits = unat (u32_to_be_bytes bits ! 0)"

definition compact_mantissa :: "u32 \<Rightarrow> u32" where
  "compact_mantissa bits =
     (let bytes = u32_to_be_bytes bits in
      push_bit 16 (ucast (bytes ! 1)) OR push_bit 8 (ucast (bytes ! 2)) OR ucast (bytes ! 3))"

definition byte_at :: "nat \<Rightarrow> u32 \<Rightarrow> u8" where
  "byte_at i v = ucast (drop_bit (8 * i) v AND 0xff)"

definition place_low :: "nat \<Rightarrow> u32 \<Rightarrow> Target" where
  "place_low exponent mantissa =
     (let value = drop_bit (8 * (3 - exponent)) mantissa in
      (replicate 32 0)[0 := byte_at 0 value, 1 := byte_at 1 value, 2 := byte_at 2 value])"

definition place_high :: "nat \<Rightarrow> u32 \<Rightarrow> Target" where
  "place_high pos mantissa =
     (let target = replicate 32 0;
          target = (if pos < 32 then target[pos := byte_at 0 mantissa] else target);
          target = (if pos + 1 < 32 then target[pos + 1 := byte_at 1 mantissa] else target)
      in if pos + 2 < 32 then target[pos + 2 := byte_at 2 mantissa] else target)"

definition compact_to_target :: "u32 \<Rightarrow> Target" where
  "compact_to_target bits =
     (let exponent = compact_exponent bits; mantissa = compact_mantissa bits in
      if mantissa AND 0x00800000 \<noteq> 0 \<or> 34 < exponent \<or> (33 < exponent \<and> 0xff < mantissa)
         \<or> (32 < exponent \<and> 0xffff < mantissa)
      then replicate 32 0
      else if exponent \<le> 3 then place_low exponent mantissa
      else place_high (exponent - 3) mantissa)"

section \<open>Difficulty\<close>

fun target_to_f64_loop :: "nat \<Rightarrow> Target \<Rightarrow> f64 \<Rightarrow> f64" where
  "target_to_f64_loop 0 target result = result"
| "target_to_f64_loop (Suc i) target result =
     target_to_f64_loop i target
       (f64_add (f64_mul result (Finite 256)) (f64_of_nat (unat (target ! i))))"

definition target_to_f64 :: "Target \<Rightarrow> f64" where
  "target_to_f64 target = target_to_f64_loop 32 target (Finite 0)"

fun f64_to_target_loop :: "nat \<Rightarrow> f64 \<Rightarrow> bytes" where
  "f64_to_target_loop 0 value = []"
| "f64_to_target_loop (Suc n) value =
     (let value_byte = f64_to_uint 255 (f64_rem value (Finite 256)) in
      of_nat value_byte #
      f64_to_target_loop n (f64_div (f64_sub value (f64_of_nat value_byte)) (Finite 256)))"

definition f64_to_target :: "f64 \<Rightarrow> Target" where
  "f64_to_target value = f64_to_target_loop 32 value"

definition target_to_difficulty_with_max :: "Target \<Rightarrow> Target \<Rightarrow> f64" where
  "target_to_difficulty_with_max target max_target =
     (let max_val = target_to_f64 max_target; target_val = target_to_f64 target in
      if f64_eq target_val (Finite 0) then Infinity False else f64_div max_val target_val)"

definition target_to_difficulty :: "Target \<Rightarrow> f64" where
  "target_to_difficulty target = target_to_difficulty_with_max target max_mainnet"

definition difficulty_to_target_with_max :: "f64 \<Rightarrow> Target \<Rightarrow> Target" where
  "difficulty_to_target_with_max difficulty max_target =
     (if \<not> is_finite difficulty \<or> f64_le difficulty (Finite 0) then max_target
      else let max_val = target_to_f64 max_target; target_val = f64_div max_val difficulty in
        if f64_le (Finite (2 ^ 256)) target_val then replicate 32 0xff
        else f64_to_target target_val)"

definition difficulty_to_target :: "f64 \<Rightarrow> Target" where
  "difficulty_to_target difficulty = difficulty_to_target_with_max difficulty max_mainnet"

section \<open>Comparing bytes compares numbers\<close>

lemma le_to_nat_take_Suc:
  assumes "i < length xs"
  shows "le_to_nat (take (Suc i) xs) = le_to_nat (take i xs) + 256 ^ i * unat (xs ! i)"
  using assms by (simp add: take_Suc_conv_app_nth le_to_nat_append)

lemma byte_digit_less:
  fixes x y :: nat
  assumes "x < b" "p < q"
  shows "x + b * p < y + b * q"
proof -
  have "x + b * p < b + b * p" using assms(1) by simp
  also have "\<dots> = b * Suc p" by simp
  also have "\<dots> \<le> b * q" using assms(2) by (intro mult_le_mono) simp_all
  finally show ?thesis by simp
qed

lemma le_to_nat_take_less: "i \<le> length xs \<Longrightarrow> le_to_nat (take i xs) < 256 ^ i"
  using le_to_nat_less [of "take i xs"] by simp

lemma take_Suc_digits:
  assumes "i < length a" "i < length b"
  shows "a ! i < b ! i \<Longrightarrow> le_to_nat (take (Suc i) a) < le_to_nat (take (Suc i) b)"
    and "a ! i = b ! i \<Longrightarrow> le_to_nat (take (Suc i) a) \<le> le_to_nat (take (Suc i) b) \<longleftrightarrow>
      le_to_nat (take i a) \<le> le_to_nat (take i b)"
  using assms byte_digit_less [OF le_to_nat_take_less [of i a], of "unat (a ! i)" "unat (b ! i)"]
  by (simp_all add: le_to_nat_take_Suc word_less_nat_alt)

lemma is_met_by_loop_iff:
  "i \<le> length hash \<Longrightarrow> i \<le> length target \<Longrightarrow>
    is_met_by_loop i target hash \<longleftrightarrow> le_to_nat (take i hash) \<le> le_to_nat (take i target)"
proof (induction i)
  case 0
  then show ?case by simp
next
  case (Suc i)
  then have len: "i < length hash" "i < length target" by simp_all
  consider "hash ! i < target ! i" | "target ! i < hash ! i" | "hash ! i = target ! i" by force
  then show ?case
  proof cases
    case 1
    with take_Suc_digits(1) [OF len] show ?thesis by (simp add: byte_cmp_def)
  next
    case 2
    with take_Suc_digits(1) [OF len(2,1)] show ?thesis by (auto simp: byte_cmp_def)
  next
    case 3
    with take_Suc_digits(2) [OF len] Suc show ?thesis by (simp add: byte_cmp_def)
  qed
qed

lemma is_met_by_iff:
  "length target = 32 \<Longrightarrow> length hash = 32 \<Longrightarrow>
    is_met_by target hash \<longleftrightarrow> le_to_nat hash \<le> le_to_nat target"
  by (simp add: is_met_by_def is_met_by_loop_iff)

lemma Target_cmp_loop_eq:
  "i \<le> length a \<Longrightarrow> i \<le> length b \<Longrightarrow>
    Target_cmp_loop i a b =
      (if le_to_nat (take i a) < le_to_nat (take i b) then Less
       else if le_to_nat (take i a) = le_to_nat (take i b) then Equal else Greater)"
proof (induction i)
  case 0
  then show ?case by simp
next
  case (Suc i)
  then have len: "i < length a" "i < length b" by simp_all
  consider "a ! i < b ! i" | "b ! i < a ! i" | "a ! i = b ! i" by force
  then show ?case
  proof cases
    case 1
    with take_Suc_digits(1) [OF len] show ?thesis by (simp add: byte_cmp_def)
  next
    case 2
    with take_Suc_digits(1) [OF len(2,1)] show ?thesis by (auto simp: byte_cmp_def)
  next
    case 3
    with len Suc show ?thesis by (simp add: byte_cmp_def le_to_nat_take_Suc)
  qed
qed

lemma Target_cmp_eq:
  "length a = 32 \<Longrightarrow> length b = 32 \<Longrightarrow>
    Target_cmp a b = (if le_to_nat a < le_to_nat b then Less
      else if le_to_nat a = le_to_nat b then Equal else Greater)"
  by (simp add: Target_cmp_def Target_cmp_loop_eq)

text \<open>
  A hash meets a target exactly when it is at most the target as a little-endian 256 bit
  number.  The test agrees with the \<open>Ord\<close> instance of targets, which is a total order in which
  only a target itself compares equal to it.
\<close>

theorem is_met_by_numeric:
  assumes "length target = 32" "length hash = 32"
  shows "(is_met_by target hash \<longleftrightarrow> le_to_nat hash \<le> le_to_nat target)
    \<and> (is_met_by target hash \<longleftrightarrow> Target_cmp hash target \<noteq> Greater)
    \<and> (Target_cmp hash target = Equal \<longleftrightarrow> hash = target)
    \<and> (Target_cmp hash target = Less \<longleftrightarrow> Target_cmp target hash = Greater)"
  using assms le_to_nat_inject [of hash target] by (auto simp: is_met_by_iff Target_cmp_eq)

theorem is_met_by_numeric_witness:
  "is_met_by max_mainnet (replicate 32 0) \<longleftrightarrow> Target_cmp (replicate 32 0) max_mainnet \<noteq> Greater"
proof -
  have "length max_mainnet = 32" by (simp add: max_mainnet_def)
  from is_met_by_numeric [OF this, of "replicate 32 0", OF length_replicate] show ?thesis by blast
qed

section \<open>Compact targets decode to their value\<close>

text \<open>
  The specification: the exponent is the top byte, the mantissa the low 24 bits, the top bit of
  the mantissa a sign, and the value is \<open>mantissa * 256 ^ (exponent - 3)\<close>, rounded down.
\<close>

definition U256_LIMIT :: nat where
  "U256_LIMIT = 2 ^ 256"

definition compact_value :: "u32 \<Rightarrow> nat" where
  "compact_value bits =
     (let e = unat bits div 2 ^ 24; m = unat bits mod 2 ^ 24 in
      if e \<le> 3 then m div 256 ^ (3 - e) else m * 256 ^ (e - 3))"

definition compact_negative :: "u32 \<Rightarrow> bool" where
  "compact_negative bits \<longleftrightarrow> 2 ^ 23 \<le> unat bits mod 2 ^ 24"

lemma nth_nat_to_le: "i < n \<Longrightarrow> nat_to_le n x ! i = of_nat (x div 256 ^ i)"
proof (induction n arbitrary: x i)
  case 0
  then show ?case by simp
next
  case (Suc n)
  then show ?case
    by (cases i) (simp_all add: div_mult2_eq word_unat_eq_iff unat_byte_of_nat)
qed

lemma unat_drop_div: "unat (drop_bit k (w :: u32)) = unat w div 2 ^ k"
  by (simp only: unat_drop_bit_eq) (simp only: drop_bit_eq_div)

lemma unat_take_mod: "unat (take_bit k (w :: u32)) = unat w mod 2 ^ k"
  by (simp only: unsigned_take_bit_eq) (simp only: take_bit_eq_mod)

lemma unat_ucast_u32_u8: "unat (ucast (w :: u32) :: u8) = unat w mod 256"
  by (simp add: unsigned_ucast_eq unsigned_take_bit_eq) (simp add: take_bit_eq_mod)

lemma u8_of_nat_drop: "(of_nat (unat w div 2 ^ k) :: u8) = ucast (drop_bit k (w :: u32))"
  by (simp add: word_unat_eq_iff unat_byte_of_nat unat_ucast_u32_u8 unat_drop_div)

lemma u32_be_nth:
  "u32_to_be_bytes w ! 0 = ucast (drop_bit 24 w)" "u32_to_be_bytes w ! 1 = ucast (drop_bit 16 w)"
  "u32_to_be_bytes w ! 2 = ucast (drop_bit 8 w)" "u32_to_be_bytes w ! 3 = ucast w"
  using u8_of_nat_drop [of w 24] u8_of_nat_drop [of w 16] u8_of_nat_drop [of w 8]
    u8_of_nat_drop [of w 0]
  by (simp_all add: u32_to_be_bytes_def u32_to_le_bytes_def rev_nth nth_nat_to_le)

lemma compact_exponent_eq: "compact_exponent bits = unat bits div 2 ^ 24"
proof -
  have "unat bits div 2 ^ 24 < 2 ^ 8" using unat_less_pow [of bits] by simp
  then show ?thesis
    by (simp add: compact_exponent_def u32_be_nth unat_ucast_u32_u8 unat_drop_div)
qed

lemma compact_mantissa_eq: "compact_mantissa bits = take_bit 24 bits"
proof (rule bit_word_eqI)
  fix n
  assume "n < LENGTH(32)"
  then show "bit (compact_mantissa bits) n = bit (take_bit 24 bits) n"
    by (cases "16 \<le> n") (auto simp: compact_mantissa_def u32_be_nth u32_be_nth(2) [simplified]
      Let_def bit_simps not_less)
qed

lemma unat_compact_mantissa: "unat (compact_mantissa bits) = unat bits mod 2 ^ 24"
  by (simp only: compact_mantissa_eq unat_take_mod)

lemma byte_at_eq: "byte_at i v = of_nat (unat v div 256 ^ i)"
proof -
  have "unat (drop_bit (8 * i) v AND 0xff) = unat v div 256 ^ i mod 256"
    using unat_take_mod [of 8 "drop_bit (8 * i) v"] unat_drop_div [of "8 * i" v]
    by (simp add: take_bit_eq_mask mask_numeral power_mult)
  then show ?thesis
    by (simp add: byte_at_def word_unat_eq_iff unat_ucast_u32_u8 unat_byte_of_nat)
qed

lemma sign_bit_iff: "m AND 0x00800000 \<noteq> 0 \<longleftrightarrow> 2 ^ 23 \<le> unat m"
  if "unat (m :: u32) < 2 ^ 24"
proof -
  have "0x00800000 = (push_bit 23 1 :: u32)" by simp
  then have "m AND 0x00800000 \<noteq> 0 \<longleftrightarrow> bit m 23"
    by (simp add: bit_iff_and_push_bit_not_eq_0)
  also have "\<dots> \<longleftrightarrow> bit (unat m) 23" by (simp add: bit_unsigned_iff)
  also have "\<dots> \<longleftrightarrow> odd (unat m div 2 ^ 23)" by (simp only: bit_iff_odd)
  also have "\<dots> \<longleftrightarrow> 2 ^ 23 \<le> unat m"
  proof (cases "2 ^ 23 \<le> unat m")
    case True
    then have "unat m div 2 ^ 23 = 1" using that by (intro div_nat_eqI) simp_all
    with True show ?thesis by simp
  next
    case False
    then show ?thesis by simp
  qed
  finally show ?thesis .
qed

text \<open>The bytes of a 24 bit number placed at a byte position.\<close>

lemma nat_to_le_shift:
  assumes "m < 2 ^ 24"
  shows "nat_to_le 32 (m * 256 ^ p) =
    (let t = replicate 32 0;
         t = (if p < 32 then t[p := of_nat (m div 256 ^ 0)] else t);
         t = (if p + 1 < 32 then t[p + 1 := of_nat (m div 256 ^ 1)] else t)
     in if p + 2 < 32 then t[p + 2 := of_nat (m div 256 ^ 2)] else t)" (is "_ = ?t")
proof (rule nth_equalityI)
  show "length (nat_to_le 32 (m * 256 ^ p)) = length ?t" by (simp add: Let_def)
  fix i
  assume "i < length (nat_to_le 32 (m * 256 ^ p))"
  then have i: "i < 32" by simp
  show "nat_to_le 32 (m * 256 ^ p) ! i = ?t ! i"
  proof (cases "i < p")
    case True
    then obtain k where k: "p = i + Suc k" using less_imp_Suc_add by auto
    have "m * 256 ^ p div 256 ^ i = m * 256 ^ k * 256" by (simp add: k power_add)
    then have "nat_to_le 32 (m * 256 ^ p) ! i = of_nat (m * 256 ^ k * 256)"
      using i by (simp add: nth_nat_to_le)
    also have "\<dots> = 0" by (simp only: word_unat_eq_iff unat_byte_of_nat) simp
    also have "\<dots> = ?t ! i" using True i by (simp add: Let_def nth_list_update)
    finally show ?thesis .
  next
    case False
    then have "p \<le> i" by simp
    then obtain k where k: "i = p + k" by (auto dest: le_Suc_ex)
    have "m * 256 ^ p div 256 ^ i = m div 256 ^ k" by (simp add: k power_add)
    then have *: "nat_to_le 32 (m * 256 ^ p) ! i = of_nat (m div 256 ^ k)"
      using i by (simp add: nth_nat_to_le)
    consider "k = 0" | "k = 1" | "k = 2" | "3 \<le> k" by linarith
    then show ?thesis
    proof cases
      case 4
      then have "m < 256 ^ k"
        using assms power_increasing [of 3 k "256 :: nat"] by simp
      with 4 * i k show ?thesis by (simp add: Let_def nth_list_update)
    qed (use * i k in \<open>simp_all add: Let_def nth_list_update\<close>)
  qed
qed

lemma place_high_eq:
  assumes "unat mantissa < 2 ^ 24"
  shows "place_high pos mantissa = nat_to_le 32 (unat mantissa * 256 ^ pos)"
  unfolding nat_to_le_shift [OF assms] place_high_def byte_at_eq ..

lemma unat_drop_bytes: "unat (drop_bit (8 * k) (w :: u32)) = unat w div 256 ^ k"
  using unat_drop_div [of "8 * k" w] by (simp add: power_mult)

lemma place_low_eq:
  assumes "unat mantissa < 2 ^ 24"
  shows "place_low e mantissa = nat_to_le 32 (unat mantissa div 256 ^ (3 - e))"
proof -
  define v where "v = unat mantissa div 256 ^ (3 - e)"
  have "v < 2 ^ 24" using assms unfolding v_def by (meson div_le_dividend le_less_trans)
  from nat_to_le_shift [OF this, of 0] have "nat_to_le 32 v =
      (replicate 32 0)[0 := of_nat (v div 256 ^ 0), 1 := of_nat (v div 256 ^ 1), 2 := of_nat (v div 256 ^ 2)]"
    by (simp add: Let_def numeral_2_eq_2)
  then show ?thesis
    unfolding place_low_def byte_at_eq unat_drop_bytes Let_def v_def [symmetric] by (rule sym)
qed

lemma U256_LIMIT_pow: "U256_LIMIT = 256 ^ 32"
  by (simp add: U256_LIMIT_def)

lemma compact_overflow_iff:
  fixes m :: nat
  assumes "0 < m" "m < 2 ^ 24"
  shows "34 < e \<or> (33 < e \<and> 0xff < m) \<or> (32 < e \<and> 0xffff < m) \<longleftrightarrow>
    3 < e \<and> U256_LIMIT \<le> m * 256 ^ (e - 3)"
proof -
  have pow: "U256_LIMIT = 256 ^ 32" "(2 :: nat) ^ 24 = 256 ^ 3" by (simp_all add: U256_LIMIT_pow)
  consider "e \<le> 32" | "e = 33" | "e = 34" | "34 < e" by linarith
  then show ?thesis
  proof cases
    case 1
    then have "(256 :: nat) ^ (e - 3) \<le> 256 ^ 29" by (intro power_increasing) simp_all
    then have "m * 256 ^ (e - 3) < 256 ^ 3 * 256 ^ 29"
      using assms(2) unfolding pow(2) by (intro mult_less_le_imp_less) simp_all
    with 1 show ?thesis unfolding pow(1) by (simp del: power_numeral flip: power_add)
  next
    case 4
    then have "(256 :: nat) ^ 32 \<le> 256 ^ (e - 3)" by (intro power_increasing) simp_all
    also have "\<dots> \<le> m * 256 ^ (e - 3)" using assms(1) by simp
    finally show ?thesis using 4 unfolding pow(1) by simp
  qed (auto simp: pow(1))
qed

lemma unat_mantissa_less: "unat (compact_mantissa bits) < 2 ^ 24"
  by (simp add: unat_compact_mantissa)

lemma compact_to_target_eq:
  "compact_to_target bits =
     nat_to_le 32 (if compact_negative bits \<or> U256_LIMIT \<le> compact_value bits
       then 0 else compact_value bits)"
proof -
  define m where "m = unat (compact_mantissa bits)"
  define e where "e = compact_exponent bits"
  have m24: "m < 2 ^ 24" unfolding m_def by (rule unat_mantissa_less)
  have neg: "compact_mantissa bits AND 0x00800000 \<noteq> 0 \<longleftrightarrow> compact_negative bits"
    by (simp add: sign_bit_iff [OF unat_mantissa_less] compact_negative_def unat_compact_mantissa)
  have val: "compact_value bits = (if e \<le> 3 then m div 256 ^ (3 - e) else m * 256 ^ (e - 3))"
    by (simp add: compact_value_def m_def e_def compact_exponent_eq unat_compact_mantissa Let_def)
  have small: "m div 256 ^ (3 - e) < 2 ^ 24" using m24 by (meson div_le_dividend le_less_trans)
  have zero: "nat_to_le 32 0 = replicate 32 0"
    by (rule le_to_nat_inject) (simp_all add: le_to_nat_nat_to_le)
  have over: "34 < e \<or> (33 < e \<and> 0xff < compact_mantissa bits)
      \<or> (32 < e \<and> 0xffff < compact_mantissa bits) \<longleftrightarrow>
      (if m = 0 then 34 < e else U256_LIMIT \<le> compact_value bits)"
  proof (cases "m = 0")
    case True
    then show ?thesis by (simp add: word_less_nat_alt flip: m_def)
  next
    case False
    have "m div 256 ^ (3 - e) < U256_LIMIT" using small by (simp add: U256_LIMIT_def)
    with False compact_overflow_iff [of m e] m24 show ?thesis
      by (auto simp: word_less_nat_alt val simp flip: m_def split: if_splits)
  qed
  show ?thesis
  proof (cases "compact_negative bits \<or> (if m = 0 then 34 < e else U256_LIMIT \<le> compact_value bits)")
    case True
    then have "compact_to_target bits = replicate 32 0"
      using over neg unfolding compact_to_target_def Let_def e_def [symmetric] by (simp only: simp_thms if_True)
    moreover have "compact_value bits = 0" if "m = 0" using that by (simp add: val)
    ultimately show ?thesis using True zero by (cases "m = 0") simp_all
  next
    case False
    have "compact_to_target bits =
        (if e \<le> 3 then place_low e (compact_mantissa bits)
         else place_high (e - 3) (compact_mantissa bits))"
      using False over neg unfolding compact_to_target_def Let_def e_def [symmetric]
      by (simp only: simp_thms if_False)
    also have "\<dots> = nat_to_le 32 (compact_value bits)"
      unfolding place_low_eq [OF unat_mantissa_less] place_high_eq [OF unat_mantissa_less] val
      by (cases "e \<le> 3") (simp_all only: m_def if_True if_False)
    finally have eq: "compact_to_target bits = nat_to_le 32 (compact_value bits)" .
    have "\<not> U256_LIMIT \<le> compact_value bits"
    proof (cases "m = 0")
      case True
      then have "compact_value bits = 0" by (simp add: val)
      then show ?thesis by (simp add: U256_LIMIT_def)
    qed (use False in simp)
    with False have "\<not> (compact_negative bits \<or> U256_LIMIT \<le> compact_value bits)" by blast
    then show ?thesis unfolding eq by (simp only: if_False)
  qed
qed

text \<open>
  C23.  Decoding a compact target yields exactly the number the encoding denotes.  The result is the
  all-zero target precisely when the sign bit is set, the number does not fit 256 bits, or the
  number is zero.
\<close>

theorem compact_to_target_value:
  "le_to_nat (compact_to_target bits) =
     (if compact_negative bits \<or> U256_LIMIT \<le> compact_value bits then 0 else compact_value bits)"
  unfolding compact_to_target_eq le_to_nat_nat_to_le U256_LIMIT_pow [symmetric] by simp

section \<open>Floating point targets\<close>

text \<open>Taking a multiple of \<open>2 ^ c\<close> off a number with the exponent \<open>e \<le> c\<close> keeps it representable.\<close>

lemma sub_multiple:
  assumes v: "v = of_int m * (2 :: rat) powi e" and e: "e \<le> int c"
    and le: "of_int k * 2 ^ c \<le> v" and k: "0 \<le> k"
  obtains m' where "v - of_int k * 2 ^ c = of_int m' * 2 powi e" "0 \<le> m'" "m' \<le> m"
proof -
  define d where "d = nat (int c - e)"
  have "(2 :: rat) ^ c = 2 powi (int d + e)" using e by (simp add: d_def flip: power_int_of_nat)
  then have c: "(2 :: rat) ^ c = 2 ^ d * 2 powi e" by (simp add: two_powi_add)
  define m' where "m' = m - k * 2 ^ d"
  have eq: "v - of_int k * 2 ^ c = of_int m' * 2 powi e"
    by (simp add: v c m'_def left_diff_distrib mult.assoc)
  have "0 \<le> of_int m' * (2 :: rat) powi e" using le eq by simp
  then have "0 \<le> m'"
    using two_powi_pos [of e] by (simp only: zero_le_mult_iff) (auto simp: not_le [symmetric])
  moreover have "m' \<le> m" using k by (simp add: m'_def)
  ultimately show thesis using that eq by blast
qed

lemma floor_rem_256:
  fixes v :: rat
  assumes "0 \<le> v"
  shows "\<lfloor>v - of_int \<lfloor>v / 256\<rfloor> * 256\<rfloor> = \<lfloor>v\<rfloor> mod 256" "\<lfloor>v / 256\<rfloor> = \<lfloor>v\<rfloor> div 256"
proof -
  have b: "of_int \<lfloor>v / 256\<rfloor> \<le> v / 256" "v / 256 < of_int \<lfloor>v / 256\<rfloor> + 1"
    using floor_correct [of "v / 256"] by simp_all
  have fl: "\<lfloor>v - of_int \<lfloor>v / 256\<rfloor> * 256\<rfloor> = \<lfloor>v\<rfloor> - \<lfloor>v / 256\<rfloor> * 256"
    using floor_diff_of_int [of v "\<lfloor>v / 256\<rfloor> * 256"] by simp
  have "0 \<le> \<lfloor>v - of_int \<lfloor>v / 256\<rfloor> * 256\<rfloor>" "\<lfloor>v - of_int \<lfloor>v / 256\<rfloor> * 256\<rfloor> < 256"
    using b by (simp_all add: floor_less_iff)
  then have "\<lfloor>v\<rfloor> div 256 = \<lfloor>v / 256\<rfloor>" unfolding fl by linarith
  then show "\<lfloor>v / 256\<rfloor> = \<lfloor>v\<rfloor> div 256" by simp
  with fl show "\<lfloor>v - of_int \<lfloor>v / 256\<rfloor> * 256\<rfloor> = \<lfloor>v\<rfloor> mod 256"
    by (simp add: minus_div_mult_eq_mod)
qed

text \<open>One turn of the loop of \<open>f64_to_target\<close> is exact while the exponent leaves room.\<close>

lemma f64_to_target_step:
  assumes v: "v = of_int m * 2 powi e" and m: "0 \<le> m" "m \<le> 2 ^ 53" and e: "- 1066 \<le> e"
    and lim: "v < F64_LIMIT"
  defines "b \<equiv> nat (\<lfloor>v\<rfloor> mod 256)"
  obtains m' where "f64_to_uint 255 (f64_rem (Finite v) (Finite 256)) = b"
    "f64_div (f64_sub (Finite v) (f64_of_nat b)) (Finite 256) = Finite (of_int m' * 2 powi (e - 8))"
    "0 \<le> m'" "m' \<le> 2 ^ 53" "of_int m' * 2 powi (e - 8) < F64_LIMIT"
    "\<lfloor>of_int m' * (2 :: rat) powi (e - 8)\<rfloor> = \<lfloor>v\<rfloor> div 256"
proof -
  have v0: "0 \<le> v" using v m by simp
  define k where "k = \<lfloor>v / 256\<rfloor>"
  define r where "r = v - of_int k * 256"
  have k0: "0 \<le> k" using v0 by (simp add: k_def)
  have kb: "of_int k \<le> v / 256" "v / 256 < of_int k + 1"
    unfolding k_def using floor_correct [of "v / 256"] by simp_all
  have r: "0 \<le> r" "r < 256" "r \<le> v" using kb k0 by (simp_all add: r_def)
  have flr: "\<lfloor>r\<rfloor> = \<lfloor>v\<rfloor> mod 256" using floor_rem_256(1) [OF v0] by (simp add: r_def k_def)
  then have b: "b = nat \<lfloor>r\<rfloor>" "b < 256" by (simp_all add: b_def)
  have bfl: "of_nat b = (of_int \<lfloor>r\<rfloor> :: rat)" using r(1) by (simp add: b(1))
  obtain mr where mr: "r = of_int mr * 2 powi e" "0 \<le> mr" "mr \<le> m"
  proof (cases "e \<le> 8")
    case True
    then show thesis
      using sub_multiple [OF v, of 8 k] kb(1) k0 that by (force simp: r_def)
  next
    case False
    then have "v / 256 = of_int m * 2 powi (e - 8)" by (simp add: v power_int_diff)
    also have "\<dots> = of_int (m * 2 ^ nat (e - 8))" using False by (simp add: power_int_nonneg_exp)
    finally have "of_int k = v / 256" unfolding k_def by (simp only: floor_of_int)
    then have "r = 0" by (simp add: r_def)
    then show thesis using that [of 0] m(1) by simp
  qed
  have "f64_rep r" using mr m(2) e r(3) lim by (intro f64_repI [of r mr e]) simp_all
  then have byte: "f64_to_uint 255 (f64_rem (Finite v) (Finite 256)) = b"
    using f64_rem_exact [of v 256] v0 b by (simp add: r_def k_def f64_to_uint_def)
  obtain m' where m': "v - of_nat b = of_int m' * 2 powi e" "0 \<le> m'" "m' \<le> m"
  proof (cases "e \<le> 0")
    case True
    have "of_int \<lfloor>r\<rfloor> \<le> v" using r by (meson of_int_floor_le order_trans)
    then show thesis
      using sub_multiple [OF v, of 0 "\<lfloor>r\<rfloor>"] True r(1) that by (force simp: bfl)
  next
    case False
    then have "r = of_int (mr * 2 ^ nat e)" by (simp add: mr(1) power_int_nonneg_exp)
    then have "of_nat b = r" by (simp only: bfl floor_of_int)
    then have "v - of_nat b = of_int (m - mr) * 2 powi e" by (simp add: v mr(1) left_diff_distrib)
    then show thesis using that [of "m - mr"] mr by simp
  qed
  have quot: "(v - of_nat b) / 256 = of_int m' * 2 powi (e - 8)"
    by (simp add: m'(1) power_int_diff)
  have vb: "0 \<le> v - of_nat b" "v - of_nat b \<le> v" using m' by simp_all
  have lim': "v - of_nat b < F64_LIMIT" "(v - of_nat b) / 256 < F64_LIMIT"
    using vb lim by simp_all
  have "f64_rep (v - of_nat b)"
    using m' m(2) e lim'(1) by (intro f64_repI [of _ m' e]) simp_all
  moreover have "f64_rep ((v - of_nat b) / 256)"
    using m' m(2) e lim'(2) quot by (intro f64_repI [of _ m' "e - 8"]) simp_all
  ultimately have "f64_div (f64_sub (Finite v) (f64_of_nat b)) (Finite 256) =
      Finite ((v - of_nat b) / 256)"
    using b(2) vb(1) by (simp add: f64_of_nat_exact f64_sub_exact f64_div_exact)
  moreover have "\<lfloor>(v - of_nat b) / 256\<rfloor> = \<lfloor>v\<rfloor> div 256"
  proof -
    have "\<lfloor>v - of_nat b\<rfloor> = \<lfloor>v\<rfloor> - \<lfloor>v\<rfloor> mod 256"
      using floor_diff_of_int [of v "\<lfloor>r\<rfloor>"] by (simp add: bfl flr)
    moreover have "(\<lfloor>v\<rfloor> - \<lfloor>v\<rfloor> mod 256) div 256 = \<lfloor>v\<rfloor> div 256"
      by (simp add: minus_mod_eq_mult_div)
    ultimately show ?thesis using floor_rem_256(2) [OF vb(1)] by simp
  qed
  ultimately show thesis
    using that [of m'] byte m' m(2) lim'(2) unfolding quot by simp
qed

lemma f64_to_target_loop_exact:
  "v = of_int m * 2 powi e \<Longrightarrow> 0 \<le> m \<Longrightarrow> m \<le> 2 ^ 53 \<Longrightarrow> 8 * int n - 1074 \<le> e \<Longrightarrow>
    v < F64_LIMIT \<Longrightarrow> f64_to_target_loop n (Finite v) = nat_to_le n (nat \<lfloor>v\<rfloor>)"
proof (induction n arbitrary: v m e)
  case 0
  then show ?case by simp
next
  case (Suc n)
  then have e: "- 1066 \<le> e" by simp
  have v0: "0 \<le> \<lfloor>v\<rfloor>" using Suc.prems by simp
  obtain m' where step: "f64_to_uint 255 (f64_rem (Finite v) (Finite 256)) = nat (\<lfloor>v\<rfloor> mod 256)"
    "f64_div (f64_sub (Finite v) (f64_of_nat (nat (\<lfloor>v\<rfloor> mod 256)))) (Finite 256) =
      Finite (of_int m' * 2 powi (e - 8))"
    "0 \<le> m'" "m' \<le> 2 ^ 53" "of_int m' * 2 powi (e - 8) < F64_LIMIT"
    "\<lfloor>of_int m' * (2 :: rat) powi (e - 8)\<rfloor> = \<lfloor>v\<rfloor> div 256"
    by (rule f64_to_target_step [OF Suc.prems(1-3) e Suc.prems(5)])
  have "f64_to_target_loop n (Finite (of_int m' * 2 powi (e - 8))) =
      nat_to_le n (nat (\<lfloor>v\<rfloor> div 256))"
    using Suc.IH [OF refl step(3,4) _ step(5)] Suc.prems(4) by (simp only: step(6)) simp
  moreover have "nat (\<lfloor>v\<rfloor> mod 256) = nat \<lfloor>v\<rfloor> mod 256" "nat (\<lfloor>v\<rfloor> div 256) = nat \<lfloor>v\<rfloor> div 256"
    using v0 by (simp_all add: nat_mod_distrib nat_div_distrib)
  moreover have "f64_to_target_loop (Suc n) (Finite v) = of_nat (nat (\<lfloor>v\<rfloor> mod 256)) #
      f64_to_target_loop n (Finite (of_int m' * 2 powi (e - 8)))"
    by (simp only: f64_to_target_loop.simps Let_def step(1,2))
  ultimately show ?case by simp
qed

lemma nat_to_le_0: "nat_to_le n 0 = replicate n 0"
  by (induction n) simp_all

lemma f64_to_target_loop_small:
  "f64_rep q \<Longrightarrow> 0 \<le> q \<Longrightarrow> q < 1 \<Longrightarrow> f64_to_target_loop n (Finite q) = replicate n 0"
proof (induction n arbitrary: q)
  case 0
  then show ?case by simp
next
  case (Suc n)
  have "\<lfloor>q / 256\<rfloor> = 0" "nat \<lfloor>q\<rfloor> = 0" using Suc.prems by (simp_all add: floor_eq_iff)
  then have "f64_to_uint 255 (f64_rem (Finite q) (Finite 256)) = 0"
    using f64_rem_exact [of q 256] Suc.prems by (simp add: f64_to_uint_def)
  moreover have "f64_sub (Finite q) (f64_of_nat 0) = Finite q"
    using f64_sub_exact [of q 0] Suc.prems by (simp add: f64_of_nat_def)
  moreover obtain p where "f64_div (Finite q) (Finite 256) = Finite p" "f64_rep p" "0 \<le> p" "p < 1"
  proof (cases "q = 0")
    case True
    then show thesis using that [of 0] f64_div_exact [of q 256] by simp
  next
    case False
    then have q: "0 < q" "0 < q / 256" using Suc.prems by simp_all
    then have le: "f64_le (f64_round (q / 256)) (Finite q)"
      using Suc.prems by (intro f64_round_le) simp_all
    have "f64_div (Finite q) (Finite 256) = f64_round (q / 256)"
      using q by (simp add: f64_div_def f64_is_zero_def Let_def)
    with le q(2) Suc.prems(3) that show thesis
      by (cases rule: f64_round_pos_cases [OF q(2)]) (simp_all add: f64_le_def)
  qed
  ultimately show ?case using Suc.IH by (simp add: Let_def)
qed

lemma f64_to_target_eq:
  assumes "f64_rep q" "0 \<le> q"
  shows "f64_to_target (Finite q) = nat_to_le 32 (nat \<lfloor>q\<rfloor>)"
proof (cases "q < 1")
  case True
  then have "nat \<lfloor>q\<rfloor> = 0" using assms by (simp add: floor_eq_iff)
  then show ?thesis
    using f64_to_target_loop_small [OF assms True] by (simp add: f64_to_target_def nat_to_le_0)
next
  case False
  obtain m where m: "q = of_int m * 2 powi ulp_exp q" "0 \<le> m" "m \<le> 2 ^ 53"
    using assms by (rule f64_repE)
  have "(2 :: rat) powi 0 < 2 powi (ilog2 q + 1)" using ilog2_bounds(2) [of q] False by simp
  then have "0 \<le> ilog2 q" using two_powi_less_imp_less by fastforce
  then have "- 52 \<le> ulp_exp q" by (simp add: ulp_exp_def)
  moreover have "q < F64_LIMIT" using assms False by (auto simp: f64_rep_def)
  ultimately show ?thesis
    using f64_to_target_loop_exact [OF m, of 32] by (simp add: f64_to_target_def)
qed

text \<open>
  Writing a floating point number as a target is exact: whatever representable number of at
  least zero the loop of remainders and divisions starts from, the 32 bytes are the number rounded
  down, modulo \<open>2 ^ 256\<close>.  No turn of the loop loses a bit to rounding.
\<close>

theorem f64_to_target_exact:
  assumes "f64_wf (Finite q)" "0 \<le> q"
  shows "le_to_nat (f64_to_target (Finite q)) = nat \<lfloor>q\<rfloor> mod U256_LIMIT"
  using assms by (simp only: f64_wf.simps f64_to_target_eq le_to_nat_nat_to_le U256_LIMIT_pow)

theorem f64_to_target_exact_witness:
  "f64_wf (Finite (5 / 2)) \<and> le_to_nat (f64_to_target (Finite (5 / 2))) = 2"
proof -
  have "f64_rep (5 / 2)"
    using F64_LIMIT_pow [of 2]
    by (intro f64_repI [of _ 5 "- 1"]) (simp_all add: power_int_minus)
  then have wf: "f64_wf (Finite (5 / 2))" by simp
  have "\<lfloor>5 / 2 :: rat\<rfloor> = 2" by (simp add: floor_eq_iff)
  then show ?thesis using f64_to_target_exact [OF wf] wf by (simp add: U256_LIMIT_def)
qed

section \<open>Monotone conversions\<close>

text \<open>
  Reading the bytes from the top, every number up to \<open>2 ^ 53\<close> is exact; from there on a further
  byte is below half a unit in the last place and only scales the number by 256.
\<close>

definition big :: rat where
  "big = 2 ^ 53"

lemma round_above_big:
  assumes "f64_rep x" "big \<le> x" "0 \<le> b" "b < 256"
  shows "round_mag (x * 256 + b) = x * 256"
proof -
  define u where "u = ulp_exp x"
  have x0: "0 < x" using assms(2) by (simp add: big_def)
  have "2 powi 53 < (2 :: rat) powi (ilog2 x + 1)"
    using ilog2_bounds(2) [OF x0] assms(2) by (simp add: big_def)
  then have il: "53 \<le> ilog2 x" using two_powi_less_imp_less by fastforce
  then have u: "u = ilog2 x - 52" "1 \<le> u" by (simp_all add: u_def ulp_exp_def)
  obtain m where m: "x = of_int m * 2 powi u"
    using f64_repE [OF assms(1)] x0 unfolding u_def by (metis less_imp_le)
  have unit: "(512 :: rat) \<le> 2 powi (u + 8)"
    using two_powi_mono [of 9 "u + 8"] u(2) by simp
  have scale: "x * 256 = of_int m * 2 powi (u + 8)" by (simp add: m two_powi_add)
  have top256: "(2 :: rat) powi (ilog2 x + 1) = of_int (2 ^ 53) * 2 powi u"
    using two_powi_add [of 53 u] by (simp add: u(1) add.commute)
  have "of_int m * 2 powi u < of_int (2 ^ 53) * (2 :: rat) powi u"
    using ilog2_bounds(2) [OF x0] by (simp only: top256 m [symmetric])
  then have "(of_int m :: rat) < of_int (2 ^ 53)" by (simp only: mult_less_cancel_right_pos two_powi_pos)
  then have "m + 1 \<le> 2 ^ 53" by (simp only: of_int_less_iff)
  then have m1: "(of_int (m + 1) :: rat) \<le> of_int (2 ^ 53)" by (simp only: of_int_le_iff)
  have less: "x * 256 + b < 2 powi (ilog2 x + 9)"
  proof -
    have "x * 256 + b < of_int (m + 1) * 2 powi (u + 8)"
      using assms(4) unit by (simp add: scale algebra_simps)
    also have "\<dots> \<le> of_int (2 ^ 53) * 2 powi (u + 8)" using m1 by (rule mult_right_mono) simp
    also have "\<dots> = 2 powi (ilog2 x + 9)" using two_powi_add [of 53 "u + 8"] by (simp add: u(1) add.commute)
    finally show ?thesis .
  qed
  have ge: "2 powi (ilog2 x + 8) \<le> x * 256 + b"
    using ilog2_bounds(1) [OF x0] assms(3) by (simp add: two_powi_add)
  define y where "y = x * 256 + b"
  have y0: "0 < y" using x0 assms(3) by (simp add: y_def)
  have "ilog2 y < ilog2 x + 9" using less y0 by (simp add: ilog2_less y_def)
  moreover have "ilog2 x + 8 \<le> ilog2 y"
    using ge ilog2_bounds(2) [OF y0] two_powi_less_imp_less [of "ilog2 x + 8" "ilog2 y + 1"]
    by (simp add: y_def)
  ultimately have ue: "ulp_exp y = u + 8" using il by (simp add: ulp_exp_def u(1))
  have "y / 2 powi (u + 8) = of_int m + b / 2 powi (u + 8)"
    by (simp add: y_def scale add_divide_distrib)
  moreover have "b / 2 powi (u + 8) < 1 / 2" "0 \<le> b / 2 powi (u + 8)"
    using assms(3,4) unit by (simp_all add: field_simps)
  ultimately have "rne (y / 2 powi (u + 8)) = m" by (simp add: rne_add_small)
  then have "round_mag y = x * 256" by (simp add: round_mag_def ue scale)
  then show ?thesis by (simp only: y_def)
qed

lemma round_mag_0 [simp]: "round_mag 0 = 0"
  using rne_of_int [of 0] by (simp add: round_mag_def)

lemma round_mag_small_int:
  assumes "s = of_int n" "0 \<le> s" "s < big"
  shows "round_mag s = s"
proof -
  have "(of_int n :: rat) < of_int (2 ^ 53)" using assms by (simp add: big_def)
  then have "n \<le> 2 ^ 53" "0 \<le> n" using assms(1,2) by (simp_all only: of_int_less_iff of_int_0_le_iff less_imp_le)
  then show ?thesis using f64_rep_of_int [of n] assms(1,2) by (auto simp: f64_rep_def)
qed

lemma round_mag_big: "big \<le> s \<Longrightarrow> big \<le> round_mag s"
  using round_mag_mono [of big s] f64_rep_pow2 [of 53] by (auto simp: big_def f64_rep_def)

text \<open>Rounding may merge two integers only from \<open>2 ^ 53\<close> on.\<close>

lemma round_mag_merge:
  assumes "s = of_int n" "t = of_int k" "0 \<le> s" "s < t" "round_mag s = round_mag t"
  shows "big \<le> round_mag s"
proof (rule ccontr)
  assume "\<not> big \<le> round_mag s"
  then have "s < big" "t < big" using round_mag_big [of s] round_mag_big [of t] assms(5) by fastforce+
  then have "round_mag s = s" "round_mag t = t"
    using round_mag_small_int [OF assms(1)] round_mag_small_int [OF assms(2)] assms(3,4) by simp_all
  with assms(4,5) show False by simp
qed

lemma round_mag_less:
  assumes "s = of_int n" "t = of_int k" "0 \<le> s" "s < t"
  shows "round_mag s < round_mag t \<or> (round_mag s = round_mag t \<and> big \<le> round_mag s)"
proof -
  have "round_mag s \<le> round_mag t"
    using assms(3,4) round_mag_mono [of s t] round_mag_nonneg [of t] by (cases "s = 0") simp_all
  then show ?thesis using round_mag_merge [OF assms] by fastforce
qed

definition prefix_val :: "nat \<Rightarrow> rat \<Rightarrow> bool" where
  "prefix_val k x \<longleftrightarrow> f64_rep x \<and> 0 \<le> x \<and> x \<le> 2 ^ (9 * k) \<and> (\<exists>n. x = of_int n)"

lemma prefix_step:
  assumes x: "prefix_val k x" and k: "k < 32" and b: "b < 256"
  shows "f64_add (f64_mul (Finite x) (Finite 256)) (f64_of_nat b) =
      Finite (round_mag (x * 256 + of_nat b))" (is ?step)
    and "prefix_val (Suc k) (round_mag (x * 256 + of_nat b))" (is ?inv)
proof -
  have rep: "f64_rep x" and x0: "0 \<le> x" and le: "x \<le> 2 ^ (9 * k)"
    using x by (auto simp: prefix_val_def)
  obtain n where n: "x = of_int n" using x by (auto simp: prefix_val_def)
  define s where "s = x * 256 + of_nat b"
  have s_int: "s = of_int (n * 256 + int b)" by (simp add: s_def n)
  have "(of_nat b :: rat) \<le> 256" using b by simp
  moreover have "(1 :: rat) \<le> 2 ^ (9 * k)" by simp
  ultimately have "s \<le> 512 * 2 ^ (9 * k)" using le unfolding s_def by linarith
  then have s_le: "s \<le> 2 ^ (9 * Suc k)" by (simp add: power_add)
  have s0: "0 \<le> s" "x * 256 \<le> s" using x0 by (simp_all add: s_def)
  have lim: "s < F64_LIMIT" using s_le k by (intro F64_LIMIT_le [of _ "9 * Suc k"]) simp_all
  obtain m where m: "x = of_int m * 2 powi ulp_exp x" "0 \<le> m" "m \<le> 2 ^ 53"
    using rep x0 by (rule f64_repE)
  have "x * 256 = of_int m * 2 powi (ulp_exp x + 8)"
    using m(1) by (simp add: two_powi_add)
  then have "f64_rep (x * 256)"
    using m(2,3) ulp_exp_ge [of x] lim s0 by (intro f64_repI [of _ m "ulp_exp x + 8"]) simp_all
  then have "f64_add (f64_mul (Finite x) (Finite 256)) (f64_of_nat b) =
      f64_add (Finite (x * 256)) (Finite (of_nat b))"
    using x0 b by (simp add: f64_mul_exact f64_of_nat_exact)
  also have "\<dots> = (if s = 0 then Finite 0 else f64_round s)"
    by (simp add: f64_add_finite s_def Let_def f64_zero_def)
  finally have sum: "f64_add (f64_mul (Finite x) (Finite 256)) (f64_of_nat b) =
      (if s = 0 then Finite 0 else f64_round s)" .
  have rounded: "(if s = 0 then Finite 0 else f64_round s) = Finite (round_mag s)" and inv: ?inv
  proof -
    have up: "round_mag s \<le> 2 ^ (9 * Suc k)" if "s \<noteq> 0"
      using round_mag_mono [of s "2 ^ (9 * Suc k)"] f64_rep_pow2 [of "9 * Suc k"] that s0 s_le k
      by (simp add: f64_rep_def)
    then have lim': "round_mag s < F64_LIMIT" if "s \<noteq> 0"
      using that k by (intro F64_LIMIT_le [of _ "9 * Suc k"]) simp_all
    then show eq: "(if s = 0 then Finite 0 else f64_round s) = Finite (round_mag s)"
      using s0 by (cases "s = 0") (auto simp: f64_round_def Let_def)
    have "f64_rep (round_mag s)"
      using f64_wf_round [of s] eq by (cases "s = 0") (simp_all del: f64_wf_round)
    moreover have "\<exists>n. round_mag s = of_int n"
    proof (cases "s = 0")
      case False
      with s0 have "1 \<le> n * 256 + int b" unfolding s_int by linarith
      then have "1 \<le> s" unfolding s_int by linarith
      then show ?thesis using round_mag_integer [of s] s_int by blast
    qed (auto intro: exI [of _ 0])
    ultimately show ?inv
      using up round_mag_nonneg [OF s0(1)] unfolding prefix_val_def s_def [symmetric]
      by (cases "s = 0") simp_all
  qed
  show ?step using trans [OF sum rounded] unfolding s_def .
  show ?inv by (rule inv)
qed

lemma of_nat_u8_less: "of_nat (unat (b :: u8)) < (256 :: rat)"
  using unat_u8_less [of b] by (metis of_nat_less_iff of_nat_numeral)

lemma round_byte_big:
  "f64_rep x \<Longrightarrow> big \<le> x \<Longrightarrow> round_mag (x * 256 + of_nat (unat (b :: u8))) = x * 256"
  by (rule round_above_big) (simp_all only: of_nat_0_le_iff of_nat_u8_less)

lemma target_to_f64_loop_big:
  "prefix_val k x \<Longrightarrow> k + i \<le> 32 \<Longrightarrow> big \<le> x \<Longrightarrow>
    target_to_f64_loop i t (Finite x) = Finite (x * 256 ^ i)"
proof (induction i arbitrary: k x)
  case 0
  then show ?case by simp
next
  case (Suc i)
  have step: "round_mag (x * 256 + of_nat (unat (t ! i))) = x * 256"
    using Suc.prems(1,3) by (simp only: round_byte_big prefix_val_def)
  have "prefix_val (Suc k) (x * 256)"
    using prefix_step(2) [of k x "unat (t ! i)"] Suc.prems step by simp
  moreover have "big \<le> x * 256" using Suc.prems(3) by (simp add: big_def)
  ultimately have "target_to_f64_loop i t (Finite (x * 256)) = Finite (x * 256 * 256 ^ i)"
    using Suc by simp
  with prefix_step(1) [of k x "unat (t ! i)"] Suc.prems step show ?case by (simp add: mult.assoc)
qed

lemma target_to_f64_loop_mono:
  "prefix_val k x \<Longrightarrow> prefix_val k y \<Longrightarrow> k + i \<le> 32 \<Longrightarrow> i \<le> length a \<Longrightarrow> i \<le> length b \<Longrightarrow>
    x < y \<or> (x = y \<and> (big \<le> x \<or> le_to_nat (take i a) \<le> le_to_nat (take i b))) \<Longrightarrow>
    \<exists>p q. target_to_f64_loop i a (Finite x) = Finite p \<and> target_to_f64_loop i b (Finite y) = Finite q
      \<and> prefix_val (k + i) p \<and> prefix_val (k + i) q \<and> p \<le> q"
proof (induction i arbitrary: k x y)
  case 0
  then show ?case by auto
next
  case (Suc i)
  define ba where "ba = unat (a ! i)"
  define bb where "bb = unat (b ! i)"
  have bytes: "ba < 256" "bb < 256" by (simp_all add: ba_def bb_def)
  define s where "s = x * 256 + of_nat ba"
  define t where "t = y * 256 + of_nat bb"
  have k: "k < 32" using Suc.prems(3) by simp
  note sx = prefix_step [OF Suc.prems(1) k bytes(1), folded s_def]
  note sy = prefix_step [OF Suc.prems(2) k bytes(2), folded t_def]
  obtain n1 n2 where n: "x = of_int n1" "y = of_int n2" "0 \<le> x" "0 \<le> y"
    using Suc.prems(1,2) by (auto simp: prefix_val_def)
  have ints: "s = of_int (n1 * 256 + int ba)" "t = of_int (n2 * 256 + int bb)" "0 \<le> s" "0 \<le> t"
    using n by (simp_all add: s_def t_def)
  have next_rel: "round_mag s < round_mag t \<or> (round_mag s = round_mag t \<and>
      (big \<le> round_mag s \<or> le_to_nat (take i a) \<le> le_to_nat (take i b)))"
  proof (cases "s < t")
    case True
    with round_mag_less [OF ints(1-3)] show ?thesis by blast
  next
    case False
    then have "\<not> x < y" unfolding ints n of_int_less_iff using bytes by linarith
    with Suc.prems(6) have xy: "x = y"
      "big \<le> x \<or> le_to_nat (take (Suc i) a) \<le> le_to_nat (take (Suc i) b)" by auto
    show ?thesis
    proof (cases "big \<le> x")
      case True
      then have "round_mag s = x * 256" "round_mag t = x * 256"
        using Suc.prems(1) xy(1)
        by (simp_all only: s_def t_def ba_def bb_def prefix_val_def round_byte_big)
      moreover have "big \<le> x * 256" using True by (simp add: big_def)
      ultimately show ?thesis by simp
    next
      case small: False
      from False xy(1) have "bb \<le> ba" by (simp add: s_def t_def)
      moreover have "\<not> b ! i < a ! i"
        using take_Suc_digits(1) [of i b a] Suc.prems(4,5) xy(2) small by auto
      ultimately have "a ! i = b ! i" by (simp add: ba_def bb_def word_less_nat_alt word_unat_eq_iff)
      then show ?thesis
        using take_Suc_digits(2) [of i a b] Suc.prems(4,5) xy small
        by (simp add: s_def t_def ba_def bb_def)
    qed
  qed
  show ?case
    using Suc.IH [OF sx(2) sy(2) _ _ _ next_rel] Suc.prems(3-5) sx(1) sy(1)
    by (simp add: ba_def bb_def)
qed

lemma target_to_f64_mono:
  assumes "length a = 32" "length b = 32" "le_to_nat a \<le> le_to_nat b"
  shows "\<exists>p q. target_to_f64 a = Finite p \<and> target_to_f64 b = Finite q \<and>
    prefix_val 32 p \<and> prefix_val 32 q \<and> p \<le> q"
  using target_to_f64_loop_mono [of 0 0 0 32 a b] assms
  by (simp add: target_to_f64_def prefix_val_def)

lemma target_to_f64_finite:
  "length a = 32 \<Longrightarrow> \<exists>p. target_to_f64 a = Finite p \<and> prefix_val 32 p"
  using target_to_f64_mono [of a a] by auto

text \<open>
  The difficulty of a target never rises with the target.  Of two targets compared as 256 bit
  numbers the smaller one has at least the difficulty of the larger one, in spite of the rounding in
  both conversions.  The zero target has infinite difficulty.
\<close>

theorem target_to_difficulty_antitone:
  assumes "length a = 32" "length b = 32" "length m = 32" "le_to_nat a \<le> le_to_nat b"
  shows "f64_le (target_to_difficulty_with_max b m) (target_to_difficulty_with_max a m)"
proof -
  obtain p q where pq: "target_to_f64 a = Finite p" "target_to_f64 b = Finite q" "0 \<le> p" "p \<le> q"
    using target_to_f64_mono [OF assms(1,2,4)] by (auto simp: prefix_val_def)
  obtain r where r: "target_to_f64 m = Finite r" "0 \<le> r"
    using target_to_f64_finite [OF assms(3)] by (auto simp: prefix_val_def)
  show ?thesis
  proof (cases "p = 0 \<or> r = 0")
    case True
    then show ?thesis
      using pq r f64_le_round_nonneg [of "r / q"]
      by (auto simp: target_to_difficulty_with_max_def Let_def f64_div_def f64_is_zero_def
          f64_zero_def split: if_splits)
  next
    case False
    then have "0 < p" "0 < r" using pq r by simp_all
    then have "0 < r / q" "r / q \<le> r / p" using pq by (simp_all add: frac_le)
    with f64_round_mono [of "r / q" "r / p"] show ?thesis
      using pq r \<open>0 < p\<close> \<open>0 < r\<close>
      by (simp add: target_to_difficulty_with_max_def Let_def f64_div_def f64_is_zero_def)
  qed
qed

theorem target_to_difficulty_antitone_witness:
  "f64_le (target_to_difficulty_with_max mainnet_pow_limit max_mainnet)
     (target_to_difficulty_with_max max_mainnet max_mainnet)"
proof -
  have "is_met_by mainnet_pow_limit max_mainnet" by code_simp
  then have "le_to_nat max_mainnet \<le> le_to_nat mainnet_pow_limit"
    by (simp add: is_met_by_iff max_mainnet_def mainnet_pow_limit_def)
  then show ?thesis
    using target_to_difficulty_antitone [of max_mainnet mainnet_pow_limit max_mainnet]
    by (simp add: max_mainnet_def mainnet_pow_limit_def)
qed

lemma le_to_nat_le_ones: "length bs = n \<Longrightarrow> le_to_nat bs \<le> le_to_nat (replicate n 0xff)"
proof (induction bs arbitrary: n)
  case (Cons b bs)
  then obtain k where "n = Suc k" "le_to_nat bs \<le> le_to_nat (replicate k 0xff)" by (cases n) auto
  moreover have "unat b \<le> 255" using unat_u8_less [of b] by linarith
  ultimately show ?case by simp
qed simp

lemma length_f64_to_target_loop [simp]: "length (f64_to_target_loop n v) = n"
  by (induction n arbitrary: v) (simp_all add: Let_def)

lemma length_difficulty_to_target:
  "length m = 32 \<Longrightarrow> length (difficulty_to_target_with_max d m) = 32"
  by (simp add: difficulty_to_target_with_max_def Let_def f64_to_target_def)

text \<open>The last step of \<open>difficulty_to_target\<close>: saturation, then the conversion to bytes.\<close>

lemma two_256: "(2 :: rat) ^ 256 = of_int (int U256_LIMIT)"
  by (simp add: U256_LIMIT_def)

definition saturated_target :: "f64 \<Rightarrow> Target" where
  "saturated_target x =
     (if f64_le (Finite (2 ^ 256)) x then replicate 32 0xff else f64_to_target x)"

lemma saturated_target_below:
  assumes "f64_rep p" "0 \<le> p" "p < of_int (int U256_LIMIT)"
  shows "le_to_nat (saturated_target (Finite p)) = nat \<lfloor>p\<rfloor>"
proof -
  have "\<not> f64_le (Finite (2 ^ 256)) (Finite p)" using assms(3) unfolding two_256 by simp
  moreover have "nat \<lfloor>p\<rfloor> < U256_LIMIT"
    using assms(2) floor_less_iff [of p "int U256_LIMIT"] assms(3) by (simp add: nat_less_iff)
  ultimately show ?thesis
    unfolding saturated_target_def f64_to_target_eq [OF assms(1,2)]
    by (simp only: if_False le_to_nat_nat_to_le U256_LIMIT_pow [symmetric] mod_less)
qed

lemma saturated_target_mono:
  assumes "0 < a" "a \<le> b"
  shows "le_to_nat (saturated_target (f64_round a)) \<le> le_to_nat (saturated_target (f64_round b))"
proof (cases "f64_le (Finite (2 ^ 256)) (f64_round b)")
  case True
  have "le_to_nat (saturated_target (f64_round a)) \<le> le_to_nat (replicate 32 0xff)"
    by (rule le_to_nat_le_ones) (simp add: saturated_target_def f64_to_target_def)
  with True show ?thesis by (simp only: saturated_target_def if_True)
next
  case False
  have le: "f64_le (f64_round a) (f64_round b)" using assms by (rule f64_round_mono)
  have b0: "0 < b" using assms by simp
  obtain q where q: "f64_round b = Finite q" "0 \<le> q" "f64_rep q" "q < of_int (int U256_LIMIT)"
    using False unfolding two_256 by (cases rule: f64_round_pos_cases [OF b0]) auto
  obtain p where p: "f64_round a = Finite p" "0 \<le> p" "f64_rep p" "p \<le> q"
    using le unfolding q(1) by (cases rule: f64_round_pos_cases [OF assms(1)]) (auto simp: f64_le_def)
  have "p < of_int (int U256_LIMIT)" using p(4) q(4) by (rule le_less_trans)
  then show ?thesis
    using p q unfolding p(1) q(1)
    by (simp only: saturated_target_below) (simp add: nat_mono floor_mono)
qed

lemma difficulty_to_target_pos:
  assumes "0 < d" "target_to_f64 m = Finite r" "0 \<le> r"
  shows "difficulty_to_target_with_max (Finite d) m =
    saturated_target (if r = 0 then Finite 0 else f64_round (r / d))"
  using assms
  by (auto simp: difficulty_to_target_with_max_def saturated_target_def Let_def f64_div_def
      f64_is_zero_def f64_zero_def simp del: power_numeral)

text \<open>
  A higher difficulty never yields an easier target.  For two positive finite difficulties the
  target of the higher one, as a 256 bit number, is at most the target of the lower one: neither the
  rounding of the division nor the saturation at \<open>2 ^ 256\<close> breaks the order.
\<close>

theorem difficulty_to_target_antitone:
  assumes "length m = 32" "f64_pos d" "f64_pos d'" "f64_le d d'"
  shows "le_to_nat (difficulty_to_target_with_max d' m) \<le> le_to_nat (difficulty_to_target_with_max d m)"
proof -
  obtain x y where d: "d = Finite x" "d' = Finite y" "0 < x" "x \<le> y"
    using assms(2-4) by (auto simp: f64_pos_iff)
  obtain r where r: "target_to_f64 m = Finite r" "0 \<le> r"
    using target_to_f64_finite [OF assms(1)] by (auto simp: prefix_val_def)
  have "0 < r / y \<and> r / y \<le> r / x" if "r \<noteq> 0" using that r(2) d by (simp add: frac_le)
  then show ?thesis
    using d r saturated_target_mono [of "r / y" "r / x"]
    by (cases "r = 0") (simp_all add: difficulty_to_target_pos)
qed

theorem difficulty_to_target_antitone_witness:
  "le_to_nat (difficulty_to_target_with_max (Finite 4) max_mainnet)
     \<le> le_to_nat (difficulty_to_target_with_max (Finite 2) max_mainnet)"
  by (rule difficulty_to_target_antitone) (simp_all add: max_mainnet_def f64_pos_iff)

end
