(* ===== verification/Vardiff.thy ===== *)
theory Vardiff
  imports Difficulty
begin

text \<open>
  The variable difficulty controller, \<open>zcash-equihash-validator/src/vardiff.rs\<close>.  Clock readings
  are arguments.  Literals that are binary fractions are written as their value, the others as
  \<open>f64_lit\<close>.  The lemmas show that validation repairs every configuration, that no operation of
  a controller panics or leaves the configured range, and that an idle miner's difficulty falls
  to the minimum.
\<close>

section \<open>Configuration\<close>

record VardiffConfig =
  vc_target_shares_per_minute :: f64
  vc_initial_difficulty :: f64
  vc_min_difficulty :: f64
  vc_max_difficulty :: f64
  vc_retarget_interval :: duration
  vc_variance_tolerance :: f64
  vc_ramp_threshold :: f64
  vc_dead_zone_lower :: f64
  vc_dead_zone_upper :: f64
  vc_ema_alpha :: f64

definition VardiffConfig_default :: VardiffConfig where
  "VardiffConfig_default =
     \<lparr>vc_target_shares_per_minute = Finite 5, vc_initial_difficulty = Finite 1,
      vc_min_difficulty = Finite 1, vc_max_difficulty = Finite 1000000000,
      vc_retarget_interval = from_secs 60, vc_variance_tolerance = Finite (1 / 4),
      vc_ramp_threshold = Finite 4, vc_dead_zone_lower = f64_lit (4 / 5),
      vc_dead_zone_upper = f64_lit (6 / 5), vc_ema_alpha = f64_lit (3 / 10)\<rparr>"

definition not_positive :: "f64 \<Rightarrow> bool" where
  "not_positive x \<longleftrightarrow> \<not> is_finite x \<or> f64_le x (Finite 0)"

definition not_fraction :: "f64 \<Rightarrow> bool" where
  "not_fraction x \<longleftrightarrow> \<not> is_finite x \<or> f64_le x (Finite 0) \<or> f64_le (Finite 1) x"

definition not_above_one :: "f64 \<Rightarrow> bool" where
  "not_above_one x \<longleftrightarrow> \<not> is_finite x \<or> f64_le x (Finite 1)"

definition validated_difficulties :: "VardiffConfig \<Rightarrow> VardiffConfig" where
  "validated_difficulties c =
     (let c = (if not_positive (vc_target_shares_per_minute c)
               then c\<lparr>vc_target_shares_per_minute := Finite 5\<rparr> else c);
          c = (if vc_retarget_interval c = 0 then c\<lparr>vc_retarget_interval := from_secs 60\<rparr> else c);
          c = (if not_positive (vc_min_difficulty c) then c\<lparr>vc_min_difficulty := Finite 1\<rparr> else c);
          c = (if not_positive (vc_max_difficulty c)
               then c\<lparr>vc_max_difficulty := Finite 1000000000\<rparr> else c)
      in if f64_lt (vc_max_difficulty c) (vc_min_difficulty c)
         then c\<lparr>vc_min_difficulty := vc_max_difficulty c, vc_max_difficulty := vc_min_difficulty c\<rparr>
         else c)"

definition validated_thresholds :: "VardiffConfig \<Rightarrow> VardiffConfig" where
  "validated_thresholds c =
     (let c = (if not_fraction (vc_variance_tolerance c)
               then c\<lparr>vc_variance_tolerance := Finite (1 / 4)\<rparr> else c);
          c = (if not_above_one (vc_ramp_threshold c) then c\<lparr>vc_ramp_threshold := Finite 4\<rparr> else c);
          c = (if not_fraction (vc_dead_zone_lower c)
               then c\<lparr>vc_dead_zone_lower := f64_lit (4 / 5)\<rparr> else c);
          c = (if not_above_one (vc_dead_zone_upper c)
               then c\<lparr>vc_dead_zone_upper := f64_lit (6 / 5)\<rparr> else c);
          c = (if not_fraction (vc_ema_alpha c) then c\<lparr>vc_ema_alpha := f64_lit (3 / 10)\<rparr> else c)
      in if f64_le (vc_dead_zone_upper c) (vc_dead_zone_lower c)
         then c\<lparr>vc_dead_zone_lower := f64_lit (4 / 5), vc_dead_zone_upper := f64_lit (6 / 5)\<rparr>
         else c)"

definition validated :: "VardiffConfig \<Rightarrow> VardiffConfig" where
  "validated c = validated_thresholds (validated_difficulties c)"

section \<open>Controller\<close>

datatype VardiffPhase = RampUp | SteadyState

record VardiffController =
  vd_config :: VardiffConfig
  vd_current_difficulty :: f64
  vd_shares_since_retarget :: u32
  vd_last_retarget :: instant
  vd_window_start :: instant
  vd_phase :: VardiffPhase

definition relative_change_exceeds :: "f64 \<Rightarrow> f64 \<Rightarrow> f64 \<Rightarrow> bool" where
  "relative_change_exceeds current new tolerance =
     (if f64_le current (Finite 0) then \<not> f64_eq new current
      else f64_lt tolerance (f64_abs (f64_sub (f64_div new current) (Finite 1))))"

definition VardiffController_new :: "instant \<Rightarrow> VardiffConfig \<Rightarrow> VardiffController outcome" where
  "VardiffController_new now config =
     (let config = validated config in
      case f64_clamp (vc_initial_difficulty config) (vc_min_difficulty config)
             (vc_max_difficulty config) of
        Panics \<Rightarrow> Panics
      | Returns initial \<Rightarrow> Returns
          \<lparr>vd_config = config, vd_current_difficulty = initial, vd_shares_since_retarget = 0,
           vd_last_retarget = now, vd_window_start = now, vd_phase = RampUp\<rparr>)"

definition current_target :: "VardiffController \<Rightarrow> Target" where
  "current_target self = difficulty_to_target (vd_current_difficulty self)"

definition reset_vardiff_window :: "instant \<Rightarrow> VardiffController \<Rightarrow> VardiffController" where
  "reset_vardiff_window now self =
     self\<lparr>vd_shares_since_retarget := 0, vd_last_retarget := now, vd_window_start := now\<rparr>"

definition clamp_difficulty :: "VardiffConfig \<Rightarrow> f64 \<Rightarrow> f64 outcome" where
  "clamp_difficulty config x = f64_clamp x (vc_min_difficulty config) (vc_max_difficulty config)"

definition set_difficulty ::
  "instant \<Rightarrow> f64 \<Rightarrow> VardiffController \<Rightarrow> VardiffController outcome" where
  "set_difficulty now difficulty self =
     (let safe = (if is_finite difficulty \<and> f64_lt (Finite 0) difficulty then difficulty
                  else vc_min_difficulty (vd_config self)) in
      case clamp_difficulty (vd_config self) safe of
        Panics \<Rightarrow> Panics
      | Returns d \<Rightarrow> Returns (reset_vardiff_window now (self\<lparr>vd_current_difficulty := d\<rparr>)))"

definition vardiff_record_share :: "VardiffController \<Rightarrow> VardiffController" where
  "vardiff_record_share self =
     self\<lparr>vd_shares_since_retarget := vd_shares_since_retarget self + 1\<rparr>"

definition share_rate :: "u32 \<Rightarrow> duration \<Rightarrow> f64" where
  "share_rate shares elapsed =
     (let minutes = f64_div (as_secs_f64 elapsed) (Finite 60) in
      if f64_lt (Finite 0) minutes then f64_div (f64_of_nat (unat shares)) minutes else Finite 0)"

definition early_retarget :: "VardiffController \<Rightarrow> bool" where
  "early_retarget self =
     (let config = vd_config self;
          expected_shares_in_interval = f64_mul (vc_target_shares_per_minute config)
            (f64_div (as_secs_f64 (vc_retarget_interval config)) (Finite 60)) in
      f64_lt (f64_mul (Finite 4) expected_shares_in_interval)
        (f64_of_nat (unat (vd_shares_since_retarget self))))"

text \<open>The phase-dependent adjustment: the new phase and the difficulty before clamping.\<close>

definition adjust :: "VardiffController \<Rightarrow> f64 \<Rightarrow> VardiffPhase \<times> f64" where
  "adjust self ratio =
     (let config = vd_config self; current = vd_current_difficulty self;
          diverged = (f64_lt (vc_ramp_threshold config) ratio
            \<or> f64_lt ratio (f64_div (Finite 1) (vc_ramp_threshold config)));
          raw = f64_mul current ratio;
          smoothed = f64_add (f64_mul (vc_ema_alpha config) raw)
            (f64_mul (f64_sub (Finite 1) (vc_ema_alpha config)) current) in
      case vd_phase self of
        RampUp \<Rightarrow> if diverged then (RampUp, raw) else (SteadyState, smoothed)
      | SteadyState \<Rightarrow> if diverged then (RampUp, raw) else (SteadyState, smoothed))"

text \<open>Adopt a difficulty that differs by more than one percent; the window restarts either way.\<close>

definition apply_difficulty ::
  "instant \<Rightarrow> VardiffController \<Rightarrow> f64 \<Rightarrow> VardiffController \<times> f64 option" where
  "apply_difficulty now self new_difficulty =
     (if relative_change_exceeds (vd_current_difficulty self) new_difficulty (f64_lit (1 / 100))
      then (reset_vardiff_window now (self\<lparr>vd_current_difficulty := new_difficulty\<rparr>),
            Some new_difficulty)
      else (reset_vardiff_window now self, None))"

definition maybe_retarget ::
  "instant \<Rightarrow> instant \<Rightarrow> VardiffController \<Rightarrow> (VardiffController \<times> f64 option) outcome" where
  "maybe_retarget now reset_now self =
     (let config = vd_config self; elapsed = duration_since now (vd_last_retarget self) in
      if elapsed < vc_retarget_interval config \<and> \<not> early_retarget self then Returns (self, None)
      else
        let actual_rate = share_rate (vd_shares_since_retarget self) elapsed;
            target_rate = vc_target_shares_per_minute config;
            ratio = (if f64_lt (Finite 0) target_rate then f64_div actual_rate target_rate
                     else Finite 0) in
        if vd_shares_since_retarget self = 0 then
          (case clamp_difficulty config (f64_mul (vd_current_difficulty self) (Finite (1 / 2))) of
             Panics \<Rightarrow> Panics
           | Returns new_difficulty \<Rightarrow> Returns (apply_difficulty reset_now self new_difficulty))
        else if f64_le (vc_dead_zone_lower config) ratio \<and> f64_le ratio (vc_dead_zone_upper config)
        then Returns (reset_vardiff_window reset_now self, None)
        else
          let (phase, final_difficulty) = adjust self ratio; self = self\<lparr>vd_phase := phase\<rparr> in
          (case clamp_difficulty config final_difficulty of
             Panics \<Rightarrow> Panics
           | Returns final_difficulty \<Rightarrow>
               Returns (apply_difficulty reset_now self final_difficulty)))"

record VardiffStats =
  vs_current_difficulty :: f64
  vs_shares_in_window :: u32
  vs_window_duration :: duration
  vs_current_rate :: f64
  vs_target_rate :: f64

definition vardiff_stats :: "instant \<Rightarrow> VardiffController \<Rightarrow> VardiffStats" where
  "vardiff_stats now self =
     (let elapsed = duration_since now (vd_window_start self) in
      \<lparr>vs_current_difficulty = vd_current_difficulty self,
       vs_shares_in_window = vd_shares_since_retarget self, vs_window_duration = elapsed,
       vs_current_rate = share_rate (vd_shares_since_retarget self) elapsed,
       vs_target_rate = vc_target_shares_per_minute (vd_config self)\<rparr>)"

section \<open>Validated configurations\<close>

definition config_valid :: "VardiffConfig \<Rightarrow> bool" where
  "config_valid c \<longleftrightarrow>
     f64_pos (vc_target_shares_per_minute c) \<and> 0 < vc_retarget_interval c
     \<and> f64_pos (vc_min_difficulty c) \<and> f64_pos (vc_max_difficulty c)
     \<and> f64_le (vc_min_difficulty c) (vc_max_difficulty c)
     \<and> \<not> not_fraction (vc_variance_tolerance c) \<and> \<not> not_above_one (vc_ramp_threshold c)
     \<and> \<not> not_fraction (vc_dead_zone_lower c) \<and> \<not> not_above_one (vc_dead_zone_upper c)
     \<and> f64_lt (vc_dead_zone_lower c) (vc_dead_zone_upper c) \<and> \<not> not_fraction (vc_ema_alpha c)"

lemma not_positive_iff: "not_positive x \<longleftrightarrow> \<not> f64_pos x"
  by (simp add: not_positive_def f64_pos_def)

lemma not_fractionI:
  "f64_le (Finite a) x \<Longrightarrow> f64_le x (Finite b) \<Longrightarrow> 0 < a \<Longrightarrow> b < 1 \<Longrightarrow> \<not> not_fraction x"
  by (cases x) (auto simp: not_fraction_def f64_le_def split: if_splits)

lemma not_above_oneI:
  "f64_le (Finite a) x \<Longrightarrow> f64_le x (Finite b) \<Longrightarrow> 1 < a \<Longrightarrow> \<not> not_above_one x"
  by (cases x) (auto simp: not_above_one_def f64_le_def split: if_splits)

lemma fraction_literals [simp]: "\<not> not_fraction (f64_lit (4 / 5))" "\<not> not_fraction (f64_lit (3 / 10))"
  "\<not> not_above_one (f64_lit (6 / 5))" "\<not> not_fraction (Finite (1 / 4))" "\<not> not_above_one (Finite 4)"
  using not_fractionI [OF f64_lit_between [of 32 56 "4 / 5"]]
    not_fractionI [OF f64_lit_between [of 16 32 "3 / 10"]]
    not_above_oneI [OF f64_lit_between [of 72 80 "6 / 5"]]
  by (simp_all add: not_fraction_def not_above_one_def)

lemma lower_less_upper:
  "\<not> not_fraction x \<Longrightarrow> \<not> not_above_one y \<Longrightarrow> f64_lt x y"
  unfolding not_fraction_def not_above_one_def
  by (cases x; cases y) (auto simp: f64_le_def f64_lt_def split: if_splits)

lemma validated_difficulties_fields:
  defines "lo \<equiv> \<lambda>c. if f64_pos (vc_min_difficulty c) then vc_min_difficulty c else Finite 1"
    and "hi \<equiv> \<lambda>c. if f64_pos (vc_max_difficulty c) then vc_max_difficulty c else Finite 1000000000"
  shows "vc_target_shares_per_minute (validated_difficulties c) =
      (if f64_pos (vc_target_shares_per_minute c) then vc_target_shares_per_minute c else Finite 5)"
    and "vc_retarget_interval (validated_difficulties c) =
      (if vc_retarget_interval c = 0 then from_secs 60 else vc_retarget_interval c)"
    and "vc_min_difficulty (validated_difficulties c) = (if f64_lt (hi c) (lo c) then hi c else lo c)"
    and "vc_max_difficulty (validated_difficulties c) = (if f64_lt (hi c) (lo c) then lo c else hi c)"
  by (simp_all add: validated_difficulties_def not_positive_iff lo_def hi_def Let_def)

lemma f64_pos_order: "f64_pos x \<Longrightarrow> f64_pos y \<Longrightarrow> \<not> f64_lt y x \<Longrightarrow> f64_le x y"
  by (auto simp: f64_pos_iff)

lemma f64_pos_numeral [simp]: "f64_pos (Finite (numeral n))" "f64_pos (Finite 1)"
  by (simp_all add: f64_pos_iff)

lemma validated_difficulties_valid:
  "f64_pos (vc_target_shares_per_minute (validated_difficulties c))"
  "0 < vc_retarget_interval (validated_difficulties c)"
  "f64_pos (vc_min_difficulty (validated_difficulties c))"
  "f64_pos (vc_max_difficulty (validated_difficulties c))"
  "f64_le (vc_min_difficulty (validated_difficulties c)) (vc_max_difficulty (validated_difficulties c))"
  by (simp_all add: validated_difficulties_fields f64_lt_imp_le f64_pos_order from_secs_def
      NANOS_PER_SEC_def)

lemma validated_thresholds_keeps:
  "vc_target_shares_per_minute (validated_thresholds c) = vc_target_shares_per_minute c"
  "vc_initial_difficulty (validated_thresholds c) = vc_initial_difficulty c"
  "vc_retarget_interval (validated_thresholds c) = vc_retarget_interval c"
  "vc_min_difficulty (validated_thresholds c) = vc_min_difficulty c"
  "vc_max_difficulty (validated_thresholds c) = vc_max_difficulty c"
  by (simp_all add: validated_thresholds_def Let_def)

lemma validated_thresholds_valid:
  "\<not> not_fraction (vc_variance_tolerance (validated_thresholds c))"
  "\<not> not_above_one (vc_ramp_threshold (validated_thresholds c))"
  "\<not> not_fraction (vc_dead_zone_lower (validated_thresholds c))"
  "\<not> not_above_one (vc_dead_zone_upper (validated_thresholds c))"
  "\<not> not_fraction (vc_ema_alpha (validated_thresholds c))"
  by (simp_all add: validated_thresholds_def Let_def)

lemma validated_valid: "config_valid (validated c)"
  unfolding validated_def config_valid_def
  by (simp add: validated_thresholds_keeps validated_difficulties_valid validated_thresholds_valid
      lower_less_upper)


lemma validated_initial: "vc_initial_difficulty (validated c) = vc_initial_difficulty c"
  by (simp add: validated_def validated_thresholds_keeps validated_difficulties_def Let_def)





section \<open>The controller stays in range\<close>

definition vardiff_inv :: "VardiffController \<Rightarrow> bool" where
  "vardiff_inv s \<longleftrightarrow> config_valid (vd_config s)
     \<and> f64_le (vc_min_difficulty (vd_config s)) (vd_current_difficulty s)
     \<and> f64_le (vd_current_difficulty s) (vc_max_difficulty (vd_config s))"

lemma vardiff_inv_pos: "vardiff_inv s \<Longrightarrow> f64_pos (vd_current_difficulty s)"
  unfolding vardiff_inv_def config_valid_def
  using f64_pos_between f64_pos_def by blast

lemma clamp_difficulty_in_range:
  "config_valid c \<Longrightarrow> x \<noteq> NaN \<Longrightarrow>
    \<exists>y. clamp_difficulty c x = Returns y \<and> f64_le (vc_min_difficulty c) y
      \<and> f64_le y (vc_max_difficulty c)"
  unfolding clamp_difficulty_def config_valid_def by (intro f64_clamp_bounds) simp_all

lemma share_rate_nonneg: "f64_nonneg (share_rate shares elapsed)"
proof -
  have "unat shares \<le> 2 ^ 53" using unat_less_pow [of shares] by simp
  then obtain q where "f64_of_nat (unat shares) = Finite q" "0 \<le> q"
    using f64_of_nat_exact of_nat_0_le_iff by blast
  then show ?thesis by (simp add: share_rate_def Let_def f64_div_nonneg_finite)
qed

lemma fraction_pos: "\<not> not_fraction x \<Longrightarrow> f64_pos x \<and> f64_nonneg (f64_sub (Finite 1) x)"
  by (cases x) (auto simp: not_fraction_def f64_pos_iff f64_sub_def f64_add_finite Let_def f64_le_def
      intro!: f64_nonneg_round)

lemma adjust_nonneg:
  assumes "vardiff_inv s" "f64_nonneg ratio"
  shows "f64_nonneg (snd (adjust s ratio))"
proof -
  note pos = vardiff_inv_pos [OF assms(1)]
  have alpha: "f64_pos (vc_ema_alpha (vd_config s))"
    "f64_nonneg (f64_sub (Finite 1) (vc_ema_alpha (vd_config s)))"
    using assms(1) fraction_pos by (auto simp: vardiff_inv_def config_valid_def)
  show ?thesis
    using pos alpha assms(2)
    by (auto simp: adjust_def Let_def f64_mul_nonneg f64_mul_nonneg' f64_add_nonneg
        split: VardiffPhase.split)
qed

lemma tolerance_nonneg: "f64_le (Finite 0) (f64_lit (1 / 100))"
  using f64_lit_between(1) [of 0 1 "1 / 100"] by simp

lemma relative_change_self: "f64_pos x \<Longrightarrow> \<not> relative_change_exceeds x x (f64_lit (1 / 100))"
  using tolerance_nonneg
  by (auto simp: relative_change_exceeds_def f64_div_self f64_sub_def f64_add_finite f64_zero_def
      f64_pos_def dest: f64_le_imp_not_lt)

lemma apply_difficulty_inv:
  assumes "vardiff_inv s" "f64_le (vc_min_difficulty (vd_config s)) d"
    "f64_le d (vc_max_difficulty (vd_config s))" "apply_difficulty now s d = (s', r)"
  shows "vardiff_inv s'" "vd_config s' = vd_config s" "vd_shares_since_retarget s' = 0"
    "case r of None \<Rightarrow> vd_current_difficulty s' = vd_current_difficulty s
     | Some e \<Rightarrow> vd_current_difficulty s' = e \<and> e \<noteq> vd_current_difficulty s"
  using assms relative_change_self [OF vardiff_inv_pos [OF assms(1)]]
  by (auto simp: apply_difficulty_def vardiff_inv_def reset_vardiff_window_def split: if_splits)

lemma maybe_retarget_inv:
  assumes inv: "vardiff_inv s"
  shows "\<exists>s' r. maybe_retarget now reset_now s = Returns (s', r) \<and> vardiff_inv s'
    \<and> vd_config s' = vd_config s
    \<and> (case r of None \<Rightarrow> vd_current_difficulty s' = vd_current_difficulty s
       | Some d \<Rightarrow> vd_current_difficulty s' = d \<and> d \<noteq> vd_current_difficulty s)"
proof -
  let ?c = "vd_config s"
  have valid: "config_valid ?c" using inv by (simp add: vardiff_inv_def)
  have rate: "f64_pos (vc_target_shares_per_minute ?c)" using valid by (simp add: config_valid_def)
  define ratio where "ratio = f64_div
    (share_rate (vd_shares_since_retarget s) (duration_since now (vd_last_retarget s)))
    (vc_target_shares_per_minute ?c)"
  have ratio: "f64_nonneg ratio" unfolding ratio_def using share_rate_nonneg rate
    by (rule f64_div_nonneg)
  have rate': "f64_lt (Finite 0) (vc_target_shares_per_minute ?c)" using rate by (auto simp: f64_pos_iff)
  obtain h where h: "clamp_difficulty ?c (f64_mul (vd_current_difficulty s) (Finite (1 / 2))) = Returns h"
    "f64_le (vc_min_difficulty ?c) h" "f64_le h (vc_max_difficulty ?c)"
    using clamp_difficulty_in_range [OF valid f64_nonneg_not_NaN [OF f64_mul_nonneg]]
      vardiff_inv_pos [OF inv] by (metis f64_nonneg_simps(3) half_gt_zero less_imp_le zero_less_one)
  obtain f where f: "clamp_difficulty ?c (snd (adjust s ratio)) = Returns f"
    "f64_le (vc_min_difficulty ?c) f" "f64_le f (vc_max_difficulty ?c)"
    using clamp_difficulty_in_range [OF valid f64_nonneg_not_NaN [OF adjust_nonneg [OF inv ratio]]]
    by blast
  define t where "t = s\<lparr>vd_phase := fst (adjust s ratio)\<rparr>"
  have t: "vardiff_inv t" "vd_config t = ?c" "vd_current_difficulty t = vd_current_difficulty s"
    using inv by (simp_all add: t_def vardiff_inv_def)
  obtain s1 r1 where 1: "apply_difficulty reset_now s h = (s1, r1)" by fastforce
  obtain s2 r2 where 2: "apply_difficulty reset_now t f = (s2, r2)" by fastforce
  note app1 = apply_difficulty_inv [OF inv h(2,3) 1]
  note app2 = apply_difficulty_inv [OF t(1) f(2,3) [folded t(2)] 2, unfolded t(2,3)]
  have win: "vardiff_inv (reset_vardiff_window reset_now s)"
    using inv by (simp add: vardiff_inv_def reset_vardiff_window_def)
  show ?thesis
    using inv rate' h(1) f(1) 1 2 app1 app2 win
    unfolding maybe_retarget_def Let_def ratio_def [symmetric] split_beta t_def [symmetric]
    by (simp add: ratio_def [symmetric] t_def [symmetric] reset_vardiff_window_def)
qed

lemma set_difficulty_valid:
  assumes valid: "config_valid (vd_config s)"
  shows "\<exists>s'. set_difficulty now d s = Returns s' \<and> vardiff_inv s'"
proof -
  define safe where "safe = (if is_finite d \<and> f64_lt (Finite 0) d then d
    else vc_min_difficulty (vd_config s))"
  have "safe \<noteq> NaN" using valid by (auto simp: safe_def config_valid_def f64_pos_def)
  from clamp_difficulty_in_range [OF valid this] valid show ?thesis
    by (auto simp: set_difficulty_def safe_def [symmetric] vardiff_inv_def reset_vardiff_window_def)
qed

lemma set_difficulty_inv: "vardiff_inv s \<Longrightarrow> \<exists>s'. set_difficulty now d s = Returns s' \<and> vardiff_inv s'"
  by (rule set_difficulty_valid) (simp add: vardiff_inv_def)

lemma vardiff_record_share_inv: "vardiff_inv s \<Longrightarrow> vardiff_inv (vardiff_record_share s)"
  by (simp add: vardiff_inv_def vardiff_record_share_def)

lemma VardiffController_new_inv:
  assumes "vc_initial_difficulty c \<noteq> NaN"
  shows "\<exists>s. VardiffController_new now c = Returns s \<and> vardiff_inv s \<and> vd_config s = validated c"
proof -
  have "vc_initial_difficulty (validated c) \<noteq> NaN" using assms by (simp add: validated_initial)
  from clamp_difficulty_in_range [OF validated_valid [of c] this] show ?thesis
    by (auto simp: VardiffController_new_def clamp_difficulty_def vardiff_inv_def validated_valid
        Let_def)
qed

text \<open>A history of a controller: shares, difficulties set, and retarget checks.\<close>

datatype vardiff_op =
    RecordShare
  | SetDifficulty instant f64
  | MaybeRetarget instant instant

fun vardiff_step :: "vardiff_op \<Rightarrow> VardiffController \<Rightarrow> VardiffController outcome" where
  "vardiff_step RecordShare s = Returns (vardiff_record_share s)"
| "vardiff_step (SetDifficulty now d) s = set_difficulty now d s"
| "vardiff_step (MaybeRetarget now reset_now) s =
     (case maybe_retarget now reset_now s of Panics \<Rightarrow> Panics | Returns (s', _) \<Rightarrow> Returns s')"

fun vardiff_run :: "vardiff_op list \<Rightarrow> VardiffController \<Rightarrow> VardiffController outcome" where
  "vardiff_run [] s = Returns s"
| "vardiff_run (x # xs) s =
     (case vardiff_step x s of Panics \<Rightarrow> Panics | Returns s' \<Rightarrow> vardiff_run xs s')"

lemma vardiff_step_inv:
  "vardiff_inv s \<Longrightarrow> \<exists>s'. vardiff_step x s = Returns s' \<and> vardiff_inv s'"
proof (cases x)
  case (MaybeRetarget now reset_now)
  assume "vardiff_inv s"
  with maybe_retarget_inv [of s now reset_now] MaybeRetarget show ?thesis by auto
qed (simp_all add: set_difficulty_inv vardiff_record_share_inv)

lemma vardiff_run_inv: "vardiff_inv s \<Longrightarrow> \<exists>s'. vardiff_run xs s = Returns s' \<and> vardiff_inv s'"
proof (induction xs arbitrary: s)
  case (Cons x xs)
  then show ?case using vardiff_step_inv [of s x] by fastforce
qed simp

lemma f64_mul_NaN: "f64_mul NaN y = NaN" "f64_mul x NaN = NaN"
  by (simp_all add: f64_mul_def Let_def)

lemma f64_add_NaN: "f64_add x NaN = NaN"
  by (simp add: f64_add_def split: f64.split)

lemma relative_change_NaN: "\<not> relative_change_exceeds NaN NaN t"
  by (simp add: relative_change_exceeds_def f64_div_def f64_sub_def f64_add_def Let_def)

lemma apply_difficulty_NaN:
  "vd_current_difficulty s = NaN \<Longrightarrow>
    apply_difficulty now s NaN = (reset_vardiff_window now s, None)"
  by (simp add: apply_difficulty_def relative_change_NaN)

lemma adjust_NaN: "vd_current_difficulty s = NaN \<Longrightarrow> snd (adjust s ratio) = NaN"
  by (simp add: adjust_def Let_def f64_mul_NaN f64_add_NaN split: VardiffPhase.split)

definition vardiff_stuck :: "VardiffController \<Rightarrow> bool" where
  "vardiff_stuck s \<longleftrightarrow> config_valid (vd_config s) \<and> vd_current_difficulty s = NaN"

lemma clamp_difficulty_NaN: "config_valid c \<Longrightarrow> clamp_difficulty c NaN = Returns NaN"
  by (simp add: clamp_difficulty_def config_valid_def f64_clamp_NaN)

lemma maybe_retarget_stuck:
  assumes "vardiff_stuck s"
  shows "\<exists>s'. maybe_retarget now reset_now s = Returns (s', None) \<and> vardiff_stuck s'"
proof -
  have *: "vd_current_difficulty s = NaN" "config_valid (vd_config s)"
    using assms by (simp_all add: vardiff_stuck_def)
  show ?thesis
    using * unfolding maybe_retarget_def Let_def split_beta
    by (simp add: f64_mul_NaN adjust_NaN clamp_difficulty_NaN apply_difficulty_NaN vardiff_stuck_def
        reset_vardiff_window_def)
qed

lemma VardiffController_new_stuck:
  assumes "vc_initial_difficulty c = NaN"
  obtains s0 where "VardiffController_new now c = Returns s0" "vardiff_stuck s0"
  using that assms validated_valid [of c] clamp_difficulty_NaN [OF validated_valid [of c]]
  by (simp add: VardiffController_new_def Let_def validated_initial vardiff_stuck_def clamp_difficulty_def)

text \<open>A controller whose difficulty is NaN does not panic either, and setting a difficulty repairs it.\<close>

lemma vardiff_step_stuck:
  assumes "vardiff_stuck s"
  shows "\<exists>s'. vardiff_step x s = Returns s' \<and> (vardiff_stuck s' \<or> vardiff_inv s')"
proof (cases x)
  case RecordShare
  with assms show ?thesis by (simp add: vardiff_stuck_def vardiff_record_share_def)
next
  case (SetDifficulty now d)
  with set_difficulty_valid [of s now d] assms show ?thesis by (auto simp: vardiff_stuck_def)
next
  case (MaybeRetarget a b)
  with maybe_retarget_stuck [OF assms, of a b] show ?thesis by auto
qed

lemma vardiff_run_stuck:
  "vardiff_stuck s \<or> vardiff_inv s \<Longrightarrow> \<exists>s'. vardiff_run xs s = Returns s' \<and> (vardiff_stuck s' \<or> vardiff_inv s')"
proof (induction xs arbitrary: s)
  case (Cons x xs)
  then obtain s' where "vardiff_step x s = Returns s'" "vardiff_stuck s' \<or> vardiff_inv s'"
    using vardiff_step_stuck [of s x] vardiff_step_inv [of s x] by blast
  with Cons.IH [of s'] show ?case by simp
qed simp

text \<open>
  C24.  A controller never panics: from any configuration, valid or not, and through any sequence of
  shares, difficulty settings with arbitrary values and retarget checks at arbitrary times.  When the
  configured initial difficulty is a number, the current difficulty is always a finite positive number
  between the validated minimum and maximum; from an initial difficulty of NaN it is either that or
  still NaN.
\<close>

theorem vardiff_always_in_range:
  "\<exists>s0 s. VardiffController_new now c = Returns s0 \<and> vardiff_run ops s0 = Returns s
    \<and> (vc_initial_difficulty c = NaN \<and> vd_current_difficulty s = NaN
       \<or> f64_pos (vd_current_difficulty s)
         \<and> f64_le (vc_min_difficulty (vd_config s)) (vd_current_difficulty s)
         \<and> f64_le (vd_current_difficulty s) (vc_max_difficulty (vd_config s)))"
proof (cases "vc_initial_difficulty c = NaN")
  case True
  obtain s0 where s0: "VardiffController_new now c = Returns s0" "vardiff_stuck s0"
    by (rule VardiffController_new_stuck [OF True])
  then obtain s where "vardiff_run ops s0 = Returns s" "vardiff_stuck s \<or> vardiff_inv s"
    using vardiff_run_stuck [of s0 ops] by blast
  with s0 True show ?thesis using vardiff_inv_pos [of s] by (auto simp: vardiff_stuck_def vardiff_inv_def)
next
  case False
  obtain s0 where "VardiffController_new now c = Returns s0" "vardiff_inv s0"
    using VardiffController_new_inv [OF False] by blast
  then show ?thesis using vardiff_run_inv [of s0 ops] vardiff_inv_pos vardiff_inv_def by blast
qed

text \<open>
  What a retarget check reports is what it did.  For a controller in range, a check that returns
  a difficulty has switched to exactly that, different, difficulty; a check that returns nothing has
  left the difficulty alone.  A check before the interval is over and without a surplus of shares
  changes nothing at all.
\<close>

theorem maybe_retarget_reports_change:
  assumes "vardiff_inv s" "maybe_retarget now reset_now s = Returns (s', r)"
  shows "(case r of None \<Rightarrow> vd_current_difficulty s' = vd_current_difficulty s
       | Some d \<Rightarrow> vd_current_difficulty s' = d \<and> d \<noteq> vd_current_difficulty s)
    \<and> (duration_since now (vd_last_retarget s) < vc_retarget_interval (vd_config s)
       \<and> \<not> early_retarget s \<longrightarrow> s' = s)"
  using maybe_retarget_inv [OF assms(1), of now reset_now] assms(2)
  by (auto simp: maybe_retarget_def Let_def)

definition sample_vardiff :: VardiffController where
  "sample_vardiff =
     \<lparr>vd_config = VardiffConfig_default, vd_current_difficulty = Finite 8,
      vd_shares_since_retarget = 0, vd_last_retarget = 0, vd_window_start = 0, vd_phase = RampUp\<rparr>"

lemma sample_vardiff_inv: "vardiff_inv sample_vardiff"
  by (simp add: sample_vardiff_def vardiff_inv_def VardiffConfig_default_def config_valid_def
      from_secs_def NANOS_PER_SEC_def lower_less_upper)

theorem maybe_retarget_reports_change_witness:
  "\<exists>s' r. maybe_retarget 1 2 sample_vardiff = Returns (s', r)
    \<and> (r = None \<longrightarrow> vd_current_difficulty s' = Finite 8)"
proof -
  obtain s' r where run: "maybe_retarget 1 2 sample_vardiff = Returns (s', r)"
    using maybe_retarget_inv [OF sample_vardiff_inv] by blast
  from maybe_retarget_reports_change [OF sample_vardiff_inv run] run show ?thesis
    by (auto simp: sample_vardiff_def)
qed

section \<open>A difficulty that is not a number\<close>

text \<open>
  A configured initial difficulty of NaN survives validation and stays.  The controller is
  created without a panic, its difficulty is NaN, and as long as nobody sets a difficulty, no
  sequence of shares and retarget checks ever repairs it; its target is then the difficulty-one
  target whatever the configured minimum is.
\<close>

theorem vardiff_nan_initial_sticks:
  assumes "vc_initial_difficulty c = NaN" "list_all (\<lambda>x. case x of SetDifficulty _ _ \<Rightarrow> False | _ \<Rightarrow> True) ops"
  shows "\<exists>s0 s. VardiffController_new now c = Returns s0 \<and> vardiff_run ops s0 = Returns s
    \<and> vd_current_difficulty s = NaN \<and> current_target s = max_mainnet"
proof -
  have run: "\<exists>s'. vardiff_run ops s = Returns s' \<and> vardiff_stuck s'" if "vardiff_stuck s" for s
    using assms(2) that
  proof (induction ops arbitrary: s)
    case (Cons x xs)
    have "\<exists>s'. vardiff_step x s = Returns s' \<and> vardiff_stuck s'"
    proof (cases x)
      case RecordShare
      with Cons.prems show ?thesis by (simp add: vardiff_stuck_def vardiff_record_share_def)
    next
      case (MaybeRetarget a b)
      with maybe_retarget_stuck [OF Cons.prems(2), of a b] show ?thesis by auto
    qed (use Cons.prems in simp)
    with Cons show ?case by fastforce
  qed simp
  obtain s0 where s0: "VardiffController_new now c = Returns s0" "vardiff_stuck s0"
    by (rule VardiffController_new_stuck [OF assms(1)])
  with run [OF s0(2)] show ?thesis
    by (auto simp: vardiff_stuck_def current_target_def difficulty_to_target_def
        difficulty_to_target_with_max_def)
qed

theorem vardiff_nan_initial_sticks_witness:
  "\<exists>s0 s. VardiffController_new 0 (VardiffConfig_default\<lparr>vc_initial_difficulty := NaN\<rparr>) = Returns s0
    \<and> vardiff_run [RecordShare, MaybeRetarget 1 2] s0 = Returns s \<and> vd_current_difficulty s = NaN"
  using vardiff_nan_initial_sticks [of "VardiffConfig_default\<lparr>vc_initial_difficulty := NaN\<rparr>"
      "[RecordShare, MaybeRetarget 1 2]" 0] by auto

section \<open>An idle miner reaches the minimum\<close>

text \<open>Retarget checks of a miner without shares, each one interval after the previous one.\<close>

fun idle_run :: "nat \<Rightarrow> VardiffController \<Rightarrow> VardiffController outcome" where
  "idle_run 0 s = Returns s"
| "idle_run (Suc n) s =
     (let t = vd_last_retarget s + int (vc_retarget_interval (vd_config s)) in
      case maybe_retarget t t s of Panics \<Rightarrow> Panics | Returns (s', _) \<Rightarrow> idle_run n s')"

lemma f64_abs_round: "f64_abs (f64_round q) = f64_round \<bar>q\<bar>"
proof -
  have "\<bar>round_mag \<bar>q\<bar>\<bar> = round_mag \<bar>q\<bar>" using round_mag_nonneg [of "\<bar>q\<bar>"] by simp
  then show ?thesis by (auto simp: f64_round_def Let_def abs_if split: if_splits)
qed

lemma lit_below: "1 / 64 < a \<Longrightarrow> f64_le (Finite a) x \<Longrightarrow> f64_lt (f64_lit (1 / 100)) x"
  using f64_lit_between(2) [of 0 1 "1 / 100"]
  by (cases x; cases "f64_lit (1 / 100)") (auto simp: f64_le_def f64_lt_def split: if_splits)

lemma change_exceeds_below:
  assumes "0 < m" "0 < x" "m / x \<le> 15 / 16"
  shows "relative_change_exceeds (Finite x) (Finite m) (f64_lit (1 / 100))"
proof -
  have q: "0 < m / x" using assms by simp
  have rep: "f64_rep (15 / 16)" "f64_rep (1 / 16)"
    using f64_rep_64ths [of 60] f64_rep_64ths [of 4] by simp_all
  have le: "f64_le (f64_round (m / x)) (Finite (15 / 16))" using rep(1) q assms(3) by (rule f64_round_le)
  obtain a where a: "f64_round (m / x) = Finite a" "a \<le> 15 / 16"
    using le by (cases rule: f64_round_pos_cases [OF q]) (auto simp: f64_le_def)
  have "f64_sub (Finite a) (Finite 1) = f64_round (a - 1)"
    using a(2) by (simp add: f64_sub_def f64_add_finite Let_def)
  then have "f64_abs (f64_sub (Finite a) (Finite 1)) = f64_round (1 - a)"
    using a(2) by (simp add: f64_abs_round abs_if)
  moreover have "f64_le (Finite (1 / 16)) (f64_round (1 - a))"
    using rep(2) a(2) by (intro f64_le_round) simp_all
  ultimately show ?thesis
    using assms(1,2) a(1) lit_below [of "1 / 16"]
    by (simp add: relative_change_exceeds_def f64_div_def f64_is_zero_def Let_def)
qed

lemma f64_half_exact:
  assumes "f64_rep x" "1 / 2 ^ 1000 \<le> x"
  shows "f64_mul (Finite x) (Finite (1 / 2)) = Finite (x / 2)" "f64_rep (x / 2)"
proof -
  have x0: "0 < x" using assms(2) by (meson less_le_trans zero_less_divide_1_iff zero_less_numeral zero_less_power)
  obtain k where k: "x = of_int k * 2 powi ulp_exp x" "0 \<le> k" "k \<le> 2 ^ 53"
    using assms(1) x0 by (meson f64_repE less_imp_le)
  have "(2 :: rat) powi (- 1000) < 2 powi (ilog2 x + 1)"
    using assms(2) ilog2_bounds(2) [OF x0] by (simp add: power_int_minus inverse_eq_divide)
  then have "- 1000 \<le> ilog2 x" using two_powi_less_imp_less by fastforce
  then have e: "- 1074 \<le> ulp_exp x - 1" by (simp add: ulp_exp_def)
  have half: "x / 2 = of_int k * 2 powi (ulp_exp x - 1)"
    using k(1) by (simp add: power_int_diff)
  have "x / 2 < F64_LIMIT" using assms(1) x0 by (auto simp: f64_rep_def)
  then show rep: "f64_rep (x / 2)" by (rule f64_repI [OF half k(2,3) e])
  show "f64_mul (Finite x) (Finite (1 / 2)) = Finite (x / 2)"
    using f64_mul_exact [of x "1 / 2"] rep x0 by simp
qed

lemma idle_step:
  assumes inv: "vardiff_inv s" and idle: "vd_shares_since_retarget s = 0"
    and cur: "vd_current_difficulty s = Finite x" "f64_rep x"
    and lo: "vc_min_difficulty (vd_config s) = Finite m" "f64_rep m" "1 / 2 ^ 1000 \<le> m"
    and due: "vc_retarget_interval (vd_config s) \<le> duration_since now (vd_last_retarget s)"
  obtains s' r y where "maybe_retarget now reset_now s = Returns (s', r)" "vardiff_inv s'"
    "vd_shares_since_retarget s' = 0" "vd_config s' = vd_config s"
    "vd_current_difficulty s' = Finite y" "f64_rep y" "y \<le> max (x / 2) (16 / 15 * m)"
proof -
  have m0: "0 < m" using inv lo(1) by (simp add: vardiff_inv_def config_valid_def f64_pos_iff)
  have mx: "m \<le> x" using inv lo(1) cur(1) by (simp add: vardiff_inv_def)
  have x0: "0 < x" using m0 mx by simp
  have x1000: "1 / 2 ^ 1000 \<le> x" using lo(3) mx by (rule order_trans)
  have hi: "f64_le (Finite x) (vc_max_difficulty (vd_config s))" using inv cur(1) by (simp add: vardiff_inv_def)
  note half = f64_half_exact [OF cur(2) x1000]
  define d where "d = (if x < 2 * m then m else x / 2)"
  have d: "m \<le> d" "d \<le> x" using mx m0 by (auto simp: d_def)
  then have dhi: "f64_le (Finite d) (vc_max_difficulty (vd_config s))"
    using hi f64_le_trans f64_le_finite by blast
  have "clamp_difficulty (vd_config s) (f64_mul (Finite x) (Finite (1 / 2))) = Returns (Finite d)"
    using inv dhi f64_le_imp_not_lt [OF dhi] lo(1) half(1) mx
    by (auto simp: clamp_difficulty_def f64_clamp_def Let_def vardiff_inv_def config_valid_def d_def)
  then have run: "maybe_retarget now reset_now s = Returns (apply_difficulty reset_now s (Finite d))"
    using idle cur(1) due by (simp add: maybe_retarget_def Let_def)
  obtain s' r where app: "apply_difficulty reset_now s (Finite d) = (s', r)" by fastforce
  note facts = apply_difficulty_inv [OF inv _ dhi app]
  have dlo: "f64_le (vc_min_difficulty (vd_config s)) (Finite d)" using lo(1) d(1) by simp
  have drep: "f64_rep d" using half(2) lo(2) by (simp add: d_def)
  show thesis
  proof (cases "relative_change_exceeds (Finite x) (Finite d) (f64_lit (1 / 100))")
    case True
    then have "vd_current_difficulty s' = Finite d"
      using app cur(1) by (auto simp: apply_difficulty_def reset_vardiff_window_def)
    moreover have "d \<le> max (x / 2) (16 / 15 * m)" using m0 by (simp add: d_def)
    ultimately show thesis
      using that [of s' r d] run app facts(1-3) dlo drep by simp
  next
    case False
    then have "\<not> d / x \<le> 15 / 16"
      using change_exceeds_below [of d x] d(1) m0 x0 by auto
    then have "x \<le> 16 / 15 * m" using x0 by (auto simp: d_def field_simps split: if_splits)
    moreover have "vd_current_difficulty s' = Finite x"
      using False app cur(1) by (auto simp: apply_difficulty_def reset_vardiff_window_def)
    ultimately show thesis
      using that [of s' r x] run app facts(1-3) dlo cur(2) by simp
  qed
qed

lemma idle_run_reaches:
  assumes "vardiff_inv s" "vd_shares_since_retarget s = 0"
    "vd_current_difficulty s = Finite x" "f64_rep x" "vc_min_difficulty (vd_config s) = Finite m"
    "f64_rep m" "1 / 2 ^ 1000 \<le> m" "x \<le> max (2 ^ n * m) (16 / 15 * m)"
  shows "\<exists>s' y. idle_run n s = Returns s' \<and> vardiff_inv s' \<and> vd_config s' = vd_config s
    \<and> vd_current_difficulty s' = Finite y \<and> m \<le> y \<and> y \<le> 16 / 15 * m"
  using assms
proof (induction n arbitrary: s x)
  case 0
  then show ?case by (auto simp: vardiff_inv_def)
next
  case (Suc n)
  let ?t = "vd_last_retarget s + int (vc_retarget_interval (vd_config s))"
  have due: "vc_retarget_interval (vd_config s) \<le> duration_since ?t (vd_last_retarget s)"
    by (simp add: duration_since_def)
  obtain s' r y where step: "maybe_retarget ?t ?t s = Returns (s', r)" "vardiff_inv s'"
    "vd_shares_since_retarget s' = 0" "vd_config s' = vd_config s"
    "vd_current_difficulty s' = Finite y" "f64_rep y" "y \<le> max (x / 2) (16 / 15 * m)"
    by (rule idle_step [OF Suc.prems(1-7) due])
  have m0: "0 \<le> m" using Suc.prems(7) by (meson order_trans zero_le_divide_1_iff zero_le_numeral zero_le_power)
  have "y \<le> max (2 ^ n * m) (16 / 15 * m)" using step(7) Suc.prems(8) m0 by (auto simp: max_def split: if_splits)
  with Suc.IH [OF step(2,3,5,6) _ Suc.prems(6,7)] Suc.prems(5) step show ?case by (simp add: Let_def)
qed

text \<open>
  The difficulty of a miner that stops submitting falls to the minimum.  When the difficulty is
  at most \<open>2 ^ n\<close> times the minimum, then after at most \<open>n\<close> idle retarget intervals it is within
  one fifteenth of the minimum: halving is exact and the one-percent hysteresis stops the descent
  only next to the floor.
\<close>

theorem idle_difficulty_reaches_minimum:
  assumes "vardiff_inv s" "vd_shares_since_retarget s = 0"
    and "vd_current_difficulty s = Finite x" "f64_wf (Finite x)"
    and "vc_min_difficulty (vd_config s) = Finite m" "f64_wf (Finite m)" "1 / 2 ^ 1000 \<le> m"
    and "x \<le> 2 ^ n * m"
  shows "\<exists>s' y. idle_run n s = Returns s' \<and> vd_current_difficulty s' = Finite y
    \<and> m \<le> y \<and> y \<le> 16 / 15 * m"
  using idle_run_reaches [of s x m n] assms by (auto simp: le_max_iff_disj simp del: power_numeral)

theorem idle_difficulty_reaches_minimum_witness:
  "\<exists>s' y. idle_run 3 sample_vardiff = Returns s' \<and> vd_current_difficulty s' = Finite y
    \<and> 1 \<le> y \<and> y \<le> 16 / 15"
proof -
  have wf: "f64_wf (Finite 8)" "f64_wf (Finite 1)"
    using f64_rep_of_int [of 8] f64_rep_of_int [of 1] by simp_all
  have "1 / 2 ^ 1000 \<le> (1 :: rat)" by (simp add: divide_le_eq_1 del: power_numeral)
  from idle_difficulty_reaches_minimum [OF sample_vardiff_inv _ _ wf(1) _ wf(2) this, of 3]
  show ?thesis by (simp add: sample_vardiff_def VardiffConfig_default_def)
qed

end
