(* ===== verification/Id_Counter.thy ===== *)
theory Id_Counter
  imports Prelude
begin

text \<open>
  The global identifier counters of the pool server: \<open>NEXT_CHANNEL_ID\<close> with \<open>Channel::next_id\<close>
  (\<open>channel.rs\<close>) and \<open>NEXT_GLOBAL_JOB_ID\<close> with \<open>next_job_id\<close> (\<open>job.rs\<close>), the same
  compare-and-exchange loop over two atomics.  Threads interleave at the atomic operations; the
  refinement shows that every interleaving issues the identifiers of one sequential counter.
\<close>

definition MAX_CHANNEL_ID :: u32 where "MAX_CHANNEL_ID = - 1 - 1"
definition MAX_JOB_ID :: u32 where "MAX_JOB_ID = - 1 - 1"

text \<open>The value the loop tries to store after reading \<open>current\<close>.\<close>

definition next_value :: "u32 \<Rightarrow> u32 \<Rightarrow> u32" where
  "next_value max_id current = (if current \<ge> max_id then 1 else current + 1)"

text \<open>The two functions when no other thread interferes: one pass of the loop, which takes the counter
  and gives the identifier and the new counter.\<close>

definition next_id :: "u32 \<Rightarrow> u32 \<times> u32" where
  "next_id counter = (counter, next_value MAX_CHANNEL_ID counter)"

definition next_job_id :: "u32 \<Rightarrow> u32 \<times> u32" where
  "next_job_id counter = (counter, next_value MAX_JOB_ID counter)"

section \<open>The loop under interleaving\<close>

text \<open>
  A thread is about to load the atomic, or about to compare-and-exchange the value it loaded.  The
  list of issued identifiers is the history of the returns.
\<close>

datatype id_thread = AtLoad | AtExchange u32

record id_state =
  id_counter :: u32
  id_threads :: "nat \<Rightarrow> id_thread"
  id_issued :: "u32 list"

definition id_start :: id_state where
  "id_start = \<lparr>id_counter = 1, id_threads = (\<lambda>_. AtLoad), id_issued = []\<rparr>"

inductive id_step :: "u32 \<Rightarrow> id_state \<Rightarrow> id_state \<Rightarrow> bool" for max_id where
  id_load: "id_threads s t = AtLoad \<Longrightarrow>
    id_step max_id s (s\<lparr>id_threads := (id_threads s)(t := AtExchange (id_counter s))\<rparr>)"
| id_exchange_ok: "id_threads s t = AtExchange current \<Longrightarrow> id_counter s = current \<Longrightarrow>
    id_step max_id s (s\<lparr>id_counter := next_value max_id current,
      id_threads := (id_threads s)(t := AtLoad), id_issued := id_issued s @ [current]\<rparr>)"
| id_exchange_err: "id_threads s t = AtExchange current \<Longrightarrow> id_counter s \<noteq> current \<Longrightarrow>
    id_step max_id s (s\<lparr>id_threads := (id_threads s)(t := AtLoad)\<rparr>)"

section \<open>The sequence of identifiers\<close>

text \<open>The \<open>k\<close>-th identifier of the sequential counter with \<open>n\<close> identifiers, \<open>1\<close> to \<open>n\<close>.\<close>

definition kth_id :: "nat \<Rightarrow> nat \<Rightarrow> u32" where
  "kth_id n k = of_nat (1 + k mod n)"

lemma unat_kth_id: "0 < n \<Longrightarrow> n < 2 ^ 32 - 1 \<Longrightarrow> unat (kth_id n k) = 1 + k mod n"
proof -
  assume "0 < n" "n < 2 ^ 32 - 1"
  then have "1 + k mod n < 2 ^ 32" using mod_less_divisor [of n k] by linarith
  then show ?thesis by (simp add: kth_id_def unat_of_nat del: of_nat_add of_nat_Suc)
qed

lemma next_value_kth_id:
  assumes "0 < unat max_id" "unat max_id < 2 ^ 32 - 1"
  shows "next_value max_id (kth_id (unat max_id) k) = kth_id (unat max_id) (Suc k)"
proof -
  let ?n = "unat max_id"
  have ge: "max_id \<le> kth_id ?n k \<longleftrightarrow> ?n \<le> 1 + k mod ?n"
    using assms by (simp add: word_le_nat_alt unat_kth_id)
  have "k mod ?n < ?n" using assms(1) by simp
  then consider "1 + k mod ?n = ?n" "Suc k mod ?n = 0" | "1 + k mod ?n < ?n" "Suc k mod ?n = 1 + k mod ?n"
    by (cases "Suc (k mod ?n) = ?n") (simp_all add: mod_Suc)
  then show ?thesis using ge by cases (simp_all add: next_value_def kth_id_def)
qed

definition id_inv :: "nat \<Rightarrow> id_state \<Rightarrow> bool" where
  "id_inv n s \<longleftrightarrow> id_issued s = map (kth_id n) [0..<length (id_issued s)]
     \<and> id_counter s = kth_id n (length (id_issued s))"

lemma id_step_inv:
  assumes "id_step max_id s s'" "0 < unat max_id" "unat max_id < 2 ^ 32 - 1" "id_inv (unat max_id) s"
  shows "id_inv (unat max_id) s'"
  using assms by cases (auto simp: id_inv_def next_value_kth_id)

lemma id_reachable_inv:
  assumes "(id_step max_id)\<^sup>*\<^sup>* id_start s" "0 < unat max_id" "unat max_id < 2 ^ 32 - 1"
  shows "id_inv (unat max_id) s"
  using assms(1)
proof induction
  case base
  show ?case by (simp add: id_inv_def id_start_def kth_id_def)
next
  case (step s s')
  with id_step_inv assms(2,3) show ?case by blast
qed

lemma inj_on_kth_id:
  assumes "0 < n" "n < 2 ^ 32 - 1" "k \<le> n"
  shows "inj_on (kth_id n) {0..<k}"
proof (rule inj_onI)
  fix i j assume ij: "i \<in> {0..<k}" "j \<in> {0..<k}" "kth_id n i = kth_id n j"
  then have "1 + i mod n = 1 + j mod n" using unat_kth_id [OF assms(1,2)] by metis
  with ij assms(3) show "i = j" by simp
qed

lemma unat_max_id: "unat MAX_CHANNEL_ID = 2 ^ 32 - 2" "unat MAX_JOB_ID = 2 ^ 32 - 2"
  by (simp_all add: MAX_CHANNEL_ID_def MAX_JOB_ID_def)

section \<open>Claims\<close>

text \<open>
  C19.  Identifiers are unique under any interleaving.  However the threads that ask for a channel or
  a job identifier interleave at the atomic operations, the identifiers returned, in the order of
  the successful exchanges, are those of one sequential counter that runs from 1 to \<open>u32::MAX - 1\<close>
  and starts over; so the reserved values 0 and \<open>u32::MAX\<close> are never issued and no identifier is
  issued twice among any \<open>u32::MAX - 1\<close> in a row.
\<close>

theorem issued_ids_refine_sequential_counter:
  assumes "(id_step max_id)\<^sup>*\<^sup>* id_start s" "max_id \<in> {MAX_CHANNEL_ID, MAX_JOB_ID}"
  shows "id_issued s = map (kth_id (2 ^ 32 - 2)) [0..<length (id_issued s)]
    \<and> (\<forall>i \<in> set (id_issued s). i \<noteq> 0 \<and> i \<noteq> - 1)
    \<and> (length (id_issued s) \<le> 2 ^ 32 - 2 \<longrightarrow> distinct (id_issued s))"
proof -
  let ?n = "2 ^ 32 - 2 :: nat" and ?l = "length (id_issued s)"
  have n: "unat max_id = ?n" using assms(2) by (auto simp: unat_max_id)
  then have eq: "id_issued s = map (kth_id ?n) [0..<?l]"
    using id_reachable_inv [OF assms(1)] by (simp add: id_inv_def)
  have u: "unat (kth_id ?n k) = 1 + k mod ?n" for k by (rule unat_kth_id) simp_all
  have "kth_id ?n k \<noteq> 0 \<and> kth_id ?n k \<noteq> - 1" for k
  proof -
    have "k mod ?n < ?n" by simp
    then show ?thesis using u [of k] unat_minus_one_max [where 'a = 32] by (auto simp del: One_nat_def)
  qed
  then have "\<forall>i \<in> set (map (kth_id ?n) [0..<?l]). i \<noteq> 0 \<and> i \<noteq> - 1" by simp
  moreover have "?l \<le> ?n \<Longrightarrow> distinct (map (kth_id ?n) [0..<?l])"
    using inj_on_kth_id [of ?n ?l] by (simp add: distinct_map)
  ultimately show ?thesis using eq by metis
qed

text \<open>Two threads race: both load 1, one exchange succeeds, the other fails and tries again.\<close>

theorem issued_ids_refine_sequential_counter_witness:
  "\<exists>s. (id_step MAX_JOB_ID)\<^sup>*\<^sup>* id_start s \<and> id_issued s = [1, 2]
    \<and> id_issued s = map (kth_id (2 ^ 32 - 2)) [0, 1]"
proof -
  have next12: "next_value MAX_JOB_ID 1 = 2" "next_value MAX_JOB_ID 2 = 3" by code_simp+
  let ?s = "\<lambda>c f g is. \<lparr>id_counter = c, id_threads = (\<lambda>_. AtLoad)(0 := f, 1 := g), id_issued = is\<rparr>"
  have "id_step MAX_JOB_ID id_start (?s 1 (AtExchange 1) AtLoad [])"
    using id_load [of id_start 0 MAX_JOB_ID] by (simp add: id_start_def fun_upd_idem)
  moreover have "id_step MAX_JOB_ID (?s 1 (AtExchange 1) AtLoad []) (?s 1 (AtExchange 1) (AtExchange 1) [])"
    using id_load [of "?s 1 (AtExchange 1) AtLoad []" 1 MAX_JOB_ID] by simp
  moreover have "id_step MAX_JOB_ID (?s 1 (AtExchange 1) (AtExchange 1) []) (?s 2 AtLoad (AtExchange 1) [1])"
    using id_exchange_ok [of "?s 1 (AtExchange 1) (AtExchange 1) []" 0 1 MAX_JOB_ID]
    by (simp add: next12 fun_upd_twist)
  moreover have "id_step MAX_JOB_ID (?s 2 AtLoad (AtExchange 1) [1]) (?s 2 AtLoad AtLoad [1])"
    using id_exchange_err [of "?s 2 AtLoad (AtExchange 1) [1]" 1 1 MAX_JOB_ID] by simp
  moreover have "id_step MAX_JOB_ID (?s 2 AtLoad AtLoad [1]) (?s 2 AtLoad (AtExchange 2) [1])"
    using id_load [of "?s 2 AtLoad AtLoad [1]" 1 MAX_JOB_ID] by simp
  moreover have "id_step MAX_JOB_ID (?s 2 AtLoad (AtExchange 2) [1]) (?s 3 AtLoad AtLoad [1, 2])"
    using id_exchange_ok [of "?s 2 AtLoad (AtExchange 2) [1]" 1 2 MAX_JOB_ID]
    by (simp add: next12)
  ultimately have "(id_step MAX_JOB_ID)\<^sup>*\<^sup>* id_start (?s 3 AtLoad AtLoad [1, 2])"
    by (meson converse_rtranclp_into_rtranclp rtranclp.rtrancl_refl)
  then show ?thesis
    using issued_ids_refine_sequential_counter [of MAX_JOB_ID "?s 3 AtLoad AtLoad [1, 2]"]
    by (intro exI [of _ "?s 3 AtLoad AtLoad [1, 2]"]) simp
qed

end
