(* ===== verification/Template.thy ===== *)
theory Template
  imports Bytes Once_Set
begin

text \<open>
  The template provider, \<open>zcash-template-provider\<close>: block template types (\<open>types.rs\<close>), header
  assembly (\<open>header.rs\<close>, \<open>commitments.rs\<close>), nonce partitioning (\<open>nonce.rs\<close>), and the processing
  and polling of \<open>getblocktemplate\<close> responses (\<open>template.rs\<close>).  The hex crate, BLAKE2b and the JSON
  value of the coinbase are arguments; the answers of the node are the inputs of each poll.
\<close>

section \<open>Types\<close>

type_synonym i64 = "64 word"

text \<open>\<open>Hash256\<close> wraps \<open>[u8; 32]\<close>, in internal byte order.\<close>

type_synonym Hash256 = bytes

record EquihashHeader =
  eh_version :: u32
  eh_prev_hash :: Hash256
  eh_merkle_root :: Hash256
  eh_hash_block_commitments :: Hash256
  eh_time :: u32
  eh_bits :: u32
  eh_nonce :: bytes

definition header_wf :: "EquihashHeader \<Rightarrow> bool" where
  "header_wf h \<longleftrightarrow> length (eh_prev_hash h) = 32 \<and> length (eh_merkle_root h) = 32 \<and>
     length (eh_hash_block_commitments h) = 32 \<and> length (eh_nonce h) = 32"

definition header_serialize :: "EquihashHeader \<Rightarrow> bytes" where
  "header_serialize self =
     u32_to_le_bytes (eh_version self) @ eh_prev_hash self @ eh_merkle_root self @
     eh_hash_block_commitments self @ u32_to_le_bytes (eh_time self) @ u32_to_le_bytes (eh_bits self) @
     eh_nonce self"

record TemplateTransaction =
  tt_data :: string
  tt_hash :: string
  tt_fee :: i64
  tt_depends :: "u32 list"

record DefaultRoots =
  dr_merkle_root :: string
  dr_chain_history_root :: string
  dr_auth_data_root :: string
  dr_block_commitments_hash :: string

record 'json GetBlockTemplateResponse =
  gbt_version :: u32
  gbt_previous_block_hash :: string
  gbt_default_roots :: DefaultRoots
  gbt_transactions :: "TemplateTransaction list"
  gbt_coinbase_txn :: 'json
  gbt_target :: string
  gbt_height :: u64
  gbt_bits :: string
  gbt_cur_time :: u64

text \<open>\<open>GetBlockchainInfoResponse\<close> with its one nested field \<open>consensus.nextblock\<close>.\<close>

record GetBlockchainInfoResponse =
  bci_next_block :: string

record BlockTemplate =
  bt_template_id :: u64
  bt_height :: u64
  bt_header :: EquihashHeader
  bt_target :: Hash256
  bt_transactions :: "TemplateTransaction list"
  bt_coinbase :: bytes
  bt_chain_history_root :: Hash256
  bt_consensus_branch_id :: u32
  bt_total_fees :: i64

text \<open>The arrays of a template have their fixed lengths.\<close>

definition template_wf :: "BlockTemplate \<Rightarrow> bool" where
  "template_wf t \<longleftrightarrow> header_wf (bt_header t) \<and> length (bt_target t) = 32"

text \<open>The error type; the payloads that are error types of other crates are left out.\<close>

datatype template_error = Rpc string | Json | Http | Hex | InvalidTemplate string | Connection string

section \<open>Hexadecimal\<close>

text \<open>The operations of the hex crate: \<open>decode\<close>, \<open>decode_to_slice\<close> with the length of the slice,
  \<open>encode\<close>, and the \<open>Display\<close> of its error type \<open>'h\<close>.\<close>

record 'h hex_crate =
  hex_decode :: "string \<Rightarrow> 'h + bytes"
  hex_decode_to_slice :: "string \<Rightarrow> nat \<Rightarrow> 'h + bytes"
  hex_encode :: "bytes \<Rightarrow> string"
  hex_show_error :: "'h \<Rightarrow> string"

definition from_hex :: "'h hex_crate \<Rightarrow> string \<Rightarrow> 'h + Hash256" where
  "from_hex hex s = bindR (hex_decode_to_slice hex s 32) (\<lambda>bytes. Inr (rev bytes))"

definition to_hex :: "'h hex_crate \<Rightarrow> Hash256 \<Rightarrow> string" where
  "to_hex hex self = hex_encode hex (rev self)"

text \<open>\<open>u32::from_str_radix (_, 16)\<close> of the standard library.\<close>

datatype ParseIntError = IntEmpty | IntInvalidDigit | IntPosOverflow

definition hex_digit :: "char \<Rightarrow> nat option" where
  "hex_digit c =
     (let n = of_char c in
      if 48 \<le> n \<and> n \<le> 57 then Some (n - 48)
      else if 97 \<le> n \<and> n \<le> 102 then Some (n - 87)
      else if 65 \<le> n \<and> n \<le> 70 then Some (n - 55)
      else None)"

fun u32_hex_digits :: "nat \<Rightarrow> string \<Rightarrow> ParseIntError + u32" where
  "u32_hex_digits acc [] = Inr (of_nat acc)"
| "u32_hex_digits acc (c # cs) =
     (case hex_digit c of
        None \<Rightarrow> Inl IntInvalidDigit
      | Some x \<Rightarrow> if 2 ^ 32 \<le> acc * 16 then Inl IntPosOverflow else u32_hex_digits (acc * 16 + x) cs)"

definition u32_from_hex_radix :: "string \<Rightarrow> ParseIntError + u32" where
  "u32_from_hex_radix s =
     (if s = [] then Inl IntEmpty
      else if s = ''+'' \<or> s = ''-'' then Inl IntInvalidDigit
      else if hd s = CHR ''+'' then u32_hex_digits 0 (tl s)
      else u32_hex_digits 0 s)"

definition show_parse_int_error :: "ParseIntError \<Rightarrow> string" where
  "show_parse_int_error e =
     (case e of
        IntEmpty \<Rightarrow> ''cannot parse integer from empty string''
      | IntInvalidDigit \<Rightarrow> ''invalid digit found in string''
      | IntPosOverflow \<Rightarrow> ''number too large to fit in target type'')"

fun trim_start_0x :: "string \<Rightarrow> string" where
  "trim_start_0x (a # b # s) = (if a = CHR ''0'' \<and> b = CHR ''x'' then trim_start_0x s else a # b # s)"
| "trim_start_0x s = s"

definition next_block_branch_id :: "GetBlockchainInfoResponse \<Rightarrow> ParseIntError + u32" where
  "next_block_branch_id self = u32_from_hex_radix (trim_start_0x (bci_next_block self))"

section \<open>Header assembly\<close>

text \<open>\<open>blake2b personal input\<close> stands for BLAKE2b-256 with a personalization.\<close>

definition BLOCK_COMMIT_PERSONALIZATION :: bytes where
  "BLOCK_COMMIT_PERSONALIZATION = as_bytes ''ZcashBlockCommit''"

definition calculate_block_commitments_hash ::
  "(bytes \<Rightarrow> bytes \<Rightarrow> bytes) \<Rightarrow> Hash256 \<Rightarrow> Hash256 \<Rightarrow> Hash256" where
  "calculate_block_commitments_hash blake2b history_root auth_data_root =
     blake2b BLOCK_COMMIT_PERSONALIZATION (history_root @ auth_data_root @ replicate 32 0)"

definition invalid_hex :: "'h hex_crate \<Rightarrow> string \<Rightarrow> 'h \<Rightarrow> template_error" where
  "invalid_hex hex what e = InvalidTemplate (what @ hex_show_error hex e)"

definition assemble_header ::
  "'h hex_crate \<Rightarrow> (bytes \<Rightarrow> bytes \<Rightarrow> bytes) \<Rightarrow> 'json GetBlockTemplateResponse
    \<Rightarrow> template_error + EquihashHeader" where
  "assemble_header hex blake2b template =
     bindR (map_err (invalid_hex hex ''invalid prev_hash: '')
         (from_hex hex (gbt_previous_block_hash template))) (\<lambda>prev_hash.
     let roots = gbt_default_roots template in
     bindR (map_err (invalid_hex hex ''invalid merkle_root: '') (from_hex hex (dr_merkle_root roots)))
       (\<lambda>merkle_root.
     bindR (case (from_hex hex (dr_chain_history_root roots), from_hex hex (dr_auth_data_root roots)) of
         (Inr history_root, Inr auth_root) \<Rightarrow>
           Inr (calculate_block_commitments_hash blake2b history_root auth_root)
       | _ \<Rightarrow> map_err (invalid_hex hex ''invalid block_commitments_hash: '')
           (from_hex hex (dr_block_commitments_hash roots))) (\<lambda>hash_block_commitments.
     bindR (map_err (\<lambda>e. InvalidTemplate (''invalid bits: '' @ show_parse_int_error e))
         (u32_from_hex_radix (gbt_bits template))) (\<lambda>bits.
     if gbt_cur_time template > 2 ^ 32 - 1
     then Inl (InvalidTemplate (''timestamp '' @ show_nat (unat (gbt_cur_time template))
       @ '' exceeds u32::MAX''))
     else Inr \<lparr>eh_version = gbt_version template, eh_prev_hash = prev_hash,
       eh_merkle_root = merkle_root, eh_hash_block_commitments = hash_block_commitments,
       eh_time = ucast (gbt_cur_time template), eh_bits = bits, eh_nonce = replicate 32 0\<rparr>))))"

definition parse_target :: "'h hex_crate \<Rightarrow> string \<Rightarrow> template_error + Hash256" where
  "parse_target hex target_hex =
     map_err (invalid_hex hex ''invalid target: '') (from_hex hex target_hex)"

section \<open>Nonce partitioning\<close>

record NonceRange =
  nr_nonce_1 :: bytes
  nr_nonce_2_len :: nat

text \<open>The slice copies panic when \<open>nonce_1\<close> is longer than 32 bytes or the two parts do not fill
  the nonce.\<close>

definition make_nonce :: "NonceRange \<Rightarrow> bytes \<Rightarrow> bytes option outcome" where
  "make_nonce self nonce_2 =
     (if length nonce_2 \<noteq> nr_nonce_2_len self then Returns None
      else if 32 < length (nr_nonce_1 self) then Panics
      else if length nonce_2 \<noteq> 32 - length (nr_nonce_1 self) then Panics
      else Returns (Some (nr_nonce_1 self @ nonce_2)))"

record NoncePartitioner =
  np_nonce_1_len :: nat
  np_next_id :: u64

definition NoncePartitioner_new :: "nat \<Rightarrow> NoncePartitioner option" where
  "NoncePartitioner_new nonce_1_len =
     (if nonce_1_len > 32 then None else Some \<lparr>np_nonce_1_len = nonce_1_len, np_next_id = 0\<rparr>)"

definition get_range :: "NoncePartitioner \<Rightarrow> u64 \<Rightarrow> NonceRange" where
  "get_range self i =
     (let n = np_nonce_1_len self;
          id_bytes = u64_to_be_bytes i;
          copy_len = min n 8;
          start = n - 8 in
      \<lparr>nr_nonce_1 = replicate start 0 @ drop (8 - copy_len) id_bytes @ replicate (n - (start + copy_len)) 0,
       nr_nonce_2_len = 32 - n\<rparr>)"

definition allocate_range :: "NoncePartitioner \<Rightarrow> NonceRange \<times> NoncePartitioner" where
  "allocate_range self =
     (get_range self (np_next_id self), self\<lparr>np_next_id := np_next_id self + 1\<rparr>)"

section \<open>The provider\<close>

record TemplateProvider =
  tp_template_id :: u64
  tp_consensus_branch_cache :: "(u64 \<times> u32) option"
  tp_current_template :: "BlockTemplate option"

definition TemplateProvider_new :: TemplateProvider where
  "TemplateProvider_new =
     \<lparr>tp_template_id = 1, tp_consensus_branch_cache = None, tp_current_template = None\<rparr>"

text \<open>\<open>info\<close> is the answer \<open>getblockchaininfo\<close> gives if it is asked.\<close>

definition consensus_branch_id_for_height ::
  "template_error + GetBlockchainInfoResponse \<Rightarrow> u64 \<Rightarrow> TemplateProvider
    \<Rightarrow> (template_error + u32) \<times> TemplateProvider" where
  "consensus_branch_id_for_height info height self =
     (case (case tp_consensus_branch_cache self of
              Some (cached_height, branch_id) \<Rightarrow> if cached_height = height then Some branch_id else None
            | None \<Rightarrow> None) of
        Some branch_id \<Rightarrow> (Inr branch_id, self)
      | None \<Rightarrow>
          (case bindR info (\<lambda>info. map_err (\<lambda>e. InvalidTemplate
                  (''invalid getblockchaininfo consensus.nextblock branch id: '' @ show_parse_int_error e))
                  (next_block_branch_id info)) of
             Inl e \<Rightarrow> (Inl e, self)
           | Inr branch_id \<Rightarrow>
               (Inr branch_id, self\<lparr>tp_consensus_branch_cache := Some (height, branch_id)\<rparr>)))"

text \<open>The JSON value of the coinbase: \<open>json_data v\<close> is the field \<open>data\<close> if the value has one, and
  then its text if it is a string.\<close>

definition parse_coinbase ::
  "'h hex_crate \<Rightarrow> ('json \<Rightarrow> string option option) \<Rightarrow> 'json \<Rightarrow> template_error + bytes" where
  "parse_coinbase hex json_data v =
     (case json_data v of
        Some (Some hex_str) \<Rightarrow>
          bindR (map_err (invalid_hex hex ''invalid coinbase hex: '') (hex_decode hex hex_str)) (\<lambda>cb.
          if cb = [] then Inl (InvalidTemplate ''coinbase transaction is empty'') else Inr cb)
      | Some None \<Rightarrow> Inl (InvalidTemplate ''coinbase data field is not a string'')
      | None \<Rightarrow> Inl (InvalidTemplate ''coinbase_txn missing data field''))"

text \<open>The fallible part of \<open>process_template\<close>, up to the construction of the template.\<close>

definition template_parts ::
  "'h hex_crate \<Rightarrow> (bytes \<Rightarrow> bytes \<Rightarrow> bytes) \<Rightarrow> ('json \<Rightarrow> string option option)
    \<Rightarrow> 'json GetBlockTemplateResponse \<Rightarrow> template_error + EquihashHeader \<times> Hash256 \<times> Hash256 \<times> bytes" where
  "template_parts hex blake2b json_data response =
     bindR (assemble_header hex blake2b response) (\<lambda>header.
     bindR (parse_target hex (gbt_target response)) (\<lambda>target.
     bindR (map_err (invalid_hex hex ''invalid chainhistoryroot: '')
         (from_hex hex (dr_chain_history_root (gbt_default_roots response)))) (\<lambda>chain_history_root.
     bindR (parse_coinbase hex json_data (gbt_coinbase_txn response)) (\<lambda>coinbase.
     Inr (header, target, chain_history_root, coinbase)))))"

definition process_template ::
  "'h hex_crate \<Rightarrow> (bytes \<Rightarrow> bytes \<Rightarrow> bytes) \<Rightarrow> ('json \<Rightarrow> string option option)
    \<Rightarrow> 'json GetBlockTemplateResponse \<Rightarrow> u32 \<Rightarrow> TemplateProvider
    \<Rightarrow> (template_error + BlockTemplate) \<times> TemplateProvider" where
  "process_template hex blake2b json_data response consensus_branch_id self =
     (case template_parts hex blake2b json_data response of
        Inl e \<Rightarrow> (Inl e, self)
      | Inr (header, target, chain_history_root, coinbase) \<Rightarrow>
          (Inr \<lparr>bt_template_id = tp_template_id self, bt_height = gbt_height response,
             bt_header = header, bt_target = target, bt_transactions = gbt_transactions response,
             bt_coinbase = coinbase, bt_chain_history_root = chain_history_root,
             bt_consensus_branch_id = consensus_branch_id,
             bt_total_fees = sum_list (map tt_fee (gbt_transactions response))\<rparr>,
           self\<lparr>tp_template_id := tp_template_id self + 1\<rparr>))"

definition fetch_template ::
  "'h hex_crate \<Rightarrow> (bytes \<Rightarrow> bytes \<Rightarrow> bytes) \<Rightarrow> ('json \<Rightarrow> string option option)
    \<Rightarrow> template_error + 'json GetBlockTemplateResponse \<Rightarrow> template_error + GetBlockchainInfoResponse
    \<Rightarrow> TemplateProvider \<Rightarrow> (template_error + BlockTemplate) \<times> TemplateProvider" where
  "fetch_template hex blake2b json_data answer info self =
     (case answer of
        Inl e \<Rightarrow> (Inl e, self)
      | Inr response \<Rightarrow>
          (case consensus_branch_id_for_height info (gbt_height response) self of
             (Inl e, self) \<Rightarrow> (Inl e, self)
           | (Inr branch_id, self) \<Rightarrow> process_template hex blake2b json_data response branch_id self))"

definition fingerprint :: "'json GetBlockTemplateResponse \<Rightarrow> string" where
  "fingerprint response =
     gbt_previous_block_hash response @ '':'' @ show_nat (unat (gbt_height response)) @ '':'' @
     dr_merkle_root (gbt_default_roots response) @ '':'' @
     dr_block_commitments_hash (gbt_default_roots response) @ '':'' @ gbt_bits response @ '':'' @
     show_nat (unat (gbt_cur_time response)) @ '':'' @ gbt_target response @ '':'' @
     show_nat (length (gbt_transactions response))"

text \<open>
  One pass of the loop of \<open>run\<close>.  The loop's local \<open>last_fingerprint\<close> is passed along; the result
  lists what the pass broadcasts to the subscribers.
\<close>

definition poll ::
  "'h hex_crate \<Rightarrow> (bytes \<Rightarrow> bytes \<Rightarrow> bytes) \<Rightarrow> ('json \<Rightarrow> string option option)
    \<Rightarrow> TemplateProvider \<times> string option
    \<Rightarrow> (template_error + 'json GetBlockTemplateResponse) \<times> (template_error + GetBlockchainInfoResponse)
    \<Rightarrow> BlockTemplate list \<times> (TemplateProvider \<times> string option)" where
  "poll hex blake2b json_data = (\<lambda>(self, last_fingerprint) (answer, info).
     (case answer of
        Inl e \<Rightarrow> ([], (self, last_fingerprint))
      | Inr response \<Rightarrow>
          if last_fingerprint \<noteq> Some (fingerprint response) then
            (case consensus_branch_id_for_height info (gbt_height response) self of
               (Inl e, self) \<Rightarrow> ([], (self, last_fingerprint))
             | (Inr branch_id, self) \<Rightarrow>
                 (case process_template hex blake2b json_data response branch_id self of
                    (Inl e, self) \<Rightarrow> ([], (self, last_fingerprint))
                  | (Inr template, self) \<Rightarrow>
                      ([template], (self\<lparr>tp_current_template := Some template\<rparr>,
                        Some (fingerprint response)))))
          else ([], (self, last_fingerprint))))"

section \<open>Nonce ranges\<close>

lemma get_range_nonce_1:
  "nr_nonce_1 (get_range p i) =
     replicate (np_nonce_1_len p - 8) 0 @ rev (nat_to_le (min (np_nonce_1_len p) 8) (unat i))"
proof -
  have "drop (8 - k) (u64_to_be_bytes i) = rev (nat_to_le k (unat i))" if "k \<le> 8" for k
    using that by (simp add: u64_to_be_bytes_def u64_to_le_bytes_def drop_rev take_nat_to_le)
  then show ?thesis by (simp add: get_range_def Let_def min_def)
qed

lemma get_range_nonce_2_len [simp]: "nr_nonce_2_len (get_range p i) = 32 - np_nonce_1_len p"
  by (simp add: get_range_def Let_def)

lemma get_range_length [simp]: "length (nr_nonce_1 (get_range p i)) = np_nonce_1_len p"
  by (simp add: get_range_nonce_1 min_def)

lemma make_nonce_get_range:
  assumes "np_nonce_1_len p \<le> 32" "length n2 = 32 - np_nonce_1_len p"
  shows "make_nonce (get_range p i) n2 = Returns (Some (nr_nonce_1 (get_range p i) @ n2))"
  using assms by (simp add: make_nonce_def)

lemma allocate_ranges:
  "fst (run_all (\<lambda>p (_ :: unit). allocate_range p) p us) =
     map (\<lambda>k. get_range p (np_next_id p + of_nat k)) [0..<length us]"
proof (induction us arbitrary: p)
  case Nil
  then show ?case by simp
next
  case (Cons u us)
  let ?p = "p\<lparr>np_next_id := np_next_id p + 1\<rparr>"
  have same: "get_range (p\<lparr>np_next_id := m\<rparr>) i = get_range p i" for m i by (simp add: get_range_def)
  have "fst (run_all (\<lambda>p (_ :: unit). allocate_range p) p (u # us)) =
      get_range p (np_next_id p) # fst (run_all (\<lambda>p (_ :: unit). allocate_range p) ?p us)"
    by (simp add: split_beta Let_def allocate_range_def)
  also have "\<dots> = map (\<lambda>k. get_range p (np_next_id p + of_nat k)) [0..<Suc (length us)]"
    unfolding Cons.IH same by (subst map_upt_Suc) (simp add: ac_simps)
  finally show ?case unfolding list.size(4) add_0_right add_Suc_right .
qed

lemma nonce_1_inject:
  assumes "nr_nonce_1 (get_range p i) = nr_nonce_1 (get_range p j)"
    "unat i < 256 ^ min (np_nonce_1_len p) 8" "unat j < 256 ^ min (np_nonce_1_len p) 8"
  shows "i = j"
proof -
  have "nat_to_le (min (np_nonce_1_len p) 8) (unat i) = nat_to_le (min (np_nonce_1_len p) 8) (unat j)"
    using assms(1) by (simp add: get_range_nonce_1)
  then have "unat i = unat j" using assms(2,3) nat_to_le_inject by blast
  then show ?thesis by (simp add: word_unat_eq_iff)
qed

section \<open>Polling\<close>

lemma process_template_cases:
  obtains e where "isl (template_parts hex b2 js r)" "process_template hex b2 js r branch self = (Inl e, self)"
  | t where "\<not> isl (template_parts hex b2 js r)"
    "process_template hex b2 js r branch self = (Inr t, self\<lparr>tp_template_id := tp_template_id self + 1\<rparr>)"
    "bt_template_id t = tp_template_id self"
  by (cases "template_parts hex b2 js r") (auto simp: process_template_def split: prod.splits)

lemma consensus_branch_cases:
  obtains e where "consensus_branch_id_for_height info h self = (Inl e, self)"
  | branch cache where "consensus_branch_id_for_height info h self =
      (Inr branch, self\<lparr>tp_consensus_branch_cache := cache\<rparr>)"
proof (cases "consensus_branch_id_for_height info h self")
  case (Pair res self')
  then have "case res of Inl e \<Rightarrow> self' = self
      | Inr branch \<Rightarrow> \<exists>cache. self' = self\<lparr>tp_consensus_branch_cache := cache\<rparr>"
    by (auto simp: consensus_branch_id_for_height_def split: option.splits sum.splits if_splits
        intro: exI [of _ "tp_consensus_branch_cache self"])
  with Pair that show ?thesis by (cases res) auto
qed

lemma poll_cases:
  fixes s :: "TemplateProvider \<times> string option"
  obtains "fst (poll hex b2 js s a) = []" "tp_template_id (fst (snd (poll hex b2 js s a))) = tp_template_id (fst s)"
    "tp_current_template (fst (snd (poll hex b2 js s a))) = tp_current_template (fst s)"
    "snd (snd (poll hex b2 js s a)) = snd s"
  | t r where "fst (poll hex b2 js s a) = [t]" "fst a = Inr r" "bt_template_id t = tp_template_id (fst s)"
    "tp_template_id (fst (snd (poll hex b2 js s a))) = tp_template_id (fst s) + 1"
    "tp_current_template (fst (snd (poll hex b2 js s a))) = Some t"
    "snd (snd (poll hex b2 js s a)) = Some (fingerprint r)" "snd s \<noteq> Some (fingerprint r)"
proof -
  obtain self l ans info where sa: "s = (self, l)" "a = (ans, info)" by (cases s; cases a)
  show ?thesis
  proof (cases ans)
    case (Inl e)
    then show ?thesis using that(1) by (simp add: sa poll_def)
  next
    case (Inr r)
    show ?thesis
    proof (cases "l = Some (fingerprint r)")
      case True
      then show ?thesis using that(1) Inr by (simp add: sa poll_def)
    next
      case False
      show ?thesis
      proof (cases info "gbt_height r" self rule: consensus_branch_cases)
        case 1
        then show ?thesis using that(1) Inr False by (simp add: sa poll_def)
      next
        case (2 branch cache)
        let ?self = "self\<lparr>tp_consensus_branch_cache := cache\<rparr>"
        show ?thesis
          by (cases rule: process_template_cases [of hex b2 js r branch ?self])
            (use that 2 Inr False in \<open>simp_all add: sa poll_def\<close>)
      qed
    qed
  qed
qed

lemma map_upt_add:
  "[f 0] @ map (\<lambda>k. f (Suc k)) [0..<n] = map f [0..<Suc n]"
  by (subst map_upt_Suc) simp

lemma poll_run:
  defines "outs \<equiv> \<lambda>hex b2 js s as. concat (fst (run_all (poll hex b2 js) s as))"
    and "fin \<equiv> \<lambda>hex b2 js s as. fst (snd (run_all (poll hex b2 js) s as))"
  shows "map bt_template_id (outs hex b2 js s as) =
      map (\<lambda>k. tp_template_id (fst s) + of_nat k) [0..<length (outs hex b2 js s as)]
    \<and> tp_template_id (fin hex b2 js s as) = tp_template_id (fst s) + of_nat (length (outs hex b2 js s as))
    \<and> tp_current_template (fin hex b2 js s as) =
      (if outs hex b2 js s as = [] then tp_current_template (fst s) else Some (last (outs hex b2 js s as)))"
proof (induction as arbitrary: s)
  case Nil
  then show ?case by (simp add: outs_def fin_def)
next
  case (Cons a as)
  let ?s = "snd (poll hex b2 js s a)"
  have outs: "outs hex b2 js s (a # as) = fst (poll hex b2 js s a) @ outs hex b2 js ?s as"
    and fin: "fin hex b2 js s (a # as) = fin hex b2 js ?s as"
    by (simp_all add: outs_def fin_def split_beta Let_def)
  note IH = Cons.IH [of ?s]
  show ?case
  proof (cases rule: poll_cases [of hex b2 js s a])
    case 1
    then show ?thesis using IH by (simp add: outs fin)
  next
    case (2 t r)
    have "map bt_template_id (outs hex b2 js s (a # as)) =
        [tp_template_id (fst s) + of_nat 0]
        @ map (\<lambda>k. tp_template_id (fst s) + of_nat (Suc k)) [0..<length (outs hex b2 js ?s as)]"
      using IH 2 by (simp add: outs add.assoc)
    also have "\<dots> = map (\<lambda>k. tp_template_id (fst s) + of_nat k) [0..<Suc (length (outs hex b2 js ?s as))]"
      by (rule map_upt_add)
    also have "Suc (length (outs hex b2 js ?s as)) = length (outs hex b2 js s (a # as))"
      by (simp add: outs 2)
    finally show ?thesis using IH 2 by (simp add: outs fin ac_simps)
  qed
qed

text \<open>Polls that keep getting one response: it is published at most once, and a poll that failed does
  not stand in the way of a later one.\<close>

definition poll_publishes ::
  "'h hex_crate \<Rightarrow> (bytes \<Rightarrow> bytes \<Rightarrow> bytes) \<Rightarrow> ('json \<Rightarrow> string option option)
    \<Rightarrow> 'json GetBlockTemplateResponse \<Rightarrow> TemplateProvider
    \<Rightarrow> template_error + GetBlockchainInfoResponse \<Rightarrow> bool" where
  "poll_publishes hex b2 js r self info \<longleftrightarrow> \<not> isl (template_parts hex b2 js r)
     \<and> \<not> isl (fst (consensus_branch_id_for_height info (gbt_height r) self))"

lemma poll_publishes_iff:
  assumes "l \<noteq> Some (fingerprint r)"
  shows "fst (poll hex b2 js (self, l) (Inr r, info)) = [] \<longleftrightarrow> \<not> poll_publishes hex b2 js r self info"
proof (cases rule: consensus_branch_cases [of info "gbt_height r" self])
  case (1 e)
  with assms show ?thesis by (simp add: poll_def poll_publishes_def)
next
  case (2 branch cache)
  show ?thesis
    by (cases rule: process_template_cases [of hex b2 js r branch "self\<lparr>tp_consensus_branch_cache := cache\<rparr>"])
      (use assms 2 in \<open>simp_all add: poll_def poll_publishes_def\<close>)
qed

lemma poll_failed_keeps:
  assumes "l \<noteq> Some (fingerprint r)" "\<not> poll_publishes hex b2 js r self info"
  obtains self' where "snd (poll hex b2 js (self, l) (Inr r, info)) = (self', l)"
    "poll_publishes hex b2 js r self' = poll_publishes hex b2 js r self"
proof (cases rule: consensus_branch_cases [of info "gbt_height r" self])
  case (1 e)
  with assms that [of self] show ?thesis by (simp add: poll_def)
next
  case (2 branch cache)
  with assms(2) have "isl (template_parts hex b2 js r)" by (simp add: poll_publishes_def)
  then show ?thesis
    using assms(1) 2 that [of "self\<lparr>tp_consensus_branch_cache := cache\<rparr>"]
    by (cases rule: process_template_cases [of hex b2 js r branch "self\<lparr>tp_consensus_branch_cache := cache\<rparr>"])
      (simp_all add: poll_def poll_publishes_def fun_eq_iff)
qed

lemma poll_known_response:
  "concat (fst (run_all (poll hex b2 js) (self, Some (fingerprint r)) (map (Pair (Inr r)) infos))) = []"
  by (induction infos) (simp_all add: poll_def split_beta Let_def)

lemma poll_repeated:
  assumes "l \<noteq> Some (fingerprint r)"
  shows "length (concat (fst (run_all (poll hex b2 js) (self, l) (map (Pair (Inr r)) infos)))) =
    (if \<exists>info \<in> set infos. poll_publishes hex b2 js r self info then 1 else 0)"
proof (induction infos arbitrary: self)
  case Nil
  then show ?case by simp
next
  case (Cons info infos)
  show ?case
  proof (cases "poll_publishes hex b2 js r self info")
    case True
    then have "fst (poll hex b2 js (self, l) (Inr r, info)) \<noteq> []"
      using poll_publishes_iff [OF assms] by metis
    then obtain t self' where "poll hex b2 js (self, l) (Inr r, info) = ([t], (self', Some (fingerprint r)))"
      by (cases rule: poll_cases [of hex b2 js "(self, l)" "(Inr r, info)"]) (simp_all, metis prod.collapse)
    with True show ?thesis by (simp add: split_beta Let_def poll_known_response)
  next
    case False
    then obtain self' where "snd (poll hex b2 js (self, l) (Inr r, info)) = (self', l)"
      "poll_publishes hex b2 js r self' = poll_publishes hex b2 js r self"
      using poll_failed_keeps [OF assms] by blast
    then show ?thesis using False Cons.IH [of self'] poll_publishes_iff [OF assms, of hex b2 js self info]
      by (simp add: split_beta Let_def)
  qed
qed

section \<open>Claims\<close>

text \<open>
  Miners never share a nonce.  Take the partitioner for any prefix length from 0 to 32 and
  allocate fewer ranges than the prefix can number (\<open>256 ^ 8\<close> at most).  Then \<open>make_nonce\<close> on the
  ranges of two miners, with any two suffixes of the required length, does not panic and gives two
  different nonces of 32 bytes.
\<close>

theorem nonce_ranges_disjoint:
  assumes "NoncePartitioner_new n = Some p"
    and "rs = fst (run_all (\<lambda>p (_ :: unit). allocate_range p) p us)"
    and "length us \<le> 256 ^ min n 8" "i < length us" "j < length us" "i \<noteq> j"
    and "length n2 = 32 - n" "length n2' = 32 - n"
  shows "\<exists>a b. make_nonce (rs ! i) n2 = Returns (Some a) \<and> make_nonce (rs ! j) n2' = Returns (Some b)
    \<and> length a = 32 \<and> length b = 32 \<and> a \<noteq> b"
proof -
  have p: "n \<le> 32" "np_nonce_1_len p = n" "np_next_id p = 0"
    using assms(1) by (auto simp: NoncePartitioner_new_def split: if_splits)
  have lt: "k < length us \<Longrightarrow> k < 256 ^ min n 8 \<and> unat (of_nat k :: u64) = k" for k
  proof -
    assume k: "k < length us"
    have "(256 :: nat) ^ min n 8 \<le> 256 ^ 8" by (rule power_increasing) simp_all
    with k assms(3) show ?thesis by (simp add: unat_of_nat)
  qed
  have nth: "rs ! k = get_range p (of_nat k)" if "k < length us" for k
    using that by (simp add: assms(2) allocate_ranges p(3))
  have "nr_nonce_1 (rs ! i) \<noteq> nr_nonce_1 (rs ! j)"
    using nonce_1_inject [of p "of_nat i" "of_nat j"] lt [OF assms(4)] lt [OF assms(5)] assms(6)
    by (metis nth assms(4,5) p(2))
  then show ?thesis using assms(7,8) p(1)
    by (simp add: nth assms(4,5) make_nonce_get_range p(2))
qed

theorem nonce_ranges_disjoint_witness:
  "\<exists>p rs a b. NoncePartitioner_new 2 = Some p
    \<and> rs = fst (run_all (\<lambda>p (_ :: unit). allocate_range p) p [(), (), ()])
    \<and> make_nonce (rs ! 0) (replicate 30 7) = Returns (Some a)
    \<and> make_nonce (rs ! 2) (replicate 30 7) = Returns (Some b) \<and> a \<noteq> b"
proof -
  let ?p = "\<lparr>np_nonce_1_len = 2, np_next_id = 0\<rparr>"
  have "NoncePartitioner_new 2 = Some ?p" by (simp add: NoncePartitioner_new_def)
  from nonce_ranges_disjoint [OF this refl, of "[(), (), ()]" 0 2 "replicate 30 7" "replicate 30 7"]
  show ?thesis by (simp add: NoncePartitioner_new_def del: run_all.simps) blast
qed

text \<open>
  Templates are published in order.  Whatever the node answers to the polls, the templates
  broadcast carry the ids 1, 2, 3 and so on (modulo \<open>2 ^ 64\<close>) without a gap, failed polls included,
  and the current template is always the last one broadcast.
\<close>

theorem templates_published_in_order:
  "case run_all (poll hex blake2b json_data) (TemplateProvider_new, None) answers of
     (broadcasts, (self, _)) \<Rightarrow>
       map bt_template_id (concat broadcasts) = map (\<lambda>k. of_nat (Suc k)) [0..<length (concat broadcasts)]
       \<and> tp_current_template self =
         (if concat broadcasts = [] then None else Some (last (concat broadcasts)))"
  using poll_run [of hex blake2b json_data "(TemplateProvider_new, None)" answers]
  by (simp add: split_beta TemplateProvider_new_def)

text \<open>
  C18.  A response is published exactly once, and failures are retried.  While the node keeps
  answering \<open>getblocktemplate\<close> with one response that is not the one published last, the polls
  publish one template in total if the response can be processed and \<open>getblockchaininfo\<close> answers
  at least once with a readable branch id (or the cache has it), and none otherwise.
\<close>

theorem response_published_exactly_once:
  assumes "last_fingerprint \<noteq> Some (fingerprint r)"
  shows "length (concat (fst (run_all (poll hex blake2b json_data) (self, last_fingerprint)
      (map (Pair (Inr r)) infos)))) =
    (if \<not> isl (template_parts hex blake2b json_data r)
       \<and> list_ex (\<lambda>info. \<not> isl (fst (consensus_branch_id_for_height info (gbt_height r) self))) infos
     then 1 else 0)"
  using poll_repeated [OF assms, of hex blake2b json_data self infos]
  by (simp add: poll_publishes_def list_ex_iff)

fun sample_hex_decode :: "string \<Rightarrow> unit + bytes" where
  "sample_hex_decode [] = Inr []"
| "sample_hex_decode [c] = Inl ()"
| "sample_hex_decode (c # d # s) =
     (case (hex_digit c, hex_digit d, sample_hex_decode s) of
        (Some a, Some b, Inr bs) \<Rightarrow> Inr (of_nat (16 * a + b) # bs)
      | _ \<Rightarrow> Inl ())"

definition sample_hex :: "unit hex_crate" where
  "sample_hex = \<lparr>hex_decode = sample_hex_decode,
     hex_decode_to_slice = (\<lambda>s n. bindR (sample_hex_decode s) (\<lambda>bs. if length bs = n then Inr bs else Inl ())),
     hex_encode = (\<lambda>_. []), hex_show_error = (\<lambda>_. ''error'')\<rparr>"

definition sample_hash_hex :: string where
  "sample_hash_hex = replicate 63 (CHR ''0'') @ ''a''"

definition sample_response :: "string GetBlockTemplateResponse" where
  "sample_response = \<lparr>gbt_version = 5, gbt_previous_block_hash = sample_hash_hex,
     gbt_default_roots = \<lparr>dr_merkle_root = sample_hash_hex, dr_chain_history_root = sample_hash_hex,
       dr_auth_data_root = sample_hash_hex, dr_block_commitments_hash = []\<rparr>,
     gbt_transactions = [], gbt_coinbase_txn = ''0102'', gbt_target = sample_hash_hex, gbt_height = 7,
     gbt_bits = ''1d00ffff'', gbt_cur_time = 1700000000\<rparr>"

text \<open>The first \<open>getblockchaininfo\<close> fails, the second is unreadable, the third is good.\<close>

theorem response_published_exactly_once_witness:
  "length (concat (fst (run_all (poll sample_hex (\<lambda>_ _. replicate 32 0) (\<lambda>v. Some (Some v)))
      (TemplateProvider_new, None)
      (map (Pair (Inr sample_response)) [Inl Http, Inr \<lparr>bci_next_block = ''0x''\<rparr>,
         Inr \<lparr>bci_next_block = ''0xc8e71055''\<rparr>, Inr \<lparr>bci_next_block = ''0xc8e71055''\<rparr>])))) = 1"
proof -
  have hash: "from_hex sample_hex sample_hash_hex = Inr (10 # replicate 31 0)" by code_simp
  have hex: "u32_from_hex_radix ''1d00ffff'' = Inr 0x1d00ffff"
    "u32_from_hex_radix ''c8e71055'' = Inr 0xc8e71055"
    by (simp_all add: u32_from_hex_radix_def hex_digit_def Let_def)
  have "hex_decode sample_hex ''0102'' = Inr [1, 2]" by code_simp
  then have "\<not> isl (template_parts sample_hex (\<lambda>_ _. replicate 32 0) (\<lambda>v. Some (Some v)) sample_response)"
    by (simp add: template_parts_def assemble_header_def parse_target_def parse_coinbase_def
        sample_response_def hash hex)
  moreover have "list_ex (\<lambda>info. \<not> isl (fst (consensus_branch_id_for_height info (gbt_height sample_response)
      TemplateProvider_new))) [Inl Http, Inr \<lparr>bci_next_block = ''0x''\<rparr>,
         Inr \<lparr>bci_next_block = ''0xc8e71055''\<rparr>, Inr \<lparr>bci_next_block = ''0xc8e71055''\<rparr>]"
    by (simp add: consensus_branch_id_for_height_def TemplateProvider_new_def next_block_branch_id_def hex)
  ultimately show ?thesis
    by (subst response_published_exactly_once) simp_all
qed

end
