(* ===== verification/Channel.thy ===== *)
theory Channel
  imports Rate_Limit Vardiff Id_Counter Mining_Messages Template
begin

text \<open>
  The channel of one miner, \<open>zcash-pool-server/src/channel.rs\<close>: its nonce prefix, its vardiff
  controller, its rate limiter and the jobs it tracks.  Every \<open>Instant::now\<close> of an operation is an
  argument.
\<close>

record ChannelJob =
  cj_job_id :: u32
  cj_job :: NewEquihashJob
  cj_template :: BlockTemplate
  cj_active :: bool
  cj_created_at :: instant

record Channel =
  ch_id :: u32
  ch_nonce_1 :: bytes
  ch_nonce_2_len :: u8
  ch_vardiff :: VardiffController
  ch_jobs :: "(u32, ChannelJob) hash_map"
  ch_last_job_id :: u32
  ch_rate_limiter :: RateLimiter
  ch_worker_identity :: "string option"

definition DEFAULT_JOB_TTL :: duration where
  "DEFAULT_JOB_TTL = from_secs 600"

definition new_with_id ::
  "instant \<Rightarrow> instant \<Rightarrow> u32 \<Rightarrow> bytes \<Rightarrow> VardiffConfig \<Rightarrow> Channel option outcome" where
  "new_with_id now now' channel_id nonce_1 vardiff_config =
     (if length nonce_1 > 32 then Returns None
      else let nonce_2_len = 32 - of_nat (length nonce_1) in
        case VardiffController_new now vardiff_config of
          Panics \<Rightarrow> Panics
        | Returns vardiff \<Rightarrow> Returns (Some
            \<lparr>ch_id = channel_id, ch_nonce_1 = nonce_1, ch_nonce_2_len = nonce_2_len,
             ch_vardiff = vardiff, ch_jobs = [], ch_last_job_id = 0,
             ch_rate_limiter = for_shares now', ch_worker_identity = None\<rparr>))"

text \<open>\<open>Channel::new\<close>, with the counter of the channel ids passed along.\<close>

definition Channel_new ::
  "instant \<Rightarrow> instant \<Rightarrow> u32 \<Rightarrow> bytes \<Rightarrow> VardiffConfig \<Rightarrow> Channel option outcome \<times> u32" where
  "Channel_new now now' counter nonce_1 vardiff_config =
     (let (channel_id, counter) = next_id counter in
      (new_with_id now now' channel_id nonce_1 vardiff_config, counter))"

definition generate_nonce_1 :: "u32 \<Rightarrow> u8 \<Rightarrow> bytes option" where
  "generate_nonce_1 channel_id len =
     (if len > 32 then None
      else let copy_len = min (unat len) 4 in
        Some (take copy_len (u32_to_le_bytes channel_id) @ replicate (unat len - copy_len) 0))"

text \<open>The eviction loop.\<close>

function evict_jobs :: "(u32, ChannelJob) hash_map \<Rightarrow> (u32, ChannelJob) hash_map" where
  "evict_jobs jobs =
     (if length jobs > 10 then
        (case map_option fst (min_by_key (\<lambda>(_, j). cj_created_at j) jobs) of
           Some oldest_id \<Rightarrow> evict_jobs (hm_remove oldest_id jobs)
         | None \<Rightarrow> jobs)
      else jobs)"
  by pat_completeness auto
termination
proof (relation "measure length")
  fix jobs :: "(u32, ChannelJob) hash_map" and oldest_id
  assume "map_option fst (min_by_key (\<lambda>(_, j). cj_created_at j) jobs) = Some oldest_id"
  then obtain e where e: "min_by_key (\<lambda>(_, j). cj_created_at j) jobs = Some e" "fst e = oldest_id" by auto
  then have "oldest_id \<in> fst ` set jobs" using min_by_key_SomeD [OF e(1)] by auto
  then show "(hm_remove oldest_id jobs, jobs) \<in> measure length"
    by (auto simp: hm_remove_def AList.delete_eq intro!: length_filter_less)
qed simp

declare evict_jobs.simps [simp del]

definition add_job :: "instant \<Rightarrow> NewEquihashJob \<Rightarrow> BlockTemplate \<Rightarrow> bool \<Rightarrow> Channel \<Rightarrow> Channel" where
  "add_job now job template clean_jobs self =
     (let self = (if clean_jobs
                  then self\<lparr>ch_jobs := hm_map (\<lambda>_ j. j\<lparr>cj_active := False\<rparr>) (ch_jobs self)\<rparr> else self);
          job_id = nj_job_id job;
          self = self\<lparr>ch_last_job_id := max (ch_last_job_id self) job_id\<rparr>;
          channel_job = \<lparr>cj_job_id = job_id, cj_job = job, cj_template = template, cj_active = True,
            cj_created_at = now\<rparr>;
          self = self\<lparr>ch_jobs := hm_insert job_id channel_job (ch_jobs self)\<rparr> in
      self\<lparr>ch_jobs := evict_jobs (ch_jobs self)\<rparr>)"

definition get_job :: "Channel \<Rightarrow> u32 \<Rightarrow> ChannelJob option" where
  "get_job self job_id = hm_get (ch_jobs self) job_id"

definition is_job_active_with_ttl :: "instant \<Rightarrow> Channel \<Rightarrow> u32 \<Rightarrow> duration \<Rightarrow> bool" where
  "is_job_active_with_ttl now self job_id ttl =
     (case hm_get (ch_jobs self) job_id of
        Some j \<Rightarrow> cj_active j \<and> duration_since now (cj_created_at j) < ttl
      | None \<Rightarrow> False)"

definition is_job_active :: "instant \<Rightarrow> Channel \<Rightarrow> u32 \<Rightarrow> bool" where
  "is_job_active now self job_id =
     (case hm_get (ch_jobs self) job_id of
        Some j \<Rightarrow> cj_active j \<and> duration_since now (cj_created_at j) < DEFAULT_JOB_TTL
      | None \<Rightarrow> False)"

definition tracked_job_ids :: "Channel \<Rightarrow> u32 list" where
  "tracked_job_ids self = map fst (ch_jobs self)"

definition channel_current_target :: "Channel \<Rightarrow> bytes" where
  "channel_current_target self = current_target (ch_vardiff self)"

definition idle_retarget ::
  "instant \<Rightarrow> instant \<Rightarrow> Channel \<Rightarrow> (Channel \<times> f64 option) outcome" where
  "idle_retarget now reset_now self =
     (case maybe_retarget now reset_now (ch_vardiff self) of
        Panics \<Rightarrow> Panics
      | Returns (vardiff, r) \<Rightarrow> Returns (self\<lparr>ch_vardiff := vardiff\<rparr>, r))"

definition channel_record_share ::
  "instant \<Rightarrow> instant \<Rightarrow> Channel \<Rightarrow> (Channel \<times> f64 option) outcome" where
  "channel_record_share now reset_now self =
     (let self = self\<lparr>ch_vardiff := vardiff_record_share (ch_vardiff self)\<rparr> in
      case maybe_retarget now reset_now (ch_vardiff self) of
        Panics \<Rightarrow> Panics
      | Returns (vardiff, r) \<Rightarrow> Returns (self\<lparr>ch_vardiff := vardiff\<rparr>, r))"

definition check_rate_limit :: "instant \<Rightarrow> Channel \<Rightarrow> bool \<times> Channel" where
  "check_rate_limit now self =
     (let (r, limiter) = rate_check now (ch_rate_limiter self) in
      (is_allowed r, self\<lparr>ch_rate_limiter := limiter\<rparr>))"

section \<open>The tracked jobs\<close>

text \<open>A map of jobs stands for a list of jobs, oldest first.\<close>

definition jobs_stand_for :: "(u32, ChannelJob) hash_map \<Rightarrow> ChannelJob list \<Rightarrow> bool" where
  "jobs_stand_for m js \<longleftrightarrow> hm_wf m \<and> set m = (\<lambda>j. (cj_job_id j, j)) ` set js
     \<and> distinct (map cj_job_id js) \<and> sorted_wrt (<) (map cj_created_at js)"

lemma jobs_stand_for_length:
  assumes "jobs_stand_for m js"
  shows "length m = length js"
proof -
  have "distinct js" "inj_on (\<lambda>j. (cj_job_id j, j)) (set js)" "distinct m"
    using assms by (auto simp: jobs_stand_for_def hm_wf_def distinct_map inj_on_def)
  then have "length m = card (set m)" "card ((\<lambda>j. (cj_job_id j, j)) ` set js) = length js"
    by (simp_all add: distinct_card card_image)
  then show ?thesis using assms by (simp add: jobs_stand_for_def)
qed

lemma jobs_stand_for_get:
  assumes "jobs_stand_for m js"
  shows "hm_get m k = find (\<lambda>j. cj_job_id j = k) js"
proof (cases "find (\<lambda>j. cj_job_id j = k) js")
  case None
  then have "k \<notin> fst ` set m" using assms by (auto simp: find_None_iff jobs_stand_for_def)
  with None show ?thesis by (metis hm_get_SomeD image_eqI fst_conv option.exhaust)
next
  case (Some j)
  then have "j \<in> set js" "cj_job_id j = k" by (auto simp: find_Some_iff)
  then have "(k, j) \<in> set m" using assms by (auto simp: jobs_stand_for_def)
  with Some show ?thesis using assms by (metis hm_get_SomeI jobs_stand_for_def)
qed

lemma jobs_stand_for_evict:
  "jobs_stand_for m js \<Longrightarrow> jobs_stand_for (evict_jobs m) (drop (length js - 10) js)"
proof (induction "length js" arbitrary: m js)
  case 0
  then show ?case using jobs_stand_for_length [of m js] by (simp add: evict_jobs.simps)
next
  case (Suc n)
  note rep = Suc.prems
  have len: "length m = length js" using rep by (rule jobs_stand_for_length)
  show ?case
  proof (cases "length js \<le> 10")
    case True
    then show ?thesis using rep len by (simp add: evict_jobs.simps)
  next
    case False
    obtain j js' where js: "js = j # js'" using Suc(2) by (cases js) auto
    obtain k i where e: "min_by_key (\<lambda>(_, j). cj_created_at j) m = Some (k, i)"
      using len js by (cases "min_by_key (\<lambda>(_, j). cj_created_at j) m") auto
    have "(cj_job_id j, j) \<in> set m" using rep js by (auto simp: jobs_stand_for_def)
    with min_by_key_SomeD [OF e] have "cj_created_at i \<le> cj_created_at j" "(k, i) \<in> set m" by auto
    then have "(k, i) = (cj_job_id j, j)" using rep js by (force simp: jobs_stand_for_def)
    then have step: "evict_jobs m = evict_jobs (hm_remove (cj_job_id j) m)"
      using False len e by (subst evict_jobs.simps) simp
    have "jobs_stand_for (hm_remove (cj_job_id j) m) js'"
      using rep js by (auto simp: jobs_stand_for_def hm_remove_def AList.delete_eq hm_wf_def
          distinct_map_filter)
    then have "jobs_stand_for (evict_jobs m) (drop (length js' - 10) js')"
      using Suc.hyps js by (simp add: step)
    moreover have "length js - 10 = Suc (length js' - 10)" using False js by simp
    ultimately show ?thesis by (simp add: js)
  qed
qed

lemma jobs_stand_for_insert:
  assumes "jobs_stand_for m js" "\<forall>j \<in> set js. cj_job_id j \<noteq> cj_job_id new \<and> cj_created_at j < cj_created_at new"
  shows "jobs_stand_for (hm_insert (cj_job_id new) new m) (js @ [new])"
proof -
  have "cj_job_id new \<notin> fst ` set m" using assms by (auto simp: jobs_stand_for_def)
  then have "hm_insert (cj_job_id new) new m = m @ [(cj_job_id new, new)]"
    by (rule hm_insert_fresh)
  with assms show ?thesis
    by (auto simp: jobs_stand_for_def sorted_wrt_append hm_wf_def image_iff)
qed

lemma jobs_stand_for_deactivate:
  assumes "jobs_stand_for m js"
  shows "jobs_stand_for (hm_map (\<lambda>_ j. j\<lparr>cj_active := a\<rparr>) m) (map (\<lambda>j. j\<lparr>cj_active := a\<rparr>) js)"
proof -
  let ?d = "\<lambda>j. j\<lparr>cj_active := a\<rparr>"
  have "set (hm_map (\<lambda>_. ?d) m) = (\<lambda>(k, j). (k, ?d j)) ` (\<lambda>j. (cj_job_id j, j)) ` set js"
    using assms by (simp add: jobs_stand_for_def hm_map_def)
  also have "\<dots> = (\<lambda>j. (cj_job_id j, j)) ` set (map ?d js)" by (simp add: image_image)
  finally show ?thesis using assms by (simp add: jobs_stand_for_def comp_def)
qed

lemma jobs_add_job:
  assumes "jobs_stand_for (ch_jobs ch) js"
    and "\<forall>j \<in> set js. cj_job_id j \<noteq> nj_job_id job \<and> cj_created_at j < now"
    and js': "js' = map (\<lambda>j. if clean then j\<lparr>cj_active := False\<rparr> else j) js
    @ [\<lparr>cj_job_id = nj_job_id job, cj_job = job, cj_template = t, cj_active = True, cj_created_at = now\<rparr>]"
  shows "jobs_stand_for (ch_jobs (add_job now job t clean ch)) (drop (length js' - 10) js')"
proof -
  let ?new = "\<lparr>cj_job_id = nj_job_id job, cj_job = job, cj_template = t, cj_active = True, cj_created_at = now\<rparr>"
  let ?old = "map (\<lambda>j. if clean then j\<lparr>cj_active := False\<rparr> else j) js"
  let ?m = "if clean then hm_map (\<lambda>_ j. j\<lparr>cj_active := False\<rparr>) (ch_jobs ch) else ch_jobs ch"
  have "jobs_stand_for ?m ?old"
    using jobs_stand_for_deactivate [OF assms(1), of False] assms(1) by simp
  then have "jobs_stand_for (hm_insert (cj_job_id ?new) ?new ?m) js'"
    unfolding js' using assms(2) by (intro jobs_stand_for_insert) auto
  moreover have "ch_jobs (add_job now job t clean ch) = evict_jobs (hm_insert (cj_job_id ?new) ?new ?m)"
    by (simp add: add_job_def Let_def)
  ultimately show ?thesis using jobs_stand_for_evict by metis
qed

text \<open>The entry of the \<open>i\<close>-th of a list of additions, after all of them.\<close>

type_synonym job_addition = "instant \<times> NewEquihashJob \<times> BlockTemplate \<times> bool"

definition add_jobs :: "job_addition list \<Rightarrow> Channel \<Rightarrow> Channel" where
  "add_jobs adds ch = fold (\<lambda>(now, job, t, clean). add_job now job t clean) adds ch"

definition entry_after :: "job_addition list \<Rightarrow> nat \<Rightarrow> ChannelJob" where
  "entry_after adds i = (case adds ! i of (now, job, t, clean) \<Rightarrow>
     \<lparr>cj_job_id = nj_job_id job, cj_job = job, cj_template = t,
      cj_active = list_all (\<lambda>(_, _, _, clean). \<not> clean) (drop (Suc i) adds), cj_created_at = now\<rparr>)"

definition entries_after :: "job_addition list \<Rightarrow> ChannelJob list" where
  "entries_after adds = map (entry_after adds) [0..<length adds]"

lemma entries_after_snoc:
  "entries_after (adds @ [(now, job, t, clean)]) =
     map (\<lambda>j. if clean then j\<lparr>cj_active := False\<rparr> else j) (entries_after adds)
     @ [\<lparr>cj_job_id = nj_job_id job, cj_job = job, cj_template = t, cj_active = True, cj_created_at = now\<rparr>]"
proof -
  have "entry_after (adds @ [(now, job, t, clean)]) i =
      (if clean then (entry_after adds i)\<lparr>cj_active := False\<rparr> else entry_after adds i)"
    if "i < length adds" for i
    using that by (auto simp: entry_after_def nth_append split: prod.split)
  moreover have "entry_after (adds @ [(now, job, t, clean)]) (length adds) =
      \<lparr>cj_job_id = nj_job_id job, cj_job = job, cj_template = t, cj_active = True, cj_created_at = now\<rparr>"
    by (simp add: entry_after_def)
  ultimately show ?thesis by (simp add: entries_after_def)
qed

definition additions_in_order :: "job_addition list \<Rightarrow> bool" where
  "additions_in_order adds \<longleftrightarrow> sorted_wrt (<) (map fst adds)
     \<and> distinct (map (\<lambda>(_, job, _, _). nj_job_id job) adds)"

lemma set_entries_after:
  "set (entries_after adds) \<subseteq> {j. \<exists>now job t clean. (now, job, t, clean) \<in> set adds
     \<and> cj_created_at j = now \<and> cj_job_id j = nj_job_id job}"
proof (induction adds rule: rev_induct)
  case Nil
  then show ?case by (simp add: entries_after_def)
next
  case (snoc a adds)
  obtain now job t clean where a: "a = (now, job, t, clean)" by (cases a)
  show ?case using snoc unfolding a entries_after_snoc by fastforce
qed

lemma map_drop_append_last:
  assumes "k = length xs - 10"
  shows "drop (length (map f (drop k xs) @ [x]) - 10) (map f (drop k xs) @ [x]) =
    drop (Suc (length xs) - 10) (map f xs @ [x])"
proof -
  have "map f xs @ [x] = map f (take k xs) @ (map f (drop k xs) @ [x])"
    by (metis append_take_drop_id append_assoc map_append)
  then show ?thesis using assms by (simp add: drop_append add.commute)
qed

lemma add_jobs_stand_for:
  assumes "additions_in_order adds" "ch_jobs ch = []"
  shows "jobs_stand_for (ch_jobs (add_jobs adds ch)) (drop (length adds - 10) (entries_after adds))"
  using assms(1)
proof (induction adds rule: rev_induct)
  case Nil
  then show ?case using assms(2) by (simp add: add_jobs_def entries_after_def jobs_stand_for_def)
next
  case (snoc a adds)
  obtain now job t clean where a: "a = (now, job, t, clean)" by (cases a)
  have order: "additions_in_order adds"
    and new: "\<forall>(now', job', _) \<in> set adds. now' < now \<and> nj_job_id job' \<noteq> nj_job_id job"
    using snoc.prems by (auto simp: additions_in_order_def sorted_wrt_append a) force
  let ?k = "length adds - 10"
  have len: "length (entries_after adds) = length adds" by (simp add: entries_after_def)
  have "\<forall>j \<in> set (drop ?k (entries_after adds)). cj_job_id j \<noteq> nj_job_id job \<and> cj_created_at j < now"
    using new set_entries_after [of adds] set_drop_subset [of ?k "entries_after adds"] by fastforce
  from jobs_add_job [OF snoc.IH [OF order] this refl, of t clean]
  have "jobs_stand_for (ch_jobs (add_job now job t clean (add_jobs adds ch)))
      (drop (Suc (length adds) - 10) (entries_after (adds @ [a])))"
    by (simp only: a entries_after_snoc len map_drop_append_last [of ?k "entries_after adds", unfolded len, OF refl])
  then show ?case by (simp add: add_jobs_def a)
qed

lemma map_job_id_entries: "map cj_job_id (entries_after adds) = map (\<lambda>(_, job, _, _). nj_job_id job) adds"
  by (rule nth_equalityI) (auto simp: entries_after_def entry_after_def split: prod.split)

lemma add_jobs_get:
  assumes "additions_in_order adds" "ch_jobs ch = []" "i < length adds"
  shows "get_job (add_jobs adds ch) (cj_job_id (entry_after adds i)) =
    (if length adds \<le> i + 10 then Some (entry_after adds i) else None)"
proof -
  let ?js = "entries_after adds" and ?k = "length adds - 10" and ?m = "ch_jobs (add_jobs adds ch)"
  have rep: "jobs_stand_for ?m (drop ?k ?js)" by (rule add_jobs_stand_for [OF assms(1,2)])
  have len: "length ?js = length adds" by (simp add: entries_after_def)
  have nth: "?js ! i = entry_after adds i" using assms(3) by (simp add: entries_after_def)
  have dist: "distinct (map cj_job_id ?js)"
    using assms(1) by (simp only: map_job_id_entries additions_in_order_def)
  show ?thesis
  proof (cases "length adds \<le> i + 10")
    case True
    then have "drop ?k ?js ! (i - ?k) = entry_after adds i" using assms(3) len nth by simp
    then have "entry_after adds i \<in> set (drop ?k ?js)"
      using assms(3) len True by (metis diff_less_mono length_drop nth_mem le_diff_conv)
    then have "(cj_job_id (entry_after adds i), entry_after adds i) \<in> set ?m"
      using rep by (auto simp: jobs_stand_for_def)
    then show ?thesis using rep True by (simp add: get_job_def jobs_stand_for_def hm_get_SomeI)
  next
    case False
    have "cj_job_id j \<noteq> cj_job_id (entry_after adds i)" if j: "j \<in> set (drop ?k ?js)" for j
    proof -
      obtain l where "l < length (drop ?k ?js)" "j = drop ?k ?js ! l"
        using j unfolding in_set_conv_nth by blast
      then have l: "l < length adds - ?k" "j = ?js ! (?k + l)" using len by simp_all
      then have "cj_job_id (?js ! (?k + l)) \<noteq> cj_job_id (?js ! i)"
        using dist len False assms(3) by (simp add: distinct_conv_nth)
      then show ?thesis using l nth by simp
    qed
    then show ?thesis using jobs_stand_for_get [OF rep] False
      by (simp add: get_job_def find_None_iff)
  qed
qed

section \<open>Claims\<close>

text \<open>
  C20.  A channel tracks exactly its last ten jobs.  Give a fresh channel any jobs with distinct ids
  at increasing instants.  Then it tracks \<open>min 10 n\<close> of them: the \<open>i\<close>-th is found under its id, with
  its own template snapshot, if at most nine were added after it, and is gone otherwise; and it is
  active just if none of the later jobs asked for clean jobs.
\<close>

theorem channel_tracks_last_ten_jobs:
  assumes "additions_in_order adds" "ch_jobs ch = []" "i < length adds" "adds ! i = (now, job, t, clean)"
  shows "get_job (add_jobs adds ch) (nj_job_id job) =
      (if length adds \<le> i + 10
       then Some \<lparr>cj_job_id = nj_job_id job, cj_job = job, cj_template = t,
         cj_active = list_all (\<lambda>(_, _, _, clean). \<not> clean) (drop (Suc i) adds), cj_created_at = now\<rparr>
       else None)
    \<and> length (ch_jobs (add_jobs adds ch)) = min 10 (length adds)"
proof -
  have "length (ch_jobs (add_jobs adds ch)) = length (drop (length adds - 10) (entries_after adds))"
    by (rule jobs_stand_for_length [OF add_jobs_stand_for [OF assms(1,2)]])
  then show ?thesis using add_jobs_get [OF assms(1-3)]
    by (simp add: entries_after_def entry_after_def assms(4) min_def)
qed

definition sample_template :: BlockTemplate where
  "sample_template = \<lparr>bt_template_id = 1, bt_height = 7,
     bt_header = \<lparr>eh_version = 5, eh_prev_hash = replicate 32 1, eh_merkle_root = replicate 32 2,
       eh_hash_block_commitments = replicate 32 3, eh_time = 1700000000, eh_bits = 0x1d00ffff,
       eh_nonce = replicate 32 0\<rparr>,
     bt_target = replicate 32 255, bt_transactions = [], bt_coinbase = [1],
     bt_chain_history_root = replicate 32 4, bt_consensus_branch_id = 0xc8e71055, bt_total_fees = 0\<rparr>"

definition sample_job :: "u32 \<Rightarrow> NewEquihashJob" where
  "sample_job job_id = \<lparr>nj_channel_id = 1, nj_job_id = job_id, nj_future_job = False, nj_version = 5,
     nj_prev_hash = replicate 32 1, nj_merkle_root = replicate 32 2, nj_block_commitments = replicate 32 3,
     nj_nonce_1 = [1, 0, 0, 0], nj_nonce_2_len = 28, nj_time = 1700000000, nj_bits = 0x1d00ffff,
     nj_target = replicate 32 255, nj_clean_jobs = False\<rparr>"

definition sample_channel :: Channel where
  "sample_channel = \<lparr>ch_id = 1, ch_nonce_1 = [1, 0, 0, 0], ch_nonce_2_len = 28,
     ch_vardiff = sample_vardiff, ch_jobs = [], ch_last_job_id = 0, ch_rate_limiter = for_shares 0,
     ch_worker_identity = None\<rparr>"

text \<open>Twelve jobs, the last but one with clean jobs: the second is gone, the fourth is there but stale.\<close>

definition sample_additions :: "job_addition list" where
  "sample_additions = map (\<lambda>k. (int k, sample_job (of_nat k), sample_template, k = 10)) [0..<12]"

theorem channel_tracks_last_ten_jobs_witness:
  "get_job (add_jobs sample_additions sample_channel) 1 = None
    \<and> (\<exists>j. get_job (add_jobs sample_additions sample_channel) 3 = Some j \<and> \<not> cj_active j)
    \<and> length (ch_jobs (add_jobs sample_additions sample_channel)) = 10"
proof -
  have len: "length sample_additions = 12" by (simp add: sample_additions_def)
  have nth: "sample_additions ! k = (int k, sample_job (of_nat k), sample_template, k = 10)" if "k < 12" for k
    using that by (simp add: sample_additions_def)
  have upt: "[0..<12] = [0, 1, 2, 3, 4, 5, 6, 7, 8, 9, 10, 11 :: nat]" by code_simp
  have "additions_in_order sample_additions"
    by (simp add: additions_in_order_def sample_additions_def upt sample_job_def)
  moreover have "ch_jobs sample_channel = []" by (simp add: sample_channel_def)
  moreover have "drop 4 sample_additions ! 6 = (10, sample_job 10, sample_template, True)"
    by (simp add: nth len)
  then have "\<not> list_all (\<lambda>(_, _, _, clean). \<not> clean) (drop 4 sample_additions)"
    using nth_mem [of 6 "drop 4 sample_additions"] len by (force simp: list_all_iff)
  ultimately show ?thesis
    using channel_tracks_last_ten_jobs [of sample_additions sample_channel 1 1 "sample_job 1" sample_template False]
      channel_tracks_last_ten_jobs [of sample_additions sample_channel 3 3 "sample_job 3" sample_template False]
      nth [of 1] nth [of 3]
    by (simp add: len sample_job_def)
qed

section \<open>Nonce prefixes\<close>

lemma generate_nonce_1_eq:
  "len \<le> 32 \<Longrightarrow> generate_nonce_1 c len =
     Some (nat_to_le (min (unat len) 4) (unat c) @ replicate (unat len - min (unat len) 4) 0)"
  by (simp add: generate_nonce_1_def Let_def u32_to_le_bytes_def take_nat_to_le not_less)

lemma nat_to_le_eq_iff: "nat_to_le n x = nat_to_le n y \<longleftrightarrow> x mod 256 ^ n = y mod 256 ^ n"
  by (metis le_to_nat_nat_to_le length_nat_to_le nat_to_le_le_to_nat)

text \<open>
  When nonce prefixes are unique.  With a prefix of at least four bytes, two channels get the
  same \<open>nonce_1\<close> only if they have the same id.  With a shorter prefix, which the configuration check
  accepts from one byte on, they get the same one as soon as the ids agree modulo \<open>256 ^ len\<close>, and
  then search the same nonces, although the prefix is documented as unique.
\<close>

theorem nonce_1_equal_iff:
  assumes "len \<le> 32"
  shows "generate_nonce_1 a len = generate_nonce_1 b len \<longleftrightarrow>
    (if 4 \<le> len then a = b else unat a mod 256 ^ unat len = unat b mod 256 ^ unat len)"
proof (cases "4 \<le> len")
  case True
  then have "min (unat len) 4 = 4" by (simp add: word_le_nat_alt)
  moreover have "unat a mod 256 ^ 4 = unat a" "unat b mod 256 ^ 4 = unat b"
    using unat_less_pow [of a] unat_less_pow [of b] by simp_all
  ultimately show ?thesis using True assms
    by (simp only: generate_nonce_1_eq option.inject append_same_eq nat_to_le_eq_iff word_unat_eq_iff if_True)
next
  case False
  then have "min (unat len) 4 = unat len" by (simp add: word_le_nat_alt)
  with False assms show ?thesis
    by (simp only: generate_nonce_1_eq option.inject append_same_eq nat_to_le_eq_iff if_False)
qed

theorem nonce_1_equal_iff_witness: "generate_nonce_1 1 1 = generate_nonce_1 257 1"
proof -
  have "(1 :: u8) \<le> 32" "\<not> 4 \<le> (1 :: u8)" by code_simp+
  then show ?thesis using nonce_1_equal_iff [of 1 1 257] by simp
qed

end
