(* ===== verification/Job.thy ===== *)
theory Job
  imports Channel
begin

text \<open>
  Job creation, \<open>zcash-pool-server/src/job.rs\<close>, and the invariant of a channel that its jobs rely
  on.  The lemmas tie the header a miner works on to the template the job was made from.
\<close>

record JobDistributor =
  jd_current_template :: "BlockTemplate option"
  jd_prev_hash :: "bytes option"

definition JobDistributor_new :: JobDistributor where
  "JobDistributor_new = \<lparr>jd_current_template = None, jd_prev_hash = None\<rparr>"

definition update_template :: "BlockTemplate \<Rightarrow> JobDistributor \<Rightarrow> bool \<times> JobDistributor" where
  "update_template template self =
     (let is_new_block = (jd_prev_hash self \<noteq> Some (eh_prev_hash (bt_header template))) in
      (is_new_block, self\<lparr>jd_prev_hash := Some (eh_prev_hash (bt_header template)),
         jd_current_template := Some template\<rparr>))"

text \<open>The job counter is passed along; it moves only if there is a template.\<close>

definition create_job_with_template ::
  "u32 \<Rightarrow> JobDistributor \<Rightarrow> Channel \<Rightarrow> bool \<Rightarrow> (NewEquihashJob \<times> BlockTemplate) option \<times> u32" where
  "create_job_with_template counter self channel clean_jobs =
     (case jd_current_template self of
        None \<Rightarrow> (None, counter)
      | Some template \<Rightarrow>
          let (job_id, counter) = next_job_id counter;
              job = \<lparr>nj_channel_id = ch_id channel, nj_job_id = job_id, nj_future_job = False,
                nj_version = eh_version (bt_header template),
                nj_prev_hash = eh_prev_hash (bt_header template),
                nj_merkle_root = eh_merkle_root (bt_header template),
                nj_block_commitments = eh_hash_block_commitments (bt_header template),
                nj_nonce_1 = ch_nonce_1 channel, nj_nonce_2_len = ch_nonce_2_len channel,
                nj_time = eh_time (bt_header template), nj_bits = eh_bits (bt_header template),
                nj_target = channel_current_target channel, nj_clean_jobs = clean_jobs\<rparr> in
          (Some (job, template), counter))"

definition create_job :: "u32 \<Rightarrow> JobDistributor \<Rightarrow> Channel \<Rightarrow> bool \<Rightarrow> NewEquihashJob option \<times> u32" where
  "create_job counter self channel clean_jobs =
     (let (r, counter) = create_job_with_template counter self channel clean_jobs in
      (map_option fst r, counter))"

definition current_height :: "JobDistributor \<Rightarrow> u64 option" where
  "current_height self = map_option bt_height (jd_current_template self)"

definition has_template :: "JobDistributor \<Rightarrow> bool" where
  "has_template self \<longleftrightarrow> jd_current_template self \<noteq> None"

section \<open>The invariant of a channel\<close>

text \<open>A job made from a template: the fields of its header are the template's.\<close>

definition job_of_template :: "BlockTemplate \<Rightarrow> NewEquihashJob \<Rightarrow> bool" where
  "job_of_template t job \<longleftrightarrow> template_wf t \<and> job_wf job
     \<and> nj_version job = eh_version (bt_header t) \<and> nj_prev_hash job = eh_prev_hash (bt_header t)
     \<and> nj_merkle_root job = eh_merkle_root (bt_header t)
     \<and> nj_block_commitments job = eh_hash_block_commitments (bt_header t)
     \<and> nj_time job = eh_time (bt_header t) \<and> nj_bits job = eh_bits (bt_header t)"

text \<open>The jobs are filed under their ids, well-formed and belong to the template kept beside them.\<close>

definition jobs_wf :: "(u32, ChannelJob) hash_map \<Rightarrow> bool" where
  "jobs_wf m \<longleftrightarrow> hm_wf m
     \<and> (\<forall>k j. hm_get m k = Some j \<longrightarrow> cj_job_id j = k \<and> nj_job_id (cj_job j) = k
         \<and> job_of_template (cj_template j) (cj_job j))"

definition channel_wf :: "Channel \<Rightarrow> bool" where
  "channel_wf ch \<longleftrightarrow> length (ch_nonce_1 ch) + unat (ch_nonce_2_len ch) = 32
     \<and> vardiff_inv (ch_vardiff ch) \<and> rate_inv (ch_rate_limiter ch)
     \<and> jobs_wf (ch_jobs ch) \<and> length (ch_jobs ch) \<le> 10"

lemma jobs_wf_Nil [simp]: "jobs_wf []"
  by (simp add: jobs_wf_def)

lemma new_with_id_wf:
  assumes "vc_initial_difficulty cfg \<noteq> NaN"
  shows "\<exists>r. new_with_id now now' i nonce_1 cfg = Returns r \<and>
    (case r of None \<Rightarrow> 32 < length nonce_1 | Some ch \<Rightarrow> channel_wf ch \<and> ch_nonce_1 ch = nonce_1 \<and> ch_id ch = i)"
proof (cases "32 < length nonce_1")
  case True
  then show ?thesis by (simp add: new_with_id_def)
next
  case False
  obtain v where v: "VardiffController_new now cfg = Returns v" "vardiff_inv v"
    using VardiffController_new_inv [OF assms] by blast
  have "unat (32 - of_nat (length nonce_1) :: u8) = 32 - length nonce_1"
    using False by (subst unat_sub) (simp_all add: word_le_nat_alt unat_of_nat)
  then show ?thesis using False v
    by (simp add: new_with_id_def Let_def channel_wf_def for_shares_def RateLimiter_new_inv)
qed

lemma evict_jobs_subset: "set (evict_jobs m) \<subseteq> set m"
proof (induction m rule: evict_jobs.induct)
  case (1 m)
  have "set (hm_remove k m) \<subseteq> set m" for k by (auto simp: hm_remove_def AList.delete_eq)
  with 1 show ?case by (subst evict_jobs.simps) (auto split: option.splits)
qed

lemma evict_jobs_wf: "hm_wf m \<Longrightarrow> hm_wf (evict_jobs m)"
proof (induction m rule: evict_jobs.induct)
  case (1 m)
  then show ?case by (subst evict_jobs.simps) (auto split: option.splits)
qed

text \<open>The eviction loop ends with at most ten jobs, for any job times.\<close>

lemma evict_jobs_length: "length (evict_jobs m) \<le> 10"
proof (induction m rule: evict_jobs.induct)
  case (1 m)
  then show ?case by (subst evict_jobs.simps) (auto split: option.splits)
qed

lemma hm_get_evict:
  assumes "hm_wf m" "hm_get (evict_jobs m) k = Some j"
  shows "hm_get m k = Some j"
proof -
  have "(k, j) \<in> set (evict_jobs m)" using assms(2) by (rule hm_get_SomeD)
  then have "(k, j) \<in> set m" using evict_jobs_subset by blast
  with assms(1) show ?thesis by (rule hm_get_SomeI)
qed

lemma jobs_wf_deactivate: "jobs_wf m \<Longrightarrow> jobs_wf (hm_map (\<lambda>_ j. j\<lparr>cj_active := a\<rparr>) m)"
  by (auto simp: jobs_wf_def)

lemma jobs_wf_insert:
  "jobs_wf m \<Longrightarrow> cj_job_id j = k \<Longrightarrow> nj_job_id (cj_job j) = k \<Longrightarrow>
    job_of_template (cj_template j) (cj_job j) \<Longrightarrow> jobs_wf (hm_insert k j m)"
  by (auto simp: jobs_wf_def)

lemma jobs_wf_evict: "jobs_wf m \<Longrightarrow> jobs_wf (evict_jobs m)"
  unfolding jobs_wf_def using hm_get_evict evict_jobs_wf by blast

lemma add_job_wf:
  assumes "channel_wf ch" "job_of_template t job"
  shows "channel_wf (add_job now job t clean ch)"
proof -
  have jobs: "jobs_wf (ch_jobs ch)" using assms(1) by (simp add: channel_wf_def)
  then have "jobs_wf (ch_jobs (add_job now job t clean ch))"
    using assms(2) unfolding add_job_def Let_def
    by (auto intro!: jobs_wf_evict jobs_wf_insert jobs_wf_deactivate)
  moreover have "length (ch_jobs (add_job now job t clean ch)) \<le> 10"
    by (simp add: add_job_def Let_def evict_jobs_length)
  moreover have "ch_nonce_1 (add_job now job t clean ch) = ch_nonce_1 ch"
    "ch_nonce_2_len (add_job now job t clean ch) = ch_nonce_2_len ch"
    "ch_vardiff (add_job now job t clean ch) = ch_vardiff ch"
    "ch_rate_limiter (add_job now job t clean ch) = ch_rate_limiter ch"
    by (simp_all add: add_job_def Let_def)
  ultimately show ?thesis using assms(1) by (simp only: channel_wf_def)
qed

lemma channel_wf_vardiff:
  "channel_wf ch \<Longrightarrow> vardiff_inv v \<Longrightarrow> channel_wf (ch\<lparr>ch_vardiff := v\<rparr>)"
  by (simp add: channel_wf_def)

lemma idle_retarget_wf:
  assumes "channel_wf ch"
  obtains ch' r where "idle_retarget now reset_now ch = Returns (ch', r)" "channel_wf ch'"
proof -
  have "vardiff_inv (ch_vardiff ch)" using assms by (simp add: channel_wf_def)
  from maybe_retarget_inv [OF this, of now reset_now] show ?thesis
    using that channel_wf_vardiff [OF assms] by (fastforce simp: idle_retarget_def)
qed

lemma channel_record_share_wf:
  assumes "channel_wf ch"
  obtains ch' r where "channel_record_share now reset_now ch = Returns (ch', r)" "channel_wf ch'"
    "ch_jobs ch' = ch_jobs ch" "ch_rate_limiter ch' = ch_rate_limiter ch"
proof -
  have "vardiff_inv (vardiff_record_share (ch_vardiff ch))"
    using assms by (simp add: channel_wf_def vardiff_record_share_inv)
  from maybe_retarget_inv [OF this, of now reset_now] show ?thesis
    using that channel_wf_vardiff [OF assms] by (fastforce simp: channel_record_share_def)
qed

lemma check_rate_limit_wf: "channel_wf ch \<Longrightarrow> channel_wf (snd (check_rate_limit now ch))"
  by (simp add: check_rate_limit_def split_beta Let_def channel_wf_def rate_check_inv)

lemma length_channel_current_target: "length (channel_current_target ch) = 32"
  unfolding channel_current_target_def current_target_def difficulty_to_target_def
  by (rule length_difficulty_to_target) (simp add: max_mainnet_def)

lemma create_job_wf:
  assumes "channel_wf ch" "create_job_with_template counter d ch clean = (Some (job, t), counter')"
    and "header_wf (bt_header t)"
  shows "job_wf job"
  using assms
  by (auto simp: create_job_with_template_def next_job_id_def job_wf_def job_arrays_def header_wf_def
      length_channel_current_target validate_nonce_len_def total_nonce_len_def channel_wf_def
      split: option.splits)

lemma create_job_of_template:
  assumes "channel_wf ch" "create_job_with_template counter d ch clean = (Some (job, t), counter')"
    and "template_wf t"
  shows "job_of_template t job"
proof -
  have "header_wf (bt_header t)" using assms(3) by (simp add: template_wf_def)
  from create_job_wf [OF assms(1,2) this] show ?thesis using assms(2,3)
    by (auto simp: job_of_template_def create_job_with_template_def next_job_id_def split: option.splits)
qed

section \<open>Claims\<close>

text \<open>
  C21.  A job is the template's header with room for the nonce.  Whatever channel and counter a job is
  made for, the header the miner hashes, \<open>build_header\<close> of the job, is \<open>EquihashHeader::serialize\<close>
  of the header of the template snapshot returned beside it with the nonce filled in, and \<open>140\<close>
  bytes long; the snapshot is the current template; and for any \<open>nonce_2\<close> of the announced length
  the full nonce exists, without a panic, and starts with the channel's prefix.
\<close>

theorem job_header_is_template_header:
  assumes "channel_wf ch" "create_job_with_template counter d ch clean = (Some (job, t), counter')"
    and "header_wf (bt_header t)" "length nonce_2 = unat (nj_nonce_2_len job)"
  shows "jd_current_template d = Some t \<and> (\<exists>nonce. build_nonce job nonce_2 = Returns (Some nonce)
    \<and> nonce = ch_nonce_1 ch @ nonce_2
    \<and> build_header job nonce = header_serialize ((bt_header t)\<lparr>eh_nonce := nonce\<rparr>)
    \<and> length (build_header job nonce) = 140)"
proof -
  have wf: "job_wf job" by (rule create_job_wf [OF assms(1-3)])
  then have nonce: "build_nonce job nonce_2 = Returns (Some (nj_nonce_1 job @ nonce_2))"
    using assms(4) by (simp add: job_wf_def build_nonce_wf)
  then have "length (nj_nonce_1 job @ nonce_2) = 32" by (rule build_nonce_length)
  then have "length (build_header job (nj_nonce_1 job @ nonce_2)) = 140"
    using wf length_build_header by (simp add: job_wf_def)
  with nonce show ?thesis using assms(2)
    by (auto simp: create_job_with_template_def next_job_id_def build_header_def header_serialize_def
        split: option.splits)
qed

lemma sample_channel_wf: "channel_wf sample_channel"
  by (simp add: channel_wf_def sample_channel_def sample_vardiff_inv for_shares_def RateLimiter_new_inv)

lemma sample_template_header_wf: "header_wf (bt_header sample_template)"
  by (simp add: header_wf_def sample_template_def)

theorem job_header_is_template_header_witness:
  "\<exists>job nonce. create_job_with_template 7 \<lparr>jd_current_template = Some sample_template, jd_prev_hash = None\<rparr>
      sample_channel True = (Some (job, sample_template), 8)
    \<and> build_nonce job (replicate 28 9) = Returns (Some nonce)
    \<and> build_header job nonce = header_serialize ((bt_header sample_template)\<lparr>eh_nonce := nonce\<rparr>)"
proof -
  let ?d = "\<lparr>jd_current_template = Some sample_template, jd_prev_hash = None\<rparr>"
  have "next_value MAX_JOB_ID 7 = 8" by code_simp
  then obtain job where job: "create_job_with_template 7 ?d sample_channel True = (Some (job, sample_template), 8)"
    and len: "nj_nonce_2_len job = 28"
    by (simp add: create_job_with_template_def next_job_id_def sample_channel_def)
  show ?thesis
    using job_header_is_template_header [OF sample_channel_wf job sample_template_header_wf, of "replicate 28 9"]
      job len by auto
qed

end
