(* ===== verification/Duplicate.thy ===== *)
theory Duplicate
  imports Bytes Once_Set
begin

text \<open>
  Duplicate share detection, \<open>zcash-pool-server/src/duplicate.rs\<close>.  The Rust trait is the record
  \<open>DuplicateDetector\<close> of its operations and the locale \<open>duplicate_detector\<close> of its laws; the
  in-memory detector is the instance.  The state of the standard library's default hasher is not
  specified, so the function from the bytes fed to it to its result is the argument \<open>siphash\<close>.
\<close>

section \<open>The trait\<close>

record 'd DuplicateDetector =
  dd_start_job :: "'d \<Rightarrow> u32 \<Rightarrow> 'd"
  dd_is_seen :: "'d \<Rightarrow> u32 \<Rightarrow> bytes \<Rightarrow> bytes \<Rightarrow> bool"
  dd_check_and_record :: "'d \<Rightarrow> u32 \<Rightarrow> bytes \<Rightarrow> bytes \<Rightarrow> bool \<times> 'd"
  dd_clear_job :: "'d \<Rightarrow> u32 \<Rightarrow> 'd"
  dd_clear_all :: "'d \<Rightarrow> 'd"
  dd_prune_inactive :: "'d \<Rightarrow> u32 set \<Rightarrow> 'd"

section \<open>The in-memory detector\<close>

definition MAX_SHARES_PER_JOB :: nat where "MAX_SHARES_PER_JOB = 100000"

record InMemoryDuplicateDetector =
  im_jobs :: "(u32, u64 set) hash_map"

definition InMemoryDuplicateDetector_new :: InMemoryDuplicateDetector where
  "InMemoryDuplicateDetector_new = \<lparr>im_jobs = []\<rparr>"

text \<open>A byte slice feeds the hasher its length as a 64 bit number and then its bytes.\<close>

definition hash_slice :: "bytes \<Rightarrow> bytes" where
  "hash_slice bs = u64_to_le_bytes (of_nat (length bs)) @ bs"

definition hash_share :: "(bytes \<Rightarrow> u64) \<Rightarrow> bytes \<Rightarrow> bytes \<Rightarrow> u64" where
  "hash_share siphash nonce_2 solution = siphash (hash_slice nonce_2 @ hash_slice solution)"

definition im_start_job :: "InMemoryDuplicateDetector \<Rightarrow> u32 \<Rightarrow> InMemoryDuplicateDetector" where
  "im_start_job self job_id = self\<lparr>im_jobs := hm_remove job_id (im_jobs self)\<rparr>"

definition im_is_seen ::
  "(bytes \<Rightarrow> u64) \<Rightarrow> InMemoryDuplicateDetector \<Rightarrow> u32 \<Rightarrow> bytes \<Rightarrow> bytes \<Rightarrow> bool" where
  "im_is_seen siphash self job_id nonce_2 solution =
     (case hm_get (im_jobs self) job_id of
        None \<Rightarrow> False
      | Some s \<Rightarrow> hash_share siphash nonce_2 solution \<in> s)"

definition im_check_and_record ::
  "(bytes \<Rightarrow> u64) \<Rightarrow> InMemoryDuplicateDetector \<Rightarrow> u32 \<Rightarrow> bytes \<Rightarrow> bytes
    \<Rightarrow> bool \<times> InMemoryDuplicateDetector" where
  "im_check_and_record siphash self job_id nonce_2 solution =
     (let hash = hash_share siphash nonce_2 solution;
          shares = hm_get_or {} (im_jobs self) job_id;
          self = self\<lparr>im_jobs := hm_insert job_id shares (im_jobs self)\<rparr> in
      if card shares \<ge> MAX_SHARES_PER_JOB then (True, self)
      else (hash \<in> shares,
        self\<lparr>im_jobs := hm_insert job_id (insert hash shares) (im_jobs self)\<rparr>))"

definition im_clear_job :: "InMemoryDuplicateDetector \<Rightarrow> u32 \<Rightarrow> InMemoryDuplicateDetector" where
  "im_clear_job self job_id = self\<lparr>im_jobs := hm_remove job_id (im_jobs self)\<rparr>"

definition im_clear_all :: "InMemoryDuplicateDetector \<Rightarrow> InMemoryDuplicateDetector" where
  "im_clear_all self = self\<lparr>im_jobs := []\<rparr>"

definition im_prune_inactive ::
  "InMemoryDuplicateDetector \<Rightarrow> u32 set \<Rightarrow> InMemoryDuplicateDetector" where
  "im_prune_inactive self active_job_ids =
     self\<lparr>im_jobs := hm_retain (\<lambda>job_id _. job_id \<in> active_job_ids) (im_jobs self)\<rparr>"

definition in_memory_detector ::
  "(bytes \<Rightarrow> u64) \<Rightarrow> InMemoryDuplicateDetector DuplicateDetector" where
  "in_memory_detector siphash =
     \<lparr>dd_start_job = im_start_job, dd_is_seen = im_is_seen siphash,
      dd_check_and_record = im_check_and_record siphash, dd_clear_job = im_clear_job,
      dd_clear_all = im_clear_all, dd_prune_inactive = im_prune_inactive\<rparr>"

section \<open>The contract\<close>

text \<open>
  What a client may rely on: \<open>seen d j\<close> is the set of keys recorded for a job and \<open>full d j\<close>
  says that the job takes no more keys, in which case every share counts as a duplicate.
\<close>

locale duplicate_detector =
  fixes D :: "'d DuplicateDetector"
    and inv :: "'d \<Rightarrow> bool"
    and seen :: "'d \<Rightarrow> u32 \<Rightarrow> 'k set"
    and full :: "'d \<Rightarrow> u32 \<Rightarrow> bool"
    and key :: "bytes \<Rightarrow> bytes \<Rightarrow> 'k"
  assumes is_seen_iff: "inv d \<Longrightarrow> dd_is_seen D d j n s \<longleftrightarrow> key n s \<in> seen d j"
    and record_answer: "inv d \<Longrightarrow> fst (dd_check_and_record D d j n s) \<longleftrightarrow> key n s \<in> seen d j \<or> full d j"
    and record_seen: "inv d \<Longrightarrow> seen (snd (dd_check_and_record D d j n s)) j' =
      (if j' = j \<and> \<not> full d j then insert (key n s) (seen d j) else seen d j')"
    and record_inv: "inv d \<Longrightarrow> inv (snd (dd_check_and_record D d j n s))"
    and start_seen: "inv d \<Longrightarrow> seen (dd_start_job D d j) j' = (if j' = j then {} else seen d j')"
    and start_inv: "inv d \<Longrightarrow> inv (dd_start_job D d j)"
    and prune_seen: "inv d \<Longrightarrow> seen (dd_prune_inactive D d js) j' = (if j' \<in> js then seen d j' else {})"
    and prune_inv: "inv d \<Longrightarrow> inv (dd_prune_inactive D d js)"

section \<open>The in-memory detector satisfies it\<close>

definition im_inv :: "InMemoryDuplicateDetector \<Rightarrow> bool" where
  "im_inv d \<longleftrightarrow> hm_wf (im_jobs d) \<and>
     (\<forall>j s. hm_get (im_jobs d) j = Some s \<longrightarrow> finite s \<and> card s \<le> MAX_SHARES_PER_JOB)"

definition im_seen :: "InMemoryDuplicateDetector \<Rightarrow> u32 \<Rightarrow> u64 set" where
  "im_seen d j = hm_get_or {} (im_jobs d) j"

definition im_full :: "InMemoryDuplicateDetector \<Rightarrow> u32 \<Rightarrow> bool" where
  "im_full d j \<longleftrightarrow> MAX_SHARES_PER_JOB \<le> card (im_seen d j)"

lemma im_inv_seen: "im_inv d \<Longrightarrow> finite (im_seen d j) \<and> card (im_seen d j) \<le> MAX_SHARES_PER_JOB"
  by (auto simp: im_inv_def im_seen_def hm_get_or_def split: option.splits)

lemma im_seen_record:
  "im_seen (snd (im_check_and_record h d j n s)) j' =
     (if j' = j \<and> \<not> im_full d j then insert (hash_share h n s) (im_seen d j) else im_seen d j')"
  by (auto simp: im_check_and_record_def Let_def im_seen_def im_full_def hm_get_or_def)

lemma im_record_inv:
  assumes "im_inv d"
  shows "im_inv (snd (im_check_and_record h d j n s))"
proof -
  have fin: "finite (im_seen d j)" "card (im_seen d j) \<le> MAX_SHARES_PER_JOB"
    using im_inv_seen [OF assms] by simp_all
  have "card (insert (hash_share h n s) (im_seen d j)) \<le> MAX_SHARES_PER_JOB" if "\<not> im_full d j"
    using that fin by (auto simp: im_full_def card_insert_if)
  with assms fin show ?thesis
    by (auto simp: im_inv_def im_check_and_record_def Let_def im_full_def simp flip: im_seen_def
        split: if_splits)
qed

interpretation in_memory: duplicate_detector "in_memory_detector siphash" im_inv im_seen im_full
  "hash_share siphash" for siphash
proof (unfold_locales, goal_cases)
  case (1 d j n s)
  then show ?case
    by (simp add: in_memory_detector_def im_is_seen_def im_seen_def hm_get_or_def split: option.split)
next
  case (2 d j n s)
  then show ?case
    by (auto simp: in_memory_detector_def im_check_and_record_def Let_def im_full_def im_seen_def)
next
  case (3 d j n s j')
  then show ?case by (simp add: in_memory_detector_def im_seen_record)
next
  case (4 d j n s)
  then show ?case by (simp add: in_memory_detector_def im_record_inv)
next
  case (5 d j j')
  then show ?case
    by (simp add: in_memory_detector_def im_start_job_def im_seen_def hm_get_or_def)
next
  case (6 d j)
  then show ?case
    by (auto simp: in_memory_detector_def im_start_job_def im_inv_def split: if_splits)
next
  case (7 d js j')
  then show ?case
    by (auto simp: in_memory_detector_def im_prune_inactive_def im_seen_def hm_get_or_def im_inv_def
        hm_get_retain split: option.splits)
next
  case (8 d js)
  then show ?case
    by (auto simp: in_memory_detector_def im_prune_inactive_def im_inv_def hm_get_retain
        split: option.splits if_splits)
qed

text \<open>Per job, the detector is a set that admits each key once while it has room.\<close>

definition admit_share ::
  "(bytes \<Rightarrow> u64) \<Rightarrow> u32 \<Rightarrow> InMemoryDuplicateDetector \<Rightarrow> bytes \<times> bytes \<Rightarrow> bool \<times> InMemoryDuplicateDetector" where
  "admit_share siphash j d share =
     (let (dup, d') = im_check_and_record siphash d j (fst share) (snd share) in (\<not> dup, d'))"

interpretation per_job: once_set im_inv "\<lambda>d. im_seen d j" "\<lambda>d. MAX_SHARES_PER_JOB - card (im_seen d j)"
  "admit_share siphash j" "\<lambda>share. hash_share siphash (fst share) (snd share)" "\<lambda>_. True" for j siphash
proof (unfold_locales, goal_cases)
  case (1 d share)
  then show ?case
    by (auto simp: admit_share_def split_beta Let_def im_check_and_record_def im_seen_def)
next
  case (2 d share)
  then show ?case
    by (auto simp: admit_share_def split_beta Let_def im_seen_record im_full_def)
next
  case (3 d share)
  then show ?case by (simp add: admit_share_def split_beta Let_def im_record_inv)
next
  case (4 d share)
  then show ?case
    using im_inv_seen [OF 4, of j]
    by (auto simp: admit_share_def split_beta Let_def im_seen_record card_insert_if)
qed

text \<open>
  Of the shares submitted for a job, in whatever order concurrent submissions reach the detector,
  exactly the first one with each key is admitted, as long as the job has room for all of them, and
  the detector never keeps more than 100000 keys per job.
\<close>

theorem duplicate_detector_first_only:
  assumes "im_inv d" "length shares \<le> MAX_SHARES_PER_JOB - card (im_seen d j)" "i < length shares"
  shows "(fst (run_all (admit_share siphash j) d shares) ! i \<longleftrightarrow>
      hash_share siphash (fst (shares ! i)) (snd (shares ! i)) \<notin> im_seen d j
      \<and> (\<forall>k < i. hash_share siphash (fst (shares ! k)) (snd (shares ! k))
            \<noteq> hash_share siphash (fst (shares ! i)) (snd (shares ! i))))
    \<and> card (im_seen (snd (run_all (admit_share siphash j) d shares)) j') \<le> MAX_SHARES_PER_JOB"
  using per_job.run_all_first [OF assms, of siphash] im_inv_seen [OF per_job.run_all_inv [OF assms(1)]]
  by simp

theorem duplicate_detector_first_only_witness:
  "fst (run_all (admit_share (\<lambda>bs. of_nat (length bs)) 7) InMemoryDuplicateDetector_new
     [([1], [2]), ([3], [4])]) ! 1 = False"
proof -
  have inv: "im_inv InMemoryDuplicateDetector_new"
    by (simp add: im_inv_def InMemoryDuplicateDetector_new_def)
  have seen: "im_seen InMemoryDuplicateDetector_new 7 = {}"
    by (simp add: im_seen_def InMemoryDuplicateDetector_new_def hm_get_or_def)
  have room: "length [([1 :: u8], [2 :: u8]), ([3], [4])] \<le> MAX_SHARES_PER_JOB - card (im_seen InMemoryDuplicateDetector_new 7)"
    by (simp add: seen MAX_SHARES_PER_JOB_def)
  show ?thesis
    using duplicate_detector_first_only [OF inv room, of 1 "\<lambda>bs. of_nat (length bs)" 7]
    by (auto simp: hash_share_def hash_slice_def u64_to_le_bytes_def)
qed

end
