(* ===== verification/Compact_Size.thy ===== *)
theory Compact_Size
  imports Bytes
begin

text \<open>
  The CompactSize integer encoding of \<open>zcash-pool-common/src/compact_size.rs\<close>: the reader
  with its explicit index, the encoder into a nine byte buffer and the writer.  The encoder's
  output is a prefix code that the reader inverts; the reader also takes longer encodings of
  small numbers, so it is not injective.
\<close>

datatype compact_size_error = OutOfBounds

definition MAX_COMPACT_SIZE_LEN :: nat where
  "MAX_COMPACT_SIZE_LEN = 9"

text \<open>The reader takes the index and returns the value with the advanced index.\<close>

definition read_compact_size :: "bytes \<Rightarrow> nat \<Rightarrow> compact_size_error + (u64 \<times> nat)" where
  "read_compact_size data cursor =
     (if length data \<le> cursor then Inl OutOfBounds
      else let prefix = data ! cursor; cursor = cursor + 1 in
        if unat prefix \<le> 252 then Inr (ucast prefix, cursor)
        else if prefix = 253 then
          (if length data < cursor + 2 then Inl OutOfBounds
           else Inr (ucast (u16_from_le_bytes (take 2 (drop cursor data))), cursor + 2))
        else if prefix = 254 then
          (if length data < cursor + 4 then Inl OutOfBounds
           else Inr (ucast (u32_from_le_bytes (take 4 (drop cursor data))), cursor + 4))
        else
          (if length data < cursor + 8 then Inl OutOfBounds
           else Inr (u64_from_le_bytes (take 8 (drop cursor data)), cursor + 8)))"

definition encode_compact_size :: "u64 \<Rightarrow> bytes \<times> nat" where
  "encode_compact_size value =
     (let buf = replicate MAX_COMPACT_SIZE_LEN 0 in
      if value < 253 then (buf[0 := ucast value], 1)
      else if value \<le> 65535 then
        ([253] @ u16_to_le_bytes (ucast value) @ drop 3 buf, 3)
      else if value \<le> 4294967295 then
        ([254] @ u32_to_le_bytes (ucast value) @ drop 5 buf, 5)
      else ([255] @ u64_to_le_bytes value, 9))"

definition write_compact_size :: "u64 \<Rightarrow> bytes \<Rightarrow> bytes" where
  "write_compact_size value out =
     (let (buf, len) = encode_compact_size value in out @ take len buf)"

section \<open>Lemmas\<close>

lemma unat_ucast_u8: "unat v < 256 \<Longrightarrow> unat (ucast (v :: u64) :: u8) = unat v"
  by (simp add: unsigned_ucast_eq unsigned_take_bit_eq take_bit_nat_eq_self)

lemma ucast_ucast_u8: "unat v < 2 ^ 8 \<Longrightarrow> ucast (ucast (v :: u64) :: u8) = v"
  by (simp add: word_unat_eq_iff unsigned_ucast_eq unsigned_take_bit_eq take_bit_nat_eq_self)

lemma ucast_ucast_u16: "unat v < 2 ^ 16 \<Longrightarrow> ucast (ucast (v :: u64) :: u16) = v"
  by (simp add: word_unat_eq_iff unsigned_ucast_eq unsigned_take_bit_eq take_bit_nat_eq_self)

lemma ucast_ucast_u32: "unat v < 2 ^ 32 \<Longrightarrow> ucast (ucast (v :: u64) :: u32) = v"
  by (simp add: word_unat_eq_iff unsigned_ucast_eq unsigned_take_bit_eq take_bit_nat_eq_self)

text \<open>The bytes an encoding consists of, by width.\<close>

definition compact_bytes :: "u64 \<Rightarrow> bytes" where
  "compact_bytes v =
     (if unat v < 253 then [ucast v]
      else if unat v < 65536 then 253 # u16_to_le_bytes (ucast v)
      else if unat v < 4294967296 then 254 # u32_to_le_bytes (ucast v)
      else 255 # u64_to_le_bytes v)"

lemma take_encode_compact_size:
  "take (snd (encode_compact_size v)) (fst (encode_compact_size v)) = compact_bytes v"
proof -
  have "v < 253 \<longleftrightarrow> unat v < 253" "v \<le> 65535 \<longleftrightarrow> unat v < 65536"
    "v \<le> 4294967295 \<longleftrightarrow> unat v < 4294967296"
    by (auto simp: word_less_nat_alt word_le_nat_alt)
  moreover have "replicate 9 0 = (0 :: u8) # replicate 8 0"
    by (simp add: numeral_eq_Suc)
  ultimately show ?thesis
    by (simp add: encode_compact_size_def compact_bytes_def MAX_COMPACT_SIZE_LEN_def Let_def)
qed

lemma write_compact_size_eq: "write_compact_size v out = out @ compact_bytes v"
  using take_encode_compact_size [of v] by (simp add: write_compact_size_def split_beta Let_def)

lemma compact_bytes_length: "length (compact_bytes v) \<in> {1, 3, 5, 9}"
  by (simp add: compact_bytes_def)

lemma drop_Suc_length_append: "drop (Suc (length pre)) (pre @ b # rest) = rest"
  by simp

lemma read_compact_bytes:
  "read_compact_size (pre @ compact_bytes v @ rest) (length pre) =
     Inr (v, length pre + length (compact_bytes v))"
  by (auto simp: read_compact_size_def compact_bytes_def Let_def nth_append
      unat_ucast_u8 ucast_ucast_u8 ucast_ucast_u16 ucast_ucast_u32)

end
