(* ===== verification/Equihash_Validator.thy ===== *)
theory Equihash_Validator
  imports Difficulty Compact_Size
begin

text \<open>
  The consensus block hash, \<open>zcash-pool-common/src/block_hash.rs\<close>, and the share validator,
  \<open>zcash-equihash-validator/src/validator.rs\<close>.  SHA-256 and the Equihash verifier are code of
  other crates: the definitions take them as the arguments \<open>sha256\<close> and \<open>is_valid_solution\<close>.
  A streaming hasher is the list of the bytes it has been fed.  The lemmas show that a share passes
  exactly when its lengths are right, the verifier accepts its solution, and its hash as a 256 bit
  number is at most the target.
\<close>

section \<open>Block hash\<close>

definition BITS_OFFSET :: nat where "BITS_OFFSET = 104"
definition BASE_HEADER_BYTES :: nat where "BASE_HEADER_BYTES = 140"
definition SOLUTION_PREFIX_BYTES :: nat where "SOLUTION_PREFIX_BYTES = 3"
definition SOLUTION_BYTES :: nat where "SOLUTION_BYTES = 1344"

definition ZCASH_FULL_HEADER_SIZE :: nat where
  "ZCASH_FULL_HEADER_SIZE = BASE_HEADER_BYTES + SOLUTION_PREFIX_BYTES + SOLUTION_BYTES"

type_synonym sha256_fn = "bytes \<Rightarrow> bytes"

definition finish_sha256d :: "sha256_fn \<Rightarrow> bytes \<Rightarrow> bytes" where
  "finish_sha256d sha256 first_pass = sha256 (sha256 first_pass)"

definition consensus_block_hash :: "sha256_fn \<Rightarrow> bytes \<Rightarrow> bytes" where
  "consensus_block_hash sha256 serialized_header = finish_sha256d sha256 serialized_header"

definition consensus_block_hash_parts :: "sha256_fn \<Rightarrow> bytes \<Rightarrow> bytes \<Rightarrow> bytes" where
  "consensus_block_hash_parts sha256 header solution =
     (let (prefix, prefix_len) = encode_compact_size (of_nat (length solution)) in
      finish_sha256d sha256 (header @ take prefix_len prefix @ solution))"

section \<open>Validator\<close>

datatype ValidationError =
    InvalidSolution string
  | TargetNotMet
  | InvalidHeaderLength nat
  | InvalidSolutionLength nat
  | InvalidNonceLength nat
  | HashError string

definition EQUIHASH_N :: u32 where "EQUIHASH_N = 200"
definition EQUIHASH_K :: u32 where "EQUIHASH_K = 9"

record EquihashValidator =
  ev_n :: u32
  ev_k :: u32

definition EquihashValidator_new :: EquihashValidator where
  "EquihashValidator_new = \<lparr>ev_n = EQUIHASH_N, ev_k = EQUIHASH_K\<rparr>"

text \<open>The verifier: \<open>n\<close>, \<open>k\<close>, input, nonce and solution; an error carries its debug text.\<close>

type_synonym equihash_fn = "u32 \<Rightarrow> u32 \<Rightarrow> bytes \<Rightarrow> bytes \<Rightarrow> bytes \<Rightarrow> string + unit"

definition verify_solution ::
  "equihash_fn \<Rightarrow> EquihashValidator \<Rightarrow> bytes \<Rightarrow> bytes \<Rightarrow> ValidationError + unit" where
  "verify_solution is_valid_solution self header solution =
     (if length header \<noteq> 140 then Inl (InvalidHeaderLength (length header))
      else if length solution \<noteq> SOLUTION_BYTES then Inl (InvalidSolutionLength (length solution))
      else
        let input = take 108 header; nonce = drop 108 header in
        bindR (map_err InvalidSolution
            (is_valid_solution (ev_n self) (ev_k self) input nonce solution))
          (\<lambda>_. Inr ()))"

fun meets_target_loop :: "nat \<Rightarrow> bytes \<Rightarrow> bytes \<Rightarrow> bool" where
  "meets_target_loop 0 hash target = True"
| "meets_target_loop (Suc i) hash target =
     (if hash ! i < target ! i then True
      else if target ! i < hash ! i then False
      else meets_target_loop i hash target)"

definition meets_target :: "bytes \<Rightarrow> bytes \<Rightarrow> bool" where
  "meets_target hash target = meets_target_loop 32 hash target"

definition compute_solution_hash :: "sha256_fn \<Rightarrow> bytes \<Rightarrow> bytes \<Rightarrow> bytes" where
  "compute_solution_hash sha256 header solution = consensus_block_hash_parts sha256 header solution"

definition verify_share ::
  "equihash_fn \<Rightarrow> sha256_fn \<Rightarrow> EquihashValidator \<Rightarrow> bytes \<Rightarrow> bytes \<Rightarrow> bytes
    \<Rightarrow> ValidationError + bytes" where
  "verify_share is_valid_solution sha256 self header solution target =
     bindR (verify_solution is_valid_solution self header solution) (\<lambda>_.
       let hash = compute_solution_hash sha256 header solution in
       if \<not> meets_target hash target then Inl TargetNotMet else Inr hash)"

section \<open>Properties\<close>

lemma meets_target_eq: "meets_target hash target = is_met_by target hash"
proof -
  have "meets_target_loop i hash target = is_met_by_loop i target hash" for i
    by (induction i) (auto simp: byte_cmp_def)
  then show ?thesis by (simp add: meets_target_def is_met_by_def)
qed

lemma verify_solution_ok:
  "verify_solution vf self header solution = Inr () \<longleftrightarrow>
     length header = 140 \<and> length solution = SOLUTION_BYTES \<and>
     vf (ev_n self) (ev_k self) (take 108 header) (drop 108 header) solution = Inr ()"
  by (auto simp: verify_solution_def bindR_eq_Inr map_err_eq_Inr)

text \<open>Hashing the parts of a header equals hashing their serialization.\<close>

lemma block_hash_parts_eq:
  "consensus_block_hash_parts sha256 header solution =
     consensus_block_hash sha256
       (write_compact_size (of_nat (length solution)) header @ solution)"
  by (simp add: consensus_block_hash_parts_def consensus_block_hash_def write_compact_size_def
      split: prod.split)

text \<open>
  C22.  The validator returns a hash exactly for the shares that are proofs of work for the target:
  a header of 140 bytes and a solution of 1344 bytes that the Equihash verifier accepts for the
  first 108 bytes and the nonce of the header, with the double SHA-256 of the serialized header, as
  a little-endian number, at most the target.  The hash returned is that double SHA-256.
\<close>

theorem verify_share_sound_complete:
  assumes sha: "\<And>m. length (sha256 m) = 32" and target: "length target = 32"
  shows "verify_share vf sha256 self header solution target = Inr hash \<longleftrightarrow>
    length header = 140 \<and> length solution = 1344
    \<and> vf (ev_n self) (ev_k self) (take 108 header) (drop 108 header) solution = Inr ()
    \<and> hash = sha256 (sha256 (write_compact_size 1344 header @ solution))
    \<and> le_to_nat hash \<le> le_to_nat target"
proof -
  have len: "length (compute_solution_hash sha256 header solution) = 32"
    by (simp add: compute_solution_hash_def consensus_block_hash_parts_def finish_sha256d_def sha
        split: prod.split)
  have hash: "compute_solution_hash sha256 header solution =
      sha256 (sha256 (write_compact_size 1344 header @ solution))" if "length solution = 1344"
    using that by (simp add: compute_solution_hash_def block_hash_parts_eq consensus_block_hash_def
        finish_sha256d_def)
  show ?thesis
    using hash by (auto simp: verify_share_def bindR_eq_Inr verify_solution_ok Let_def
        SOLUTION_BYTES_def meets_target_eq is_met_by_iff [OF target len] split: if_splits)
qed

theorem verify_share_sound_complete_witness:
  "verify_share (\<lambda>_ _ _ _ _. Inr ()) (\<lambda>_. replicate 32 0) EquihashValidator_new (replicate 140 0)
     (replicate 1344 0) max_mainnet = Inr (replicate 32 0)"
  by (subst verify_share_sound_complete) (simp_all add: max_mainnet_def)

end
