(* ===== verification/Share.thy ===== *)
theory Share
  imports Job Duplicate Equihash_Validator
begin

text \<open>
  Share validation, \<open>zcash-pool-server/src/share.rs\<close>.  The duplicate detector is shared between
  connections and is asked twice, before and after the expensive verification, so the validation
  is split at that point into \<open>share_preflight\<close> and \<open>share_finish\<close>; \<open>validate_share_with_job\<close> is
  their composition and the interleavings of several validations are a step relation.
\<close>

section \<open>Results and errors\<close>

text \<open>\<open>PoolError\<close> of \<open>error.rs\<close>; an I/O error carries its text.\<close>

datatype PoolError =
    PoolIo string
  | PoolProtocol ProtocolError
  | PoolValidation ValidationError
  | ConnectionClosed
  | PoolInvalidMessage string
  | PoolUnknownChannel u32
  | PoolUnknownJob u32
  | PoolStaleShare u32
  | PoolDuplicateShare
  | ChannelSend
  | PoolTimeout
  | PoolTemplateProvider string
  | PoolConfigError string
  | PoolShutdown

record ShareValidationResult =
  sv_accepted :: bool
  sv_result :: ShareResult
  sv_difficulty :: "f64 option"
  sv_is_block :: bool

definition rejected :: "RejectReason \<Rightarrow> ShareValidationResult" where
  "rejected reason =
     \<lparr>sv_accepted = False, sv_result = Rejected reason, sv_difficulty = None, sv_is_block = False\<rparr>"

section \<open>Validation\<close>

definition MAX_TIME_FORWARD :: u32 where "MAX_TIME_FORWARD = 7200"
definition MAX_TIME_BACKWARD :: u32 where "MAX_TIME_BACKWARD = 60"

definition time_out_of_range :: "SubmitEquihashShare \<Rightarrow> NewEquihashJob \<Rightarrow> bool" where
  "time_out_of_range share job \<longleftrightarrow>
     ss_time share < saturating_sub (nj_time job) MAX_TIME_BACKWARD
     \<or> ss_time share > saturating_add (nj_time job) MAX_TIME_FORWARD"

text \<open>The header with the miner's time copied over bytes 100 to 103.\<close>

definition share_header :: "NewEquihashJob \<Rightarrow> bytes \<Rightarrow> u32 \<Rightarrow> bytes" where
  "share_header job full_nonce time =
     (let header = build_header job full_nonce in
      take 100 header @ u32_to_le_bytes time @ drop 104 header)"

text \<open>What is known before the authoritative duplicate check: the answer, or the verdict of the
  validator that still has to be recorded.\<close>

datatype preflight = Answer "PoolError + ShareValidationResult" | ValidSolution bytes | BelowTarget

definition share_preflight ::
  "equihash_fn \<Rightarrow> sha256_fn \<Rightarrow> 'd DuplicateDetector \<Rightarrow> 'd \<Rightarrow> SubmitEquihashShare \<Rightarrow> NewEquihashJob
    \<Rightarrow> preflight outcome" where
  "share_preflight vf sha256 D d share job =
     (if dd_is_seen D d (ss_job_id share) (ss_nonce_2 share) (ss_solution share)
      then Returns (Answer (Inr (rejected Duplicate)))
      else if time_out_of_range share job
      then Returns (Answer (Inr (rejected (OtherReason ''timestamp out of range''))))
      else
        case build_nonce job (ss_nonce_2 share) of
          Panics \<Rightarrow> Panics
        | Returns None \<Rightarrow> Returns (Answer (Inl (PoolInvalidMessage ''Invalid nonce_2 length'')))
        | Returns (Some full_nonce) \<Rightarrow>
            let header = share_header job full_nonce (ss_time share) in
            Returns (case verify_share vf sha256 EquihashValidator_new header (ss_solution share)
                (nj_target job) of
                  Inr hash \<Rightarrow> ValidSolution hash
                | Inl TargetNotMet \<Rightarrow> BelowTarget
                | Inl _ \<Rightarrow> Answer (Inr (rejected RejectInvalidSolution))))"

definition share_finish ::
  "'d DuplicateDetector \<Rightarrow> 'd \<Rightarrow> SubmitEquihashShare \<Rightarrow> NewEquihashJob \<Rightarrow> bytes \<Rightarrow> preflight
    \<Rightarrow> (PoolError + ShareValidationResult) \<times> 'd" where
  "share_finish D d share job block_target p =
     (case p of
        Answer r \<Rightarrow> (r, d)
      | ValidSolution hash \<Rightarrow>
          let (seen, d) = dd_check_and_record D d (ss_job_id share) (ss_nonce_2 share) (ss_solution share) in
          if seen then (Inr (rejected Duplicate), d)
          else (Inr \<lparr>sv_accepted = True, sv_result = Accepted,
                  sv_difficulty = Some (target_to_difficulty (nj_target job)),
                  sv_is_block = is_met_by block_target hash\<rparr>, d)
      | BelowTarget \<Rightarrow>
          let (_, d) = dd_check_and_record D d (ss_job_id share) (ss_nonce_2 share) (ss_solution share) in
          (Inr (rejected LowDifficulty), d))"

definition validate_share_with_job ::
  "equihash_fn \<Rightarrow> sha256_fn \<Rightarrow> 'd DuplicateDetector \<Rightarrow> 'd \<Rightarrow> SubmitEquihashShare \<Rightarrow> NewEquihashJob \<Rightarrow> bytes
    \<Rightarrow> ((PoolError + ShareValidationResult) \<times> 'd) outcome" where
  "validate_share_with_job vf sha256 D d share job block_target =
     (case share_preflight vf sha256 D d share job of
        Panics \<Rightarrow> Panics
      | Returns p \<Rightarrow> Returns (share_finish D d share job block_target p))"

definition validate_share ::
  "equihash_fn \<Rightarrow> sha256_fn \<Rightarrow> 'd DuplicateDetector \<Rightarrow> 'd \<Rightarrow> SubmitEquihashShare \<Rightarrow> Channel \<Rightarrow> bytes
    \<Rightarrow> ((PoolError + ShareValidationResult) \<times> 'd) outcome" where
  "validate_share vf sha256 D d share channel block_target =
     (case get_job channel (ss_job_id share) of
        None \<Rightarrow> Returns (Inl (PoolUnknownJob (ss_job_id share)), d)
      | Some channel_job \<Rightarrow>
          if \<not> cj_active channel_job then Returns (Inr (rejected StaleJob), d)
          else validate_share_with_job vf sha256 D d share (cj_job channel_job) block_target)"

section \<open>What a share stands for\<close>

lemma share_header_eq:
  assumes "job_arrays job"
  shows "share_header job nonce time = build_header (job\<lparr>nj_time := time\<rparr>) nonce"
  using assms by (simp add: share_header_def build_header_def job_arrays_def Let_def)

lemma time_out_of_range_iff:
  "time_out_of_range share job \<longleftrightarrow>
     unat (ss_time share) + 60 < unat (nj_time job) \<or> unat (nj_time job) + 7200 < unat (ss_time share)"
  using unat_less_pow [of "ss_time share"]
  by (auto simp: time_out_of_range_def word_less_nat_alt unat_saturating_add MAX_TIME_FORWARD_def
      MAX_TIME_BACKWARD_def)

text \<open>A proof of work for the job: the hash of the solved header.\<close>

definition share_hash :: "sha256_fn \<Rightarrow> NewEquihashJob \<Rightarrow> SubmitEquihashShare \<Rightarrow> bytes" where
  "share_hash sha256 job share =
     sha256 (sha256 (write_compact_size 1344
       (build_header (job\<lparr>nj_time := ss_time share\<rparr>) (nj_nonce_1 job @ ss_nonce_2 share)) @ ss_solution share))"

definition share_solves :: "equihash_fn \<Rightarrow> NewEquihashJob \<Rightarrow> SubmitEquihashShare \<Rightarrow> bool" where
  "share_solves vf job share =
     (let header = build_header (job\<lparr>nj_time := ss_time share\<rparr>) (nj_nonce_1 job @ ss_nonce_2 share) in
      vf 200 9 (take 108 header) (drop 108 header) (ss_solution share) = Inr ())"

lemma verify_share_eq:
  assumes "\<And>m. length (sha256 m) = 32" "length target = 32" "length header = 140"
    "length solution = 1344"
  shows "verify_share vf sha256 EquihashValidator_new header solution target =
    (case vf 200 9 (take 108 header) (drop 108 header) solution of
       Inl e \<Rightarrow> Inl (InvalidSolution e)
     | Inr _ \<Rightarrow> let hash = sha256 (sha256 (write_compact_size 1344 header @ solution)) in
         if le_to_nat hash \<le> le_to_nat target then Inr hash else Inl TargetNotMet)"
proof -
  have hash: "compute_solution_hash sha256 header solution =
      sha256 (sha256 (write_compact_size 1344 header @ solution))"
    using assms(4) by (simp add: compute_solution_hash_def block_hash_parts_eq consensus_block_hash_def
        finish_sha256d_def)
  have met: "meets_target (sha256 m) target \<longleftrightarrow> le_to_nat (sha256 m) \<le> le_to_nat target" for m
    by (simp add: meets_target_eq is_met_by_iff [OF assms(2,1)])
  show ?thesis
    by (cases "vf 200 9 (take 108 header) (drop 108 header) solution")
      (simp_all add: verify_share_def verify_solution_def assms SOLUTION_BYTES_def EquihashValidator_new_def
        EQUIHASH_N_def EQUIHASH_K_def Let_def hash met)
qed

lemma share_preflight_eq:
  assumes sha: "\<And>m. length (sha256 m) = 32" and wf: "job_wf job" "share_wf share"
  shows "share_preflight vf sha256 D d share job = Returns
    (if dd_is_seen D d (ss_job_id share) (ss_nonce_2 share) (ss_solution share)
     then Answer (Inr (rejected Duplicate))
     else if time_out_of_range share job
     then Answer (Inr (rejected (OtherReason ''timestamp out of range'')))
     else if length (ss_nonce_2 share) \<noteq> unat (nj_nonce_2_len job)
     then Answer (Inl (PoolInvalidMessage ''Invalid nonce_2 length''))
     else if \<not> share_solves vf job share then Answer (Inr (rejected RejectInvalidSolution))
     else if le_to_nat (share_hash sha256 job share) \<le> le_to_nat (nj_target job)
     then ValidSolution (share_hash sha256 job share) else BelowTarget)"
proof -
  have arrays: "job_arrays job" "validate_nonce_len job" using wf(1) by (simp_all add: job_wf_def)
  have nonce: "build_nonce job (ss_nonce_2 share) = Returns
      (if length (ss_nonce_2 share) = unat (nj_nonce_2_len job) then Some (nj_nonce_1 job @ ss_nonce_2 share) else None)"
    using arrays(2) by (rule build_nonce_wf)
  have len: "length (build_header (job\<lparr>nj_time := ss_time share\<rparr>) (nj_nonce_1 job @ ss_nonce_2 share)) = 140"
    if "length (ss_nonce_2 share) = unat (nj_nonce_2_len job)"
    using that arrays length_build_header [of "job\<lparr>nj_time := ss_time share\<rparr>"]
    by (simp add: job_arrays_def validate_nonce_len_def total_nonce_len_def)
  have target: "length (nj_target job) = 32" "length (ss_solution share) = 1344"
    using arrays(1) wf(2) by (simp_all add: job_arrays_def share_wf_def SOLUTION_SIZE_def)
  show ?thesis
    unfolding share_preflight_def nonce share_header_eq [OF arrays(1)]
    by (simp add: verify_share_eq [OF sha target(1) len target(2)] share_solves_def share_hash_def Let_def
        split: sum.split)
qed

section \<open>Concurrent validations\<close>

text \<open>
  Submission \<open>i\<close> is the share and the job \<open>subs i\<close>.  The validations interleave at the two accesses
  to the detector; the maintenance of the server may prune the detector in between, keeping the
  jobs that shares are in flight for.
\<close>

datatype share_pc = Submitted | Checked preflight | Answered "PoolError + ShareValidationResult"

record 'd share_sys =
  sy_detector :: 'd
  sy_pc :: "nat \<Rightarrow> share_pc"

inductive share_step ::
  "equihash_fn \<Rightarrow> sha256_fn \<Rightarrow> 'd DuplicateDetector \<Rightarrow> (nat \<Rightarrow> SubmitEquihashShare \<times> NewEquihashJob) \<Rightarrow> bytes
    \<Rightarrow> 'd share_sys \<Rightarrow> 'd share_sys \<Rightarrow> bool" for vf sha256 D subs block_target where
  share_check: "sy_pc s i = Submitted \<Longrightarrow> subs i = (share, job) \<Longrightarrow>
    share_preflight vf sha256 D (sy_detector s) share job = Returns p \<Longrightarrow>
    share_step vf sha256 D subs block_target s (s\<lparr>sy_pc := (sy_pc s)(i := Checked p)\<rparr>)"
| share_record: "sy_pc s i = Checked p \<Longrightarrow> subs i = (share, job) \<Longrightarrow>
    share_finish D (sy_detector s) share job block_target p = (r, d) \<Longrightarrow>
    share_step vf sha256 D subs block_target s
      (s\<lparr>sy_detector := d, sy_pc := (sy_pc s)(i := Answered r)\<rparr>)"
| share_prune: "(\<forall>i. ss_job_id (fst (subs i)) \<in> js) \<Longrightarrow>
    share_step vf sha256 D subs block_target s (s\<lparr>sy_detector := dd_prune_inactive D (sy_detector s) js\<rparr>)"

definition answered_accepted :: "'d share_sys \<Rightarrow> nat \<Rightarrow> bool" where
  "answered_accepted s i \<longleftrightarrow> (\<exists>v. sy_pc s i = Answered (Inr v) \<and> sv_accepted v)"

lemma share_finish_accepts:
  assumes "share_finish D d share job bt p = (Inr v, d')" "sv_accepted v"
    and "\<And>v. p = Answer (Inr v) \<Longrightarrow> \<not> sv_accepted v"
  shows "\<not> fst (dd_check_and_record D d (ss_job_id share) (ss_nonce_2 share) (ss_solution share))"
    "d' = snd (dd_check_and_record D d (ss_job_id share) (ss_nonce_2 share) (ss_solution share))"
  using assms by (auto simp: share_finish_def rejected_def split_beta Let_def split: preflight.splits if_splits)

lemma share_finish_detector:
  assumes "share_finish D d share job bt p = (r, d')"
  shows "d' = d \<or> d' = snd (dd_check_and_record D d (ss_job_id share) (ss_nonce_2 share) (ss_solution share))"
  using assms by (auto simp: share_finish_def split_beta Let_def split: preflight.splits if_splits)

lemma share_preflight_no_accept:
  "share_preflight vf sha256 D d share job = Returns (Answer (Inr v)) \<Longrightarrow> \<not> sv_accepted v"
  by (auto simp: share_preflight_def rejected_def Let_def
      split: if_splits outcome.splits option.splits sum.splits ValidationError.splits)

context duplicate_detector
begin

definition sub_key :: "(nat \<Rightarrow> SubmitEquihashShare \<times> NewEquihashJob) \<Rightarrow> nat \<Rightarrow> u32 \<times> 'k" where
  "sub_key subs i = (ss_job_id (fst (subs i)), key (ss_nonce_2 (fst (subs i))) (ss_solution (fst (subs i))))"

definition sys_inv :: "(nat \<Rightarrow> SubmitEquihashShare \<times> NewEquihashJob) \<Rightarrow> 'd share_sys \<Rightarrow> bool" where
  "sys_inv subs s \<longleftrightarrow> inv (sy_detector s)
     \<and> (\<forall>i v. sy_pc s i = Checked (Answer (Inr v)) \<longrightarrow> \<not> sv_accepted v)
     \<and> (\<forall>i. answered_accepted s i \<longrightarrow> snd (sub_key subs i) \<in> seen (sy_detector s) (fst (sub_key subs i)))
     \<and> (\<forall>i j. answered_accepted s i \<longrightarrow> answered_accepted s j \<longrightarrow> sub_key subs i = sub_key subs j \<longrightarrow> i = j)"

lemma finish_seen_mono:
  assumes "inv d" "share_finish D d share job bt p = (r, d')"
  shows "seen d j \<subseteq> seen d' j" "inv d'"
  using share_finish_detector [OF assms(2)] record_seen [OF assms(1)] record_inv [OF assms(1)] assms(1)
  by (auto split: if_splits)

lemma sys_inv_step:
  assumes "share_step vf sha256 D subs bt s s'" "sys_inv subs s"
  shows "sys_inv subs s'"
  using assms(1)
proof cases
  case (share_check i share job p)
  have "answered_accepted s' k \<longleftrightarrow> answered_accepted s k" for k
    using share_check by (auto simp: answered_accepted_def)
  with share_check assms(2) show ?thesis
    by (auto simp: sys_inv_def split: if_splits dest: share_preflight_no_accept)
next
  case (share_record i p share job r d)
  have inv: "inv (sy_detector s)" using assms(2) by (simp add: sys_inv_def)
  note mono = finish_seen_mono [OF inv share_record(4)]
  have others: "answered_accepted s' k \<longleftrightarrow> answered_accepted s k" if "k \<noteq> i" for k
    using that share_record(1) by (simp add: answered_accepted_def)
  have new: "snd (sub_key subs i) \<notin> seen (sy_detector s) (fst (sub_key subs i))
      \<and> snd (sub_key subs i) \<in> seen d (fst (sub_key subs i))" if acc: "answered_accepted s' i"
  proof -
    obtain v where v: "r = Inr v" "sv_accepted v"
      using acc share_record(1) by (auto simp: answered_accepted_def)
    have no: "\<not> sv_accepted w" if "p = Answer (Inr w)" for w
      using assms(2) share_record(2) that by (auto simp: sys_inv_def)
    have "share_finish D (sy_detector s) share job bt p = (Inr v, d)" using share_record(4) v(1) by simp
    from share_finish_accepts [OF this v(2) no]
    show ?thesis using record_answer [OF inv] record_seen [OF inv] share_record(3)
      by (auto simp: sub_key_def)
  qed
  show ?thesis
    unfolding sys_inv_def
  proof (intro conjI allI impI)
    show "inv (sy_detector s')" using mono(2) share_record(1) by simp
  next
    fix k v assume "sy_pc s' k = Checked (Answer (Inr v))"
    then show "\<not> sv_accepted v" using assms(2) share_record(1) by (auto simp: sys_inv_def split: if_splits)
  next
    fix k assume k: "answered_accepted s' k"
    have "snd (sub_key subs k) \<in> seen d (fst (sub_key subs k))"
    proof (cases "k = i")
      case True
      with k new show ?thesis by simp
    next
      case False
      with k others have "snd (sub_key subs k) \<in> seen (sy_detector s) (fst (sub_key subs k))"
        using assms(2) by (simp add: sys_inv_def)
      then show ?thesis using mono(1) by (rule rev_subsetD)
    qed
    then show "snd (sub_key subs k) \<in> seen (sy_detector s') (fst (sub_key subs k))"
      using share_record(1) by simp
  next
    fix k l assume kl: "answered_accepted s' k" "answered_accepted s' l" "sub_key subs k = sub_key subs l"
    then show "k = l"
      using new others [of k] others [of l] assms(2) unfolding sys_inv_def by (cases "k = i"; cases "l = i") metis+
  qed
next
  case (share_prune js)
  then show ?thesis using assms(2) prune_seen prune_inv
    by (auto simp: sys_inv_def answered_accepted_def sub_key_def)
qed

lemma accepted_once:
  assumes "(share_step vf sha256 D subs bt)\<^sup>*\<^sup>* s s'" "inv (sy_detector s)" "\<forall>i. sy_pc s i = Submitted"
    and "answered_accepted s' i" "answered_accepted s' j" "sub_key subs i = sub_key subs j"
  shows "i = j"
proof -
  have "sys_inv subs s" using assms(2,3) by (simp add: sys_inv_def answered_accepted_def)
  with assms(1) have "sys_inv subs s'" by induction (auto intro: sys_inv_step)
  with assms(4-6) show ?thesis by (simp add: sys_inv_def)
qed

end

section \<open>Claims\<close>

text \<open>
  C12.  Which shares are accepted.  For a well-formed job and share, validation does not panic.  It
  accepts the share exactly if its key was not seen before and the job's set is not full, its time
  lies between 60 seconds before and 7200 seconds after the job's, its \<open>nonce_2\<close> has the announced
  length, Equihash accepts the solution for the header with the channel's nonce prefix and the
  share's time, and the header's hash is at most the job's target.  An accepted share is credited the
  difficulty of the job's target, not of its hash, and is a block exactly if its hash is at most
  the block target.
\<close>

theorem validate_share_accepts_iff:
  assumes "\<And>m. length (sha256 m) = 32" "job_wf job" "share_wf share" "length block_target = 32" "im_inv d"
    and key_def: "key = hash_share siphash (ss_nonce_2 share) (ss_solution share)"
    and hash_def: "hash = share_hash sha256 job share"
  shows "\<exists>r d'. validate_share_with_job vf sha256 (in_memory_detector siphash) d share job block_target
      = Returns (r, d')
    \<and> ((\<exists>v. r = Inr v \<and> sv_accepted v) \<longleftrightarrow>
        key \<notin> im_seen d (ss_job_id share) \<and> \<not> im_full d (ss_job_id share)
        \<and> unat (nj_time job) \<le> unat (ss_time share) + 60
        \<and> unat (ss_time share) \<le> unat (nj_time job) + 7200
        \<and> length (ss_nonce_2 share) = unat (nj_nonce_2_len job)
        \<and> share_solves vf job share \<and> le_to_nat hash \<le> le_to_nat (nj_target job))
    \<and> (\<forall>v. r = Inr v \<and> sv_accepted v \<longrightarrow>
        sv_difficulty v = Some (target_to_difficulty (nj_target job))
        \<and> sv_is_block v = (le_to_nat hash \<le> le_to_nat block_target))"
proof -
  have "length hash = 32" unfolding hash_def share_hash_def by (rule assms(1))
  then have block: "is_met_by block_target hash \<longleftrightarrow> le_to_nat hash \<le> le_to_nat block_target"
    by (rule is_met_by_iff [OF assms(4)])
  note pre = share_preflight_eq [OF assms(1-3)]
  show ?thesis
    unfolding validate_share_with_job_def pre in_memory.is_seen_iff [OF assms(5)] time_out_of_range_iff
      key_def [symmetric] hash_def [symmetric]
    using in_memory.record_answer [OF assms(5), of siphash "ss_job_id share" "ss_nonce_2 share" "ss_solution share"]
    by (auto simp: share_finish_def rejected_def split_beta Let_def block key_def)
qed


definition sample_share :: "u8 \<Rightarrow> SubmitEquihashShare" where
  "sample_share b = \<lparr>ss_channel_id = 1, ss_sequence_number = 1, ss_job_id = 3,
     ss_nonce_2 = replicate 28 b, ss_time = 1700000060, ss_solution = replicate 1344 0\<rparr>"

definition sample_siphash :: "bytes \<Rightarrow> u64" where
  "sample_siphash bs = ucast (bs ! 8)"

abbreviation sample_detector :: "InMemoryDuplicateDetector DuplicateDetector" where
  "sample_detector \<equiv> in_memory_detector sample_siphash"

lemma sample_wf: "job_wf (sample_job k)" "share_wf (sample_share b)"
  by (simp_all add: job_wf_def job_arrays_def sample_job_def validate_nonce_len_def total_nonce_len_def
      share_wf_def sample_share_def SOLUTION_SIZE_def)

lemma sample_key: "hash_share sample_siphash (replicate 28 b) sol = ucast b"
  by (simp add: hash_share_def hash_slice_def sample_siphash_def nth_append)

theorem validate_share_accepts_iff_witness:
  "\<exists>v d'. validate_share_with_job (\<lambda>_ _ _ _ _. Inr ()) (\<lambda>_. replicate 32 0) sample_detector
      InMemoryDuplicateDetector_new (sample_share 5) (sample_job 3) (replicate 32 0) = Returns (Inr v, d')
    \<and> sv_accepted v \<and> sv_is_block v"
proof -
  have inv: "im_inv InMemoryDuplicateDetector_new"
    by (simp add: im_inv_def InMemoryDuplicateDetector_new_def)
  have empty: "im_seen InMemoryDuplicateDetector_new j = {}" "\<not> im_full InMemoryDuplicateDetector_new j" for j
    by (simp_all add: im_seen_def im_full_def InMemoryDuplicateDetector_new_def hm_get_or_def
        MAX_SHARES_PER_JOB_def)
  show ?thesis
    using validate_share_accepts_iff [where ?sha256.0 = "\<lambda>_. replicate 32 0" and job = "sample_job 3" and
        share = "sample_share 5" and block_target = "replicate 32 0" and siphash = sample_siphash and
        vf = "\<lambda>_ _ _ _ _. Inr ()", OF _ sample_wf _ inv refl refl]
    by (auto simp: empty share_solves_def share_hash_def Let_def)
      (auto simp: sample_share_def sample_job_def)
qed

text \<open>
  C11.  No share is paid twice, under any interleaving.  However the validations of any number of
  submissions interleave at their accesses to the shared duplicate detector, and whenever the
  detector is pruned while keeping the jobs in flight, two accepted submissions differ in their job
  or in the key of their nonce and solution.
\<close>

theorem concurrent_shares_accepted_once:
  assumes "(share_step vf sha256 (in_memory_detector siphash) subs block_target)\<^sup>*\<^sup>* s s'"
    and "im_inv (sy_detector s)" "\<forall>i. sy_pc s i = Submitted"
    and "answered_accepted s' i" "answered_accepted s' j" "i \<noteq> j"
    and "subs i = (share, job)" "subs j = (share', job')"
  shows "ss_job_id share \<noteq> ss_job_id share'
    \<or> hash_share siphash (ss_nonce_2 share) (ss_solution share)
      \<noteq> hash_share siphash (ss_nonce_2 share') (ss_solution share')"
  using in_memory.accepted_once [OF assms(1-5)] assms(6-8) by (auto simp: in_memory.sub_key_def)

lemma sample_preflight:
  assumes "\<not> dd_is_seen D d 3 (replicate 28 b) (replicate 1344 0)"
  shows "share_preflight (\<lambda>_ _ _ _ _. Inr ()) (\<lambda>_. replicate 32 0) D d (sample_share b) (sample_job 3)
    = Returns (ValidSolution (replicate 32 0))"
  using assms
  by (subst share_preflight_eq [OF _ sample_wf])
    (simp_all add: share_solves_def share_hash_def Let_def time_out_of_range_iff,
     simp_all add: sample_share_def sample_job_def)

text \<open>Two shares of one job with different nonces: both check first and record afterwards.\<close>

theorem concurrent_shares_accepted_once_witness:
  "\<exists>s'. (share_step (\<lambda>_ _ _ _ _. Inr ()) (\<lambda>_. replicate 32 0) sample_detector
        (\<lambda>i. (sample_share (if i = 0 then 1 else 2), sample_job 3)) (replicate 32 0))\<^sup>*\<^sup>*
      \<lparr>sy_detector = InMemoryDuplicateDetector_new, sy_pc = (\<lambda>_. Submitted)\<rparr> s'
    \<and> answered_accepted s' 0 \<and> answered_accepted s' 1
    \<and> hash_share sample_siphash (replicate 28 1) (replicate 1344 0)
      \<noteq> hash_share sample_siphash (replicate 28 2) (replicate 1344 0)"
proof -
  let ?subs = "\<lambda>i :: nat. (sample_share (if i = 0 then 1 else 2), sample_job 3)"
  let ?step = "share_step (\<lambda>_ _ _ _ _. Inr ()) (\<lambda>_. replicate 32 0) sample_detector ?subs (replicate 32 0)"
  let ?new = "InMemoryDuplicateDetector_new" and ?ok = "Checked (ValidSolution (replicate 32 0))"
  let ?s = "\<lambda>d f g. \<lparr>sy_detector = d, sy_pc = (\<lambda>_. Submitted)(0 := f, 1 := g)\<rparr>"
  let ?d1 = "\<lparr>im_jobs = [(3, {1})]\<rparr>" and ?d2 = "\<lparr>im_jobs = [(3, {2, 1})]\<rparr>"
  let ?v = "\<lparr>sv_accepted = True, sv_result = Accepted,
    sv_difficulty = Some (target_to_difficulty (nj_target (sample_job 3))), sv_is_block = True\<rparr>"
  have unseen: "\<not> dd_is_seen sample_detector ?new 3 n sol" for n sol
    by (simp add: in_memory_detector_def im_is_seen_def InMemoryDuplicateDetector_new_def)
  have met: "is_met_by (replicate 32 0) (replicate 32 0)" by code_simp
  have fin: "share_finish sample_detector ?new (sample_share 1) (sample_job 3) (replicate 32 0)
      (ValidSolution (replicate 32 0)) = (Inr ?v, ?d1)"
    "share_finish sample_detector ?d1 (sample_share 2) (sample_job 3) (replicate 32 0)
      (ValidSolution (replicate 32 0)) = (Inr ?v, ?d2)"
    by (simp_all add: share_finish_def in_memory_detector_def im_check_and_record_def sample_share_def Let_def
        sample_key InMemoryDuplicateDetector_new_def hm_get_or_def hm_get_def hm_insert_def
        MAX_SHARES_PER_JOB_def met)
  have "?step (?s ?new Submitted Submitted) (?s ?new ?ok Submitted)"
    using share_check [of "?s ?new Submitted Submitted" 0 ?subs "sample_share 1" "sample_job 3"]
      sample_preflight [OF unseen] by (simp add: fun_upd_twist [of 0 "Suc 0"])
  moreover have "?step (?s ?new ?ok Submitted) (?s ?new ?ok ?ok)"
    using share_check [of "?s ?new ?ok Submitted" 1 ?subs "sample_share 2" "sample_job 3"]
      sample_preflight [OF unseen] by simp
  moreover have "?step (?s ?new ?ok ?ok) (?s ?d1 (Answered (Inr ?v)) ?ok)"
    using share_record [of "?s ?new ?ok ?ok" 0 _ ?subs "sample_share 1" "sample_job 3"] fin(1)
    by (simp add: fun_upd_twist [of 0 "Suc 0"])
  moreover have "?step (?s ?d1 (Answered (Inr ?v)) ?ok) (?s ?d2 (Answered (Inr ?v)) (Answered (Inr ?v)))"
    using share_record [of "?s ?d1 (Answered (Inr ?v)) ?ok" 1 _ ?subs "sample_share 2" "sample_job 3"] fin(2)
    by simp
  ultimately have run: "?step\<^sup>*\<^sup>* (?s ?new Submitted Submitted) (?s ?d2 (Answered (Inr ?v)) (Answered (Inr ?v)))"
    by (meson converse_rtranclp_into_rtranclp rtranclp.rtrancl_refl)
  have acc: "answered_accepted (?s ?d2 (Answered (Inr ?v)) (Answered (Inr ?v))) i" if "i < 2" for i
    using that by (auto simp: answered_accepted_def less_2_cases_iff)
  have inv: "im_inv (sy_detector (?s ?new Submitted Submitted))"
    by (simp add: im_inv_def InMemoryDuplicateDetector_new_def)
  have "hash_share sample_siphash (replicate 28 1) (replicate 1344 0)
      \<noteq> hash_share sample_siphash (replicate 28 2) (replicate 1344 0)"
    using concurrent_shares_accepted_once [OF run inv _ acc [of 0] acc [of 1], of "sample_share 1" "sample_job 3"
        "sample_share 2" "sample_job 3"] by (simp add: sample_share_def)
  moreover have "(\<lambda>_. Submitted)(0 := Submitted, 1 := Submitted) = (\<lambda>_ :: nat. Submitted)" by auto
  ultimately show ?thesis using run acc [of 0] acc [of 1] by auto
qed

end
