(* ===== verification/Security.thy ===== *)
theory Security
  imports Rate_Limit
begin

text \<open>
  The security utilities of the pool server, \<open>zcash-pool-server/src/security.rs\<close>: sequence
  validation against replays, tracking of connection patterns, response jitter and counters.  A
  poisoned lock is recovered by the code, so the locks do not appear.  The lemmas show which
  replays the sequence window catches and which it lets through.
\<close>

section \<open>Sequence validation\<close>

record SequenceState =
  sq_highest_seen :: u32
  sq_seen_window :: "u32 list"
  sq_anomaly_count :: u32
  sq_last_update :: instant

definition SequenceState_new :: "instant \<Rightarrow> SequenceState" where
  "SequenceState_new now =
     \<lparr>sq_highest_seen = 0, sq_seen_window = [], sq_anomaly_count = 0, sq_last_update = now\<rparr>"

datatype SequenceCheckResult = Valid | ValidOutOfOrder | Replay | GapTooLarge | StaleSequence

definition should_process :: "SequenceCheckResult \<Rightarrow> bool" where
  "should_process self \<longleftrightarrow> self = Valid \<or> self = ValidOutOfOrder"

definition is_suspicious :: "SequenceCheckResult \<Rightarrow> bool" where
  "is_suspicious self \<longleftrightarrow> self = Replay \<or> self = GapTooLarge"

record SequenceValidator =
  sqv_channels :: "(u32, SequenceState) hash_map"
  sqv_max_gap :: u32
  sqv_window_size :: nat

definition SequenceValidator_new :: "u32 \<Rightarrow> nat \<Rightarrow> SequenceValidator" where
  "SequenceValidator_new max_gap window_size =
     \<lparr>sqv_channels = [], sqv_max_gap = max_gap, sqv_window_size = window_size\<rparr>"

definition SequenceValidator_default :: SequenceValidator where
  "SequenceValidator_default = SequenceValidator_new 1000 128"

text \<open>Pushing to the back of the window and popping the front while it is too long.\<close>

definition add_to_window :: "u32 list \<Rightarrow> u32 \<Rightarrow> nat \<Rightarrow> u32 list" where
  "add_to_window window seq max_size =
     (let window = window @ [seq] in drop (length window - max_size) window)"

text \<open>The body of \<open>validate\<close> after the state of the channel is looked up.\<close>

definition check_sequence ::
  "u32 \<Rightarrow> nat \<Rightarrow> u32 \<Rightarrow> SequenceState \<Rightarrow> SequenceCheckResult \<times> SequenceState" where
  "check_sequence max_gap window_size sequence state =
     (let anomaly = state\<lparr>sq_anomaly_count := sq_anomaly_count state + 1\<rparr> in
      if sq_highest_seen state = 0 \<and> sq_seen_window state = [] then
        (Valid, state\<lparr>sq_highest_seen := sequence, sq_seen_window := sq_seen_window state @ [sequence]\<rparr>)
      else if sequence \<in> set (sq_seen_window state) then (Replay, anomaly)
      else if sequence = sq_highest_seen state + 1 then
        (Valid, state\<lparr>sq_highest_seen := sequence,
           sq_seen_window := add_to_window (sq_seen_window state) sequence window_size\<rparr>)
      else if sequence > sq_highest_seen state then
        (if sequence - sq_highest_seen state \<le> max_gap then
           (ValidOutOfOrder, anomaly\<lparr>sq_highest_seen := sequence,
              sq_seen_window := add_to_window (sq_seen_window state) sequence window_size\<rparr>)
         else (GapTooLarge, anomaly))
      else if sq_highest_seen state - sequence \<le> of_nat window_size then
        (ValidOutOfOrder,
           anomaly\<lparr>sq_seen_window := add_to_window (sq_seen_window state) sequence window_size\<rparr>)
      else (StaleSequence, anomaly))"

definition sequence_validate ::
  "instant \<Rightarrow> u32 \<Rightarrow> u32 \<Rightarrow> SequenceValidator \<Rightarrow> SequenceCheckResult \<times> SequenceValidator" where
  "sequence_validate now channel_id sequence self =
     (let state = hm_get_or (SequenceState_new now) (sqv_channels self) channel_id;
          (r, state) = check_sequence (sqv_max_gap self) (sqv_window_size self) sequence
            (state\<lparr>sq_last_update := now\<rparr>) in
      (r, self\<lparr>sqv_channels := hm_insert channel_id state (sqv_channels self)\<rparr>))"

definition anomaly_count :: "SequenceValidator \<Rightarrow> u32 \<Rightarrow> u32" where
  "anomaly_count self channel_id =
     (case hm_get (sqv_channels self) channel_id of Some s \<Rightarrow> sq_anomaly_count s | None \<Rightarrow> 0)"

definition remove_channel :: "u32 \<Rightarrow> SequenceValidator \<Rightarrow> SequenceValidator" where
  "remove_channel channel_id self = self\<lparr>sqv_channels := hm_remove channel_id (sqv_channels self)\<rparr>"

definition cleanup_stale :: "instant \<Rightarrow> duration \<Rightarrow> SequenceValidator \<Rightarrow> SequenceValidator" where
  "cleanup_stale now max_age self =
     self\<lparr>sqv_channels := hm_retain (\<lambda>_ state. duration_since now (sq_last_update state) < max_age)
       (sqv_channels self)\<rparr>"

section \<open>Connection tracking\<close>

datatype IpAddr = V4 "32 word" | V6 "128 word"

record SocketAddr =
  sa_ip :: IpAddr
  sa_port :: u16

record ConnectionRecord =
  cr_disconnected_at :: instant
  cr_duration :: duration
  cr_decryption_error :: bool

record ConnectionHistory =
  hi_recent_durations :: "ConnectionRecord list"
  hi_suspicious_count :: u32
  hi_is_flagged :: bool

record ConnectionTracker =
  ct_connections :: "(IpAddr, ConnectionHistory) hash_map"
  ct_short_lived_threshold :: duration
  ct_tracking_window :: duration
  ct_max_short_lived_per_window :: nat
  ct_max_tracked_addresses :: nat

definition DEFAULT_MAX_TRACKED_ADDRESSES :: nat where "DEFAULT_MAX_TRACKED_ADDRESSES = 100000"

definition ConnectionTracker_new :: "duration \<Rightarrow> duration \<Rightarrow> nat \<Rightarrow> ConnectionTracker" where
  "ConnectionTracker_new short_lived_threshold tracking_window max_short_lived_per_window =
     \<lparr>ct_connections = [], ct_short_lived_threshold = short_lived_threshold,
      ct_tracking_window = tracking_window, ct_max_short_lived_per_window = max_short_lived_per_window,
      ct_max_tracked_addresses = DEFAULT_MAX_TRACKED_ADDRESSES\<rparr>"

definition ConnectionTracker_default :: ConnectionTracker where
  "ConnectionTracker_default = ConnectionTracker_new (from_secs 5) (from_secs 300) 10"

text \<open>The sort key of the eviction: the last disconnect, or now for an address that never had one.\<close>

definition last_disconnect :: "instant \<Rightarrow> ConnectionHistory \<Rightarrow> instant" where
  "last_disconnect now h =
     (if hi_recent_durations h = [] then now else cr_disconnected_at (last (hi_recent_durations h)))"

definition evict_address ::
  "instant \<Rightarrow> (IpAddr, ConnectionHistory) hash_map \<Rightarrow> (IpAddr, ConnectionHistory) hash_map" where
  "evict_address now connections =
     (case min_by_key (\<lambda>(_, h). last_disconnect now h)
         (filter (\<lambda>(_, h). \<not> hi_is_flagged h) connections) of
        Some (addr, _) \<Rightarrow> hm_remove addr connections
      | None \<Rightarrow>
          (case min_by_key (\<lambda>(_, h). last_disconnect now h) connections of
             Some (addr, _) \<Rightarrow> hm_remove addr connections
           | None \<Rightarrow> connections))"

definition on_connect :: "instant \<Rightarrow> SocketAddr \<Rightarrow> ConnectionTracker \<Rightarrow> instant \<times> ConnectionTracker" where
  "on_connect now addr self =
     (let addr = sa_ip addr;
          connections = (if length (ct_connections self) \<ge> ct_max_tracked_addresses self
              \<and> \<not> hm_contains (ct_connections self) addr
            then evict_address now (ct_connections self) else ct_connections self);
          history = hm_get_or \<lparr>hi_recent_durations = [], hi_suspicious_count = 0, hi_is_flagged = False\<rparr>
            connections addr in
      (now, self\<lparr>ct_connections := hm_insert addr history connections\<rparr>))"

definition short_lived_count :: "ConnectionTracker \<Rightarrow> ConnectionRecord list \<Rightarrow> nat" where
  "short_lived_count self rs = length (filter (\<lambda>r. cr_duration r < ct_short_lived_threshold self) rs)"

definition decrypt_error_count :: "ConnectionRecord list \<Rightarrow> nat" where
  "decrypt_error_count rs = length (filter cr_decryption_error rs)"

definition on_disconnect ::
  "instant \<Rightarrow> SocketAddr \<Rightarrow> instant \<Rightarrow> bool \<Rightarrow> ConnectionTracker \<Rightarrow> bool \<times> ConnectionTracker" where
  "on_disconnect now addr connected_at decryption_error self =
     (let duration = duration_since now connected_at; addr = sa_ip addr in
      case hm_get (ct_connections self) addr of
        None \<Rightarrow> (False, self)
      | Some history \<Rightarrow>
          let records = dropWhile (\<lambda>front. duration_since now (cr_disconnected_at front) > ct_tracking_window self)
                (hi_recent_durations history @ [\<lparr>cr_disconnected_at = now, cr_duration = duration,
                   cr_decryption_error = decryption_error\<rparr>]);
              should_flag = (short_lived_count self records \<ge> ct_max_short_lived_per_window self
                \<or> decrypt_error_count records \<ge> 3);
              history = history\<lparr>hi_recent_durations := records\<rparr>;
              history = (if should_flag \<and> \<not> hi_is_flagged history
                then history\<lparr>hi_is_flagged := True, hi_suspicious_count := hi_suspicious_count history + 1\<rparr>
                else history) in
          (should_flag, self\<lparr>ct_connections := hm_insert addr history (ct_connections self)\<rparr>))"

definition is_flagged :: "ConnectionTracker \<Rightarrow> SocketAddr \<Rightarrow> bool" where
  "is_flagged self addr =
     (case hm_get (ct_connections self) (sa_ip addr) of Some h \<Rightarrow> hi_is_flagged h | None \<Rightarrow> False)"

definition clear_flag :: "SocketAddr \<Rightarrow> ConnectionTracker \<Rightarrow> ConnectionTracker" where
  "clear_flag addr self =
     (case hm_get (ct_connections self) (sa_ip addr) of
        Some history \<Rightarrow> self\<lparr>ct_connections :=
          hm_insert (sa_ip addr) (history\<lparr>hi_is_flagged := False\<rparr>) (ct_connections self)\<rparr>
      | None \<Rightarrow> self)"

record ConnectionStats =
  cs_total_connections :: nat
  cs_short_lived_connections :: nat
  cs_decryption_errors :: nat
  cs_average_duration :: duration
  cs_is_flagged :: bool
  cs_suspicious_count :: u32

text \<open>Summing the durations panics on overflow; dividing one by a number rounds down.\<close>

definition get_connection_stats :: "ConnectionTracker \<Rightarrow> SocketAddr \<Rightarrow> ConnectionStats option outcome" where
  "get_connection_stats self addr =
     (case hm_get (ct_connections self) (sa_ip addr) of
        None \<Rightarrow> Returns None
      | Some history \<Rightarrow>
          let records = hi_recent_durations history; total = length records;
              duration_sum = sum_list (map cr_duration records) in
          if total > 0 \<and> duration_sum > DURATION_MAX then Panics
          else Returns (Some
            \<lparr>cs_total_connections = total, cs_short_lived_connections = short_lived_count self records,
             cs_decryption_errors = decrypt_error_count records,
             cs_average_duration = (if total > 0 then duration_sum div min total (2 ^ 32 - 1) else 0),
             cs_is_flagged = hi_is_flagged history, cs_suspicious_count = hi_suspicious_count history\<rparr>))"

definition connection_cleanup :: "instant \<Rightarrow> duration \<Rightarrow> ConnectionTracker \<Rightarrow> ConnectionTracker" where
  "connection_cleanup now max_age self =
     self\<lparr>ct_connections := hm_retain (\<lambda>_ history.
         hi_recent_durations history \<noteq> []
         \<and> duration_since now (cr_disconnected_at (last (hi_recent_durations history))) < max_age)
       (ct_connections self)\<rparr>"

section \<open>Response jitter\<close>

record TimingJitter =
  tj_min_delay :: duration
  tj_max_delay :: duration

definition mul_f64 :: "duration \<Rightarrow> f64 \<Rightarrow> duration outcome" where
  "mul_f64 d x = from_secs_f64 (f64_mul x (as_secs_f64 d))"

text \<open>The argument is what \<open>rand::random\<close> returned.\<close>

definition get_delay :: "f64 \<Rightarrow> TimingJitter \<Rightarrow> duration outcome" where
  "get_delay random self =
     (if tj_max_delay self \<le> tj_min_delay self then Returns (tj_min_delay self)
      else case mul_f64 (tj_max_delay self - tj_min_delay self) random of
          Panics \<Rightarrow> Panics
        | Returns d \<Rightarrow>
            if tj_min_delay self + d > DURATION_MAX then Panics else Returns (tj_min_delay self + d))"

section \<open>Counters\<close>

record SecurityMetrics =
  sm_decryption_failures :: u64
  sm_replay_attempts :: u64
  sm_sequence_anomalies :: u64
  sm_flagged_addresses :: u64
  sm_short_lived_connections :: u64

definition SecurityMetrics_new :: SecurityMetrics where
  "SecurityMetrics_new = \<lparr>sm_decryption_failures = 0, sm_replay_attempts = 0, sm_sequence_anomalies = 0,
     sm_flagged_addresses = 0, sm_short_lived_connections = 0\<rparr>"

definition record_decryption_failure :: "SecurityMetrics \<Rightarrow> SecurityMetrics" where
  "record_decryption_failure m = m\<lparr>sm_decryption_failures := sm_decryption_failures m + 1\<rparr>"

definition record_replay_attempt :: "SecurityMetrics \<Rightarrow> SecurityMetrics" where
  "record_replay_attempt m = m\<lparr>sm_replay_attempts := sm_replay_attempts m + 1\<rparr>"

definition record_sequence_anomaly :: "SecurityMetrics \<Rightarrow> SecurityMetrics" where
  "record_sequence_anomaly m = m\<lparr>sm_sequence_anomalies := sm_sequence_anomalies m + 1\<rparr>"

definition record_flagged_address :: "SecurityMetrics \<Rightarrow> SecurityMetrics" where
  "record_flagged_address m = m\<lparr>sm_flagged_addresses := sm_flagged_addresses m + 1\<rparr>"

definition record_short_lived_connection :: "SecurityMetrics \<Rightarrow> SecurityMetrics" where
  "record_short_lived_connection m = m\<lparr>sm_short_lived_connections := sm_short_lived_connections m + 1\<rparr>"

section \<open>What the sequence window catches\<close>

text \<open>\<open>window_is w acc v c\<close>: the window of channel \<open>c\<close> holds the last \<open>w\<close> of the sequence numbers
  \<open>acc\<close> accepted so far.\<close>

definition window_is :: "u32 list \<Rightarrow> SequenceValidator \<Rightarrow> u32 \<Rightarrow> bool" where
  "window_is acc v c \<longleftrightarrow>
     (case hm_get (sqv_channels v) c of
        None \<Rightarrow> acc = []
      | Some st \<Rightarrow> acc \<noteq> [] \<and> sq_seen_window st = drop (length acc - sqv_window_size v) acc)"

lemma add_to_window_drop:
  "add_to_window (drop (length acc - w) acc) s w = drop (Suc (length acc) - w) (acc @ [s])"
  by (cases "w \<le> length acc") (simp_all add: add_to_window_def Let_def Suc_diff_le)

lemma check_sequence_window:
  assumes "0 < w" "sq_seen_window st = drop (length acc - w) acc" "acc = [] \<longrightarrow> sq_highest_seen st = 0"
  shows "sq_seen_window (snd (check_sequence g w s st)) =
    (let acc' = (if should_process (fst (check_sequence g w s st)) then acc @ [s] else acc)
     in drop (length acc' - w) acc')"
    "acc = [] \<Longrightarrow> should_process (fst (check_sequence g w s st))"
proof -
  note add = add_to_window_drop [of acc w]
  show "sq_seen_window (snd (check_sequence g w s st)) =
    (let acc' = (if should_process (fst (check_sequence g w s st)) then acc @ [s] else acc)
     in drop (length acc' - w) acc')"
    "acc = [] \<Longrightarrow> should_process (fst (check_sequence g w s st))"
  proof -
    have "acc \<noteq> [] \<Longrightarrow> sq_seen_window st \<noteq> []" using assms(1,2) by (cases acc) auto
    then show "sq_seen_window (snd (check_sequence g w s st)) =
      (let acc' = (if should_process (fst (check_sequence g w s st)) then acc @ [s] else acc)
       in drop (length acc' - w) acc')"
      using assms add
      by (cases "acc = []") (simp_all add: check_sequence_def Let_def should_process_def del: drop_append)
    show "acc = [] \<Longrightarrow> should_process (fst (check_sequence g w s st))"
      using assms by (simp add: check_sequence_def Let_def should_process_def)
  qed
qed

lemma sequence_validate_window:
  assumes "window_is acc v c" "0 < sqv_window_size v"
    "sequence_validate now c' s v = (r, v')"
  shows "window_is (if c' = c \<and> should_process r then acc @ [s] else acc) v' c"
    "sqv_window_size v' = sqv_window_size v"
proof -
  let ?st = "(hm_get_or (SequenceState_new now) (sqv_channels v) c')\<lparr>sq_last_update := now\<rparr>"
  let ?res = "check_sequence (sqv_max_gap v) (sqv_window_size v) s ?st"
  have res: "r = fst ?res" "v' = v\<lparr>sqv_channels := hm_insert c' (snd ?res) (sqv_channels v)\<rparr>"
    using assms(3) by (simp_all add: sequence_validate_def split_beta Let_def)
  show "sqv_window_size v' = sqv_window_size v" by (simp add: res)
  show "window_is (if c' = c \<and> should_process r then acc @ [s] else acc) v' c"
  proof (cases "c' = c")
    case True
    have "sq_seen_window ?st = drop (length acc - sqv_window_size v) acc"
      "acc = [] \<longrightarrow> sq_highest_seen ?st = 0"
      using assms(1) True
      by (auto simp: window_is_def hm_get_or_def SequenceState_new_def split: option.splits)
    from check_sequence_window [OF assms(2) this] True show ?thesis
      by (auto simp: window_is_def res Let_def)
  next
    case False
    then show ?thesis using assms(1)
      by (cases "hm_get (sqv_channels v) c") (simp_all add: window_is_def res)
  qed
qed

type_synonym sequence_msg = "instant \<times> u32 \<times> u32"

abbreviation run_sequences ::
  "SequenceValidator \<Rightarrow> sequence_msg list \<Rightarrow> SequenceCheckResult list \<times> SequenceValidator" where
  "run_sequences \<equiv> run_all (\<lambda>v (now, c, s). sequence_validate now c s v)"

text \<open>The sequence numbers of channel \<open>c\<close> that were let through, in order.\<close>

definition accepted_sequences :: "u32 \<Rightarrow> sequence_msg list \<Rightarrow> SequenceCheckResult list \<Rightarrow> u32 list" where
  "accepted_sequences c msgs rs =
     map (\<lambda>((_, _, s), _). s) (filter (\<lambda>((_, c', _), r). c' = c \<and> should_process r) (zip msgs rs))"

lemma run_sequences_window:
  assumes "window_is acc v c" "0 < sqv_window_size v"
  shows "window_is (acc @ accepted_sequences c msgs (fst (run_sequences v msgs))) (snd (run_sequences v msgs)) c
    \<and> sqv_window_size (snd (run_sequences v msgs)) = sqv_window_size v"
  using assms
proof (induction msgs arbitrary: acc v)
  case Nil
  then show ?case by (simp add: accepted_sequences_def)
next
  case (Cons m msgs)
  obtain now c' s where m: "m = (now, c', s)" by (cases m)
  obtain r v' where rv: "sequence_validate now c' s v = (r, v')" by fastforce
  note step = sequence_validate_window [OF Cons.prems rv]
  have "0 < sqv_window_size v'" using step(2) Cons.prems(2) by simp
  note IH = Cons.IH [OF step(1) this]
  have run: "run_sequences v (m # msgs) = (r # fst (run_sequences v' msgs), snd (run_sequences v' msgs))"
    by (simp add: m rv Let_def split: prod.split)
  have "accepted_sequences c (m # msgs) (r # rs) =
      (if c' = c \<and> should_process r then [s] else []) @ accepted_sequences c msgs rs" for rs
    by (simp add: accepted_sequences_def m)
  with IH step(2) show ?case unfolding run by (cases "c' = c \<and> should_process r") simp_all
qed

lemma replay_in_window:
  assumes "window_is acc v c" "s \<in> set (drop (length acc - sqv_window_size v) acc)"
  shows "fst (sequence_validate now c s v) = Replay"
  using assms
  by (auto simp: window_is_def sequence_validate_def split_beta Let_def hm_get_or_def check_sequence_def
      split: option.splits)

section \<open>Claims\<close>

text \<open>
  A recent replay is always caught.  Whatever messages of whatever channels were validated, with
  a window of at least one number, a sequence number among the last \<open>window_size\<close> accepted for a
  channel is answered \<open>Replay\<close> when it comes again on that channel.
\<close>

theorem recent_replay_rejected:
  assumes "0 < window_size"
    and "run_sequences (SequenceValidator_new max_gap window_size) msgs = (rs, v)"
    and "acc = accepted_sequences c msgs rs" "s \<in> set (drop (length acc - window_size) acc)"
  shows "fst (sequence_validate now c s v) = Replay"
proof (rule replay_in_window)
  let ?v = "SequenceValidator_new max_gap window_size"
  have "window_is [] ?v c" "0 < sqv_window_size ?v" using assms(1)
    by (simp_all add: window_is_def SequenceValidator_new_def)
  from run_sequences_window [OF this, of msgs] show "window_is acc v c"
    using assms(2,3) by simp
  from run_sequences_window [OF \<open>window_is [] ?v c\<close> \<open>0 < sqv_window_size ?v\<close>, of msgs]
  show "s \<in> set (drop (length acc - sqv_window_size v) acc)"
    using assms(2,4) by (simp add: SequenceValidator_new_def)
qed

theorem recent_replay_rejected_witness:
  "fst (sequence_validate 5 7 10 (snd (run_sequences (SequenceValidator_new 1000 2) [(0, 7, 10), (1, 8, 3), (2, 7, 11)])))
    = Replay"
proof -
  let ?msgs = "[(0, 7, 10), (1, 8, 3), (2, 7, 11)] :: sequence_msg list"
  let ?run = "run_sequences (SequenceValidator_new 1000 2) ?msgs"
  have "accepted_sequences 7 ?msgs (fst ?run) = [10, 11]" by code_simp
  then show ?thesis
    using recent_replay_rejected [of 2 1000 ?msgs "fst ?run" "snd ?run" _ 7 10 5] by simp
qed

section \<open>What it lets through\<close>

definition in_order_messages :: "instant \<Rightarrow> u32 \<Rightarrow> u32 \<Rightarrow> nat \<Rightarrow> sequence_msg list" where
  "in_order_messages t c s k = map (\<lambda>i. (t, c, s + of_nat i)) [0..<k]"

lemma sequence_add_inject:
  assumes "unat (s :: u32) + k < 2 ^ 32" "i \<le> k"
  shows "unat (s + of_nat i) = unat s + i"
  using assms by (simp add: unat_word_ariths unat_of_nat)

lemma sequence_validate_next:
  assumes "hm_get (sqv_channels v) c = Some st" "sq_seen_window st \<noteq> []"
    "s \<notin> set (sq_seen_window st)" "s = sq_highest_seen st + 1"
  shows "sequence_validate t c s v = (Valid, v\<lparr>sqv_channels := hm_insert c
    (st\<lparr>sq_last_update := t, sq_highest_seen := s,
       sq_seen_window := add_to_window (sq_seen_window st) s (sqv_window_size v)\<rparr>) (sqv_channels v)\<rparr>)"
  using assms by (simp add: sequence_validate_def check_sequence_def hm_get_or_def Let_def)

lemma in_order_state:
  assumes "0 < w" "unat s + k < 2 ^ 32"
  shows "fst (run_sequences (SequenceValidator_new g w) (in_order_messages t c s (Suc k))) = replicate (Suc k) Valid
    \<and> (\<exists>st. hm_get (sqv_channels (snd (run_sequences (SequenceValidator_new g w) (in_order_messages t c s (Suc k))))) c
          = Some st \<and> sq_highest_seen st = s + of_nat k
        \<and> sq_seen_window st = drop (Suc k - w) (map (\<lambda>i. s + of_nat i) [0..<Suc k]))
    \<and> sqv_window_size (snd (run_sequences (SequenceValidator_new g w) (in_order_messages t c s (Suc k)))) = w"
  using assms(2)
proof (induction k)
  case 0
  then show ?case using assms(1)
    by (simp add: in_order_messages_def sequence_validate_def check_sequence_def SequenceValidator_new_def
        SequenceState_new_def hm_get_or_def split_beta Let_def)
next
  case (Suc k)
  let ?v = "snd (run_sequences (SequenceValidator_new g w) (in_order_messages t c s (Suc k)))"
  obtain st where st: "hm_get (sqv_channels ?v) c = Some st" "sq_highest_seen st = s + of_nat k"
    "sq_seen_window st = drop (Suc k - w) (map (\<lambda>i. s + of_nat i) [0..<Suc k])" "sqv_window_size ?v = w"
    using Suc by auto
  have msgs: "in_order_messages t c s (Suc (Suc k)) = in_order_messages t c s (Suc k) @ [(t, c, s + of_nat (Suc k))]"
    by (simp add: in_order_messages_def)
  have new: "s + of_nat (Suc k) \<notin> set (sq_seen_window st)"
  proof
    assume "s + of_nat (Suc k) \<in> set (sq_seen_window st)"
    then have "s + of_nat (Suc k) \<in> (\<lambda>i. s + of_nat i) ` {0..<Suc k}"
      using st(3) set_drop_subset by fastforce
    then obtain i where "i < Suc k" "unat (s + of_nat (Suc k)) = unat (s + of_nat i)" by auto
    then show False
      using Suc.prems sequence_add_inject [of s "Suc k" i] sequence_add_inject [of s "Suc k" "Suc k"]
      by (simp del: of_nat_Suc)
  qed
  have ne: "sq_seen_window st \<noteq> []" using st(3) assms(1) by (simp add: not_le)
  have "s + of_nat (Suc k) = sq_highest_seen st + 1" by (simp add: st(2))
  note step = sequence_validate_next [OF st(1) ne new this, of t]
  have "map (\<lambda>i. s + of_nat i) [0..<Suc (Suc k)] = map (\<lambda>i. s + of_nat i) [0..<Suc k] @ [s + of_nat (Suc k)]"
    by (simp only: upt_Suc_append [of 0 "Suc k"] map_append) simp
  then have "add_to_window (sq_seen_window st) (s + of_nat (Suc k)) w =
      drop (Suc (Suc k) - w) (map (\<lambda>i. s + of_nat i) [0..<Suc (Suc k)])"
    using add_to_window_drop [of "map (\<lambda>i. s + of_nat i) [0..<Suc k]" w "s + of_nat (Suc k)"]
    by (simp only: st(3) length_map length_upt diff_zero)
  with step Suc st(4) show ?case
    unfolding msgs run_all_append by (simp add: replicate_append_same del: of_nat_Suc)
qed

text \<open>The same from any state of the validator, as long as the answers are \<open>Valid\<close>.\<close>

lemma sequence_validate_Valid:
  assumes "fst (sequence_validate t c s v) = Valid" and "0 < sqv_window_size v"
  defines "v' \<equiv> snd (sequence_validate t c s v)"
  shows "sqv_window_size v' = sqv_window_size v \<and> (\<exists>st. hm_get (sqv_channels v') c = Some st \<and> sq_highest_seen st = s
    \<and> sq_seen_window st = add_to_window (case hm_get (sqv_channels v) c of None \<Rightarrow> [] | Some old \<Rightarrow> sq_seen_window old)
         s (sqv_window_size v))"
proof -
  have "add_to_window [] s (sqv_window_size v) = [s]" using assms(2) by (simp add: add_to_window_def)
  then show ?thesis
    using assms(1) unfolding v'_def
    by (cases "hm_get (sqv_channels v) c")
      (auto simp: sequence_validate_def check_sequence_def hm_get_or_def SequenceState_new_def Let_def split_beta split: if_splits)
qed

lemma in_order_valid_state:
  assumes "0 < sqv_window_size v0" and "fst (run_sequences v0 (in_order_messages t c s (Suc k))) = replicate (Suc k) Valid"
  shows "\<exists>st u. hm_get (sqv_channels (snd (run_sequences v0 (in_order_messages t c s (Suc k))))) c = Some st
    \<and> sq_highest_seen st = s + of_nat k
    \<and> sq_seen_window st = drop (length u + Suc k - sqv_window_size v0) (u @ map (\<lambda>i. s + of_nat i) [0..<Suc k])
    \<and> sqv_window_size (snd (run_sequences v0 (in_order_messages t c s (Suc k)))) = sqv_window_size v0"
  using assms(2)
proof (induction k)
  case 0
  then have "fst (sequence_validate t c s v0) = Valid" by (simp add: in_order_messages_def split_beta Let_def)
  from sequence_validate_Valid [OF this assms(1)] obtain st u where
    "hm_get (sqv_channels (snd (sequence_validate t c s v0))) c = Some st" "sq_highest_seen st = s"
    "sqv_window_size (snd (sequence_validate t c s v0)) = sqv_window_size v0"
    "sq_seen_window st = add_to_window u s (sqv_window_size v0)" by blast
  then show ?case
    by (intro exI [of _ st] exI [of _ u]) (simp add: in_order_messages_def add_to_window_def split_beta Let_def)
next
  case (Suc k)
  let ?run = "run_sequences v0 (in_order_messages t c s (Suc k))" and ?x = "s + of_nat (Suc k)"
  let ?xs = "map (\<lambda>i. s + of_nat i) [0..<Suc k]" and ?w = "sqv_window_size v0"
  have msgs: "in_order_messages t c s (Suc (Suc k)) = in_order_messages t c s (Suc k) @ [(t, c, ?x)]"
    by (simp add: in_order_messages_def)
  have len: "length (fst ?run) = Suc k" by (simp add: in_order_messages_def)
  have fst: "fst ?run @ [fst (sequence_validate t c ?x (snd ?run))] = replicate (Suc (Suc k)) Valid"
    using Suc.prems unfolding msgs run_all_append by (simp add: split_beta Let_def del: of_nat_Suc)
  then have "fst ?run = replicate (Suc k) Valid" and valid: "fst (sequence_validate t c ?x (snd ?run)) = Valid"
    unfolding replicate_Suc [of "Suc k"] replicate_append_same [symmetric] by simp_all
  then obtain st u where st: "hm_get (sqv_channels (snd ?run)) c = Some st"
    "sq_seen_window st = drop (length u + Suc k - ?w) (u @ ?xs)" "sqv_window_size (snd ?run) = ?w"
    using Suc.IH by blast
  have "0 < sqv_window_size (snd ?run)" using assms(1) st(3) by simp
  from sequence_validate_Valid [OF valid this] obtain st' where st':
    "hm_get (sqv_channels (snd (sequence_validate t c ?x (snd ?run)))) c = Some st'" "sq_highest_seen st' = ?x"
    "sqv_window_size (snd (sequence_validate t c ?x (snd ?run))) = ?w"
    "sq_seen_window st' = add_to_window (sq_seen_window st) ?x ?w"
    unfolding st(1,3) option.case by blast
  have "map (\<lambda>i. s + of_nat i) [0..<Suc (Suc k)] = ?xs @ [?x]"
    by (simp only: upt_Suc_append [of 0 "Suc k"] map_append) simp
  then have "add_to_window (sq_seen_window st) ?x ?w =
      drop (length u + Suc (Suc k) - ?w) (u @ map (\<lambda>i. s + of_nat i) [0..<Suc (Suc k)])"
    using add_to_window_drop [of "u @ ?xs" ?w ?x]
    by (simp only: st(2) length_append length_map length_upt diff_zero append_assoc add_Suc_right)
  with st' show ?case
    unfolding msgs run_all_append by (intro exI [of _ st'] exI [of _ u]) (simp add: split_beta Let_def del: of_nat_Suc upt_Suc)
qed

text \<open>
  C40.  A replay at the edge of the window is accepted.  When \<open>window_size + 1\<close> consecutive sequence
  numbers of a channel have been answered \<open>Valid\<close>, from whatever state of the validator, the first of
  them is \<open>window_size\<close> behind the highest, which still counts as within the window, but it has just been
  pushed out of the list of seen numbers: sent again, it is answered \<open>ValidOutOfOrder\<close> and processed.
\<close>

theorem window_edge_replay_accepted:
  assumes "0 < sqv_window_size v0" "unat s + sqv_window_size v0 < 2 ^ 32 - 1"
    and "run_sequences v0 (in_order_messages t c s (Suc (sqv_window_size v0))) = (replicate (Suc (sqv_window_size v0)) Valid, v)"
  shows "fst (sequence_validate now c s v) = ValidOutOfOrder"
proof -
  let ?w = "sqv_window_size v0"
  have bound: "unat s + ?w < 2 ^ 32" using assms(2) by simp
  obtain st u where st: "hm_get (sqv_channels v) c = Some st" "sq_highest_seen st = s + of_nat ?w"
    "sq_seen_window st = drop (length u + Suc ?w - ?w) (u @ map (\<lambda>i. s + of_nat i) [0..<Suc ?w])" "sqv_window_size v = ?w"
    using in_order_valid_state [OF assms(1), of t c s ?w] assms(3) by auto
  have n: "unat (s + of_nat i) = unat s + i" if "i \<le> ?w" for i
    using sequence_add_inject [OF bound that] .
  have window: "sq_seen_window st = map (\<lambda>i. s + of_nat i) [1..<Suc ?w]" using st(3) by (simp add: drop_map)
  have "s \<notin> set (sq_seen_window st)"
  proof
    assume "s \<in> set (sq_seen_window st)"
    then obtain i where i: "i \<in> set [1..<Suc ?w]" "s = s + of_nat i" unfolding window set_map by blast
    from i(2) have "unat s = unat (s + of_nat i)" by (rule arg_cong)
    then show False using n [of i] i(1) by auto
  qed
  moreover have "sq_seen_window st \<noteq> []" using assms(1) by (simp add: window)
  moreover have "\<not> sq_highest_seen st < s" using n [of ?w] by (simp add: st(2) word_less_nat_alt)
  moreover have "s \<noteq> sq_highest_seen st + 1"
  proof
    assume "s = sq_highest_seen st + 1"
    then have "of_nat (Suc ?w) = (0 :: u32)" by (simp add: st(2) ac_simps)
    then have "unat (of_nat (Suc ?w) :: u32) = 0" by simp
    then have "Suc ?w mod 2 ^ 32 = 0" by (simp only: unat_of_nat) simp
    then show False using assms(2) by (simp add: mod_Suc split: if_splits)
  qed
  moreover have "sq_highest_seen st - s \<le> of_nat ?w" by (simp add: st(2))
  ultimately show ?thesis
    using st by (auto simp: sequence_validate_def check_sequence_def hm_get_or_def Let_def)
qed

theorem window_edge_replay_accepted_witness:
  "\<exists>v. run_sequences SequenceValidator_default (in_order_messages 0 7 1 129) = (replicate 129 Valid, v)
    \<and> fst (sequence_validate 5 7 1 v) = ValidOutOfOrder"
proof -
  have w: "sqv_window_size SequenceValidator_default = 128"
    by (simp add: SequenceValidator_default_def SequenceValidator_new_def)
  have all: "fst (run_sequences SequenceValidator_default (in_order_messages 0 7 1 129)) = replicate 129 Valid"
    using in_order_state [of 128 1 128 1000 0 7] by (simp add: SequenceValidator_default_def)
  then obtain v where v: "run_sequences SequenceValidator_default (in_order_messages 0 7 1 129) = (replicate 129 Valid, v)"
    by (metis prod.collapse)
  show ?thesis
    using window_edge_replay_accepted [of SequenceValidator_default 1 0 7 v 5] v w by simp
qed

end
