(* ===== verification/Pool_Config.thy ===== *)
theory Pool_Config
  imports Security
begin

text \<open>
  The configuration of the pool server and its validation, \<open>zcash-pool-server/src/config.rs\<close>.
  Paths are strings.
\<close>

datatype ValidationLevel = LevelMinimal | LevelStandard | LevelStrict

record PoolConfig =
  pc_listen_addr :: SocketAddr
  pc_zebra_url :: string
  pc_submit_zebra_url :: "string option"
  pc_template_poll_ms :: u64
  pc_validation_threads :: nat
  pc_nonce_1_len :: u8
  pc_initial_difficulty :: f64
  pc_target_shares_per_minute :: f64
  pc_max_connections :: nat
  pc_jd_listen_addr :: "SocketAddr option"
  pc_pool_payout_script :: "bytes option"
  pc_payout_state_path :: "string option"
  pc_noise_enabled :: bool
  pc_noise_private_key_path :: "string option"
  pc_jd_noise_enabled :: bool
  pc_jd_full_template_enabled :: bool
  pc_jd_full_template_validation :: ValidationLevel
  pc_jd_min_pool_payout :: u64
  pc_metrics_addr :: "SocketAddr option"
  pc_json_logging :: bool
  pc_otlp_endpoint :: "string option"
  pc_relay_enabled :: bool
  pc_relay_bind_addr :: "SocketAddr option"
  pc_relay_peers :: "SocketAddr list"
  pc_relay_auth_key :: "bytes option"
  pc_relay_data_shards :: nat
  pc_relay_parity_shards :: nat
  pc_sequence_validation_enabled :: bool
  pc_sequence_max_gap :: u32
  pc_connection_tracking_enabled :: bool
  pc_short_lived_threshold_secs :: u64
  pc_max_short_lived_per_window :: nat
  pc_timing_jitter_enabled :: bool
  pc_timing_jitter_min_ms :: u64
  pc_timing_jitter_max_ms :: u64
  pc_warn_plain_mode :: bool
  pc_control_addr :: "SocketAddr option"
  pc_control_auth_token :: "string option"
  pc_allow_non_loopback_bind :: bool
  pc_payout_settlement_retention :: duration
  pc_payout_archive_path :: "string option"

datatype ConfigError =
    InvalidNonce1Len u8
  | InvalidDifficulty f64
  | InvalidTargetSharesPerMinute f64
  | InvalidValidationThreads nat
  | InvalidTemplatePollMs u64
  | InvalidMaxConnections nat
  | RelayMissingAuthKey
  | InvalidFecConfig nat nat
  | JdMissingPayoutScript
  | JdFullTemplateUnsupported
  | InvalidTimingJitter u64 u64
  | InvalidFecShardTotal nat
  | InvalidPayoutStatePath
  | ControlAddrMissingToken
  | ControlAddrNonLoopbackBind SocketAddr

definition is_loopback :: "IpAddr \<Rightarrow> bool" where
  "is_loopback ip = (case ip of V4 a \<Rightarrow> drop_bit 24 a = 127 | V6 a \<Rightarrow> a = 1)"

text \<open>The messages of the errors; \<open>show_f64\<close> and \<open>show_addr\<close> are the standard formatting of a number and an
  address.\<close>

fun show_config_error :: "(f64 \<Rightarrow> string) \<Rightarrow> (SocketAddr \<Rightarrow> string) \<Rightarrow> ConfigError \<Rightarrow> string" where
  "show_config_error show_f64 show_addr (InvalidNonce1Len v) =
     ''nonce_1_len '' @ show_nat (unat v) @ '' must be 1-31''"
| "show_config_error show_f64 show_addr (InvalidDifficulty v) =
     ''initial_difficulty '' @ show_f64 v @ '' must be positive''"
| "show_config_error show_f64 show_addr (InvalidTargetSharesPerMinute v) =
     ''target_shares_per_minute '' @ show_f64 v @ '' must be positive''"
| "show_config_error show_f64 show_addr (InvalidValidationThreads v) =
     ''validation_threads '' @ show_nat v @ '' must be at least 1''"
| "show_config_error show_f64 show_addr (InvalidTemplatePollMs v) =
     ''template_poll_ms '' @ show_nat (unat v) @ '' must be at least 100''"
| "show_config_error show_f64 show_addr (InvalidMaxConnections v) =
     ''max_connections '' @ show_nat v @ '' must be at least 1''"
| "show_config_error show_f64 show_addr RelayMissingAuthKey = ''relay_enabled requires relay_auth_key''"
| "show_config_error show_f64 show_addr (InvalidFecConfig data parity) =
     ''FEC config invalid: data='' @ show_nat data @ '', parity='' @ show_nat parity @ '' (both must be >= 1)''"
| "show_config_error show_f64 show_addr JdMissingPayoutScript =
     ''jd_listen_addr requires a nonempty pool_payout_script''"
| "show_config_error show_f64 show_addr JdFullTemplateUnsupported =
     ''jd_full_template_enabled is unavailable until current-version consensus parsing, selected-fee payout '' @
     ''authorization and commitment validation are implemented''"
| "show_config_error show_f64 show_addr (InvalidTimingJitter min_ms max_ms) =
     ''timing_jitter_min_ms ('' @ show_nat (unat min_ms) @ '') must be <= timing_jitter_max_ms ('' @
     show_nat (unat max_ms) @ '')''"
| "show_config_error show_f64 show_addr (InvalidFecShardTotal n) =
     ''FEC shard total '' @ show_nat n @ '' exceeds Reed-Solomon maximum of 255''"
| "show_config_error show_f64 show_addr InvalidPayoutStatePath = ''payout_state_path must not be empty''"
| "show_config_error show_f64 show_addr ControlAddrMissingToken =
     ''control_addr set but control_auth_token is missing or empty''"
| "show_config_error show_f64 show_addr (ControlAddrNonLoopbackBind addr) =
     ''control_addr '' @ show_addr addr @ '' is not a loopback address: the control plane sends its bearer '' @
     ''token in cleartext over plain HTTP; keep it on loopback or front it with TLS, or set '' @
     ''allow_non_loopback_bind=true to override''"

definition config_validate :: "PoolConfig \<Rightarrow> ConfigError + unit" where
  "config_validate self =
     (if pc_nonce_1_len self = 0 \<or> pc_nonce_1_len self > 31
      then Inl (InvalidNonce1Len (pc_nonce_1_len self))
      else if f64_le (pc_initial_difficulty self) (Finite 0) \<or> \<not> is_finite (pc_initial_difficulty self)
      then Inl (InvalidDifficulty (pc_initial_difficulty self))
      else if f64_le (pc_target_shares_per_minute self) (Finite 0)
        \<or> \<not> is_finite (pc_target_shares_per_minute self)
      then Inl (InvalidTargetSharesPerMinute (pc_target_shares_per_minute self))
      else if pc_validation_threads self = 0
      then Inl (InvalidValidationThreads (pc_validation_threads self))
      else if pc_template_poll_ms self < 100 then Inl (InvalidTemplatePollMs (pc_template_poll_ms self))
      else if pc_max_connections self = 0 then Inl (InvalidMaxConnections (pc_max_connections self))
      else if pc_relay_enabled self \<and> pc_relay_auth_key self = None then Inl RelayMissingAuthKey
      else if pc_relay_enabled self \<and> (pc_relay_data_shards self = 0 \<or> pc_relay_parity_shards self = 0)
      then Inl (InvalidFecConfig (pc_relay_data_shards self) (pc_relay_parity_shards self))
      else if pc_jd_listen_addr self \<noteq> None
        \<and> (case pc_pool_payout_script self of None \<Rightarrow> True | Some script \<Rightarrow> script = [])
      then Inl JdMissingPayoutScript
      else if pc_jd_full_template_enabled self then Inl JdFullTemplateUnsupported
      else if (case pc_payout_state_path self of Some path \<Rightarrow> path = [] | None \<Rightarrow> False)
      then Inl InvalidPayoutStatePath
      else if pc_timing_jitter_enabled self \<and> pc_timing_jitter_min_ms self > pc_timing_jitter_max_ms self
      then Inl (InvalidTimingJitter (pc_timing_jitter_min_ms self) (pc_timing_jitter_max_ms self))
      else if pc_relay_enabled self \<and> (pc_relay_data_shards self + pc_relay_parity_shards self) mod 2 ^ 64 > 255
      then Inl (InvalidFecShardTotal ((pc_relay_data_shards self + pc_relay_parity_shards self) mod 2 ^ 64))
      else if pc_control_addr self \<noteq> None
        \<and> (case pc_control_auth_token self of Some t \<Rightarrow> t = [] | None \<Rightarrow> True)
      then Inl ControlAddrMissingToken
      else case pc_control_addr self of
          Some addr \<Rightarrow>
            if \<not> is_loopback (sa_ip addr) \<and> \<not> pc_allow_non_loopback_bind self
            then Inl (ControlAddrNonLoopbackBind addr) else Inr ()
        | None \<Rightarrow> Inr ())"

definition PoolConfig_default :: PoolConfig where
  "PoolConfig_default =
     \<lparr>pc_listen_addr = \<lparr>sa_ip = V4 0, sa_port = 3333\<rparr>, pc_zebra_url = ''http://127.0.0.1:8232'',
      pc_submit_zebra_url = None, pc_template_poll_ms = 1000, pc_validation_threads = 4,
      pc_nonce_1_len = 4, pc_initial_difficulty = Finite 1, pc_target_shares_per_minute = Finite 5,
      pc_max_connections = 10000, pc_jd_listen_addr = None, pc_pool_payout_script = None,
      pc_payout_state_path = Some ''payout-state.json'', pc_noise_enabled = False,
      pc_noise_private_key_path = None, pc_jd_noise_enabled = False, pc_jd_full_template_enabled = False,
      pc_jd_full_template_validation = LevelStandard, pc_jd_min_pool_payout = 0,
      pc_metrics_addr = Some \<lparr>sa_ip = V4 0x7f000001, sa_port = 9090\<rparr>, pc_json_logging = False,
      pc_otlp_endpoint = None, pc_relay_enabled = False,
      pc_relay_bind_addr = Some \<lparr>sa_ip = V4 0, sa_port = 8336\<rparr>, pc_relay_peers = [],
      pc_relay_auth_key = None, pc_relay_data_shards = 10, pc_relay_parity_shards = 3,
      pc_sequence_validation_enabled = True, pc_sequence_max_gap = 1000,
      pc_connection_tracking_enabled = True, pc_short_lived_threshold_secs = 5,
      pc_max_short_lived_per_window = 10, pc_timing_jitter_enabled = False,
      pc_timing_jitter_min_ms = 0, pc_timing_jitter_max_ms = 50, pc_warn_plain_mode = True,
      pc_control_addr = None, pc_control_auth_token = None, pc_allow_non_loopback_bind = False,
      pc_payout_settlement_retention = from_secs 86400, pc_payout_archive_path = None\<rparr>"

lemma config_validate_ok:
  assumes "config_validate c = Inr ()"
  shows "1 \<le> unat (pc_nonce_1_len c)" "unat (pc_nonce_1_len c) \<le> 31" "f64_pos (pc_initial_difficulty c)"
    "f64_pos (pc_target_shares_per_minute c)"
  using assms
  by (simp_all add: config_validate_def f64_pos_def word_le_nat_alt word_less_nat_alt Suc_le_eq unat_gt_0
      split: if_splits)

lemma config_validate_default: "config_validate PoolConfig_default = Inr ()"
  by (simp add: config_validate_def PoolConfig_default_def f64_le_def)

end
