(* ===== verification/Payout.thy ===== *)
theory Payout
  imports F64 Bytes "HOL-Library.List_Lexorder" "HOL-Library.Char_ord"
begin

text \<open>
  The payout tracker, \<open>zcash-pool-common/src/payout.rs\<close>.  The tracker is a record; each method is a
  function from the tracker to its result and the new tracker.  Clock readings are arguments:
  \<open>now\<close> of the monotonic clock, \<open>sys_now\<close> of the system clock in nanoseconds since the Unix
  epoch.  SHA-256 and the JSON library are arguments as well.  What the file system does is an
  argument that says which operation succeeds.  An I/O error is its kind; its text is left out.

  Settling and pruning act in a second critical section on what they read in a first one.  They are
  split there, so that other calls can be interleaved: settling into \<open>settle_read\<close> and
  \<open>settle_write\<close>, and pruning into \<open>prune_candidates\<close> and \<open>prune_commit\<close>.  Recording a share,
  cleanup and flushing also take their locks one after the other; each of them is one step here.
\<close>

section \<open>Bounded set of solutions\<close>

record BoundedSolutionSet =
  bs_seen :: "bytes set"
  bs_order :: "bytes list"
  bs_capacity :: nat

definition BoundedSolutionSet_new :: "nat \<Rightarrow> BoundedSolutionSet" where
  "BoundedSolutionSet_new capacity =
     \<lparr>bs_seen = {}, bs_order = [], bs_capacity = max capacity 1\<rparr>"

definition insert_if_new :: "BoundedSolutionSet \<Rightarrow> bytes \<Rightarrow> (bool \<times> BoundedSolutionSet) outcome" where
  "insert_if_new self key =
     (if key \<in> bs_seen self then Returns (False, self)
      else
        case (if card (bs_seen self) \<ge> bs_capacity self then
                (case bs_order self of
                   [] \<Rightarrow> Panics
                 | oldest # rest \<Rightarrow>
                     Returns (self\<lparr>bs_order := rest, bs_seen := bs_seen self - {oldest}\<rparr>))
              else Returns self) of
          Panics \<Rightarrow> Panics
        | Returns self \<Rightarrow>
            Returns (True, self\<lparr>bs_seen := insert key (bs_seen self), bs_order := bs_order self @ [key]\<rparr>))"

section \<open>Data\<close>

type_synonym MinerId = string

definition EPHEMERAL_MINER_PREFIX :: string where
  "EPHEMERAL_MINER_PREFIX = ''channel_''"

definition is_ephemeral_miner_id :: "MinerId \<Rightarrow> bool" where
  "is_ephemeral_miner_id miner_id =
     (take (length EPHEMERAL_MINER_PREFIX) miner_id = EPHEMERAL_MINER_PREFIX)"

record MinerStats =
  ms_total_shares :: u64
  ms_total_difficulty :: f64
  ms_window_shares :: u64
  ms_window_difficulty :: f64
  ms_last_share :: "instant option"

definition MinerStats_default :: MinerStats where
  "MinerStats_default =
     \<lparr>ms_total_shares = 0, ms_total_difficulty = Finite 0, ms_window_shares = 0,
      ms_window_difficulty = Finite 0, ms_last_share = None\<rparr>"

definition MAX_CROSS_PATH_SOLUTIONS :: nat where "MAX_CROSS_PATH_SOLUTIONS = 500000"
definition MAX_PERSISTED_WORKERS :: nat where "MAX_PERSISTED_WORKERS = 10000"
definition PAYOUT_STATE_VERSION :: u32 where "PAYOUT_STATE_VERSION = 2"

record PersistedMinerStats =
  pm_total_shares :: u64
  pm_total_difficulty :: f64
  pm_settled_total_shares :: u64
  pm_settled_total_difficulty :: f64
  pm_last_share_unix_ms :: "u64 option"
  pm_settled_at_unix_ms :: "u64 option"
  pm_settlement_ref :: "string option"

text \<open>A \<open>BTreeMap\<close> is the list of its entries in key order.\<close>

record PersistedPayoutState =
  pp_version :: u32
  pp_miners :: "(MinerId \<times> PersistedMinerStats) list"

record SettleOutcome =
  so_total_shares :: u64
  so_settled_total_shares :: u64

record SettlementState =
  se_settled_total_shares :: u64
  se_settled_total_difficulty :: f64
  se_last_share_unix_ms :: "u64 option"
  se_settled_at_unix_ms :: "u64 option"
  se_settlement_ref :: "string option"

definition SettlementState_default :: SettlementState where
  "SettlementState_default =
     \<lparr>se_settled_total_shares = 0, se_settled_total_difficulty = Finite 0,
      se_last_share_unix_ms = None, se_settled_at_unix_ms = None, se_settlement_ref = None\<rparr>"

record LoadedPayoutState =
  lp_miners :: "(MinerId, MinerStats) hash_map"
  lp_settlements :: "(MinerId, SettlementState) hash_map"

record SettlementArchiveRecord =
  ar_version :: u32
  ar_miner_id :: MinerId
  ar_total_shares :: u64
  ar_total_difficulty :: f64
  ar_settled_total_shares :: u64
  ar_settled_total_difficulty :: f64
  ar_last_share_unix_ms :: "u64 option"
  ar_settled_at_unix_ms :: u64
  ar_settlement_ref :: string
  ar_pruned_at_unix_ms :: u64

record PayoutTracker =
  pt_miners :: "(MinerId, MinerStats) hash_map"
  pt_settlements :: "(MinerId, SettlementState) hash_map"
  pt_window_duration :: duration
  pt_window_start :: "instant option"
  pt_seen_solutions :: BoundedSolutionSet
  pt_persistence :: "string option"
  pt_dirty :: bool

datatype io_error = InvalidData | InvalidInput | OtherIoError

type_synonym sha256_digest = "bytes \<Rightarrow> bytes"

section \<open>System time\<close>

definition unix_ms :: "int \<Rightarrow> u64" where
  "unix_ms time = (if time < 0 then 0 else of_nat (min (nat (time div 1000000)) (2 ^ 64 - 1)))"

definition unix_ms_cutoff :: "int \<Rightarrow> duration \<Rightarrow> u64" where
  "unix_ms_cutoff sys_now retention =
     (case instant_checked_sub sys_now retention of None \<Rightarrow> 0 | Some t \<Rightarrow> unix_ms t)"

section \<open>Recording shares\<close>

definition PayoutTracker_new :: "duration \<Rightarrow> PayoutTracker" where
  "PayoutTracker_new window_duration =
     \<lparr>pt_miners = [], pt_settlements = [], pt_window_duration = window_duration,
      pt_window_start = None,
      pt_seen_solutions = BoundedSolutionSet_new MAX_CROSS_PATH_SOLUTIONS,
      pt_persistence = None, pt_dirty = False\<rparr>"

definition PayoutTracker_default :: PayoutTracker where
  "PayoutTracker_default = PayoutTracker_new (from_secs 600)"

definition mark_dirty :: "PayoutTracker \<Rightarrow> PayoutTracker" where
  "mark_dirty self = (if pt_persistence self \<noteq> None then self\<lparr>pt_dirty := True\<rparr> else self)"

definition credit_share :: "instant \<Rightarrow> f64 \<Rightarrow> MinerStats \<Rightarrow> MinerStats" where
  "credit_share now difficulty stats =
     stats\<lparr>ms_total_shares := ms_total_shares stats + 1,
       ms_total_difficulty := f64_add (ms_total_difficulty stats) difficulty,
       ms_window_shares := ms_window_shares stats + 1,
       ms_window_difficulty := f64_add (ms_window_difficulty stats) difficulty,
       ms_last_share := Some now\<rparr>"

definition record_share ::
  "instant \<Rightarrow> int \<Rightarrow> PayoutTracker \<Rightarrow> MinerId \<Rightarrow> f64 \<Rightarrow> bool \<times> PayoutTracker" where
  "record_share now sys_now self miner_id difficulty =
     (if \<not> is_finite difficulty \<or> f64_le difficulty (Finite 0) then (False, self)
      else
        let self = (if pt_window_start self = None then self\<lparr>pt_window_start := Some now\<rparr> else self);
            stats = hm_get_or MinerStats_default (pt_miners self) miner_id;
            self = self\<lparr>pt_miners :=
              hm_insert miner_id (credit_share now difficulty stats) (pt_miners self)\<rparr>;
            self = (if pt_persistence self \<noteq> None then
                let settlement = hm_get_or SettlementState_default (pt_settlements self) miner_id in
                self\<lparr>pt_settlements := hm_insert miner_id
                  (settlement\<lparr>se_last_share_unix_ms := Some (unix_ms sys_now)\<rparr>) (pt_settlements self)\<rparr>
              else self)
        in (True, mark_dirty self))"

definition try_record_share_once ::
  "sha256_digest \<Rightarrow> instant \<Rightarrow> int \<Rightarrow> PayoutTracker \<Rightarrow> MinerId \<Rightarrow> f64 \<Rightarrow> bytes
    \<Rightarrow> (bool \<times> PayoutTracker) outcome" where
  "try_record_share_once sha256 now sys_now self miner_id difficulty solution =
     (if \<not> is_finite difficulty \<or> f64_le difficulty (Finite 0) then Returns (False, self)
      else
        case insert_if_new (pt_seen_solutions self) (sha256 solution) of
          Panics \<Rightarrow> Panics
        | Returns (is_new, seen) \<Rightarrow>
            let self = self\<lparr>pt_seen_solutions := seen\<rparr> in
            if is_new then
              let (_, self) = record_share now sys_now self miner_id difficulty in
              Returns (True, self)
            else Returns (False, self))"

definition clear_cross_path_solutions :: "PayoutTracker \<Rightarrow> PayoutTracker" where
  "clear_cross_path_solutions self =
     self\<lparr>pt_seen_solutions := BoundedSolutionSet_new MAX_CROSS_PATH_SOLUTIONS\<rparr>"

section \<open>Window and statistics\<close>

definition get_stats :: "PayoutTracker \<Rightarrow> MinerId \<Rightarrow> MinerStats option" where
  "get_stats self miner_id = hm_get (pt_miners self) miner_id"

definition clear_window :: "MinerStats \<Rightarrow> MinerStats" where
  "clear_window stats = stats\<lparr>ms_window_shares := 0, ms_window_difficulty := Finite 0\<rparr>"

definition reset_window :: "PayoutTracker \<Rightarrow> PayoutTracker" where
  "reset_window self =
     self\<lparr>pt_window_start := None, pt_miners := hm_map (\<lambda>_. clear_window) (pt_miners self)\<rparr>"

definition rotate_window_if_needed :: "instant \<Rightarrow> PayoutTracker \<Rightarrow> PayoutTracker" where
  "rotate_window_if_needed now self =
     (let should_reset = (case pt_window_start self of
            None \<Rightarrow> False
          | Some start \<Rightarrow> pt_window_duration self \<le> duration_since now start) in
      if should_reset then reset_window self else self)"

text \<open>The sum of an iterator of \<open>f64\<close> starts from negative zero.\<close>

definition f64_sum :: "f64 list \<Rightarrow> f64" where
  "f64_sum xs = foldl f64_add NegZero xs"

definition elapsed_secs :: "instant \<Rightarrow> PayoutTracker \<Rightarrow> instant \<Rightarrow> f64" where
  "elapsed_secs now self start =
     f64_max (as_secs_f64 (min (duration_since now start) (pt_window_duration self))) (Finite 1)"

definition estimate_pool_hashrate :: "instant \<Rightarrow> PayoutTracker \<Rightarrow> f64" where
  "estimate_pool_hashrate now self =
     (let total_difficulty = f64_sum (map (\<lambda>(_, s). ms_window_difficulty s) (pt_miners self)) in
      case pt_window_start self of
        None \<Rightarrow> Finite 0
      | Some start \<Rightarrow> f64_div total_difficulty (elapsed_secs now self start))"

definition estimate_hashrate_per_miner :: "instant \<Rightarrow> PayoutTracker \<Rightarrow> (MinerId, f64) hash_map" where
  "estimate_hashrate_per_miner now self =
     (case pt_window_start self of
        None \<Rightarrow> []
      | Some start \<Rightarrow>
          hm_map (\<lambda>_ stats. f64_div (ms_window_difficulty stats) (elapsed_secs now self start))
            (pt_miners self))"

definition active_miner_count :: "instant \<Rightarrow> PayoutTracker \<Rightarrow> nat" where
  "active_miner_count now self =
     (case instant_checked_sub now (pt_window_duration self) of
        None \<Rightarrow> length (filter (\<lambda>(_, s). ms_last_share s \<noteq> None) (pt_miners self))
      | Some cutoff \<Rightarrow>
          length (filter (\<lambda>(_, s). case ms_last_share s of None \<Rightarrow> False | Some t \<Rightarrow> cutoff < t)
            (pt_miners self)))"

definition named_worker_count :: "PayoutTracker \<Rightarrow> nat" where
  "named_worker_count self =
     length (filter (\<lambda>(miner_id, _). \<not> is_ephemeral_miner_id miner_id) (pt_miners self))"

definition knows_worker :: "PayoutTracker \<Rightarrow> MinerId \<Rightarrow> bool" where
  "knows_worker self worker = hm_contains (pt_miners self) worker"

definition settled_shares :: "PayoutTracker \<Rightarrow> MinerId \<Rightarrow> u64" where
  "settled_shares self miner_id =
     (case hm_get (pt_settlements self) miner_id of None \<Rightarrow> 0 | Some s \<Rightarrow> se_settled_total_shares s)"

fun durable_summary_loop :: "PayoutTracker \<Rightarrow> (MinerId \<times> MinerStats) list \<Rightarrow> nat \<Rightarrow> nat \<Rightarrow> nat \<times> nat" where
  "durable_summary_loop self [] named_total named_unsettled = (named_total, named_unsettled)"
| "durable_summary_loop self ((miner_id, stats) # rest) named_total named_unsettled =
     (if is_ephemeral_miner_id miner_id then durable_summary_loop self rest named_total named_unsettled
      else durable_summary_loop self rest (named_total + 1)
        (if settled_shares self miner_id < ms_total_shares stats then named_unsettled + 1
         else named_unsettled))"

definition durable_worker_summary :: "PayoutTracker \<Rightarrow> nat \<times> nat" where
  "durable_worker_summary self = durable_summary_loop self (pt_miners self) 0 0"

definition payout_rows ::
  "PayoutTracker \<Rightarrow> (MinerId \<times> u64 \<times> f64 \<times> u64 \<times> string option) list" where
  "payout_rows self =
     map (\<lambda>(miner_id, s). (miner_id, ms_total_shares s, ms_total_difficulty s, settled_shares self miner_id,
         Option.bind (hm_get (pt_settlements self) miner_id) se_settlement_ref)) (pt_miners self)"

definition remove_miner :: "PayoutTracker \<Rightarrow> MinerId \<Rightarrow> PayoutTracker" where
  "remove_miner self miner_id =
     mark_dirty (self\<lparr>pt_miners := hm_remove miner_id (pt_miners self),
       pt_settlements := hm_remove miner_id (pt_settlements self)\<rparr>)"

section \<open>Settlement\<close>

text \<open>The read lock: the worker's totals, nothing for unknown and ephemeral workers.\<close>

definition settle_read :: "PayoutTracker \<Rightarrow> MinerId \<Rightarrow> (u64 \<times> f64) option" where
  "settle_read self miner_id =
     (if is_ephemeral_miner_id miner_id then None
      else case hm_get (pt_miners self) miner_id of
          None \<Rightarrow> None
        | Some stats \<Rightarrow> Some (ms_total_shares stats, ms_total_difficulty stats))"

text \<open>The write lock on the settlements, with the totals that were read before.\<close>

definition settle_write ::
  "int \<Rightarrow> PayoutTracker \<Rightarrow> MinerId \<Rightarrow> u64 \<Rightarrow> string \<Rightarrow> u64 \<times> f64 \<Rightarrow> SettleOutcome \<times> PayoutTracker" where
  "settle_write sys_now self miner_id settled_total_shares settlement_ref current =
     (let (current_total, current_difficulty) = current;
          now_unix_ms = unix_ms sys_now;
          settlement = hm_get_or SettlementState_default (pt_settlements self) miner_id;
          clamped = min settled_total_shares current_total;
          new_watermark = max clamped (se_settled_total_shares settlement);
          settlement = settlement\<lparr>se_settled_total_shares := new_watermark,
            se_settled_total_difficulty := current_difficulty,
            se_last_share_unix_ms := (case se_last_share_unix_ms settlement of
                None \<Rightarrow> Some now_unix_ms | Some t \<Rightarrow> Some t),
            se_settled_at_unix_ms := Some now_unix_ms,
            se_settlement_ref := Some settlement_ref\<rparr>;
          self = self\<lparr>pt_settlements := hm_insert miner_id settlement (pt_settlements self)\<rparr>
      in (\<lparr>so_total_shares = current_total, so_settled_total_shares = new_watermark\<rparr>,
          mark_dirty self))"

definition mark_miner_settled ::
  "int \<Rightarrow> PayoutTracker \<Rightarrow> MinerId \<Rightarrow> u64 \<Rightarrow> string \<Rightarrow> SettleOutcome option \<times> PayoutTracker" where
  "mark_miner_settled sys_now self miner_id settled_total_shares settlement_ref =
     (case settle_read self miner_id of
        None \<Rightarrow> (None, self)
      | Some current \<Rightarrow>
          let (res, self) =
            settle_write sys_now self miner_id settled_total_shares settlement_ref current
          in (Some res, self))"

section \<open>Cleanup\<close>

definition is_stale :: "instant \<Rightarrow> MinerStats \<Rightarrow> bool" where
  "is_stale cutoff stats = (case ms_last_share stats of None \<Rightarrow> False | Some t \<Rightarrow> t \<le> cutoff)"

definition reset_stale :: "instant \<Rightarrow> MinerStats \<Rightarrow> MinerStats" where
  "reset_stale cutoff stats =
     (if is_stale cutoff stats then (clear_window stats)\<lparr>ms_last_share := None\<rparr> else stats)"

definition cleanup_persisted :: "instant \<Rightarrow> PayoutTracker \<Rightarrow> nat \<times> PayoutTracker" where
  "cleanup_persisted cutoff self =
     (let stale = length (filter (\<lambda>(_, stats). is_stale cutoff stats) (pt_miners self));
          self = self\<lparr>pt_miners := hm_map (\<lambda>_. reset_stale cutoff)
            (hm_retain (\<lambda>miner_id stats. \<not> (is_stale cutoff stats \<and> is_ephemeral_miner_id miner_id))
              (pt_miners self))\<rparr>;
          self = (if 0 < stale then
              mark_dirty (self\<lparr>pt_settlements :=
                hm_retain (\<lambda>miner_id _. \<not> is_ephemeral_miner_id miner_id) (pt_settlements self)\<rparr>)
            else self)
      in (stale, self))"

definition cleanup_volatile :: "instant \<Rightarrow> PayoutTracker \<Rightarrow> nat \<times> PayoutTracker" where
  "cleanup_volatile cutoff self =
     (let before = length (pt_miners self);
          miners = hm_retain (\<lambda>_ stats. case ms_last_share stats of None \<Rightarrow> False | Some t \<Rightarrow> cutoff < t)
            (pt_miners self);
          removed = before - length miners;
          self = self\<lparr>pt_miners := miners\<rparr>;
          self = (if 0 < removed then
              self\<lparr>pt_settlements := hm_retain (\<lambda>miner_id _. hm_contains miners miner_id) (pt_settlements self)\<rparr>
            else self)
      in (removed, self))"

definition cleanup_stale_miners :: "instant \<Rightarrow> PayoutTracker \<Rightarrow> duration \<Rightarrow> nat \<times> PayoutTracker" where
  "cleanup_stale_miners now self max_idle =
     (case instant_checked_sub now max_idle of
        None \<Rightarrow> (0, self)
      | Some cutoff \<Rightarrow>
          if pt_persistence self \<noteq> None then cleanup_persisted cutoff self
          else cleanup_volatile cutoff self)"

section \<open>Pruning\<close>

definition archive_record_if_prunable ::
  "MinerId \<Rightarrow> MinerStats \<Rightarrow> SettlementState \<Rightarrow> u64 \<Rightarrow> u64 \<Rightarrow> SettlementArchiveRecord option" where
  "archive_record_if_prunable miner_id stats settlement cutoff_unix_ms pruned_at_unix_ms =
     (if se_settled_total_shares settlement \<noteq> ms_total_shares stats then None
      else case se_last_share_unix_ms settlement of
          None \<Rightarrow> None
        | Some last_share_unix_ms \<Rightarrow>
            if cutoff_unix_ms < last_share_unix_ms then None
            else case se_settled_at_unix_ms settlement of
                None \<Rightarrow> None
              | Some settled_at_unix_ms \<Rightarrow>
                  if cutoff_unix_ms < settled_at_unix_ms then None
                  else case se_settlement_ref settlement of
                      None \<Rightarrow> None
                    | Some settlement_ref \<Rightarrow> Some
                        \<lparr>ar_version = PAYOUT_STATE_VERSION, ar_miner_id = miner_id,
                         ar_total_shares = ms_total_shares stats,
                         ar_total_difficulty = ms_total_difficulty stats,
                         ar_settled_total_shares = se_settled_total_shares settlement,
                         ar_settled_total_difficulty = se_settled_total_difficulty settlement,
                         ar_last_share_unix_ms = Some last_share_unix_ms,
                         ar_settled_at_unix_ms = settled_at_unix_ms,
                         ar_settlement_ref = settlement_ref,
                         ar_pruned_at_unix_ms = pruned_at_unix_ms\<rparr>)"

definition prunable ::
  "PayoutTracker \<Rightarrow> u64 \<Rightarrow> u64 \<Rightarrow> MinerId \<Rightarrow> MinerStats \<Rightarrow> SettlementArchiveRecord option" where
  "prunable self cutoff_unix_ms pruned_at_unix_ms miner_id stats =
     (case hm_get (pt_settlements self) miner_id of
        None \<Rightarrow> None
      | Some settlement \<Rightarrow>
          archive_record_if_prunable miner_id stats settlement cutoff_unix_ms pruned_at_unix_ms)"

definition prune_candidates :: "u64 \<Rightarrow> u64 \<Rightarrow> PayoutTracker \<Rightarrow> SettlementArchiveRecord list" where
  "prune_candidates cutoff_unix_ms pruned_at_unix_ms self =
     List.map_filter (\<lambda>(miner_id, stats).
       prunable self cutoff_unix_ms pruned_at_unix_ms miner_id stats) (pt_miners self)"

definition still_prunable :: "u64 \<Rightarrow> u64 \<Rightarrow> PayoutTracker \<Rightarrow> SettlementArchiveRecord \<Rightarrow> bool" where
  "still_prunable cutoff_unix_ms pruned_at_unix_ms self record =
     (case Option.bind (hm_get (pt_miners self) (ar_miner_id record))
             (prunable self cutoff_unix_ms pruned_at_unix_ms (ar_miner_id record)) of
        None \<Rightarrow> False
      | Some candidate \<Rightarrow>
          ar_total_shares candidate = ar_total_shares record
          \<and> f64_eq (ar_total_difficulty candidate) (ar_total_difficulty record)
          \<and> ar_settlement_ref candidate = ar_settlement_ref record)"

text \<open>
  What happens to the archive file: creating its directory and opening it, writing each record with
  its newline, and the final sync.  A failed write leaves the records before it in the file.
\<close>

record archive_io =
  ai_open :: "io_error + unit"
  ai_write :: "SettlementArchiveRecord \<Rightarrow> io_error + unit"
  ai_sync :: "io_error + unit"

fun append_loop ::
  "archive_io \<Rightarrow> SettlementArchiveRecord list \<Rightarrow> SettlementArchiveRecord list
    \<Rightarrow> (io_error + unit) \<times> SettlementArchiveRecord list" where
  "append_loop io [] file = (ai_sync io, file)"
| "append_loop io (record # records) file =
     (case ai_write io record of
        Inl e \<Rightarrow> (Inl e, file)
      | Inr _ \<Rightarrow> append_loop io records (file @ [record]))"

definition append_settlement_archive ::
  "archive_io \<Rightarrow> SettlementArchiveRecord list \<Rightarrow> SettlementArchiveRecord list
    \<Rightarrow> (io_error + unit) \<times> SettlementArchiveRecord list" where
  "append_settlement_archive io records file =
     (if records = [] then (Inr (), file)
      else case ai_open io of
          Inl e \<Rightarrow> (Inl e, file)
        | Inr _ \<Rightarrow> append_loop io records file)"

definition remove_record :: "SettlementArchiveRecord \<Rightarrow> PayoutTracker \<Rightarrow> PayoutTracker" where
  "remove_record record self =
     self\<lparr>pt_miners := hm_remove (ar_miner_id record) (pt_miners self),
       pt_settlements := hm_remove (ar_miner_id record) (pt_settlements self)\<rparr>"

definition prune_commit ::
  "archive_io \<Rightarrow> u64 \<Rightarrow> u64 \<Rightarrow> SettlementArchiveRecord list \<Rightarrow> PayoutTracker
    \<Rightarrow> SettlementArchiveRecord list \<Rightarrow> (io_error + nat) \<times> PayoutTracker \<times> SettlementArchiveRecord list" where
  "prune_commit io cutoff_unix_ms pruned_at_unix_ms records self file =
     (let confirmed = filter (still_prunable cutoff_unix_ms pruned_at_unix_ms self) records in
      if confirmed = [] then (Inr 0, self, file)
      else case append_settlement_archive io confirmed file of
          (Inl e, file) \<Rightarrow> (Inl e, self, file)
        | (Inr _, file) \<Rightarrow>
            let self = fold remove_record confirmed self;
                removed = length confirmed;
                self = (if 0 < removed then mark_dirty self else self)
            in (Inr removed, self, file))"

definition prune_settled_miners ::
  "archive_io \<Rightarrow> int \<Rightarrow> int \<Rightarrow> PayoutTracker \<Rightarrow> duration \<Rightarrow> SettlementArchiveRecord list
    \<Rightarrow> (io_error + nat) \<times> PayoutTracker \<times> SettlementArchiveRecord list" where
  "prune_settled_miners io sys_now sys_now' self retention file =
     (let cutoff_unix_ms = unix_ms_cutoff sys_now retention;
          pruned_at_unix_ms = unix_ms sys_now';
          records = prune_candidates cutoff_unix_ms pruned_at_unix_ms self in
      if records = [] then (Inr 0, self, file)
      else prune_commit io cutoff_unix_ms pruned_at_unix_ms records self file)"

section \<open>Persistence\<close>

definition persisted_stats :: "(MinerId, SettlementState) hash_map \<Rightarrow> MinerId \<times> MinerStats
    \<Rightarrow> MinerId \<times> PersistedMinerStats" where
  "persisted_stats settlements = (\<lambda>(miner_id, stats).
     let settlement = hm_get_or SettlementState_default settlements miner_id in
     (miner_id,
      \<lparr>pm_total_shares = ms_total_shares stats, pm_total_difficulty = ms_total_difficulty stats,
       pm_settled_total_shares = se_settled_total_shares settlement,
       pm_settled_total_difficulty = se_settled_total_difficulty settlement,
       pm_last_share_unix_ms = se_last_share_unix_ms settlement,
       pm_settled_at_unix_ms = se_settled_at_unix_ms settlement,
       pm_settlement_ref = se_settlement_ref settlement\<rparr>))"

definition persisted_state ::
  "(MinerId, MinerStats) hash_map \<Rightarrow> (MinerId, SettlementState) hash_map \<Rightarrow> PersistedPayoutState" where
  "persisted_state miners settlements =
     \<lparr>pp_version = PAYOUT_STATE_VERSION,
      pp_miners = sort_key fst (map (persisted_stats settlements) miners)\<rparr>"

type_synonym to_json = "PersistedPayoutState \<Rightarrow> unit + bytes"
type_synonym from_json = "bytes \<Rightarrow> unit + PersistedPayoutState"

definition serialize_state ::
  "to_json \<Rightarrow> (MinerId, MinerStats) hash_map \<Rightarrow> (MinerId, SettlementState) hash_map
    \<Rightarrow> io_error + bytes" where
  "serialize_state to_vec_pretty miners settlements =
     map_err (\<lambda>_. InvalidData) (to_vec_pretty (persisted_state miners settlements))"

text \<open>
  \<open>flush\<close>: the result, the tracker, and the bytes that replaced the state file if any did.  The
  argument \<open>atomic_write\<close> says whether replacing the file by the given bytes succeeds.
\<close>

definition flush ::
  "to_json \<Rightarrow> (bytes \<Rightarrow> io_error + unit) \<Rightarrow> PayoutTracker
    \<Rightarrow> (io_error + unit) \<times> PayoutTracker \<times> bytes option" where
  "flush to_vec_pretty atomic_write self =
     (if pt_persistence self = None then (Inr (), self, None)
      else if \<not> pt_dirty self then (Inr (), self\<lparr>pt_dirty := False\<rparr>, None)
      else
        let self = self\<lparr>pt_dirty := False\<rparr> in
        case serialize_state to_vec_pretty (pt_miners self) (pt_settlements self) of
          Inl err \<Rightarrow> (Inl err, self\<lparr>pt_dirty := True\<rparr>, None)
        | Inr json \<Rightarrow>
            (case atomic_write json of
               Inl err \<Rightarrow> (Inl err, self\<lparr>pt_dirty := True\<rparr>, None)
             | Inr _ \<Rightarrow> (Inr (), self, Some json)))"

fun load_miners ::
  "(MinerId \<times> PersistedMinerStats) list \<Rightarrow> LoadedPayoutState \<Rightarrow> io_error + LoadedPayoutState" where
  "load_miners [] loaded = Inr loaded"
| "load_miners ((miner_id, stats) # rest) loaded =
     (if \<not> is_finite (pm_total_difficulty stats) \<or> f64_lt (pm_total_difficulty stats) (Finite 0)
      then Inl InvalidData
      else if \<not> is_finite (pm_settled_total_difficulty stats)
          \<or> f64_lt (pm_settled_total_difficulty stats) (Finite 0)
      then Inl InvalidData
      else load_miners rest
        \<lparr>lp_miners = hm_insert miner_id
           \<lparr>ms_total_shares = pm_total_shares stats, ms_total_difficulty = pm_total_difficulty stats,
            ms_window_shares = 0, ms_window_difficulty = Finite 0, ms_last_share = None\<rparr>
           (lp_miners loaded),
         lp_settlements = hm_insert miner_id
           \<lparr>se_settled_total_shares = pm_settled_total_shares stats,
            se_settled_total_difficulty = pm_settled_total_difficulty stats,
            se_last_share_unix_ms = pm_last_share_unix_ms stats,
            se_settled_at_unix_ms = pm_settled_at_unix_ms stats,
            se_settlement_ref = pm_settlement_ref stats\<rparr>
           (lp_settlements loaded)\<rparr>)"

definition parse_persisted_state :: "from_json \<Rightarrow> bytes \<Rightarrow> io_error + LoadedPayoutState" where
  "parse_persisted_state from_str json =
     bindR (map_err (\<lambda>_. InvalidData) (from_str json)) (\<lambda>persisted.
       if pp_version persisted \<noteq> PAYOUT_STATE_VERSION then Inl InvalidData
       else load_miners (pp_miners persisted) \<lparr>lp_miners = [], lp_settlements = []\<rparr>)"

text \<open>\<open>str::trim\<close> leaves nothing: the text is the UTF-8 encoding of white space only.\<close>

fun trims_to_empty :: "bytes \<Rightarrow> bool" where
  "trims_to_empty [] = True"
| "trims_to_empty (a # rest) =
     (if a = 0x20 \<or> (0x09 \<le> a \<and> a \<le> 0x0d) then trims_to_empty rest
      else case rest of
          b # rest2 \<Rightarrow>
            if a = 0xc2 \<and> (b = 0x85 \<or> b = 0xa0) then trims_to_empty rest2
            else (case rest2 of
                c # rest3 \<Rightarrow>
                  if (a = 0xe1 \<and> b = 0x9a \<and> c = 0x80)
                    \<or> (a = 0xe2 \<and> b = 0x80 \<and> ((0x80 \<le> c \<and> c \<le> 0x8a) \<or> c = 0xa8 \<or> c = 0xa9 \<or> c = 0xaf))
                    \<or> (a = 0xe2 \<and> b = 0x81 \<and> c = 0x9f)
                    \<or> (a = 0xe3 \<and> b = 0x80 \<and> c = 0x80)
                  then trims_to_empty rest3 else False
              | [] \<Rightarrow> False)
        | [] \<Rightarrow> False)"

text \<open>
  Loading the state file: \<open>None\<close> when it does not exist, otherwise the result of reading it as a
  string.  The flag says that the file was unusable and moved aside.
\<close>

definition load_persisted_state ::
  "from_json \<Rightarrow> (io_error + bytes) option \<Rightarrow> io_error + (LoadedPayoutState \<times> bool)" where
  "load_persisted_state from_str contents =
     (let empty = \<lparr>lp_miners = [], lp_settlements = []\<rparr> in
      case contents of
        None \<Rightarrow> Inr (empty, False)
      | Some read_to_string \<Rightarrow>
          bindR read_to_string (\<lambda>json.
            if trims_to_empty json then Inr (empty, False)
            else case parse_persisted_state from_str json of
                Inr state \<Rightarrow> Inr (state, False)
              | Inl err \<Rightarrow> Inr (empty, True)))"

definition with_persistence ::
  "from_json \<Rightarrow> (io_error + bytes) option \<Rightarrow> duration \<Rightarrow> string \<Rightarrow> io_error + PayoutTracker" where
  "with_persistence from_str contents window_duration path =
     bindR (load_persisted_state from_str contents) (\<lambda>(loaded, _). Inr
       \<lparr>pt_miners = lp_miners loaded, pt_settlements = lp_settlements loaded,
        pt_window_duration = window_duration, pt_window_start = None,
        pt_seen_solutions = BoundedSolutionSet_new MAX_CROSS_PATH_SOLUTIONS,
        pt_persistence = Some path, pt_dirty = False\<rparr>)"

end
