(* ===== verification/Payout_Credit.thy ===== *)
theory Payout_Credit
  imports Payout Once_Set
begin

text \<open>
  What recording shares does to the totals of a payout tracker: the cross-path filter credits a
  solution once, every accepted submission adds exactly one share to its miner, and the totals
  stay non-negative numbers.
\<close>

section \<open>The bounded set\<close>

definition bs_inv :: "BoundedSolutionSet \<Rightarrow> bool" where
  "bs_inv s \<longleftrightarrow> bs_seen s = set (bs_order s) \<and> distinct (bs_order s)
     \<and> length (bs_order s) \<le> bs_capacity s \<and> 1 \<le> bs_capacity s"

definition bs_room :: "BoundedSolutionSet \<Rightarrow> nat" where
  "bs_room s = bs_capacity s - length (bs_order s)"

lemma bs_inv_new [simp]: "bs_inv (BoundedSolutionSet_new n)"
  by (simp add: bs_inv_def BoundedSolutionSet_new_def)

lemma bs_room_new [simp]: "bs_room (BoundedSolutionSet_new n) = max n 1"
  by (simp add: bs_room_def BoundedSolutionSet_new_def)

text \<open>The set answers whether the key is new, and at capacity it drops the oldest key.\<close>

definition bs_insert_spec :: "BoundedSolutionSet \<Rightarrow> bytes \<Rightarrow> bool \<times> BoundedSolutionSet" where
  "bs_insert_spec s key =
     (if key \<in> set (bs_order s) then (False, s)
      else let order = (if length (bs_order s) = bs_capacity s then tl (bs_order s) else bs_order s) @ [key]
        in (True, s\<lparr>bs_seen := set order, bs_order := order\<rparr>))"

lemma insert_if_new_eq: "bs_inv s \<Longrightarrow> insert_if_new s key = Returns (bs_insert_spec s key)"
  by (cases "bs_order s")
    (auto simp: insert_if_new_def bs_insert_spec_def bs_inv_def Let_def distinct_card insert_commute)

lemma bs_insert_spec_inv: "bs_inv s \<Longrightarrow> bs_inv (snd (bs_insert_spec s key))"
  by (cases "bs_order s") (auto simp: bs_insert_spec_def bs_inv_def Let_def)

text \<open>
  The cross-path filter never panics and is a first-in first-out set of bounded size.  From a
  state in which the set and the queue hold the same keys, an insertion answers whether the key is
  absent; an absent key is appended, at capacity the oldest key leaves; set and queue again hold the
  same keys without repetition, at most as many as the capacity.
\<close>

theorem insert_if_new_fifo:
  assumes "bs_inv s"
  shows "\<exists>s'. insert_if_new s key = Returns (key \<notin> set (bs_order s), s')
    \<and> bs_order s' = (if key \<in> set (bs_order s) then bs_order s
        else (if length (bs_order s) = bs_capacity s then tl (bs_order s) else bs_order s) @ [key])
    \<and> bs_seen s' = set (bs_order s') \<and> distinct (bs_order s')
    \<and> length (bs_order s') \<le> bs_capacity s' \<and> bs_capacity s' = bs_capacity s"
  using insert_if_new_eq [OF assms, of key] bs_insert_spec_inv [OF assms, of key] assms
  by (auto simp: bs_insert_spec_def bs_inv_def Let_def split: if_splits)

theorem insert_if_new_fifo_witness:
  "\<exists>s'. insert_if_new \<lparr>bs_seen = {[1], [2]}, bs_order = [[1], [2]], bs_capacity = 2\<rparr> [3] = Returns (True, s')
    \<and> bs_order s' = [[2], [3]]"
  using insert_if_new_fifo [of "\<lparr>bs_seen = {[1], [2]}, bs_order = [[1], [2]], bs_capacity = 2\<rparr>" "[3]"]
  by (auto simp: bs_inv_def)

section \<open>Recording shares\<close>

definition shares_of :: "PayoutTracker \<Rightarrow> MinerId \<Rightarrow> u64" where
  "shares_of t m = (case hm_get (pt_miners t) m of None \<Rightarrow> 0 | Some s \<Rightarrow> ms_total_shares s)"

lemma shares_of_or: "ms_total_shares (hm_get_or MinerStats_default (pt_miners t) m) = shares_of t m"
  by (simp add: shares_of_def hm_get_or_def MinerStats_default_def split: option.split)

lemma mark_dirty_simps [simp]:
  "pt_miners (mark_dirty t) = pt_miners t" "pt_settlements (mark_dirty t) = pt_settlements t"
  "pt_seen_solutions (mark_dirty t) = pt_seen_solutions t"
  "pt_persistence (mark_dirty t) = pt_persistence t"
  "pt_window_start (mark_dirty t) = pt_window_start t"
  by (simp_all add: mark_dirty_def)

lemma record_share_fields:
  fixes now sys_now
  defines "r \<equiv> \<lambda>t m d. snd (record_share now sys_now t m d)"
  shows "pt_seen_solutions (r t m d) = pt_seen_solutions t"
    and "pt_persistence (r t m d) = pt_persistence t"
    and "f64_pos d \<Longrightarrow> pt_miners (r t m d) =
      hm_insert m (credit_share now d (hm_get_or MinerStats_default (pt_miners t) m)) (pt_miners t)"
    and "\<not> f64_pos d \<Longrightarrow> r t m d = t"
    and "fst (record_share now sys_now t m d) = f64_pos d"
  by (auto simp: r_def record_share_def Let_def f64_pos_def)

lemma shares_of_record_share:
  "shares_of (snd (record_share now sys_now t m d)) m' =
     shares_of t m' + (if m' = m \<and> f64_pos d then 1 else 0)"
  using record_share_fields(3,4) [of d now sys_now t m] shares_of_or [of t m]
  by (cases "f64_pos d") (auto simp: shares_of_def credit_share_def)

section \<open>Submissions from both paths\<close>

text \<open>A submission: the clock readings, the miner, the difficulty and the solution.\<close>

record submission =
  sub_now :: instant
  sub_sys_now :: int
  sub_miner :: MinerId
  sub_difficulty :: f64
  sub_solution :: bytes

definition submit_once ::
  "sha256_digest \<Rightarrow> PayoutTracker \<Rightarrow> submission \<Rightarrow> (bool \<times> PayoutTracker) outcome" where
  "submit_once sha256 t s = try_record_share_once sha256 (sub_now s) (sub_sys_now s) t (sub_miner s)
     (sub_difficulty s) (sub_solution s)"

definition submit_result ::
  "sha256_digest \<Rightarrow> PayoutTracker \<Rightarrow> submission \<Rightarrow> bool \<times> PayoutTracker" where
  "submit_result sha256 t s = (case submit_once sha256 t s of Panics \<Rightarrow> (False, t) | Returns r \<Rightarrow> r)"

lemma submit_once_eq:
  assumes "bs_inv (pt_seen_solutions t)"
  shows "submit_once sha256 t s = Returns
    (if \<not> f64_pos (sub_difficulty s) then (False, t)
     else let (is_new, seen) = bs_insert_spec (pt_seen_solutions t) (sha256 (sub_solution s));
              t' = t\<lparr>pt_seen_solutions := seen\<rparr>
       in if is_new then (True, snd (record_share (sub_now s) (sub_sys_now s) t' (sub_miner s) (sub_difficulty s)))
          else (False, t'))"
  using assms
  by (simp add: submit_once_def try_record_share_once_def insert_if_new_eq f64_pos_def split_beta Let_def)

lemma submit_result_eq:
  assumes "bs_inv (pt_seen_solutions t)"
  shows "submit_once sha256 t s = Returns (submit_result sha256 t s)"
  by (simp add: submit_result_def submit_once_eq [OF assms])

interpretation cross_path: once_set
  "\<lambda>t. bs_inv (pt_seen_solutions t)" "\<lambda>t. set (bs_order (pt_seen_solutions t))"
  "\<lambda>t. bs_room (pt_seen_solutions t)" "submit_result sha256"
  "\<lambda>s. sha256 (sub_solution s)" "\<lambda>s. f64_pos (sub_difficulty s)" for sha256
proof (unfold_locales, goal_cases)
  case (1 t s)
  then show ?case
    by (simp add: submit_result_def submit_once_eq bs_insert_spec_def Let_def)
next
  case (2 t s)
  then show ?case
    by (auto simp: submit_result_def submit_once_eq bs_insert_spec_def Let_def bs_room_def
        record_share_fields)
next
  case (3 t s)
  then show ?case
    using bs_insert_spec_inv [OF 3, of "sha256 (sub_solution s)"]
    by (auto simp: submit_result_def submit_once_eq split_beta Let_def record_share_fields)
next
  case (4 t s)
  then show ?case
    by (auto simp: submit_result_def submit_once_eq bs_insert_spec_def Let_def bs_room_def bs_inv_def
        record_share_fields)
qed

fun submit_all ::
  "sha256_digest \<Rightarrow> PayoutTracker \<Rightarrow> submission list \<Rightarrow> (bool list \<times> PayoutTracker) outcome" where
  "submit_all sha256 t [] = Returns ([], t)"
| "submit_all sha256 t (s # ss) =
     (case submit_once sha256 t s of
        Panics \<Rightarrow> Panics
      | Returns (b, t') \<Rightarrow>
          (case submit_all sha256 t' ss of
             Panics \<Rightarrow> Panics
           | Returns (bs, t'') \<Rightarrow> Returns (b # bs, t'')))"

lemma submit_all_eq:
  "bs_inv (pt_seen_solutions t) \<Longrightarrow>
    submit_all sha256 t ss = Returns (run_all (submit_result sha256) t ss)"
proof (induction ss arbitrary: t)
  case (Cons s ss)
  then show ?case
    using submit_result_eq [OF Cons.prems, of sha256 s] cross_path.ins_inv [OF Cons.prems, of sha256 s]
    by (simp add: split_beta Let_def)
qed simp

lemma shares_of_submit_result:
  "bs_inv (pt_seen_solutions t) \<Longrightarrow>
    shares_of (snd (submit_result sha256 t s)) m =
      shares_of t m + (if fst (submit_result sha256 t s) \<and> sub_miner s = m then 1 else 0)"
proof -
  assume inv: "bs_inv (pt_seen_solutions t)"
  have seen: "shares_of (t\<lparr>pt_seen_solutions := x\<rparr>) m = shares_of t m" for x
    by (simp add: shares_of_def)
  show ?thesis
    unfolding submit_result_def submit_once_eq [OF inv]
    by (auto simp: split_beta Let_def shares_of_record_share seen)
qed

definition accepted_from :: "MinerId \<Rightarrow> bool list \<Rightarrow> submission list \<Rightarrow> nat" where
  "accepted_from m bs ss = length (filter (\<lambda>(b, s). b \<and> sub_miner s = m) (zip bs ss))"

lemma shares_of_run_all:
  "bs_inv (pt_seen_solutions t) \<Longrightarrow>
    shares_of (snd (run_all (submit_result sha256) t ss)) m =
      shares_of t m + of_nat (accepted_from m (fst (run_all (submit_result sha256) t ss)) ss)"
proof (induction ss arbitrary: t)
  case Nil
  then show ?case by (simp add: accepted_from_def)
next
  case (Cons s ss)
  then show ?case
    using shares_of_submit_result [OF Cons.prems, of sha256 s m]
      cross_path.ins_inv [OF Cons.prems, of sha256 s]
    by (simp add: split_beta Let_def accepted_from_def)
qed

lemma clear_inv [simp]: "bs_inv (pt_seen_solutions (clear_cross_path_solutions t))"
  by (simp add: clear_cross_path_solutions_def)

lemma shares_of_clear [simp]: "shares_of (clear_cross_path_solutions t) m = shares_of t m"
  by (simp add: clear_cross_path_solutions_def shares_of_def)

text \<open>
  C13.  Within a block epoch every solution is credited once, and credit equals acceptance.  After the
  filter has been cleared for a new block, any sequence of at most 500000 submissions, from whatever
  miners and paths, runs without a panic; a submission is accepted exactly when its difficulty is
  finite and positive and no earlier valid submission had a solution with the same digest; and every
  miner's share total has grown by exactly the number of their accepted submissions.
\<close>

theorem cross_path_credited_once:
  assumes "length ss \<le> MAX_CROSS_PATH_SOLUTIONS"
  shows "\<exists>bs t'. submit_all sha256 (clear_cross_path_solutions t) ss = Returns (bs, t')
    \<and> length bs = length ss
    \<and> (\<forall>i < length ss. bs ! i \<longleftrightarrow> f64_pos (sub_difficulty (ss ! i))
         \<and> (\<forall>j < i. f64_pos (sub_difficulty (ss ! j))
              \<longrightarrow> sha256 (sub_solution (ss ! j)) \<noteq> sha256 (sub_solution (ss ! i))))
    \<and> (\<forall>m. shares_of t' m = shares_of t m + of_nat (accepted_from m bs ss))"
proof -
  let ?t = "clear_cross_path_solutions t"
  have room: "length ss \<le> bs_room (pt_seen_solutions ?t)"
    using assms by (simp add: clear_cross_path_solutions_def)
  have order: "bs_order (pt_seen_solutions ?t) = []"
    by (simp add: clear_cross_path_solutions_def BoundedSolutionSet_new_def)
  obtain bs t' where r: "run_all (submit_result sha256) ?t ss = (bs, t')" by fastforce
  have "submit_all sha256 ?t ss = Returns (bs, t')" using submit_all_eq [OF clear_inv] r by simp
  moreover have "length bs = length ss" using length_run_all [of "submit_result sha256" ?t ss] r by simp
  moreover have "\<forall>i < length ss. bs ! i \<longleftrightarrow> f64_pos (sub_difficulty (ss ! i))
         \<and> (\<forall>j < i. f64_pos (sub_difficulty (ss ! j))
              \<longrightarrow> sha256 (sub_solution (ss ! j)) \<noteq> sha256 (sub_solution (ss ! i)))"
    using cross_path.run_all_first [OF clear_inv room, of _ sha256]
    unfolding r order fst_conv by simp
  moreover have "\<forall>m. shares_of t' m = shares_of t m + of_nat (accepted_from m bs ss)"
    using shares_of_run_all [OF clear_inv, of sha256 t ss] unfolding r by simp
  ultimately show ?thesis by (intro exI [of _ bs] exI [of _ t'] conjI)
qed

definition sample_submission :: "MinerId \<Rightarrow> submission" where
  "sample_submission m = \<lparr>sub_now = 0, sub_sys_now = 0, sub_miner = m, sub_difficulty = Finite 1,
     sub_solution = [1]\<rparr>"

theorem cross_path_credited_once_witness:
  "\<exists>bs t'. submit_all (\<lambda>x. x) (clear_cross_path_solutions (PayoutTracker_new 0))
      [sample_submission ''a'', sample_submission ''b''] = Returns (bs, t')
    \<and> bs ! 0 \<and> \<not> bs ! 1 \<and> shares_of t' ''a'' = 1 \<and> shares_of t' ''b'' = 0"
proof -
  let ?ss = "[sample_submission ''a'', sample_submission ''b'']"
  have "length ?ss \<le> MAX_CROSS_PATH_SOLUTIONS" by (simp add: MAX_CROSS_PATH_SOLUTIONS_def)
  from cross_path_credited_once [OF this, of "\<lambda>x. x" "PayoutTracker_new 0"] obtain bs t' where
    run: "submit_all (\<lambda>x. x) (clear_cross_path_solutions (PayoutTracker_new 0)) ?ss = Returns (bs, t')"
    and len: "length bs = 2"
    and acc: "bs ! 0" "\<not> bs ! 1"
    and shares: "\<forall>m. shares_of t' m = shares_of (PayoutTracker_new 0) m + of_nat (accepted_from m bs ?ss)"
    by (auto simp: sample_submission_def f64_pos_iff all_less_Suc_shift numeral_2_eq_2)
  from len acc obtain "bs = [True, False]" by (cases bs; cases "tl bs") auto
  with run acc shares show ?thesis
    by (auto simp: accepted_from_def sample_submission_def shares_of_def PayoutTracker_new_def)
qed

section \<open>Totals stay numbers\<close>

definition stats_inv :: "MinerStats \<Rightarrow> bool" where
  "stats_inv s \<longleftrightarrow> f64_nonneg (ms_total_difficulty s) \<and> f64_wf (ms_total_difficulty s)
     \<and> f64_nonneg (ms_window_difficulty s) \<and> f64_wf (ms_window_difficulty s)"

definition tracker_inv :: "PayoutTracker \<Rightarrow> bool" where
  "tracker_inv t \<longleftrightarrow> hm_wf (pt_miners t) \<and> hm_wf (pt_settlements t)
     \<and> (\<forall>m s. hm_get (pt_miners t) m = Some s \<longrightarrow> stats_inv s)
     \<and> bs_inv (pt_seen_solutions t)"

lemma stats_inv_default: "stats_inv MinerStats_default"
  by (simp add: stats_inv_def MinerStats_default_def)

lemma stats_inv_credit: "stats_inv s \<Longrightarrow> f64_pos d \<Longrightarrow> stats_inv (credit_share now d s)"
  by (simp add: stats_inv_def credit_share_def f64_add_nonneg f64_pos_nonneg)

lemma tracker_inv_new: "tracker_inv (PayoutTracker_new w)"
  by (simp add: tracker_inv_def PayoutTracker_new_def)

lemma record_share_settlements_wf:
  "hm_wf (pt_settlements t) \<Longrightarrow> hm_wf (pt_settlements (snd (record_share now sys_now t m d)))"
  by (simp add: record_share_def Let_def)

lemma record_share_inv:
  assumes "tracker_inv t"
  shows "tracker_inv (snd (record_share now sys_now t m d))"
proof (cases "f64_pos d")
  case True
  have "stats_inv (hm_get_or MinerStats_default (pt_miners t) m)"
    using assms
    by (auto simp: hm_get_or_def tracker_inv_def stats_inv_default split: option.split)
  then have "stats_inv (credit_share now d (hm_get_or MinerStats_default (pt_miners t) m))"
    using True by (rule stats_inv_credit)
  then show ?thesis
    using assms record_share_settlements_wf [of t now sys_now m d]
    unfolding tracker_inv_def record_share_fields(1) record_share_fields(3) [OF True]
    by simp
next
  case False
  with assms show ?thesis by (simp add: record_share_fields)
qed

text \<open>
  A share never lowers a miner's credited difficulty, never makes it a NaN or negative, and
  touches nobody else.  A share of invalid difficulty is refused and changes nothing.
\<close>

theorem record_share_monotone:
  assumes "tracker_inv t" "hm_get (pt_miners t) m = Some s"
    "record_share now sys_now t m d = (accepted, t')"
  shows "(\<exists>s'. hm_get (pt_miners t') m = Some s' \<and> f64_le (ms_total_difficulty s) (ms_total_difficulty s')
      \<and> f64_le (Finite 0) (ms_total_difficulty s'))
    \<and> (\<forall>m'. m' \<noteq> m \<longrightarrow> hm_get (pt_miners t') m' = hm_get (pt_miners t) m')
    \<and> (accepted \<longleftrightarrow> f64_pos d) \<and> (\<not> accepted \<longrightarrow> t' = t) \<and> tracker_inv t'"
proof -
  have t': "t' = snd (record_share now sys_now t m d)" and acc: "accepted = f64_pos d"
    using assms(3) record_share_fields(5) [of now sys_now t m d] by simp_all
  have s: "stats_inv s" using assms(1,2) by (auto simp: tracker_inv_def)
  show ?thesis
  proof (cases "f64_pos d")
    case True
    have "f64_le (ms_total_difficulty s) (f64_add (ms_total_difficulty s) d)"
      using s True by (intro f64_add_pos_ge) (simp_all add: stats_inv_def f64_nonneg_def)
    moreover have "f64_le (Finite 0) (f64_add (ms_total_difficulty s) d)"
      using s True by (intro f64_add_pos_nonneg) (simp_all add: stats_inv_def f64_nonneg_def)
    ultimately show ?thesis
      using True acc assms record_share_inv [OF assms(1)]
      by (simp add: t' record_share_fields hm_get_or_def credit_share_def)
  next
    case False
    with acc s assms(1,2) show ?thesis
      by (auto simp: t' record_share_fields stats_inv_def f64_nonneg_def intro: f64_nonneg_not_NaN)
  qed
qed

theorem record_share_monotone_witness:
  "\<exists>s'. hm_get (pt_miners (snd (record_share 0 0
       ((PayoutTracker_new 0)\<lparr>pt_miners := [(''a'', MinerStats_default)]\<rparr>) ''a'' (Finite 1)))) ''a'' = Some s'
     \<and> f64_le (Finite 0) (ms_total_difficulty s')"
proof -
  let ?t = "(PayoutTracker_new 0)\<lparr>pt_miners := [(''a'', MinerStats_default)]\<rparr>"
  have inv: "tracker_inv ?t"
    by (simp add: tracker_inv_def PayoutTracker_new_def hm_wf_def hm_get_def stats_inv_default)
  have get: "hm_get (pt_miners ?t) ''a'' = Some MinerStats_default" by (simp add: hm_get_def)
  obtain b t' where run: "record_share 0 0 ?t ''a'' (Finite 1) = (b, t')" by fastforce
  from record_share_monotone [OF inv get run] run show ?thesis by auto
qed

end
