(* ===== verification/Pool_Server.thy ===== *)
theory Pool_Server
  imports Share Pool_Config Payout_Credit
begin

text \<open>
  The pool server, \<open>zcash-pool-server/src/server.rs\<close>: connections, worker identities, templates and
  job broadcast, and the handling of a share from the sequence check to the payout and the block.
  Metrics and logging are left out; the sessions are the list of their channel ids; \<open>clk\<close> gives the
  successive readings of the clock within a handler.  Where the handler of a share releases its
  locks it is split into parts.
\<close>

section \<open>State\<close>

record PoolServer =
  ps_config :: PoolConfig
  ps_distributor :: JobDistributor
  ps_job_counter :: u32
  ps_channel_counter :: u32
  ps_detector :: InMemoryDuplicateDetector
  ps_payout :: PayoutTracker
  ps_worker_hashrate :: PayoutTracker
  ps_sessions :: "u32 list"
  ps_channels :: "(u32, Channel) hash_map"
  ps_accepted_identities :: "string set"
  ps_sequence_validator :: SequenceValidator
  ps_connection_tracker :: ConnectionTracker
  ps_connection_times :: "(u32, instant \<times> SocketAddr) hash_map"

section \<open>Worker identities\<close>

definition MAX_WORKER_IDENTITIES :: nat where
  "MAX_WORKER_IDENTITIES = MAX_PERSISTED_WORKERS"

datatype IdentityDecision = IdAccept | AlreadySet | CapReached | Reserved

definition apply_identity_policy ::
  "string set \<Rightarrow> string option \<Rightarrow> string \<Rightarrow> nat \<Rightarrow> IdentityDecision" where
  "apply_identity_policy accepted current name cap =
     (if is_ephemeral_miner_id name then Reserved
      else if current \<noteq> None then AlreadySet
      else if name \<notin> accepted \<and> card accepted \<ge> cap then CapReached
      else IdAccept)"

definition resolve_worker_label :: "string option \<Rightarrow> u32 \<Rightarrow> string" where
  "resolve_worker_label worker_identity channel_id =
     (case worker_identity of Some name \<Rightarrow> name | None \<Rightarrow> ''channel_'' @ show_nat (unat channel_id))"

definition handle_identity_declared :: "u32 \<Rightarrow> string \<Rightarrow> PoolServer \<Rightarrow> PoolServer" where
  "handle_identity_declared channel_id name self =
     (case hm_get (ps_channels self) channel_id of
        None \<Rightarrow> self
      | Some channel \<Rightarrow>
          (case apply_identity_policy (ps_accepted_identities self) (ch_worker_identity channel) name
               MAX_WORKER_IDENTITIES of
             IdAccept \<Rightarrow> self\<lparr>ps_accepted_identities := insert name (ps_accepted_identities self),
               ps_channels := hm_insert channel_id (channel\<lparr>ch_worker_identity := Some name\<rparr>)
                 (ps_channels self)\<rparr>
           | _ \<Rightarrow> self))"

section \<open>Connections\<close>

definition connection_vardiff :: "PoolConfig \<Rightarrow> VardiffConfig" where
  "connection_vardiff config = VardiffConfig_default
     \<lparr>vc_target_shares_per_minute := pc_target_shares_per_minute config,
      vc_initial_difficulty := pc_initial_difficulty config,
      vc_min_difficulty := pc_initial_difficulty config, vc_max_difficulty := Finite 1000000000000,
      vc_retarget_interval := from_secs 90, vc_variance_tolerance := Finite (1 / 4)\<rparr>"

text \<open>The initial job of a new channel: created, announced to the detector and added.\<close>

definition initial_job :: "instant \<Rightarrow> u32 \<Rightarrow> PoolServer \<Rightarrow> NewEquihashJob option \<times> PoolServer" where
  "initial_job now channel_id self =
     (if has_template (ps_distributor self) then
        case hm_get (ps_channels self) channel_id of
          None \<Rightarrow> (None, self)
        | Some channel \<Rightarrow>
            (case create_job_with_template (ps_job_counter self) (ps_distributor self) channel True of
               (None, _) \<Rightarrow> (None, self)
             | (Some (job, template), counter) \<Rightarrow>
                 (Some job, self\<lparr>ps_job_counter := counter,
                    ps_detector := im_start_job (ps_detector self) (nj_job_id job),
                    ps_channels := hm_insert channel_id (add_job now job template True channel)
                      (ps_channels self)\<rparr>))
      else (None, self))"

definition track_connection :: "instant \<Rightarrow> SocketAddr \<Rightarrow> PoolServer \<Rightarrow> instant \<times> PoolServer" where
  "track_connection now addr self =
     (if pc_connection_tracking_enabled (ps_config self)
      then let (connected_at, tracker) = on_connect now addr (ps_connection_tracker self) in
        (connected_at, self\<lparr>ps_connection_tracker := tracker\<rparr>)
      else (now, self))"

definition handle_new_connection ::
  "(nat \<Rightarrow> instant) \<Rightarrow> SocketAddr \<Rightarrow> PoolServer \<Rightarrow> ((PoolError + u32 \<times> NewEquihashJob option) \<times> PoolServer) outcome" where
  "handle_new_connection clk addr self =
     (let (connected_at, self) = track_connection (clk 0) addr self;
          (channel_id, counter) = next_id (ps_channel_counter self);
          self = self\<lparr>ps_channel_counter := counter\<rparr> in
      case generate_nonce_1 channel_id (pc_nonce_1_len (ps_config self)) of
        None \<Rightarrow> Returns (Inl (PoolInvalidMessage
          (''Invalid nonce_1_len: '' @ show_nat (unat (pc_nonce_1_len (ps_config self))))), self)
      | Some nonce_1 \<Rightarrow>
          (case new_with_id (clk 1) (clk 2) channel_id nonce_1 (connection_vardiff (ps_config self)) of
             Panics \<Rightarrow> Panics
           | Returns None \<Rightarrow> Returns (Inl (PoolInvalidMessage ''Failed to create channel''), self)
           | Returns (Some channel) \<Rightarrow>
               let self = self\<lparr>ps_sessions := channel_id # filter (\<lambda>i. i \<noteq> channel_id) (ps_sessions self),
                     ps_channels := hm_insert channel_id channel (ps_channels self),
                     ps_connection_times := hm_insert channel_id (connected_at, addr) (ps_connection_times self)\<rparr>;
                   (job, self) = initial_job (clk 3) channel_id self in
               Returns (Inr (channel_id, job), self)))"

text \<open>The end of a session: what the spawned task does when the session has run.\<close>

definition session_ended :: "instant \<Rightarrow> u32 \<Rightarrow> bool \<Rightarrow> PoolServer \<Rightarrow> PoolServer" where
  "session_ended now channel_id decryption_error self =
     (let conn_info = hm_get (ps_connection_times self) channel_id;
          self = self\<lparr>ps_connection_times := hm_remove channel_id (ps_connection_times self),
            ps_sessions := filter (\<lambda>i. i \<noteq> channel_id) (ps_sessions self),
            ps_channels := hm_remove channel_id (ps_channels self)\<rparr> in
      case conn_info of
        None \<Rightarrow> self
      | Some (connected_at, addr) \<Rightarrow>
          let self = (if pc_connection_tracking_enabled (ps_config self)
                then self\<lparr>ps_connection_tracker :=
                  snd (on_disconnect now addr connected_at decryption_error (ps_connection_tracker self))\<rparr>
                else self) in
          self\<lparr>ps_sequence_validator := remove_channel channel_id (ps_sequence_validator self)\<rparr>)"

section \<open>Templates and jobs\<close>

text \<open>The job of one session in a broadcast.\<close>

definition give_job ::
  "instant \<Rightarrow> bool \<Rightarrow> u32 \<Rightarrow> PoolServer \<Rightarrow> (u32 \<times> NewEquihashJob) list \<times> PoolServer" where
  "give_job now clean_jobs channel_id self =
     (case hm_get (ps_channels self) channel_id of
        None \<Rightarrow> ([], self)
      | Some channel \<Rightarrow>
          (case create_job_with_template (ps_job_counter self) (ps_distributor self) channel clean_jobs of
             (None, _) \<Rightarrow> ([], self)
           | (Some (job, template), counter) \<Rightarrow>
               ([(channel_id, job)], self\<lparr>ps_job_counter := counter,
                  ps_channels := hm_insert channel_id (add_job now job template clean_jobs channel)
                    (ps_channels self)\<rparr>)))"

fun give_jobs ::
  "(u32 \<Rightarrow> instant) \<Rightarrow> bool \<Rightarrow> u32 list \<Rightarrow> PoolServer \<Rightarrow> (u32 \<times> NewEquihashJob) list \<times> PoolServer" where
  "give_jobs now clean_jobs [] self = ([], self)"
| "give_jobs now clean_jobs (channel_id # ids) self =
     (let (js, self) = give_job (now channel_id) clean_jobs channel_id self;
          (jobs, self) = give_jobs now clean_jobs ids self in
      (js @ jobs, self))"

definition drop_session :: "u32 \<Rightarrow> PoolServer \<Rightarrow> PoolServer" where
  "drop_session channel_id self =
     self\<lparr>ps_sessions := filter (\<lambda>i. i \<noteq> channel_id) (ps_sessions self),
       ps_channels := hm_remove channel_id (ps_channels self)\<rparr>"

text \<open>\<open>sent\<close> says for which channel the queue takes the job; the others are dropped.\<close>

definition broadcast_jobs ::
  "(u32 \<Rightarrow> instant) \<Rightarrow> (u32 \<Rightarrow> bool) \<Rightarrow> bool \<Rightarrow> PoolServer \<Rightarrow> PoolServer" where
  "broadcast_jobs now sent clean_jobs self =
     (if \<not> has_template (ps_distributor self) then self
      else
        let (jobs, self) = give_jobs now clean_jobs (ps_sessions self) self;
            slow_or_closed = map (\<lambda>(_, job). nj_channel_id job) (filter (\<lambda>(c, _). \<not> sent c) jobs) in
        fold drop_session slow_or_closed self)"

text \<open>What the job declaration server gets of a template is in \<open>Cross_Credit\<close>.\<close>

definition handle_new_template ::
  "(u32 \<Rightarrow> instant) \<Rightarrow> (u32 \<Rightarrow> bool) \<Rightarrow> BlockTemplate \<Rightarrow> PoolServer \<Rightarrow> PoolServer" where
  "handle_new_template now sent template self =
     (let (is_new_block, distributor) = update_template template (ps_distributor self);
          self = broadcast_jobs now sent is_new_block (self\<lparr>ps_distributor := distributor\<rparr>) in
      if is_new_block then
        let active_job_ids = set (concat (map (\<lambda>(_, ch). tracked_job_ids ch) (ps_channels self))) in
        self\<lparr>ps_detector := im_prune_inactive (ps_detector self) active_job_ids,
          ps_payout := clear_cross_path_solutions (ps_payout self)\<rparr>
      else self)"

section \<open>Blocks\<close>

definition MAX_TIME_OFFSET :: u32 where "MAX_TIME_OFFSET = 7200"

fun decode_transactions :: "'h hex_crate \<Rightarrow> TemplateTransaction list \<Rightarrow> PoolError + bytes" where
  "decode_transactions hex [] = Inr []"
| "decode_transactions hex (tx # txs) =
     bindR (map_err (\<lambda>e. PoolTemplateProvider (''invalid tx data: '' @ hex_show_error hex e))
         (hex_decode hex (tt_data tx))) (\<lambda>tx_bytes.
     bindR (decode_transactions hex txs) (\<lambda>rest. Inr (tx_bytes @ rest)))"

definition build_block_bytes ::
  "'h hex_crate \<Rightarrow> NewEquihashJob \<Rightarrow> SubmitEquihashShare \<Rightarrow> BlockTemplate \<Rightarrow> (PoolError + bytes) outcome" where
  "build_block_bytes hex job share template =
     (if bt_coinbase template = [] then Returns (Inl (PoolTemplateProvider ''template coinbase is empty''))
      else if ss_time share > saturating_add (nj_time job) MAX_TIME_OFFSET
        \<or> ss_time share < saturating_sub (nj_time job) MAX_TIME_OFFSET
      then Returns (Inl (PoolInvalidMessage (''share time '' @ show_nat (unat (ss_time share))
        @ '' is too far from job time '' @ show_nat (unat (nj_time job)) @ '' (max offset: ''
        @ show_nat (unat MAX_TIME_OFFSET) @ ''s)'')))
      else case build_nonce job (ss_nonce_2 share) of
          Panics \<Rightarrow> Panics
        | Returns None \<Rightarrow> Returns (Inl (PoolInvalidMessage ''Invalid nonce_2 length''))
        | Returns (Some full_nonce) \<Rightarrow>
            let header = share_header job full_nonce (ss_time share);
                block = write_compact_size 1344 header @ ss_solution share;
                tx_count = 1 + of_nat (length (bt_transactions template));
                block = write_compact_size tx_count block @ bt_coinbase template in
            Returns (bindR (decode_transactions hex (bt_transactions template)) (\<lambda>txs. Inr (block @ txs))))"

datatype SubmitBlockResult = BlockAccepted | BlockRejected string | BlockDuplicate | BlockInconclusive

text \<open>\<open>submit_block\<close>: \<open>rpc proposal block\<close> is the node's answer.  The result lists the calls made.\<close>

definition submit_block ::
  "'h hex_crate \<Rightarrow> (bool \<Rightarrow> string \<Rightarrow> string + SubmitBlockResult) \<Rightarrow> NewEquihashJob \<Rightarrow> SubmitEquihashShare
    \<Rightarrow> BlockTemplate \<Rightarrow> ((PoolError + unit) \<times> (bool \<times> string) list) outcome" where
  "submit_block hex rpc job share template =
     (if eh_prev_hash (bt_header template) \<noteq> nj_prev_hash job
      then Returns (Inl (PoolTemplateProvider ''template prev_hash mismatch for solved job''), [])
      else case build_block_bytes hex job share template of
          Panics \<Rightarrow> Panics
        | Returns (Inl e) \<Rightarrow> Returns (Inl e, [])
        | Returns (Inr block_bytes) \<Rightarrow>
            let block_hex = hex_encode hex block_bytes in
            (case rpc True block_hex of
               Inr (BlockRejected reason) \<Rightarrow>
                 Returns (Inl (PoolTemplateProvider (''block proposal rejected: '' @ reason)), [(True, block_hex)])
             | Inl e \<Rightarrow>
                 Returns (Inl (PoolTemplateProvider (''block proposal RPC error: '' @ e)), [(True, block_hex)])
             | Inr _ \<Rightarrow>
                 (case rpc False block_hex of
                    Inl e \<Rightarrow> Returns (Inl (PoolTemplateProvider e), [(True, block_hex), (False, block_hex)])
                  | Inr _ \<Rightarrow> Returns (Inr (), [(True, block_hex), (False, block_hex)]))))"

text \<open>The header announced to the relay for a found block.\<close>

definition relay_header :: "NewEquihashJob \<Rightarrow> SubmitEquihashShare \<Rightarrow> bytes outcome" where
  "relay_header job share =
     (case build_nonce job (ss_nonce_2 share) of
        Panics \<Rightarrow> Panics
      | Returns None \<Rightarrow> Returns (build_header job (replicate 32 0))
      | Returns (Some nonce) \<Rightarrow> Returns (build_header job nonce))"

section \<open>Shares\<close>

text \<open>Up to the validation: refused with a reply, failed without one, or admitted with the job and
  the template snapshot.\<close>

datatype admission = Refused ShareResult | Failed PoolError | Admitted NewEquihashJob BlockTemplate

definition check_share_sequence ::
  "instant \<Rightarrow> u32 \<Rightarrow> SubmitEquihashShare \<Rightarrow> PoolServer \<Rightarrow> ShareResult option \<times> PoolServer" where
  "check_share_sequence now channel_id share self =
     (if pc_sequence_validation_enabled (ps_config self) then
        let (r, sv) = sequence_validate now channel_id (ss_sequence_number share) (ps_sequence_validator self);
            self = self\<lparr>ps_sequence_validator := sv\<rparr> in
        (case r of
           Valid \<Rightarrow> (None, self)
         | ValidOutOfOrder \<Rightarrow> (None, self)
         | Replay \<Rightarrow> (Some (Rejected Duplicate), self)
         | _ \<Rightarrow> (Some (Rejected (OtherReason ''invalid sequence'')), self))
      else (None, self))"

definition check_share_rate :: "instant \<Rightarrow> u32 \<Rightarrow> PoolServer \<Rightarrow> bool \<times> PoolServer" where
  "check_share_rate now channel_id self =
     (case hm_get (ps_channels self) channel_id of
        None \<Rightarrow> (True, self)
      | Some channel \<Rightarrow>
          let (ok, channel) = check_rate_limit now channel in
          (ok, self\<lparr>ps_channels := hm_insert channel_id channel (ps_channels self)\<rparr>))"

definition look_up_job :: "instant \<Rightarrow> u32 \<Rightarrow> SubmitEquihashShare \<Rightarrow> PoolServer \<Rightarrow> admission" where
  "look_up_job now channel_id share self =
     (case hm_get (ps_channels self) channel_id of
        None \<Rightarrow> Failed (PoolUnknownChannel channel_id)
      | Some channel \<Rightarrow>
          if \<not> is_job_active now channel (ss_job_id share) then Refused (Rejected StaleJob)
          else case get_job channel (ss_job_id share) of
              None \<Rightarrow> Failed (PoolUnknownJob (ss_job_id share))
            | Some channel_job \<Rightarrow> Admitted (cj_job channel_job) (cj_template channel_job))"

definition admit_submission ::
  "(nat \<Rightarrow> instant) \<Rightarrow> u32 \<Rightarrow> SubmitEquihashShare \<Rightarrow> PoolServer \<Rightarrow> admission \<times> PoolServer" where
  "admit_submission clk channel_id share self =
     (case check_share_sequence (clk 0) channel_id share self of
        (Some r, self) \<Rightarrow> (Refused r, self)
      | (None, self) \<Rightarrow>
          (case check_share_rate (clk 1) channel_id self of
             (False, self) \<Rightarrow> (Refused (Rejected (OtherReason ''rate limited'')), self)
           | (True, self) \<Rightarrow> (look_up_job (clk 2) channel_id share self, self)))"

text \<open>After an accepted validation, under the lock of the channels.\<close>

datatype crediting = StaleAfterValidation | CrossPathDup | Credited "bytes option"

definition credit_submission ::
  "sha256_digest \<Rightarrow> (nat \<Rightarrow> instant) \<Rightarrow> int \<Rightarrow> u32 \<Rightarrow> SubmitEquihashShare \<Rightarrow> f64 option \<Rightarrow> PoolServer
    \<Rightarrow> (crediting \<times> PoolServer) outcome" where
  "credit_submission sha256 clk sys_now channel_id share difficulty self =
     (case hm_get (ps_channels self) channel_id of
        None \<Rightarrow> Returns (StaleAfterValidation, self)
      | Some channel \<Rightarrow>
          if \<not> is_job_active (clk 3) channel (ss_job_id share) then Returns (StaleAfterValidation, self)
          else
            let miner_id = resolve_worker_label (ch_worker_identity channel) channel_id in
            case (case difficulty of
                    Some diff \<Rightarrow> try_record_share_once sha256 (clk 4) sys_now (ps_payout self) miner_id diff
                      (ss_solution share)
                  | None \<Rightarrow> Returns (True, ps_payout self)) of
              Panics \<Rightarrow> Panics
            | Returns (payout_credited, payout) \<Rightarrow>
                let self = self\<lparr>ps_payout := payout\<rparr> in
                if \<not> payout_credited then Returns (CrossPathDup, self)
                else
                  (case channel_record_share (clk 5) (clk 6) channel of
                     Panics \<Rightarrow> Panics
                   | Returns (channel, retarget) \<Rightarrow>
                       Returns (Credited (if retarget \<noteq> None then Some (channel_current_target channel) else None),
                         self\<lparr>ps_channels := hm_insert channel_id channel (ps_channels self)\<rparr>)))"

text \<open>What the handler does besides changing the server: the reply sent to the session, the error it
  returns, the target sent to the session, the block handed to \<open>submit_block\<close>.\<close>

record share_outcome =
  so_reply :: "ShareResult option"
  so_error :: "PoolError option"
  so_set_target :: "bytes option"
  so_block :: "(NewEquihashJob \<times> SubmitEquihashShare \<times> BlockTemplate) option"

definition replied :: "ShareResult \<Rightarrow> share_outcome" where
  "replied r = \<lparr>so_reply = Some r, so_error = None, so_set_target = None, so_block = None\<rparr>"

text \<open>\<open>alive\<close> says whether the session still waits for the reply; an early reply that cannot be sent is
  an error, the last one is not.\<close>

definition reply_early :: "bool \<Rightarrow> ShareResult \<Rightarrow> share_outcome" where
  "reply_early alive r = (if alive then replied r
     else \<lparr>so_reply = None, so_error = Some ChannelSend, so_set_target = None, so_block = None\<rparr>)"

definition final_outcome ::
  "bool \<Rightarrow> bool \<Rightarrow> ShareResult \<Rightarrow> bytes option \<Rightarrow> (NewEquihashJob \<times> SubmitEquihashShare \<times> BlockTemplate) option
    \<Rightarrow> share_outcome" where
  "final_outcome alive has_session r target block =
     \<lparr>so_reply = (if alive then Some r else None), so_error = None,
      so_set_target = (if has_session then target else None), so_block = block\<rparr>"

text \<open>The handler after an accepted validation.\<close>

definition finish_accepted ::
  "sha256_fn \<Rightarrow> (nat \<Rightarrow> instant) \<Rightarrow> int \<Rightarrow> bool \<Rightarrow> u32 \<Rightarrow> SubmitEquihashShare \<Rightarrow> NewEquihashJob \<Rightarrow> BlockTemplate
    \<Rightarrow> ShareValidationResult \<Rightarrow> PoolServer \<Rightarrow> (share_outcome \<times> PoolServer) outcome" where
  "finish_accepted sha256 clk sys_now alive channel_id share job template validation self =
     (let has_session = (channel_id \<in> set (ps_sessions self));
          block = (if sv_is_block validation then Some (job, share, template) else None) in
      case credit_submission sha256 clk sys_now channel_id share (sv_difficulty validation) self of
        Panics \<Rightarrow> Panics
      | Returns (StaleAfterValidation, self) \<Rightarrow>
          Returns (final_outcome alive has_session (Rejected StaleJob) None None, self)
      | Returns (CrossPathDup, self) \<Rightarrow>
          Returns (final_outcome alive has_session (Rejected Duplicate) None block, self)
      | Returns (Credited target, self) \<Rightarrow>
          let worker_label = (case hm_get (ps_channels self) channel_id of
                  Some c \<Rightarrow> resolve_worker_label (ch_worker_identity c) channel_id
                | None \<Rightarrow> ''channel_'' @ show_nat (unat channel_id));
              self = (case sv_difficulty validation of
                  Some diff \<Rightarrow> self\<lparr>ps_worker_hashrate :=
                    snd (record_share (clk 7) sys_now (ps_worker_hashrate self) worker_label diff)\<rparr>
                | None \<Rightarrow> self) in
          Returns (final_outcome alive has_session (sv_result validation) target block, self))"

definition handle_share_submission ::
  "equihash_fn \<Rightarrow> sha256_fn \<Rightarrow> (bytes \<Rightarrow> u64) \<Rightarrow> (nat \<Rightarrow> instant) \<Rightarrow> int \<Rightarrow> bool \<Rightarrow> u32 \<Rightarrow> SubmitEquihashShare
    \<Rightarrow> PoolServer \<Rightarrow> (share_outcome \<times> PoolServer) outcome" where
  "handle_share_submission vf sha256 siphash clk sys_now alive channel_id share self =
     (case admit_submission clk channel_id share self of
        (Refused r, self) \<Rightarrow> Returns (reply_early alive r, self)
      | (Failed e, self) \<Rightarrow>
          Returns (\<lparr>so_reply = None, so_error = Some e, so_set_target = None, so_block = None\<rparr>, self)
      | (Admitted job template, self) \<Rightarrow>
          (case validate_share_with_job vf sha256 (in_memory_detector siphash) (ps_detector self) share job
               (bt_target template) of
             Panics \<Rightarrow> Panics
           | Returns (result, detector) \<Rightarrow>
               let self = self\<lparr>ps_detector := detector\<rparr>; has_session = (channel_id \<in> set (ps_sessions self)) in
               (case result of
                  Inl e \<Rightarrow> Returns (final_outcome alive has_session (Rejected RejectInvalidSolution) None None, self)
                | Inr validation \<Rightarrow>
                    if \<not> sv_accepted validation
                    then Returns (final_outcome alive has_session (sv_result validation) None None, self)
                    else finish_accepted sha256 clk sys_now alive channel_id share job template validation self)))"

section \<open>Invariant\<close>

definition channels_wf :: "(u32, Channel) hash_map \<Rightarrow> bool" where
  "channels_wf m \<longleftrightarrow> hm_wf m \<and> (\<forall>c ch. hm_get m c = Some ch \<longrightarrow> channel_wf ch)"

definition server_wf :: "PoolServer \<Rightarrow> bool" where
  "server_wf s \<longleftrightarrow> channels_wf (ps_channels s) \<and> im_inv (ps_detector s)
     \<and> bs_inv (pt_seen_solutions (ps_payout s)) \<and> config_validate (ps_config s) = Inr ()
     \<and> pred_option template_wf (jd_current_template (ps_distributor s))"

lemma channels_wf_insert: "channels_wf m \<Longrightarrow> channel_wf ch \<Longrightarrow> channels_wf (hm_insert c ch m)"
  by (auto simp: channels_wf_def)

lemma channels_wf_get: "channels_wf m \<Longrightarrow> hm_get m c = Some ch \<Longrightarrow> channel_wf ch"
  by (simp add: channels_wf_def)

definition label_of :: "PoolServer \<Rightarrow> u32 \<Rightarrow> string" where
  "label_of s c = resolve_worker_label (case hm_get (ps_channels s) c of Some ch \<Rightarrow> ch_worker_identity ch | None \<Rightarrow> None) c"

text \<open>The checks before the validation touch neither the payouts nor the detector nor an identity.\<close>

definition admission_frame :: "PoolServer \<Rightarrow> PoolServer \<Rightarrow> bool" where
  "admission_frame s s' \<longleftrightarrow> ps_payout s' = ps_payout s \<and> ps_detector s' = ps_detector s
     \<and> (\<forall>c. label_of s' c = label_of s c) \<and> (server_wf s \<longrightarrow> server_wf s')"

lemma admission_frame_refl: "admission_frame s s"
  by (simp add: admission_frame_def)

lemma admission_frame_trans: "admission_frame a b \<Longrightarrow> admission_frame b c \<Longrightarrow> admission_frame a c"
  by (simp add: admission_frame_def)

lemma check_share_sequence_frame: "admission_frame s (snd (check_share_sequence now c share s))"
proof -
  have "admission_frame s (s\<lparr>ps_sequence_validator := v\<rparr>)" for v
    by (simp add: admission_frame_def label_of_def server_wf_def)
  then show ?thesis
    by (simp add: check_share_sequence_def split_beta Let_def admission_frame_refl
        split: SequenceCheckResult.split)
qed

lemma check_share_rate_frame: "admission_frame s (snd (check_share_rate now c s))"
proof (cases "hm_get (ps_channels s) c")
  case None
  then show ?thesis by (simp add: check_share_rate_def admission_frame_refl)
next
  case (Some ch)
  have "ch_worker_identity (snd (check_rate_limit now ch)) = ch_worker_identity ch"
    by (simp add: check_rate_limit_def split_beta Let_def)
  then show ?thesis using Some check_rate_limit_wf [of ch now]
    by (auto simp: check_share_rate_def split_beta Let_def admission_frame_def label_of_def server_wf_def
        channels_wf_insert channels_wf_get)
qed

lemma admit_submission_frame: "admission_frame s (snd (admit_submission clk c share s))"
proof -
  obtain r s1 where 1: "check_share_sequence (clk 0) c share s = (r, s1)" by fastforce
  obtain b s2 where 2: "check_share_rate (clk 1) c s1 = (b, s2)" by fastforce
  have "admission_frame s s1" using check_share_sequence_frame [of s "clk 0" c share] 1 by simp
  moreover have "admission_frame s1 s2" using check_share_rate_frame [of s1 "clk 1" c] 2 by simp
  ultimately show ?thesis
    by (auto simp: admit_submission_def 1 2 simp del: One_nat_def intro: admission_frame_trans
        split: option.split bool.split)
qed

lemma look_up_job_Admitted:
  assumes "look_up_job now c share s = Admitted job t" "server_wf s"
  shows "job_of_template t job \<and> nj_job_id job = ss_job_id share"
  using assms
  by (auto simp: look_up_job_def get_job_def server_wf_def channels_wf_def channel_wf_def jobs_wf_def
      split: option.splits if_splits)

lemma admit_submission_Admitted:
  assumes "admit_submission clk c share s = (Admitted job t, s')" "server_wf s"
  shows "job_of_template t job" "nj_job_id job = ss_job_id share"
proof -
  have "server_wf s'"
    using admit_submission_frame [of s clk c share] assms by (simp add: admission_frame_def)
  moreover have "look_up_job (clk 2) c share s' = Admitted job t"
    using assms(1) by (auto simp: admit_submission_def split: option.splits bool.splits prod.splits)
  ultimately show "job_of_template t job" "nj_job_id job = ss_job_id share"
    using look_up_job_Admitted by blast+
qed

lemma try_record_share_once_shares:
  assumes "bs_inv (pt_seen_solutions t)"
  obtains b t' where "try_record_share_once sha256 now sys_now t m d sol = Returns (b, t')"
    "bs_inv (pt_seen_solutions t')"
    "\<And>x. shares_of t' x = shares_of t x + (if b \<and> x = m then 1 else 0)"
proof -
  let ?sub = "\<lparr>sub_now = now, sub_sys_now = sys_now, sub_miner = m, sub_difficulty = d, sub_solution = sol\<rparr>"
  obtain b t' where r: "submit_result sha256 t ?sub = (b, t')" by fastforce
  have "try_record_share_once sha256 now sys_now t m d sol = Returns (b, t')"
    using submit_result_eq [OF assms, of sha256 ?sub] r by (simp add: submit_once_def)
  moreover have "bs_inv (pt_seen_solutions t')"
    using cross_path.ins_inv [OF assms, of sha256 ?sub] r by simp
  moreover have "shares_of t' x = shares_of t x + (if b \<and> x = m then 1 else 0)" for x
    using shares_of_submit_result [OF assms, of sha256 ?sub x] r by simp
  ultimately show ?thesis using that by blast
qed

definition still_active :: "instant \<Rightarrow> u32 \<Rightarrow> SubmitEquihashShare \<Rightarrow> PoolServer \<Rightarrow> bool" where
  "still_active now c share s \<longleftrightarrow>
     (\<exists>ch. hm_get (ps_channels s) c = Some ch \<and> is_job_active now ch (ss_job_id share))"

lemma credit_submission_shares:
  assumes "server_wf s"
  obtains r s' where "credit_submission sha256 clk sys_now c share (Some d) s = Returns (r, s')" "server_wf s'"
    "\<forall>m. shares_of (ps_payout s') m =
      shares_of (ps_payout s) m + (if (\<exists>t. r = Credited t) \<and> m = label_of s c then 1 else 0)"
    "r = StaleAfterValidation \<longleftrightarrow> \<not> still_active (clk 3) c share s"
proof (cases "\<exists>ch. hm_get (ps_channels s) c = Some ch \<and> is_job_active (clk 3) ch (ss_job_id share)")
  case False
  then have "credit_submission sha256 clk sys_now c share (Some d) s = Returns (StaleAfterValidation, s)"
    by (auto simp: credit_submission_def split: option.splits)
  then show ?thesis using that assms False by (fastforce simp: still_active_def)
next
  case True
  then have active: "still_active (clk 3) c share s" by (simp add: still_active_def)
  from True obtain ch where ch: "hm_get (ps_channels s) c = Some ch" "is_job_active (clk 3) ch (ss_job_id share)"
    by blast
  let ?m = "resolve_worker_label (ch_worker_identity ch) c"
  have inv: "bs_inv (pt_seen_solutions (ps_payout s))" using assms by (simp add: server_wf_def)
  obtain b t where b: "try_record_share_once sha256 (clk 4) sys_now (ps_payout s) ?m d (ss_solution share) = Returns (b, t)"
    "bs_inv (pt_seen_solutions t)" "\<And>x. shares_of t x = shares_of (ps_payout s) x + (if b \<and> x = ?m then 1 else 0)"
    using try_record_share_once_shares [OF inv] by metis
  have label: "label_of s c = ?m" using ch by (simp add: label_of_def)
  have "channel_wf ch" using assms ch(1) by (auto simp: server_wf_def dest: channels_wf_get)
  then obtain ch' r where ch': "channel_record_share (clk 5) (clk 6) ch = Returns (ch', r)" "channel_wf ch'"
    by (rule channel_record_share_wf)
  show ?thesis
  proof (cases b)
    case True
    then have "credit_submission sha256 clk sys_now c share (Some d) s =
        Returns (Credited (if r \<noteq> None then Some (channel_current_target ch') else None),
          s\<lparr>ps_payout := t, ps_channels := hm_insert c ch' (ps_channels s)\<rparr>)"
      using ch ch'(1) b(1) by (simp add: credit_submission_def Let_def)
    then show ?thesis using that b ch'(2) assms True label active
      by (auto simp: server_wf_def channels_wf_insert)
  next
    case False
    then have "credit_submission sha256 clk sys_now c share (Some d) s = Returns (CrossPathDup, s\<lparr>ps_payout := t\<rparr>)"
      using ch b(1) by (simp add: credit_submission_def Let_def)
    then show ?thesis using that b assms False active by (auto simp: server_wf_def)
  qed
qed

text \<open>What the handler relies on of the validation.\<close>

definition validation_ok :: "sha256_fn \<Rightarrow> NewEquihashJob \<Rightarrow> SubmitEquihashShare \<Rightarrow> bytes \<Rightarrow> ShareValidationResult \<Rightarrow> bool" where
  "validation_ok sha256 job share block_target v \<longleftrightarrow>
     (sv_accepted v \<longleftrightarrow> sv_result v = Accepted)
     \<and> (sv_accepted v \<longrightarrow> (\<exists>d. sv_difficulty v = Some d) \<and> \<not> time_out_of_range share job
         \<and> length (ss_nonce_2 share) = unat (nj_nonce_2_len job)
         \<and> sv_is_block v = is_met_by block_target (share_hash sha256 job share))"

lemma validate_share_total:
  assumes "\<And>m. length (sha256 m) = 32" "job_wf job" "share_wf share" "im_inv d"
  obtains r d' where
    "validate_share_with_job vf sha256 (in_memory_detector siphash) d share job block_target = Returns (r, d')"
    "im_inv d'" "\<forall>v. r = Inr v \<longrightarrow> validation_ok sha256 job share block_target v"
proof -
  let ?p = "share_preflight vf sha256 (in_memory_detector siphash) d share job"
  obtain p where p: "?p = Returns p" by (simp add: share_preflight_eq [OF assms(1-3)])
  obtain r d' where r: "share_finish (in_memory_detector siphash) d share job block_target p = (r, d')" by fastforce
  have "im_inv d'"
    using share_finish_detector [OF r] in_memory.record_inv [OF assms(4)] assms(4) by metis
  moreover have "validation_ok sha256 job share block_target v" if "r = Inr v" for v
    using r p that
    by (auto simp: share_preflight_eq [OF assms(1-3)] share_finish_def validation_ok_def rejected_def
        split_beta Let_def split: if_splits)
  ultimately show ?thesis by (intro that) (auto simp: validate_share_with_job_def p r)
qed

lemma admit_submission_Refused: "admit_submission clk c share s = (Refused r, s') \<Longrightarrow> r \<noteq> Accepted"
  by (auto simp: admit_submission_def check_share_sequence_def look_up_job_def split_beta Let_def
      split: option.splits bool.splits prod.splits if_splits SequenceCheckResult.splits)

text \<open>After an accepted validation the handler answers, credits exactly what it reports as accepted and
  hands over nothing but the solved job with its template.\<close>

lemma finish_accepted_total:
  assumes "server_wf s" "validation_ok sha256 job share (bt_target t) v" "sv_accepted v"
  obtains o' s' where "finish_accepted sha256 clk sys_now alive c share job t v s = Returns (o', s')"
    "server_wf s'" "so_error o' = None" "so_reply o' = None \<longleftrightarrow> \<not> alive"
    "so_block o' = None \<or> sv_is_block v \<and> so_block o' = Some (job, share, t)"
    "sv_is_block v \<and> still_active (clk 3) c share s \<longrightarrow> so_block o' \<noteq> None"
    "alive \<longrightarrow> (\<forall>m. shares_of (ps_payout s') m = shares_of (ps_payout s) m +
      (if so_reply o' = Some Accepted \<and> m = label_of s c then 1 else 0))"
proof -
  let ?finish = "finish_accepted sha256 clk sys_now alive c share job t v s"
  let ?final = "final_outcome alive (c \<in> set (ps_sessions s))"
  let ?block = "if sv_is_block v then Some (job, share, t) else None"
  obtain d where d: "sv_difficulty v = Some d" "sv_result v = Accepted"
    using assms(2,3) by (auto simp: validation_ok_def)
  obtain k s3 where k: "credit_submission sha256 clk sys_now c share (Some d) s = Returns (k, s3)"
    "server_wf s3" "\<forall>m. shares_of (ps_payout s3) m =
      shares_of (ps_payout s) m + (if (\<exists>t. k = Credited t) \<and> m = label_of s c then 1 else 0)"
    "k = StaleAfterValidation \<longleftrightarrow> \<not> still_active (clk 3) c share s"
    by (rule credit_submission_shares [OF assms(1)])
  show ?thesis
  proof (cases k)
    case StaleAfterValidation
    then have "?finish = Returns (?final (Rejected StaleJob) None None, s3)"
      by (simp add: finish_accepted_def d k(1) Let_def)
    then show ?thesis
      by (rule that [OF _ k(2)]) (simp_all add: final_outcome_def k(3) k(4) [symmetric] StaleAfterValidation split: if_splits)
  next
    case CrossPathDup
    then have "?finish = Returns (?final (Rejected Duplicate) None ?block, s3)"
      by (simp add: finish_accepted_def d k(1) Let_def)
    then show ?thesis
      by (rule that [OF _ k(2)]) (simp_all add: final_outcome_def k(3) CrossPathDup split: if_splits)
  next
    case (Credited target)
    then obtain s4 where s4: "?finish = Returns (?final Accepted target ?block, s4)" "server_wf s4"
      "ps_payout s4 = ps_payout s3"
      using k(2) by (simp add: finish_accepted_def d k(1) Let_def server_wf_def)
    show ?thesis
      by (rule that [OF s4(1,2)]) (simp_all add: final_outcome_def k(3) Credited s4(3))
  qed
qed

text \<open>A block the server may submit: the share solves the job of the template, in time, and its hash
  meets the target of the template.\<close>

definition found_block :: "sha256_fn \<Rightarrow> NewEquihashJob \<Rightarrow> SubmitEquihashShare \<Rightarrow> BlockTemplate \<Rightarrow> bool" where
  "found_block sha256 job share t \<longleftrightarrow> job_of_template t job \<and> share_wf share \<and> \<not> time_out_of_range share job
     \<and> length (ss_nonce_2 share) = unat (nj_nonce_2_len job)
     \<and> le_to_nat (share_hash sha256 job share) \<le> le_to_nat (bt_target t)"

lemma validation_found_block:
  assumes "\<And>m. length (sha256 m) = 32" "job_of_template t job" "share_wf share"
    "validation_ok sha256 job share (bt_target t) v" "sv_accepted v" "sv_is_block v"
  shows "found_block sha256 job share t"
proof -
  have "length (bt_target t) = 32" using assms(2) by (simp add: job_of_template_def template_wf_def)
  then have "is_met_by (bt_target t) (share_hash sha256 job share) \<longleftrightarrow>
      le_to_nat (share_hash sha256 job share) \<le> le_to_nat (bt_target t)"
    using assms(1) by (simp add: is_met_by_iff share_hash_def)
  with assms show ?thesis by (simp add: validation_ok_def found_block_def)
qed

lemma handle_share_total:
  assumes sha: "\<And>m. length (sha256 m) = 32" and wf: "server_wf s" "share_wf share"
  obtains o' s' where "handle_share_submission vf sha256 siphash clk sys_now alive c share s = Returns (o', s')"
    "server_wf s'" "alive \<longrightarrow> (so_reply o' = None \<longleftrightarrow> so_error o' \<noteq> None)"
    "\<forall>job share' t. so_block o' = Some (job, share', t) \<longrightarrow> share' = share \<and> found_block sha256 job share t"
    "alive \<longrightarrow> (\<forall>m. shares_of (ps_payout s') m = shares_of (ps_payout s) m +
      (if so_reply o' = Some Accepted \<and> m = label_of s c then 1 else 0))"
proof -
  let ?handle = "handle_share_submission vf sha256 siphash clk sys_now alive c share s"
  obtain a s1 where a: "admit_submission clk c share s = (a, s1)" by fastforce
  have wf1: "server_wf s1" and pay1: "ps_payout s1 = ps_payout s" and label1: "label_of s1 c = label_of s c"
    using admit_submission_frame [of s clk c share] a wf(1) by (simp_all add: admission_frame_def)
  show ?thesis
  proof (cases a)
    case (Refused r)
    then have "?handle = Returns (reply_early alive r, s1)" by (simp add: handle_share_submission_def a)
    then show ?thesis
      by (rule that [OF _ wf1])
        (use a Refused admit_submission_Refused in \<open>auto simp: reply_early_def replied_def pay1 split: if_splits\<close>)
  next
    case (Failed e)
    then show ?thesis using a by (intro that [OF _ wf1]) (auto simp: handle_share_submission_def pay1)
  next
    case (Admitted job t)
    have job: "job_of_template t job" using admit_submission_Admitted a Admitted wf(1) by blast
    then have "job_wf job" by (simp add: job_of_template_def)
    moreover have "im_inv (ps_detector s1)" using wf1 by (simp add: server_wf_def)
    ultimately obtain r d' where r: "validate_share_with_job vf sha256 (in_memory_detector siphash) (ps_detector s1)
        share job (bt_target t) = Returns (r, d')" "im_inv d'"
      "\<forall>v. r = Inr v \<longrightarrow> validation_ok sha256 job share (bt_target t) v"
      by (rule validate_share_total [of sha256, OF sha _ wf(2)])
    define s2 where "s2 = s1\<lparr>ps_detector := d'\<rparr>"
    have wf2: "server_wf s2" and pay2: "ps_payout s2 = ps_payout s" and label2: "label_of s2 c = label_of s c"
      using wf1 r(2) pay1 label1 by (simp_all add: s2_def server_wf_def label_of_def)
    let ?final = "final_outcome alive (c \<in> set (ps_sessions s2))"
    have handle: "?handle =
        (case r of
           Inl e \<Rightarrow> Returns (?final (Rejected RejectInvalidSolution) None None, s2)
         | Inr v \<Rightarrow> if \<not> sv_accepted v then Returns (?final (sv_result v) None None, s2)
             else finish_accepted sha256 clk sys_now alive c share job t v s2)"
      by (simp add: handle_share_submission_def a Admitted r(1) s2_def Let_def split: sum.split)
    show ?thesis
    proof (cases "\<exists>v. r = Inr v \<and> sv_accepted v")
      case False
      then obtain x where "x \<noteq> Accepted" "?handle = Returns (?final x None None, s2)"
        using r(3) by (cases r) (auto simp: handle validation_ok_def)
      then show ?thesis by (intro that [OF _ wf2]) (auto simp: final_outcome_def pay2)
    next
      case True
      then obtain v where v: "r = Inr v" "sv_accepted v" by blast
      note ok = r(3) [rule_format, OF v(1)]
      obtain o' s' where f: "finish_accepted sha256 clk sys_now alive c share job t v s2 = Returns (o', s')"
        "server_wf s'" "so_error o' = None" "so_reply o' = None \<longleftrightarrow> \<not> alive"
        "so_block o' = None \<or> sv_is_block v \<and> so_block o' = Some (job, share, t)"
        "sv_is_block v \<and> still_active (clk 3) c share s2 \<longrightarrow> so_block o' \<noteq> None"
        "alive \<longrightarrow> (\<forall>m. shares_of (ps_payout s') m = shares_of (ps_payout s2) m +
          (if so_reply o' = Some Accepted \<and> m = label_of s2 c then 1 else 0))"
        by (rule finish_accepted_total [OF wf2 ok v(2)])
      have "?handle = Returns (o', s')" using handle v f(1) by simp
      then show ?thesis
        by (rule that [OF _ f(2)])
          (use f(3-7) pay2 label2 validation_found_block [OF sha job wf(2) ok v(2)] in auto)
    qed
  qed
qed

end
