(* ===== verification/Payout_Settlement.thy ===== *)
theory Payout_Settlement
  imports Payout_Credit
begin

text \<open>
  Settlement, cleanup and pruning of a payout tracker: the watermark of settled shares moves
  forward only and never past the credited shares, pruning removes fully settled entries only and
  archives exactly those, cleanup with persistence keeps what a named worker is owed.
\<close>

section \<open>Watermark\<close>

lemma settled_shares_or:
  "se_settled_total_shares (hm_get_or SettlementState_default (pt_settlements t) m) = settled_shares t m"
  by (simp add: settled_shares_def hm_get_or_def SettlementState_default_def split: option.split)

lemma settle_write_fields:
  defines "w \<equiv> \<lambda>sys t m n r cur. snd (settle_write sys t m n r cur)"
  shows "pt_miners (w sys t m n r cur) = pt_miners t"
    and "settled_shares (w sys t m n r cur) m' =
      (if m' = m then max (min n (fst cur)) (settled_shares t m) else settled_shares t m')"
    and "so_settled_total_shares (fst (settle_write sys t m n r cur)) =
      max (min n (fst cur)) (settled_shares t m)"
    and "pt_persistence (w sys t m n r cur) = pt_persistence t"
    and "pt_seen_solutions (w sys t m n r cur) = pt_seen_solutions t"
    and "hm_wf (pt_settlements t) \<Longrightarrow> hm_wf (pt_settlements (w sys t m n r cur))"
  by (auto simp: w_def settle_write_def Let_def split_beta settled_shares_or)
    (auto simp: settled_shares_def)

lemma settle_read_Some:
  "settle_read t m = Some cur \<Longrightarrow> fst cur = shares_of t m \<and> knows_worker t m \<and> \<not> is_ephemeral_miner_id m"
  by (auto simp: settle_read_def shares_of_def knows_worker_def hm_contains_def
      split: if_splits option.splits)

lemma settle_read_None: "settle_read t m = None \<longleftrightarrow> is_ephemeral_miner_id m \<or> \<not> knows_worker t m"
  by (auto simp: settle_read_def knows_worker_def hm_contains_def split: option.splits)

text \<open>
  C17.  Settling clamps and never moves backward.  A call for an ephemeral or unknown worker is refused
  and changes nothing.  Otherwise the worker's watermark becomes the larger of the old watermark and
  the requested one clamped to the credited shares, the answer reports it, the credited totals stay
  as they are, no other worker's watermark moves, and repeating the call leaves the watermark alone.
\<close>

theorem settlement_clamped_monotone_idempotent:
  assumes "mark_miner_settled sys t m n r = (res, t')"
  shows "(res = None \<longleftrightarrow> is_ephemeral_miner_id m \<or> \<not> knows_worker t m)
    \<and> (res = None \<longrightarrow> t' = t)
    \<and> pt_miners t' = pt_miners t
    \<and> (\<forall>m'. m' \<noteq> m \<longrightarrow> settled_shares t' m' = settled_shares t m')
    \<and> (\<forall>out. res = Some out \<longrightarrow>
         settled_shares t' m = max (min n (shares_of t m)) (settled_shares t m)
         \<and> so_settled_total_shares out = settled_shares t' m
         \<and> settled_shares t m \<le> settled_shares t' m
         \<and> settled_shares (snd (mark_miner_settled sys' t' m n r')) m = settled_shares t' m)"
proof (cases "settle_read t m")
  case None
  then show ?thesis using assms settle_read_None [of t m] by (auto simp: mark_miner_settled_def)
next
  case (Some cur)
  note cur = settle_read_Some [OF Some]
  have t': "t' = snd (settle_write sys t m n r cur)" "res = Some (fst (settle_write sys t m n r cur))"
    using assms Some by (auto simp: mark_miner_settled_def split_beta Let_def)
  have again: "settle_read t' m = Some cur"
    using Some unfolding t'(1) settle_read_def settle_write_fields(1) .
  show ?thesis
    using cur settle_read_None [of t m] Some again
    by (simp add: t' mark_miner_settled_def split_beta Let_def settle_write_fields max.left_commute)
qed

definition sample_tracker :: PayoutTracker where
  "sample_tracker = (PayoutTracker_new 600)\<lparr>
     pt_miners := [(''w'', MinerStats_default\<lparr>ms_total_shares := 3, ms_total_difficulty := Finite 3\<rparr>)],
     pt_settlements := [(''w'', SettlementState_default\<lparr>se_settled_total_shares := 3,
       se_last_share_unix_ms := Some 1, se_settled_at_unix_ms := Some 1,
       se_settlement_ref := Some ''tx''\<rparr>)],
     pt_persistence := Some ''payouts.json''\<rparr>"

lemma sample_tracker_simps:
  "knows_worker sample_tracker ''w''" "shares_of sample_tracker ''w'' = 3"
  "settled_shares sample_tracker ''w'' = 3" "\<not> is_ephemeral_miner_id ''w''"
  by (simp_all add: sample_tracker_def knows_worker_def hm_contains_def hm_get_def shares_of_def
      settled_shares_def is_ephemeral_miner_id_def EPHEMERAL_MINER_PREFIX_def)

theorem settlement_clamped_monotone_idempotent_witness:
  "\<exists>out. fst (mark_miner_settled 0 sample_tracker ''w'' 5 ''r'') = Some out
    \<and> so_settled_total_shares out = 3"
proof -
  obtain res t' where call: "mark_miner_settled 0 sample_tracker ''w'' 5 ''r'' = (res, t')"
    by fastforce
  from settlement_clamped_monotone_idempotent [OF call, of 0 "''r''"] call show ?thesis
    by (auto simp: sample_tracker_simps)
qed

section \<open>Pruning\<close>

lemma archive_record_SomeD:
  assumes "archive_record_if_prunable m s st c p = Some r"
  shows "se_settled_total_shares st = ms_total_shares s" "ar_miner_id r = m"
    "ar_total_shares r = ms_total_shares s" "ar_total_difficulty r = ms_total_difficulty s"
    "\<exists>l. se_last_share_unix_ms st = Some l \<and> l \<le> c"
    "\<exists>l. se_settled_at_unix_ms st = Some l \<and> l \<le> c" "se_settlement_ref st = Some (ar_settlement_ref r)"
  using assms
  by (auto simp: archive_record_if_prunable_def not_less split: if_splits option.splits)

text \<open>Fully paid and idle: the watermark equals the credit, and both dates are past the cutoff.\<close>

definition fully_settled :: "PayoutTracker \<Rightarrow> u64 \<Rightarrow> MinerId \<Rightarrow> bool" where
  "fully_settled t cutoff m \<longleftrightarrow> knows_worker t m \<and> settled_shares t m = shares_of t m
     \<and> (\<exists>st l1 l2. hm_get (pt_settlements t) m = Some st
          \<and> se_last_share_unix_ms st = Some l1 \<and> l1 \<le> cutoff
          \<and> se_settled_at_unix_ms st = Some l2 \<and> l2 \<le> cutoff)"

lemma prunable_settled:
  "hm_get (pt_miners t) m = Some s \<Longrightarrow> prunable t c p m s = Some r \<Longrightarrow>
    fully_settled t c m \<and> ar_miner_id r = m \<and> ar_total_shares r = shares_of t m"
  by (auto simp: prunable_def fully_settled_def knows_worker_def hm_contains_def settled_shares_def
      shares_of_def dest: archive_record_SomeD(1-3) split: option.splits)
    (meson archive_record_SomeD(5,6))

lemma still_prunable_settled:
  "still_prunable c p t r \<Longrightarrow> fully_settled t c (ar_miner_id r) \<and> ar_total_shares r = shares_of t (ar_miner_id r)"
  using prunable_settled by (fastforce simp: still_prunable_def split: option.splits bind_splits)

lemma append_loop_ok: "append_loop io rs arch = (Inr u, arch') \<Longrightarrow> arch' = arch @ rs"
  by (induction rs arbitrary: arch) (fastforce split: sum.splits)+

lemma append_archive_ok: "append_settlement_archive io rs arch = (Inr u, arch') \<Longrightarrow> arch' = arch @ rs"
  by (auto simp: append_settlement_archive_def dest: append_loop_ok split: if_splits sum.splits)

lemma append_loop_grows:
  "append_loop io rs arch = (res, arch') \<Longrightarrow> \<exists>written. arch' = arch @ written \<and> set written \<subseteq> set rs"
proof (induction io rs arch rule: append_loop.induct)
  case (2 io r rs arch)
  then show ?case by (cases "ai_write io r") fastforce+
qed simp

lemma append_archive_grows:
  assumes "append_settlement_archive io rs arch = (res, arch')"
  obtains written where "arch' = arch @ written" "set written \<subseteq> set rs"
  using assms append_loop_grows [of io rs arch res arch']
  by (auto simp: append_settlement_archive_def split: if_splits sum.splits)

lemma fold_remove_record:
  defines "rm \<equiv> \<lambda>rs t. fold remove_record rs t"
  shows "hm_get (pt_miners (rm rs t)) m = (if m \<in> ar_miner_id ` set rs then None else hm_get (pt_miners t) m)"
    and "hm_get (pt_settlements (rm rs t)) m =
      (if m \<in> ar_miner_id ` set rs then None else hm_get (pt_settlements t) m)"
  unfolding rm_def by (induction rs arbitrary: t) (auto simp: remove_record_def)

lemma fold_remove_record_rest:
  "pt_persistence (fold remove_record rs t) = pt_persistence t"
  "pt_seen_solutions (fold remove_record rs t) = pt_seen_solutions t"
  "hm_wf (pt_miners t) \<Longrightarrow> hm_wf (pt_miners (fold remove_record rs t))"
  "hm_wf (pt_settlements t) \<Longrightarrow> hm_wf (pt_settlements (fold remove_record rs t))"
  by (induction rs arbitrary: t) (auto simp: remove_record_def)

text \<open>
  C16.  Pruning never removes unpaid credit, and archives what it removes.  The candidates may stem
  from any earlier state: between the read and the write lock shares and settlements may have landed.
  When the write section reports success, the archive has grown by exactly the records of the removed
  workers, each of which was, in the state under the write lock, settled up to its last credited share
  and idle past the cutoff, with its current total in the record; every other worker keeps totals and
  watermark.  When it reports an error, the tracker is unchanged, and what the archive may have grown by
  are records of workers that are settled in the same sense and stay in the tracker.
\<close>

theorem prune_only_settled:
  assumes "prune_commit io cutoff stamp records t arch = (res, t', arch')"
  shows "case res of
      Inl e \<Rightarrow> t' = t \<and> (\<exists>written. arch' = arch @ written
        \<and> (\<forall>r \<in> set written. fully_settled t cutoff (ar_miner_id r)
             \<and> ar_total_shares r = shares_of t (ar_miner_id r)))
    | Inr n \<Rightarrow> (\<exists>confirmed. arch' = arch @ confirmed \<and> n = length confirmed
        \<and> (\<forall>r \<in> set confirmed. fully_settled t cutoff (ar_miner_id r)
             \<and> ar_total_shares r = shares_of t (ar_miner_id r))
        \<and> (\<forall>m. hm_get (pt_miners t') m =
             (if m \<in> ar_miner_id ` set confirmed then None else hm_get (pt_miners t) m))
        \<and> (\<forall>m. hm_get (pt_settlements t') m =
             (if m \<in> ar_miner_id ` set confirmed then None else hm_get (pt_settlements t) m)))"
proof -
  define confirmed where "confirmed = filter (still_prunable cutoff stamp t) records"
  have settled: "\<forall>r \<in> set confirmed. fully_settled t cutoff (ar_miner_id r)
      \<and> ar_total_shares r = shares_of t (ar_miner_id r)"
    using still_prunable_settled by (auto simp: confirmed_def)
  show ?thesis
  proof (cases "confirmed = []")
    case True
    then have "res = Inr 0" "t' = t" "arch' = arch"
      using assms by (simp_all add: prune_commit_def confirmed_def Let_def)
    then show ?thesis by (auto intro: exI [of _ "[]"])
  next
    case False
    obtain ares afile where app: "append_settlement_archive io confirmed arch = (ares, afile)" by fastforce
    show ?thesis
    proof (cases ares)
      case (Inl e)
      then have res: "res = Inl e \<and> t' = t \<and> arch' = afile"
        using assms False app by (auto simp: prune_commit_def confirmed_def Let_def)
      obtain written where "afile = arch @ written" "set written \<subseteq> set confirmed"
        by (rule append_archive_grows [OF app])
      then show ?thesis using res settled by (auto intro!: exI [of _ written])
    next
      case (Inr u)
      then have "res = Inr (length confirmed)" "t' = mark_dirty (fold remove_record confirmed t)"
        "arch' = arch @ confirmed"
        using assms False app append_archive_ok [of io confirmed arch u afile]
        by (simp_all add: prune_commit_def confirmed_def Let_def)
      then show ?thesis
        using settled by (auto simp: fold_remove_record intro!: exI [of _ confirmed])
    qed
  qed
qed

text \<open>A file system on which every operation succeeds.\<close>

definition good_io :: archive_io where
  "good_io = \<lparr>ai_open = Inr (), ai_write = \<lambda>_. Inr (), ai_sync = Inr ()\<rparr>"

definition sample_record :: SettlementArchiveRecord where
  "sample_record = \<lparr>ar_version = 2, ar_miner_id = ''w'', ar_total_shares = 3,
     ar_total_difficulty = Finite 3, ar_settled_total_shares = 3,
     ar_settled_total_difficulty = Finite 0, ar_last_share_unix_ms = Some 1,
     ar_settled_at_unix_ms = 1, ar_settlement_ref = ''tx'', ar_pruned_at_unix_ms = 9\<rparr>"

lemma sample_record_prunable:
  "still_prunable 5 9 sample_tracker sample_record" "prune_candidates 5 9 sample_tracker = [sample_record]"
  by (simp_all add: still_prunable_def prune_candidates_def prunable_def sample_tracker_def
      sample_record_def archive_record_if_prunable_def hm_get_def SettlementState_default_def
      MinerStats_default_def PAYOUT_STATE_VERSION_def map_filter_def)

theorem prune_only_settled_witness:
  "\<exists>t' arch'. prune_commit good_io 5 9 [sample_record] sample_tracker [] = (Inr 1, t', arch')
    \<and> arch' = [sample_record] \<and> fully_settled sample_tracker 5 ''w''"
proof -
  obtain res t' arch' where run:
    "prune_commit good_io 5 9 [sample_record] sample_tracker [] = (res, t', arch')" by (metis prod_cases3)
  have res: "res = Inr 1" "arch' = [sample_record]"
    using run by (auto simp: prune_commit_def sample_record_prunable append_settlement_archive_def
        good_io_def Let_def)
  with prune_only_settled [OF run] run show ?thesis by (auto simp: sample_record_def)
qed

text \<open>
  A failing archive breaks the one-to-one correspondence.  When the records reach the file but
  the final sync fails, the call reports an error and removes nothing, so a second run archives the
  same records again: the archive then holds each of them twice for a single removal.
\<close>

theorem failed_sync_archives_twice:
  assumes "records = prune_candidates cutoff stamp t" "records \<noteq> []"
    "filter (still_prunable cutoff stamp t) records = records"
  shows "\<exists>t'. prune_commit (good_io\<lparr>ai_sync := Inl OtherIoError\<rparr>) cutoff stamp records t [] =
      (Inl OtherIoError, t, records)
    \<and> prune_commit good_io cutoff stamp records t records = (Inr (length records), t', records @ records)"
proof -
  have loop: "append_loop io rs arch = (ai_sync io, arch @ rs)"
    if "\<And>r. ai_write io r = Inr ()" for io rs arch
    using that by (induction rs arbitrary: arch) simp_all
  show ?thesis
    using assms by (simp add: prune_commit_def append_settlement_archive_def loop good_io_def Let_def)
qed

theorem failed_sync_archives_twice_witness:
  "\<exists>t'. prune_commit (good_io\<lparr>ai_sync := Inl OtherIoError\<rparr>) 5 9 [sample_record] sample_tracker [] =
      (Inl OtherIoError, sample_tracker, [sample_record])
    \<and> prune_commit good_io 5 9 [sample_record] sample_tracker [sample_record] =
      (Inr 1, t', [sample_record, sample_record])"
  using failed_sync_archives_twice [of "[sample_record]" 5 9 sample_tracker]
  by (simp add: sample_record_prunable)

section \<open>Settling while another thread prunes\<close>

text \<open>
  Settling is not atomic.  The totals are read under one lock and the watermark is written under
  another.  If a prune removes the fully settled worker in between, the write creates a watermark for a
  worker the tracker no longer knows.  When the worker comes back, its first shares, up to the old
  total, count as settled although nobody paid them.
\<close>

theorem settle_prune_race:
  assumes "settle_read t m = Some cur" "prune_commit io cutoff stamp records t arch = (Inr n, t1, arch')"
    "hm_get (pt_miners t1) m = None" "hm_get (pt_settlements t1) m = None"
    and "t2 = snd (settle_write sys t1 m w r cur)" "w \<le> shares_of t m"
  shows "\<not> knows_worker t2 m \<and> settled_shares t2 m = w
    \<and> (\<forall>now sys d. f64_pos d \<longrightarrow>
         shares_of (snd (record_share now sys t2 m d)) m = 1
         \<and> settled_shares (snd (record_share now sys t2 m d)) m = w)"
proof -
  have none: "settled_shares t1 m = 0" using assms(4) by (simp add: settled_shares_def)
  have t2: "pt_miners t2 = pt_miners t1" "settled_shares t2 m = w"
    using assms(5,6) settle_read_Some [OF assms(1)] none
    by (simp_all add: settle_write_fields min_absorb1)
  have unknown: "hm_get (pt_miners t2) m = None" by (simp add: t2(1) assms(3))
  have "settled_shares (snd (record_share now sys t2 m d)) m = settled_shares t2 m" for now sys d
    by (auto simp: record_share_def Let_def settled_shares_def hm_get_or_def SettlementState_default_def
        split: option.split)
  then show ?thesis
    using unknown t2(2) by (simp add: knows_worker_def hm_contains_def shares_of_record_share)
      (simp add: shares_of_def)
qed

theorem settle_prune_race_witness:
  "\<exists>t1 arch. prune_commit good_io 5 9 [sample_record] sample_tracker [] = (Inr 1, t1, arch)
    \<and> \<not> knows_worker (snd (settle_write 0 t1 ''w'' 3 ''tx2'' (3, Finite 3))) ''w''
    \<and> settled_shares (snd (settle_write 0 t1 ''w'' 3 ''tx2'' (3, Finite 3))) ''w'' = 3"
proof -
  have read: "settle_read sample_tracker ''w'' = Some (3, Finite 3)"
    by (simp add: settle_read_def sample_tracker_simps)
      (simp add: sample_tracker_def hm_get_def MinerStats_default_def)
  define t1 where "t1 = mark_dirty (remove_record sample_record sample_tracker)"
  have run: "prune_commit good_io 5 9 [sample_record] sample_tracker [] = (Inr 1, t1, [sample_record])"
    by (simp add: prune_commit_def sample_record_prunable append_settlement_archive_def good_io_def
        Let_def t1_def)
  have gone: "hm_get (pt_miners t1) ''w'' = None" "hm_get (pt_settlements t1) ''w'' = None"
    by (simp_all add: t1_def remove_record_def sample_record_def)
  have "(3 :: u64) \<le> shares_of sample_tracker ''w''" by (simp add: sample_tracker_simps)
  from settle_prune_race [OF read run gone refl this, of 0 "''tx2''"] run show ?thesis by blast
qed

section \<open>Cleanup\<close>

text \<open>
  With persistence, cleanup keeps what named workers are owed.  Whatever the idle time, every
  worker with a name keeps the total of shares and difficulty and the settlement state; an ephemeral
  entry disappears only when it is stale; nothing is ever added.
\<close>

theorem cleanup_keeps_named_credit:
  assumes "tracker_inv t" "pt_persistence t \<noteq> None" "cleanup_stale_miners now t idle = (n, t')"
    "\<not> is_ephemeral_miner_id m"
  shows "map_option (\<lambda>s. (ms_total_shares s, ms_total_difficulty s)) (hm_get (pt_miners t') m) =
      map_option (\<lambda>s. (ms_total_shares s, ms_total_difficulty s)) (hm_get (pt_miners t) m)
    \<and> hm_get (pt_settlements t') m = hm_get (pt_settlements t) m
    \<and> (\<forall>e s. hm_get (pt_miners t) e = Some s \<and> hm_get (pt_miners t') e = None \<longrightarrow>
         is_ephemeral_miner_id e \<and> (\<exists>share. ms_last_share s = Some share \<and> share \<le> now - int idle))"
proof -
  have wf: "hm_wf (pt_miners t)" "hm_wf (pt_settlements t)" using assms(1) by (simp_all add: tracker_inv_def)
  show ?thesis
  proof (cases "instant_checked_sub now idle")
    case None
    then show ?thesis using assms(3) by (auto simp: cleanup_stale_miners_def)
  next
    case (Some cutoff)
    then have cutoff: "cutoff = now - int idle" by (simp add: instant_checked_sub_def split: if_splits)
    from assms(2,3) Some have t': "t' = snd (cleanup_persisted cutoff t)"
      by (simp add: cleanup_stale_miners_def)
    have "hm_get (pt_miners t') e = (case hm_get (pt_miners t) e of None \<Rightarrow> None
        | Some s \<Rightarrow> if is_stale cutoff s \<and> is_ephemeral_miner_id e then None else Some (reset_stale cutoff s))" for e
      by (auto simp: t' cleanup_persisted_def Let_def hm_get_retain [OF wf(1)] split: option.split)
    moreover have "hm_get (pt_settlements t') m = hm_get (pt_settlements t) m"
      using assms(4)
      by (auto simp: t' cleanup_persisted_def Let_def hm_get_retain [OF wf(2)] split: option.split)
    ultimately show ?thesis
      using assms(4) unfolding cutoff
      by (auto simp: is_stale_def reset_stale_def clear_window_def split: option.splits if_splits)
  qed
qed

theorem cleanup_keeps_named_credit_witness:
  "hm_get (pt_settlements (snd (cleanup_stale_miners 100 sample_tracker 5))) ''w'' =
     hm_get (pt_settlements sample_tracker) ''w''"
proof -
  obtain n t' where run: "cleanup_stale_miners 100 sample_tracker 5 = (n, t')" by fastforce
  have inv: "tracker_inv sample_tracker"
    by (auto simp: tracker_inv_def sample_tracker_def hm_wf_def hm_get_def stats_inv_def
        PayoutTracker_new_def MinerStats_default_def f64_rep_of_int [of 3, simplified] split: if_splits)
  have "pt_persistence sample_tracker \<noteq> None" by (simp add: sample_tracker_def)
  from cleanup_keeps_named_credit [OF inv this run sample_tracker_simps(4)] run show ?thesis by simp
qed

end
