(* ===== verification/Payout_Durability.thy ===== *)
theory Payout_Durability
  imports Payout_Settlement
begin

text \<open>
  Durability of a payout tracker: every operation that changes what the state file should hold
  marks the tracker dirty, only a successful flush clears the mark, and loading what a flush wrote
  restores the totals and watermarks.
\<close>

section \<open>Operations as a step function\<close>

datatype tracker_op =
    OpRecordShare instant int MinerId f64
  | OpRecordOnce instant int MinerId f64 bytes
  | OpClearSolutions
  | OpResetWindow
  | OpRotateWindow instant
  | OpRemoveMiner MinerId
  | OpSettle int MinerId u64 string
  | OpCleanup instant duration
  | OpPrune archive_io int int duration

fun apply_op :: "sha256_digest \<Rightarrow> tracker_op \<Rightarrow> PayoutTracker \<Rightarrow> PayoutTracker outcome" where
  "apply_op sha256 (OpRecordShare now sys m d) t = Returns (snd (record_share now sys t m d))"
| "apply_op sha256 (OpRecordOnce now sys m d sol) t =
     (case try_record_share_once sha256 now sys t m d sol of
        Panics \<Rightarrow> Panics | Returns (_, t') \<Rightarrow> Returns t')"
| "apply_op sha256 OpClearSolutions t = Returns (clear_cross_path_solutions t)"
| "apply_op sha256 OpResetWindow t = Returns (reset_window t)"
| "apply_op sha256 (OpRotateWindow now) t = Returns (rotate_window_if_needed now t)"
| "apply_op sha256 (OpRemoveMiner m) t = Returns (remove_miner t m)"
| "apply_op sha256 (OpSettle sys m n r) t = Returns (snd (mark_miner_settled sys t m n r))"
| "apply_op sha256 (OpCleanup now idle) t = Returns (snd (cleanup_stale_miners now t idle))"
| "apply_op sha256 (OpPrune io sys sys' retention) t =
     Returns (fst (snd (prune_settled_miners io sys sys' t retention [])))"

text \<open>What the state file holds for a worker.\<close>

definition durable_view :: "PayoutTracker \<Rightarrow> MinerId \<Rightarrow> PersistedMinerStats option" where
  "durable_view t m = map_option (\<lambda>s. snd (persisted_stats (pt_settlements t) (m, s))) (hm_get (pt_miners t) m)"

lemma durable_view_cong:
  "hm_get (pt_miners t') m = map_option f (hm_get (pt_miners t) m) \<Longrightarrow>
   (\<And>s. ms_total_shares (f s) = ms_total_shares s \<and> ms_total_difficulty (f s) = ms_total_difficulty s) \<Longrightarrow>
   hm_get (pt_settlements t') m = hm_get (pt_settlements t) m \<Longrightarrow> durable_view t' m = durable_view t m"
  by (cases "hm_get (pt_miners t) m")
    (auto simp: durable_view_def persisted_stats_def Let_def hm_get_or_def split: option.split)

lemma durable_view_same:
  "pt_miners t' = pt_miners t \<Longrightarrow> pt_settlements t' = pt_settlements t \<Longrightarrow> durable_view t' = durable_view t"
  by (simp add: durable_view_def fun_eq_iff)

text \<open>A step either leaves the durable view alone or ends dirty; the mark never disappears.\<close>

definition tracked :: "PayoutTracker \<Rightarrow> PayoutTracker \<Rightarrow> bool" where
  "tracked t t' \<longleftrightarrow> pt_persistence t' = pt_persistence t
     \<and> (pt_persistence t \<noteq> None \<longrightarrow> (durable_view t' = durable_view t \<and> (pt_dirty t \<longrightarrow> pt_dirty t')) \<or> pt_dirty t')"

lemma tracked_refl [simp]: "tracked t t"
  by (simp add: tracked_def)

lemma tracked_mark_dirty: "pt_persistence t' = pt_persistence t \<Longrightarrow> tracked t (mark_dirty t')"
  by (auto simp: tracked_def mark_dirty_def)

lemma tracked_record_share: "tracked t (snd (record_share now sys t m d))"
  by (auto simp: record_share_def Let_def intro!: tracked_mark_dirty)

lemma tracked_window:
  "tracked t (reset_window t)" "tracked t (rotate_window_if_needed now t)"
  "tracked t (clear_cross_path_solutions t)"
proof -
  have "durable_view (reset_window t) = durable_view t"
    by (rule ext, rule durable_view_cong [where f = clear_window])
      (simp_all add: reset_window_def clear_window_def)
  then show reset: "tracked t (reset_window t)" by (simp add: tracked_def reset_window_def)
  then show "tracked t (rotate_window_if_needed now t)"
    by (simp add: rotate_window_if_needed_def Let_def)
  show "tracked t (clear_cross_path_solutions t)"
    by (simp add: tracked_def clear_cross_path_solutions_def durable_view_def fun_eq_iff)
qed

lemma tracked_once:
  assumes "try_record_share_once sha256 now sys t m d sol = Returns (b, t')"
  shows "tracked t t'"
proof -
  have seen: "tracked t (t\<lparr>pt_seen_solutions := x\<rparr>)" for x
    by (simp add: tracked_def durable_view_def fun_eq_iff)
  have "tracked t (snd (record_share now sys (t\<lparr>pt_seen_solutions := x\<rparr>) m d))" if "f64_pos d" for x
    using that by (auto simp: record_share_def Let_def f64_pos_def intro!: tracked_mark_dirty)
  with seen assms show ?thesis
    by (auto simp: try_record_share_once_def Let_def f64_pos_def split_beta
        split: if_splits outcome.splits)
qed

lemma tracked_settle: "tracked t (snd (mark_miner_settled sys t m n r))"
  by (auto simp: mark_miner_settled_def settle_write_def Let_def split_beta intro!: tracked_mark_dirty
      split: option.split)

lemma cleanup_nothing_stale:
  "filter (\<lambda>(_, stats). is_stale cutoff stats) ms = [] \<Longrightarrow>
    hm_map (\<lambda>_. reset_stale cutoff)
      (hm_retain (\<lambda>miner_id stats. is_stale cutoff stats \<longrightarrow> \<not> is_ephemeral_miner_id miner_id) ms) = ms"
  by (induction ms) (auto simp: hm_map_def hm_retain_def reset_stale_def split: if_splits)

lemma tracked_cleanup: "tracked t (snd (cleanup_stale_miners now t idle))"
proof (cases "instant_checked_sub now idle")
  case None
  then show ?thesis by (simp add: cleanup_stale_miners_def)
next
  case (Some cutoff)
  show ?thesis
  proof (cases "pt_persistence t")
    case None
    with Some show ?thesis
      by (simp add: cleanup_stale_miners_def cleanup_volatile_def Let_def tracked_def)
  next
    case (Some path)
    let ?stale = "filter (\<lambda>(_, stats). is_stale cutoff stats) (pt_miners t)"
    have run: "cleanup_stale_miners now t idle = cleanup_persisted cutoff t"
      using Some \<open>instant_checked_sub now idle = Some cutoff\<close> by (simp add: cleanup_stale_miners_def)
    show ?thesis
    proof (cases "?stale = []")
      case True
      then have "snd (cleanup_persisted cutoff t) = t"
        by (simp add: cleanup_persisted_def Let_def cleanup_nothing_stale)
      with run show ?thesis by simp
    next
      case False
      then have "\<exists>u. snd (cleanup_persisted cutoff t) = mark_dirty u \<and> pt_persistence u = pt_persistence t"
        unfolding cleanup_persisted_def Let_def
        by (simp del: mark_dirty_simps) (rule exI, rule conjI, rule refl, simp)
      with run tracked_mark_dirty show ?thesis by metis
    qed
  qed
qed

lemma tracked_prune: "tracked t (fst (snd (prune_settled_miners io sys sys' t retention arch)))"
  by (auto simp: prune_settled_miners_def prune_commit_def Let_def fold_remove_record_rest
      intro!: tracked_mark_dirty split: prod.split sum.split)

lemma tracked_step: "apply_op sha256 x t = Returns t' \<Longrightarrow> tracked t t'"
  by (cases x) (auto simp: tracked_record_share tracked_window tracked_settle tracked_cleanup tracked_prune
      remove_miner_def intro: tracked_once intro!: tracked_mark_dirty split: outcome.splits)

section \<open>Flushing\<close>

text \<open>
  The bytes on disk stand for a tracker: they are the serialization of totals and settlements with
  the same durable view, or there is no file and nothing to remember.
\<close>

definition stands_for :: "to_json \<Rightarrow> bytes option \<Rightarrow> PayoutTracker \<Rightarrow> bool" where
  "stands_for to_json disk t \<longleftrightarrow>
     (case disk of
        None \<Rightarrow> durable_view t = (\<lambda>_. None)
      | Some bs \<Rightarrow> \<exists>u. serialize_state to_json (pt_miners u) (pt_settlements u) = Inr bs
          \<and> durable_view u = durable_view t)"

text \<open>A history: operations and flushes, the latter with the file system's answer.\<close>

fun durable_run ::
  "sha256_digest \<Rightarrow> to_json \<Rightarrow> (tracker_op + (bytes \<Rightarrow> io_error + unit)) list
    \<Rightarrow> PayoutTracker \<times> bytes option \<Rightarrow> (PayoutTracker \<times> bytes option) outcome" where
  "durable_run sha256 to_json [] (t, disk) = Returns (t, disk)"
| "durable_run sha256 to_json (Inl x # xs) (t, disk) =
     (case apply_op sha256 x t of
        Panics \<Rightarrow> Panics | Returns t' \<Rightarrow> durable_run sha256 to_json xs (t', disk))"
| "durable_run sha256 to_json (Inr atomic_write # xs) (t, disk) =
     (let (_, t', written) = flush to_json atomic_write t in
      durable_run sha256 to_json xs (t', if written = None then disk else written))"

lemma flush_stands_for:
  assumes "pt_persistence t \<noteq> None" "pt_dirty t \<or> stands_for to_json disk t"
    "flush to_json atomic_write t = (res, t', written)"
  shows "pt_persistence t' \<noteq> None
    \<and> (pt_dirty t' \<or> stands_for to_json (if written = None then disk else written) t')
    \<and> durable_view t' = durable_view t"
proof -
  have view: "durable_view (t\<lparr>pt_dirty := b\<rparr>) = durable_view t" for b
    by (rule durable_view_same) simp_all
  show ?thesis
    using assms view
    by (auto simp: flush_def Let_def stands_for_def split: if_splits sum.splits option.splits)
qed

text \<open>
  C15.  No change of the payout totals is ever forgotten.  From a tracker whose file stands for it,
  through any history of shares, settlements, removals, cleanups, prunings and flushes, flushes that
  fail included, the tracker is marked dirty or the file on disk is a serialization of exactly its
  current totals and settlement state.
\<close>

theorem dirty_or_saved:
  assumes "pt_persistence t \<noteq> None" "pt_dirty t \<or> stands_for to_json disk t"
    "durable_run sha256 to_json xs (t, disk) = Returns (t', disk')"
  shows "pt_dirty t' \<or> stands_for to_json disk' t'"
  using assms
proof (induction sha256 to_json xs "(t, disk)" arbitrary: t disk rule: durable_run.induct)
  case (2 sha256 to_json x xs t disk)
  then obtain u where u: "apply_op sha256 x t = Returns u"
    "durable_run sha256 to_json xs (u, disk) = Returns (t', disk')" by (auto split: outcome.splits)
  from tracked_step [OF u(1)] 2(2,3) have "pt_persistence u \<noteq> None" "pt_dirty u \<or> stands_for to_json disk u"
    by (auto simp: tracked_def stands_for_def split: option.splits)
  with 2(1) [OF u(1)] u(2) show ?case by blast
next
  case (3 sha256 to_json atomic_write xs t disk)
  obtain res u written where f: "flush to_json atomic_write t = (res, u, written)" by (metis prod_cases3)
  from flush_stands_for [OF 3(2,3) f] 3(1) [OF f [symmetric] refl] 3(4) f show ?case by (auto simp: Let_def)
qed simp

definition empty_store :: PayoutTracker where
  "empty_store = (PayoutTracker_new 600)\<lparr>pt_persistence := Some ''payouts.json''\<rparr>"

theorem dirty_or_saved_witness:
  "\<exists>t' disk'. durable_run (\<lambda>x. x) (\<lambda>_. Inr []) [Inl (OpRecordShare 0 0 ''w'' (Finite 1)), Inr (\<lambda>_. Inr ())]
      (empty_store, None) = Returns (t', disk')
    \<and> (pt_dirty t' \<or> stands_for (\<lambda>_. Inr []) disk' t')"
proof -
  obtain t' disk' where run:
    "durable_run (\<lambda>x. x) (\<lambda>_. Inr []) [Inl (OpRecordShare 0 0 ''w'' (Finite 1)), Inr (\<lambda>_. Inr ())]
      (empty_store, None) = Returns (t', disk')"
    by (simp add: Let_def split_beta) (metis prod.collapse)
  have "pt_persistence empty_store \<noteq> None" "pt_dirty empty_store \<or> stands_for (\<lambda>_. Inr []) None empty_store"
    by (simp_all add: stands_for_def durable_view_def PayoutTracker_new_def empty_store_def fun_eq_iff)
  from dirty_or_saved [OF this run] run show ?thesis by blast
qed

section \<open>Restart\<close>

text \<open>
  The JSON library reproduces the strings and integers; the parser's reading of a finite
  difficulty is a finite non-negative number, not necessarily the same one.
\<close>

definition same_counts :: "PersistedMinerStats \<Rightarrow> PersistedMinerStats \<Rightarrow> bool" where
  "same_counts a b \<longleftrightarrow> pm_total_shares a = pm_total_shares b
     \<and> pm_settled_total_shares a = pm_settled_total_shares b
     \<and> pm_last_share_unix_ms a = pm_last_share_unix_ms b
     \<and> pm_settled_at_unix_ms a = pm_settled_at_unix_ms b
     \<and> pm_settlement_ref a = pm_settlement_ref b
     \<and> is_finite (pm_total_difficulty b) \<and> \<not> f64_lt (pm_total_difficulty b) (Finite 0)
     \<and> is_finite (pm_settled_total_difficulty b) \<and> \<not> f64_lt (pm_settled_total_difficulty b) (Finite 0)"

definition reads_back :: "PersistedPayoutState \<Rightarrow> PersistedPayoutState \<Rightarrow> bool" where
  "reads_back p q \<longleftrightarrow> pp_version q = pp_version p
     \<and> list_all2 (\<lambda>(k, a) (k', b). k' = k \<and> same_counts a b) (pp_miners p) (pp_miners q)"

lemma load_miners_ok:
  "list_all2 (\<lambda>(k, a) (k', b). k' = k \<and> same_counts a b) ps qs \<Longrightarrow> distinct (map fst ps) \<Longrightarrow>
    \<exists>l'. load_miners qs l = Inr l' \<and> (\<forall>m.
      map_option ms_total_shares (hm_get (lp_miners l') m) =
        (case map_of ps m of Some a \<Rightarrow> Some (pm_total_shares a)
         | None \<Rightarrow> map_option ms_total_shares (hm_get (lp_miners l) m))
      \<and> map_option se_settled_total_shares (hm_get (lp_settlements l') m) =
        (case map_of ps m of Some a \<Rightarrow> Some (pm_settled_total_shares a)
         | None \<Rightarrow> map_option se_settled_total_shares (hm_get (lp_settlements l) m))
      \<and> Option.bind (hm_get (lp_settlements l') m) se_settlement_ref =
        (case map_of ps m of Some a \<Rightarrow> pm_settlement_ref a
         | None \<Rightarrow> Option.bind (hm_get (lp_settlements l) m) se_settlement_ref))"
proof (induction qs arbitrary: ps l)
  case Nil
  then show ?case by simp
next
  case (Cons q qs)
  obtain k b where q: "q = (k, b)" by fastforce
  from Cons.prems(1) q obtain a ps' where ps: "ps = (k, a) # ps'" and sc: "same_counts a b"
    and rest: "list_all2 (\<lambda>(k, a) (k', b). k' = k \<and> same_counts a b) ps' qs"
    by (auto simp: list_all2_Cons2)
  have fresh: "map_of ps' k = None" "distinct (map fst ps')"
    using Cons.prems(2) by (auto simp: ps map_of_eq_None_iff)
  define l2 where "l2 =
    \<lparr>lp_miners = hm_insert k
       \<lparr>ms_total_shares = pm_total_shares b, ms_total_difficulty = pm_total_difficulty b,
        ms_window_shares = 0, ms_window_difficulty = Finite 0, ms_last_share = None\<rparr> (lp_miners l),
     lp_settlements = hm_insert k
       \<lparr>se_settled_total_shares = pm_settled_total_shares b,
        se_settled_total_difficulty = pm_settled_total_difficulty b,
        se_last_share_unix_ms = pm_last_share_unix_ms b,
        se_settled_at_unix_ms = pm_settled_at_unix_ms b,
        se_settlement_ref = pm_settlement_ref b\<rparr> (lp_settlements l)\<rparr>"
  have load: "load_miners (q # qs) l = load_miners qs l2"
    using sc by (simp add: q l2_def same_counts_def)
  have other: "hm_get (lp_miners l2) m = hm_get (lp_miners l) m"
    "hm_get (lp_settlements l2) m = hm_get (lp_settlements l) m" if "m \<noteq> k" for m
    using that by (simp_all add: l2_def)
  have new: "map_option ms_total_shares (hm_get (lp_miners l2) k) = Some (pm_total_shares a)"
    "map_option se_settled_total_shares (hm_get (lp_settlements l2) k) = Some (pm_settled_total_shares a)"
    "Option.bind (hm_get (lp_settlements l2) k) se_settlement_ref = pm_settlement_ref a"
    using sc by (simp_all add: l2_def same_counts_def)
  obtain l' where l': "load_miners qs l2 = Inr l'"
    "\<And>m. map_option ms_total_shares (hm_get (lp_miners l') m) =
        (case map_of ps' m of Some a \<Rightarrow> Some (pm_total_shares a)
         | None \<Rightarrow> map_option ms_total_shares (hm_get (lp_miners l2) m))"
    "\<And>m. map_option se_settled_total_shares (hm_get (lp_settlements l') m) =
        (case map_of ps' m of Some a \<Rightarrow> Some (pm_settled_total_shares a)
         | None \<Rightarrow> map_option se_settled_total_shares (hm_get (lp_settlements l2) m))"
    "\<And>m. Option.bind (hm_get (lp_settlements l') m) se_settlement_ref =
        (case map_of ps' m of Some a \<Rightarrow> pm_settlement_ref a
         | None \<Rightarrow> Option.bind (hm_get (lp_settlements l2) m) se_settlement_ref)"
    using Cons.IH [OF rest fresh(2), of l2] by blast
  show ?case
  proof (intro exI [of _ l'] conjI allI)
    show "load_miners (q # qs) l = Inr l'" using load l'(1) by simp
    fix m
    show "map_option ms_total_shares (hm_get (lp_miners l') m) =
        (case map_of ps m of Some a \<Rightarrow> Some (pm_total_shares a)
         | None \<Rightarrow> map_option ms_total_shares (hm_get (lp_miners l) m))"
      by (cases "m = k") (simp_all add: l'(2) ps fresh(1) new other split: option.split)
    show "map_option se_settled_total_shares (hm_get (lp_settlements l') m) =
        (case map_of ps m of Some a \<Rightarrow> Some (pm_settled_total_shares a)
         | None \<Rightarrow> map_option se_settled_total_shares (hm_get (lp_settlements l) m))"
      by (cases "m = k") (simp_all add: l'(3) ps fresh(1) new other split: option.split)
    show "Option.bind (hm_get (lp_settlements l') m) se_settlement_ref =
        (case map_of ps m of Some a \<Rightarrow> pm_settlement_ref a
         | None \<Rightarrow> Option.bind (hm_get (lp_settlements l) m) se_settlement_ref)"
      by (cases "m = k") (simp_all add: l'(4) ps fresh(1) new other split: option.split)
  qed
qed

lemma distinct_sort_key: "distinct (map fst xs) \<Longrightarrow> distinct (map fst (sort_key fst xs))"
  by (simp add: distinct_map)

lemma map_of_sort_key: "distinct (map fst xs) \<Longrightarrow> map_of (sort_key fst xs) k = map_of xs k"
proof -
  assume d: "distinct (map fst xs)"
  from d distinct_sort_key [OF d] have "map_of (sort_key fst xs) = map_of xs" by (simp add: map_of_inject_set)
  then show ?thesis by simp
qed

lemma map_of_persisted:
  "map_of (map (persisted_stats st) ms) k = map_option (\<lambda>s. snd (persisted_stats st (k, s))) (map_of ms k)"
  by (induction ms) (auto simp: persisted_stats_def Let_def)

text \<open>
  C14.  A restart restores every worker's credit.  When a flush has written the state and the JSON
  library reads the bytes back with the same strings and integers, the tracker created from the file
  knows the same workers, with the same credited shares, the same watermark and the same settlement
  reference, starts with an empty window and an empty duplicate filter, and is not dirty.
\<close>

theorem restart_restores_credit:
  assumes "hm_wf (pt_miners t)" "flush to_json atomic_write t = (Inr (), t', Some bs)"
    and "from_json bs = Inr q" "reads_back (persisted_state (pt_miners t) (pt_settlements t)) q"
    and "\<not> trims_to_empty bs"
  shows "\<exists>u. with_persistence from_json (Some (Inr bs)) window path = Inr u
    \<and> (\<forall>m. knows_worker u m = knows_worker t m \<and> shares_of u m = shares_of t m
        \<and> (knows_worker t m \<longrightarrow> settled_shares u m = settled_shares t m
             \<and> Option.bind (hm_get (pt_settlements u) m) se_settlement_ref =
               Option.bind (hm_get (pt_settlements t) m) se_settlement_ref))
    \<and> pt_window_start u = None \<and> bs_order (pt_seen_solutions u) = [] \<and> \<not> pt_dirty u"
proof -
  let ?p = "persisted_state (pt_miners t) (pt_settlements t)"
  let ?l0 = "\<lparr>lp_miners = [], lp_settlements = []\<rparr>"
  let ?xs = "map (persisted_stats (pt_settlements t)) (pt_miners t)"
  have keys: "map fst ?xs = map fst (pt_miners t)" by (simp add: persisted_stats_def Let_def split_beta)
  have dist: "distinct (map fst ?xs)" using assms(1) unfolding keys by (simp add: hm_wf_def)
  have sdist: "distinct (map fst (pp_miners ?p))"
    using distinct_sort_key [OF dist] by (simp add: persisted_state_def)
  have view: "map_of (pp_miners ?p) m = durable_view t m" for m
    using map_of_sort_key [OF dist, of m]
    by (simp add: persisted_state_def map_of_persisted durable_view_def hm_get_def)
  have l: "\<exists>l. load_miners (pp_miners q) ?l0 = Inr l \<and> (\<forall>m.
      map_option ms_total_shares (hm_get (lp_miners l) m) = map_option pm_total_shares (durable_view t m)
      \<and> map_option se_settled_total_shares (hm_get (lp_settlements l) m) =
        map_option pm_settled_total_shares (durable_view t m)
      \<and> Option.bind (hm_get (lp_settlements l) m) se_settlement_ref =
        Option.bind (durable_view t m) pm_settlement_ref)"
  proof -
    have none: "(case x of None \<Rightarrow> map_option g None | Some a \<Rightarrow> Some (f a)) = map_option f x"
      "(case x of None \<Rightarrow> Option.bind None h | Some a \<Rightarrow> f' a) = Option.bind x f'" for x g f f' h
      by (cases x; simp)+
    show ?thesis
      using load_miners_ok [of "pp_miners ?p" "pp_miners q" ?l0] sdist assms(4)
      by (simp only: reads_back_def view none LoadedPayoutState.simps hm_get_Nil simp_thms)
  qed
  then obtain l where l: "load_miners (pp_miners q) ?l0 = Inr l" "\<And>m.
      map_option ms_total_shares (hm_get (lp_miners l) m) = map_option pm_total_shares (durable_view t m)
      \<and> map_option se_settled_total_shares (hm_get (lp_settlements l) m) =
        map_option pm_settled_total_shares (durable_view t m)
      \<and> Option.bind (hm_get (lp_settlements l) m) se_settlement_ref =
        Option.bind (durable_view t m) pm_settlement_ref" by blast
  have "parse_persisted_state from_json bs = Inr l"
    using assms(3,4) l(1) by (simp add: parse_persisted_state_def reads_back_def persisted_state_def)
  then obtain u where u: "with_persistence from_json (Some (Inr bs)) window path = Inr u"
    "pt_miners u = lp_miners l" "pt_settlements u = lp_settlements l" "pt_window_start u = None"
    "bs_order (pt_seen_solutions u) = []" "\<not> pt_dirty u"
    using assms(5) by (simp add: with_persistence_def load_persisted_state_def BoundedSolutionSet_new_def)
  have "knows_worker u m = knows_worker t m \<and> shares_of u m = shares_of t m
        \<and> (knows_worker t m \<longrightarrow> settled_shares u m = settled_shares t m
             \<and> Option.bind (hm_get (pt_settlements u) m) se_settlement_ref =
               Option.bind (hm_get (pt_settlements t) m) se_settlement_ref)" for m
    using l(2) [of m]
    by (cases "hm_get (pt_miners t) m"; cases "hm_get (pt_settlements t) m")
      (auto simp: u knows_worker_def hm_contains_def shares_of_def settled_shares_def durable_view_def
        persisted_stats_def Let_def hm_get_or_def SettlementState_default_def split: option.splits)
  with u show ?thesis by blast
qed

theorem restart_restores_credit_witness:
  "\<exists>u. with_persistence (\<lambda>_. Inr (persisted_state (pt_miners sample_tracker) (pt_settlements sample_tracker)))
      (Some (Inr [0x7b])) 600 ''payouts.json'' = Inr u
    \<and> shares_of u ''w'' = 3 \<and> settled_shares u ''w'' = 3"
proof -
  let ?t = "sample_tracker\<lparr>pt_dirty := True\<rparr>"
  let ?p = "persisted_state (pt_miners sample_tracker) (pt_settlements sample_tracker)"
  have wf: "hm_wf (pt_miners ?t)" by (simp add: sample_tracker_def hm_wf_def)
  have flushed: "flush (\<lambda>_. Inr [0x7b]) (\<lambda>_. Inr ()) ?t = (Inr (), ?t\<lparr>pt_dirty := False\<rparr>, Some [0x7b])"
    by (simp add: flush_def serialize_state_def sample_tracker_def)
  have reading: "reads_back (persisted_state (pt_miners ?t) (pt_settlements ?t)) ?p"
    by (simp add: reads_back_def persisted_state_def same_counts_def persisted_stats_def sample_tracker_def
        Let_def hm_get_or_def hm_get_def MinerStats_default_def SettlementState_default_def)
  have "\<not> trims_to_empty [0x7b]" by simp
  from restart_restores_credit [OF wf flushed refl reading this, of 600 "''payouts.json''"]
  obtain u where u: "with_persistence (\<lambda>_. Inr ?p) (Some (Inr [0x7b])) 600 ''payouts.json'' = Inr u"
    "shares_of u ''w'' = shares_of ?t ''w''"
    "knows_worker ?t ''w'' \<longrightarrow> settled_shares u ''w'' = settled_shares ?t ''w''" by blast
  have "shares_of ?t = shares_of sample_tracker" "settled_shares ?t = settled_shares sample_tracker"
    "knows_worker ?t = knows_worker sample_tracker"
    by (simp_all add: shares_of_def settled_shares_def knows_worker_def fun_eq_iff)
  with u sample_tracker_simps show ?thesis by auto
qed

end
