(* ===== verification/Pool_Run.thy ===== *)
theory Pool_Run
  imports Pool_Server Payout_Durability
begin

text \<open>
  The pool server as it runs, \<open>zcash-pool-server/src/server.rs\<close>: its construction, the work of the
  periodic tasks, and all of it as one step relation.  The main loop handles one session message or
  template at a time; the connection tasks, the periodic tasks, the job declaration server and the
  control endpoint run beside it, so they may act between the parts of a share's handling.
\<close>

section \<open>Construction\<close>

text \<open>
  \<open>show_f64\<close>, \<open>show_addr\<close> and \<open>show_io\<close> format a number, an address and an I/O error, \<open>contents\<close> is the
  payout state file, \<open>noise\<close> the failure of setting up the Noise key, if any.  The job declaration server, the
  relay and logging are left out.
\<close>

definition with_template_provider ::
  "(f64 \<Rightarrow> string) \<Rightarrow> (SocketAddr \<Rightarrow> string) \<Rightarrow> (io_error \<Rightarrow> string) \<Rightarrow> from_json \<Rightarrow> (io_error + bytes) option \<Rightarrow> string option
    \<Rightarrow> PoolConfig \<Rightarrow> PoolError + PoolServer" where
  "with_template_provider show_f64 show_addr show_io from_str contents noise config =
     bindR (map_err (\<lambda>e. PoolConfigError (show_config_error show_f64 show_addr e)) (config_validate config)) (\<lambda>_.
     bindR (case pc_payout_state_path config of
              Some path \<Rightarrow> map_err (\<lambda>e. PoolConfigError (''Failed to load payout state: '' @ show_io e))
                (with_persistence from_str contents (from_secs 600) path)
            | None \<Rightarrow> Inr PayoutTracker_default) (\<lambda>payout_tracker.
     bindR (case (pc_noise_enabled config \<or> pc_jd_noise_enabled config, noise) of
              (True, Some e) \<Rightarrow> Inl (PoolConfigError e)
            | _ \<Rightarrow> Inr ()) (\<lambda>_.
     Inr \<lparr>ps_config = config, ps_distributor = JobDistributor_new,
       ps_job_counter = 1, ps_channel_counter = 1,
       ps_detector = InMemoryDuplicateDetector_new, ps_payout = payout_tracker,
       ps_worker_hashrate = PayoutTracker_default, ps_sessions = [], ps_channels = [],
       ps_accepted_identities = {},
       ps_sequence_validator = SequenceValidator_new (pc_sequence_max_gap config) 128,
       ps_connection_tracker = ConnectionTracker_new (from_secs (unat (pc_short_lived_threshold_secs config)))
         (from_secs 300) (pc_max_short_lived_per_window config),
       ps_connection_times = []\<rparr>)))"

section \<open>Periodic tasks\<close>

text \<open>The share-independent retarget of every channel: the new targets and the channels.\<close>

fun idle_retargets ::
  "(u32 \<Rightarrow> instant \<times> instant) \<Rightarrow> (u32, Channel) hash_map \<Rightarrow> ((u32 \<times> bytes) list \<times> (u32, Channel) hash_map) outcome" where
  "idle_retargets clk [] = Returns ([], [])"
| "idle_retargets clk ((channel_id, channel) # rest) =
     (case idle_retarget (fst (clk channel_id)) (snd (clk channel_id)) channel of
        Panics \<Rightarrow> Panics
      | Returns (channel, r) \<Rightarrow>
          (case idle_retargets clk rest of
             Panics \<Rightarrow> Panics
           | Returns (retargets, channels) \<Rightarrow>
               Returns ((if r \<noteq> None then [(channel_id, channel_current_target channel)] else []) @ retargets,
                 (channel_id, channel) # channels)))"

text \<open>
  One tick of the statistics task: stale miners, windows, the state file, pruning into the archive,
  the retargets.  The result lists the targets sent; metrics are left out.  Archiving happens when an
  archive or a state path is configured.
\<close>

definition prune_archive_path :: "PoolConfig \<Rightarrow> bool" where
  "prune_archive_path config \<longleftrightarrow> pc_payout_archive_path config \<noteq> None \<or> pc_payout_state_path config \<noteq> None"

definition stats_tick ::
  "to_json \<Rightarrow> (bytes \<Rightarrow> io_error + unit) \<Rightarrow> archive_io \<Rightarrow> (nat \<Rightarrow> instant) \<Rightarrow> int \<Rightarrow> int \<Rightarrow> (u32 \<Rightarrow> instant \<times> instant)
    \<Rightarrow> PoolServer \<Rightarrow> ((u32 \<times> bytes) list \<times> PoolServer) outcome" where
  "stats_tick to_vec_pretty atomic_write io clk sys_now sys_now' clks self =
     (let payout = snd (cleanup_stale_miners (clk 0) (ps_payout self) (from_secs 1800));
          payout = rotate_window_if_needed (clk 1) payout;
          hashrate = snd (cleanup_stale_miners (clk 2) (ps_worker_hashrate self) (from_secs 1800));
          hashrate = rotate_window_if_needed (clk 3) hashrate;
          (_, payout, _) = flush to_vec_pretty atomic_write payout;
          payout = (if prune_archive_path (ps_config self)
            then fst (snd (prune_settled_miners io sys_now sys_now' payout
              (pc_payout_settlement_retention (ps_config self)) []))
            else payout) in
      case idle_retargets clks (ps_channels self) of
        Panics \<Rightarrow> Panics
      | Returns (retargets, channels) \<Rightarrow>
          Returns (filter (\<lambda>(c, _). c \<in> set (ps_sessions self)) retargets,
            self\<lparr>ps_payout := payout, ps_worker_hashrate := hashrate, ps_channels := channels\<rparr>))"

definition security_cleanup :: "instant \<Rightarrow> instant \<Rightarrow> PoolServer \<Rightarrow> PoolServer" where
  "security_cleanup now now' self =
     self\<lparr>ps_connection_tracker := connection_cleanup now (from_secs 3600) (ps_connection_tracker self),
       ps_sequence_validator := cleanup_stale now' (from_secs 3600) (ps_sequence_validator self)\<rparr>"

section \<open>The handlers keep the invariant\<close>

lemma server_wf_channels:
  "server_wf s \<Longrightarrow> channels_wf m \<Longrightarrow> server_wf (s\<lparr>ps_channels := m\<rparr>)"
  by (simp add: server_wf_def)

lemma channels_wf_remove: "channels_wf m \<Longrightarrow> channels_wf (hm_remove c m)"
  by (auto simp: channels_wf_def)

lemma handle_identity_declared_wf:
  assumes "server_wf s"
  shows "server_wf (handle_identity_declared c name s)"
proof -
  have "channel_wf (ch\<lparr>ch_worker_identity := i\<rparr>) = channel_wf ch" for ch i by (simp add: channel_wf_def)
  then show ?thesis using assms
    by (auto simp: handle_identity_declared_def server_wf_def intro!: channels_wf_insert dest: channels_wf_get
        split: option.split IdentityDecision.split)
qed

lemma session_ended_wf: "server_wf s \<Longrightarrow> server_wf (session_ended now c err s)"
  by (auto simp: session_ended_def server_wf_def Let_def channels_wf_remove split: option.split)

text \<open>Creating a job and filing it with its channel.\<close>

lemma file_job_wf:
  assumes "server_wf s" "hm_get (ps_channels s) c = Some ch"
    "create_job_with_template counter (ps_distributor s) ch clean = (Some (job, t), counter')"
  shows "channels_wf (hm_insert c (add_job now job t clean' ch) (ps_channels s))"
proof -
  have ch: "channel_wf ch" using assms(1,2) by (auto simp: server_wf_def dest: channels_wf_get)
  have "jd_current_template (ps_distributor s) = Some t"
    using assms(3) by (auto simp: create_job_with_template_def next_job_id_def split: option.splits)
  then have "template_wf t" using assms(1) by (simp add: server_wf_def)
  then have "job_of_template t job" by (rule create_job_of_template [OF ch assms(3)])
  then show ?thesis using assms(1) by (auto simp: server_wf_def intro!: channels_wf_insert add_job_wf ch)
qed

lemma detector_inv:
  "im_inv d \<Longrightarrow> im_inv (im_start_job d j)" "im_inv d \<Longrightarrow> im_inv (im_prune_inactive d js)"
  using in_memory.start_inv in_memory.prune_inv by (auto simp: in_memory_detector_def)

lemma server_wf_detector: "server_wf s \<Longrightarrow> im_inv (ps_detector s)"
  by (simp add: server_wf_def)

lemma server_wf_filed:
  "server_wf s \<Longrightarrow> channels_wf m \<Longrightarrow> server_wf (s\<lparr>ps_job_counter := n, ps_channels := m\<rparr>)"
  "server_wf s \<Longrightarrow> channels_wf m \<Longrightarrow> im_inv d \<Longrightarrow>
    server_wf (s\<lparr>ps_job_counter := n, ps_detector := d, ps_channels := m\<rparr>)"
  by (simp_all add: server_wf_def)

lemma initial_job_wf: "server_wf s \<Longrightarrow> server_wf (snd (initial_job now c s))"
  by (auto simp: initial_job_def intro!: server_wf_filed file_job_wf detector_inv server_wf_detector
      split: option.split prod.split)

lemma give_job_wf: "server_wf s \<Longrightarrow> server_wf (snd (give_job now clean c s))"
  by (auto simp: give_job_def intro!: server_wf_filed file_job_wf split: option.split prod.split)

lemma give_jobs_wf: "server_wf s \<Longrightarrow> server_wf (snd (give_jobs now clean cs s))"
proof (induction cs arbitrary: s)
  case (Cons c cs)
  then show ?case using give_job_wf [of s "now c" clean c] by (auto simp: split_beta Let_def)
qed simp

lemma drop_sessions_wf: "server_wf s \<Longrightarrow> server_wf (fold drop_session cs s)"
proof (induction cs arbitrary: s)
  case (Cons c cs)
  have "server_wf (drop_session c s)"
    using Cons.prems by (simp add: drop_session_def server_wf_def channels_wf_remove)
  then show ?case using Cons.IH by simp
qed simp

lemma broadcast_jobs_wf: "server_wf s \<Longrightarrow> server_wf (broadcast_jobs now sent clean s)"
  using give_jobs_wf [of s now clean "ps_sessions s"]
  by (auto simp: broadcast_jobs_def split_beta Let_def intro: drop_sessions_wf)

lemma handle_new_template_wf:
  assumes "server_wf s" "template_wf t"
  shows "server_wf (handle_new_template now sent t s)"
proof -
  obtain b d where d: "update_template t (ps_distributor s) = (b, d)" by fastforce
  have "server_wf (s\<lparr>ps_distributor := d\<rparr>)"
    using assms d by (auto simp: server_wf_def update_template_def Let_def)
  then have "server_wf (broadcast_jobs now sent b (s\<lparr>ps_distributor := d\<rparr>))" by (rule broadcast_jobs_wf)
  then show ?thesis by (auto simp: handle_new_template_def d Let_def server_wf_def detector_inv)
qed

lemma handle_new_connection_total:
  assumes "server_wf s"
  obtains r s' where "handle_new_connection clk addr s = Returns (r, s')" "server_wf s'" "\<not> isl r"
proof -
  let ?len = "pc_nonce_1_len (ps_config s)"
  have cfg: "unat ?len \<le> 31" "f64_pos (pc_initial_difficulty (ps_config s))"
    using assms config_validate_ok by (auto simp: server_wf_def)
  obtain at0 s0 where t: "track_connection (clk 0) addr s = (at0, s0)" by fastforce
  have s0: "server_wf s0" "ps_config s0 = ps_config s"
    using t assms by (auto simp: track_connection_def server_wf_def split_beta Let_def split: if_splits)
  obtain c n where c: "next_id (ps_channel_counter s0) = (c, n)" by fastforce
  have "?len \<le> 32" using cfg(1) by (simp add: word_le_nat_alt)
  then obtain nonce_1 where nonce: "generate_nonce_1 c ?len = Some nonce_1" "length nonce_1 \<le> 32"
    using cfg(1) by (simp add: generate_nonce_1_eq)
  let ?cfg = "connection_vardiff (ps_config s)"
  have "vc_initial_difficulty ?cfg \<noteq> NaN" using cfg(2) by (auto simp: connection_vardiff_def f64_pos_def)
  from new_with_id_wf [OF this, of "clk 1" "clk 2" c nonce_1] nonce(2)
  obtain ch where ch: "new_with_id (clk 1) (clk 2) c nonce_1 ?cfg = Returns (Some ch)" "channel_wf ch"
    by (auto split: option.splits)
  let ?s1 = "s0\<lparr>ps_channel_counter := n, ps_sessions := c # filter (\<lambda>i. i \<noteq> c) (ps_sessions s0),
    ps_channels := hm_insert c ch (ps_channels s0),
    ps_connection_times := hm_insert c (at0, addr) (ps_connection_times s0)\<rparr>"
  have s1: "server_wf ?s1" using s0(1) ch(2) by (simp add: server_wf_def channels_wf_insert)
  have "handle_new_connection clk addr s =
      Returns (Inr (c, fst (initial_job (clk 3) c ?s1)), snd (initial_job (clk 3) c ?s1))"
    using nonce(1) ch(1)
    by (simp add: handle_new_connection_def t c s0(2) Let_def split_beta del: One_nat_def)
  then show ?thesis by (rule that) (simp_all add: initial_job_wf s1)
qed

lemma idle_retargets_total:
  "\<forall>c ch. (c, ch) \<in> set m \<longrightarrow> channel_wf ch \<Longrightarrow> \<exists>ts m'. idle_retargets clk m = Returns (ts, m')
    \<and> map fst m' = map fst m \<and> (\<forall>c ch. (c, ch) \<in> set m' \<longrightarrow> channel_wf ch)"
proof (induction clk m rule: idle_retargets.induct)
  case (2 clk c ch rest)
  obtain ch' r where ch': "idle_retarget (fst (clk c)) (snd (clk c)) ch = Returns (ch', r)" "channel_wf ch'"
    by (rule idle_retarget_wf [of ch]) (use 2(2) in auto)
  obtain ts m' where "idle_retargets clk rest = Returns (ts, m')" "map fst m' = map fst rest"
    "\<forall>c ch. (c, ch) \<in> set m' \<longrightarrow> channel_wf ch"
    using 2(1) [OF ch'(1) refl] 2(2) by auto
  with ch' show ?case by auto
qed simp

lemma idle_retargets_wf:
  assumes "channels_wf m"
  obtains ts m' where "idle_retargets clk m = Returns (ts, m')" "channels_wf m'"
proof -
  have "\<forall>c ch. (c, ch) \<in> set m \<longrightarrow> channel_wf ch"
    using assms by (auto simp: channels_wf_def dest: hm_get_SomeI)
  from idle_retargets_total [OF this] obtain ts m' where m': "idle_retargets clk m = Returns (ts, m')"
    "map fst m' = map fst m" "\<forall>c ch. (c, ch) \<in> set m' \<longrightarrow> channel_wf ch" by blast
  then have "channels_wf m'"
    using assms by (auto simp: channels_wf_def hm_wf_def dest: hm_get_SomeD)
  with m'(1) show ?thesis by (rule that)
qed

section \<open>Operations on the payouts\<close>

lemma seen_solutions_same:
  "pt_seen_solutions (reset_window t) = pt_seen_solutions t"
  "pt_seen_solutions (rotate_window_if_needed now t) = pt_seen_solutions t"
  "pt_seen_solutions (remove_miner t m) = pt_seen_solutions t"
  "pt_seen_solutions (snd (cleanup_stale_miners now t idle)) = pt_seen_solutions t"
  "pt_seen_solutions (snd (mark_miner_settled sys t m n r)) = pt_seen_solutions t"
  "pt_seen_solutions (fst (snd (prune_settled_miners io sys sys' t retention arch))) = pt_seen_solutions t"
  "pt_seen_solutions (fst (snd (flush to_vec wr t))) = pt_seen_solutions t"
  by (auto simp: reset_window_def rotate_window_if_needed_def remove_miner_def cleanup_stale_miners_def
      cleanup_persisted_def cleanup_volatile_def mark_miner_settled_def settle_write_fields
      prune_settled_miners_def prune_commit_def fold_remove_record_rest flush_def Let_def split_beta
      split: option.split sum.split)

lemma apply_op_total:
  assumes "bs_inv (pt_seen_solutions t)"
  obtains t' where "apply_op sha256 x t = Returns t'" "bs_inv (pt_seen_solutions t')"
proof (cases x)
  case (OpRecordOnce now sys m d sol)
  obtain b t' where "try_record_share_once sha256 now sys t m d sol = Returns (b, t')"
    "bs_inv (pt_seen_solutions t')" using try_record_share_once_shares [OF assms] by metis
  then show ?thesis using OpRecordOnce by (intro that) simp_all
qed (use assms that in \<open>auto simp: seen_solutions_same record_share_fields\<close>)

section \<open>The running server\<close>

text \<open>Where the main loop is: between messages, or within the handling of a share, before the validation
  or before the crediting.\<close>

datatype stage =
    Listening
  | Validating u32 SubmitEquihashShare NewEquihashJob BlockTemplate
  | Crediting u32 SubmitEquihashShare NewEquihashJob BlockTemplate ShareValidationResult

datatype pool_event = Tau | Replies u32 SubmitEquihashShare share_outcome

text \<open>
  The outcome of a share has the validation's error or rejection when it is not accepted.  The first
  six rules are the tasks beside the main loop; a template comes from the template provider with
  arrays of the right lengths, a share from the decoder.
\<close>

inductive pool_step ::
  "equihash_fn \<Rightarrow> sha256_fn \<Rightarrow> (bytes \<Rightarrow> u64) \<Rightarrow> PoolServer \<times> stage \<Rightarrow> pool_event \<Rightarrow> PoolServer \<times> stage \<Rightarrow> bool"
  for vf sha256 siphash where
  connect: "handle_new_connection clk addr s = Returns (r, s') \<Longrightarrow> pool_step vf sha256 siphash (s, g) Tau (s', g)"
| ended: "pool_step vf sha256 siphash (s, g) Tau (session_ended now c decryption_error s, g)"
| payout: "apply_op sha256 x (ps_payout s) = Returns t \<Longrightarrow>
    pool_step vf sha256 siphash (s, g) Tau (s\<lparr>ps_payout := t\<rparr>, g)"
| flushed: "flush to_vec wr (ps_payout s) = (r, t, written) \<Longrightarrow>
    pool_step vf sha256 siphash (s, g) Tau (s\<lparr>ps_payout := t\<rparr>, g)"
| retargeted: "idle_retargets clks (ps_channels s) = Returns (ts, m) \<Longrightarrow>
    pool_step vf sha256 siphash (s, g) Tau (s\<lparr>ps_channels := m\<rparr>, g)"
| cleaned: "pool_step vf sha256 siphash (s, g) Tau (security_cleanup now now' s, g)"
| identity: "pool_step vf sha256 siphash (s, Listening) Tau (handle_identity_declared c name s, Listening)"
| template: "template_wf t \<Longrightarrow>
    pool_step vf sha256 siphash (s, Listening) Tau (handle_new_template now' sent t s, Listening)"
| admitted: "share_wf share \<Longrightarrow> admit_submission clk c share s = (Admitted job t, s') \<Longrightarrow>
    pool_step vf sha256 siphash (s, Listening) Tau (s', Validating c share job t)"
| refused: "share_wf share \<Longrightarrow> admit_submission clk c share s = (Refused r, s') \<Longrightarrow>
    pool_step vf sha256 siphash (s, Listening) (Replies c share (reply_early alive r)) (s', Listening)"
| failed: "share_wf share \<Longrightarrow> admit_submission clk c share s = (Failed e, s') \<Longrightarrow>
    pool_step vf sha256 siphash (s, Listening)
      (Replies c share \<lparr>so_reply = None, so_error = Some e, so_set_target = None, so_block = None\<rparr>) (s', Listening)"
| invalid: "validate_share_with_job vf sha256 (in_memory_detector siphash) (ps_detector s) share job (bt_target t)
      = Returns (Inl e, d) \<Longrightarrow>
    pool_step vf sha256 siphash (s, Validating c share job t)
      (Replies c share (final_outcome alive (c \<in> set (ps_sessions s)) (Rejected RejectInvalidSolution) None None))
      (s\<lparr>ps_detector := d\<rparr>, Listening)"
| rejected: "validate_share_with_job vf sha256 (in_memory_detector siphash) (ps_detector s) share job (bt_target t)
      = Returns (Inr v, d) \<Longrightarrow> \<not> sv_accepted v \<Longrightarrow>
    pool_step vf sha256 siphash (s, Validating c share job t)
      (Replies c share (final_outcome alive (c \<in> set (ps_sessions s)) (sv_result v) None None))
      (s\<lparr>ps_detector := d\<rparr>, Listening)"
| validated: "validate_share_with_job vf sha256 (in_memory_detector siphash) (ps_detector s) share job (bt_target t)
      = Returns (Inr v, d) \<Longrightarrow> sv_accepted v \<Longrightarrow>
    pool_step vf sha256 siphash (s, Validating c share job t) Tau (s\<lparr>ps_detector := d\<rparr>, Crediting c share job t v)"
| credited: "finish_accepted sha256 clk sys_now alive c share job t v s = Returns (out, s') \<Longrightarrow>
    pool_step vf sha256 siphash (s, Crediting c share job t v) (Replies c share out) (s', Listening)"

text \<open>Runs, with the events in order.\<close>

inductive pool_run ::
  "equihash_fn \<Rightarrow> sha256_fn \<Rightarrow> (bytes \<Rightarrow> u64) \<Rightarrow> PoolServer \<times> stage \<Rightarrow> pool_event list \<Rightarrow> PoolServer \<times> stage \<Rightarrow> bool"
  for vf sha256 siphash where
  run_nil: "pool_run vf sha256 siphash x [] x"
| run_snoc: "pool_run vf sha256 siphash x es y \<Longrightarrow> pool_step vf sha256 siphash y e z \<Longrightarrow>
    pool_run vf sha256 siphash x (es @ [e]) z"

inductive_cases run_snocE: "pool_run vf sha256 siphash x (es @ [e]) z"

text \<open>The invariant of a run: the server's, and what each stage has established.\<close>

fun stage_ok :: "sha256_fn \<Rightarrow> stage \<Rightarrow> bool" where
  "stage_ok sha256 Listening \<longleftrightarrow> True"
| "stage_ok sha256 (Validating c share job t) \<longleftrightarrow> share_wf share \<and> job_of_template t job"
| "stage_ok sha256 (Crediting c share job t v) \<longleftrightarrow> share_wf share \<and> job_of_template t job \<and> sv_accepted v
     \<and> validation_ok sha256 job share (bt_target t) v"

definition run_ok :: "sha256_fn \<Rightarrow> PoolServer \<times> stage \<Rightarrow> bool" where
  "run_ok sha256 x \<longleftrightarrow> server_wf (fst x) \<and> stage_ok sha256 (snd x)"

text \<open>What a reply may say.\<close>

fun event_ok :: "sha256_fn \<Rightarrow> pool_event \<Rightarrow> bool" where
  "event_ok sha256 Tau \<longleftrightarrow> True"
| "event_ok sha256 (Replies c share out) \<longleftrightarrow>
     (case so_block out of None \<Rightarrow> True | Some (job, share', t) \<Rightarrow> share' = share \<and> found_block sha256 job share t)"

lemma server_wf_payout:
  "server_wf s \<Longrightarrow> bs_inv (pt_seen_solutions t) \<Longrightarrow> server_wf (s\<lparr>ps_payout := t\<rparr>)"
  by (simp add: server_wf_def)

lemma admitted_wf:
  assumes "admit_submission clk c share s = (a, s')" "server_wf s"
  shows "server_wf s'"
  using admit_submission_frame [of s clk c share] assms by (simp add: admission_frame_def)

lemma security_cleanup_wf: "server_wf s \<Longrightarrow> server_wf (security_cleanup now now' s)"
  by (simp add: security_cleanup_def server_wf_def)

lemma validated_wf:
  assumes "\<And>m. length (sha256 m) = 32"
    and "validate_share_with_job vf sha256 (in_memory_detector siphash) (ps_detector s) share job (bt_target t)
      = Returns (r, d)"
    and "server_wf s" "share_wf share" "job_of_template t job"
  shows "server_wf (s\<lparr>ps_detector := d\<rparr>) \<and> (\<forall>v. r = Inr v \<longrightarrow> validation_ok sha256 job share (bt_target t) v)"
proof -
  have "job_wf job" "im_inv (ps_detector s)" using assms(3,5) by (simp_all add: job_of_template_def server_wf_def)
  then obtain r' d' where "validate_share_with_job vf sha256 (in_memory_detector siphash) (ps_detector s) share job
      (bt_target t) = Returns (r', d')" "im_inv d'" "\<forall>v. r' = Inr v \<longrightarrow> validation_ok sha256 job share (bt_target t) v"
    by (rule validate_share_total [of sha256, OF assms(1) _ assms(4)])
  with assms(2,3) show ?thesis by (simp add: server_wf_def)
qed

lemma credited_wf:
  assumes "\<And>m. length (sha256 m) = 32"
    and "finish_accepted sha256 clk sys_now alive c share job t v s = Returns (out, s')"
    and "server_wf s" "stage_ok sha256 (Crediting c share job t v)"
  shows "server_wf s' \<and> event_ok sha256 (Replies c share out)"
proof -
  have ok: "validation_ok sha256 job share (bt_target t) v" "sv_accepted v" using assms(4) by simp_all
  obtain o' s'' where "finish_accepted sha256 clk sys_now alive c share job t v s = Returns (o', s'')"
    "server_wf s''" "so_error o' = None" "so_reply o' = None \<longleftrightarrow> \<not> alive"
    "so_block o' = None \<or> sv_is_block v \<and> so_block o' = Some (job, share, t)"
    "sv_is_block v \<and> still_active (clk 3) c share s \<longrightarrow> so_block o' \<noteq> None"
    "alive \<longrightarrow> (\<forall>m. shares_of (ps_payout s'') m = shares_of (ps_payout s) m +
      (if so_reply o' = Some Accepted \<and> m = label_of s c then 1 else 0))"
    by (rule finish_accepted_total [OF assms(3) ok])
  with assms validation_found_block [OF assms(1) _ _ ok] show ?thesis by auto
qed

lemma pool_step_ok:
  assumes sha: "\<And>m. length (sha256 m) = 32"
    and "pool_step vf sha256 siphash x e y" "run_ok sha256 x"
  shows "run_ok sha256 y \<and> event_ok sha256 e"
  using assms(2,3)
proof (induction rule: pool_step.induct)
  case (connect clk addr s r s' g)
  then show ?case using handle_new_connection_total [of s clk addr] by (auto simp: run_ok_def)
next
  case (payout x s t g)
  then show ?case using apply_op_total [of "ps_payout s" sha256 x]
    by (auto simp: run_ok_def server_wf_def)
next
  case (flushed to_vec wr s r t written g)
  have "pt_seen_solutions t = pt_seen_solutions (ps_payout s)"
    using seen_solutions_same(7) [of to_vec wr "ps_payout s"] flushed(1) by simp
  then show ?case using flushed(2) by (simp add: run_ok_def server_wf_def)
next
  case (retargeted clks s ts m g)
  then show ?case using idle_retargets_wf [of "ps_channels s" clks]
    by (auto simp: run_ok_def server_wf_def)
next
  case (admitted share clk c s job t s')
  then show ?case using admit_submission_Admitted(1) admitted_wf by (auto simp: run_ok_def)
next
  case (refused share clk c s r s' alive)
  then show ?case using admitted_wf by (auto simp: run_ok_def reply_early_def replied_def)
next
  case (failed share clk c s e s')
  then show ?case using admitted_wf by (auto simp: run_ok_def)
next
  case (invalid s share job t e d c alive)
  then show ?case using validated_wf [OF sha] by (auto simp: run_ok_def final_outcome_def)
next
  case (rejected s share job t v d c alive)
  then show ?case using validated_wf [OF sha] by (auto simp: run_ok_def final_outcome_def)
next
  case (validated s share job t v d c)
  then show ?case using validated_wf [OF sha] by (auto simp: run_ok_def)
next
  case (credited clk sys_now alive c share job t v s out s')
  then show ?case using credited_wf [OF sha] by (auto simp: run_ok_def)
qed (auto simp: run_ok_def session_ended_wf handle_identity_declared_wf handle_new_template_wf
    security_cleanup_wf)

lemma pool_run_ok:
  assumes sha: "\<And>m. length (sha256 m) = 32"
    and "pool_run vf sha256 siphash x es y" "run_ok sha256 x"
  shows "run_ok sha256 y \<and> (\<forall>e \<in> set es. event_ok sha256 e)"
  using assms(2,3)
  by (induction rule: pool_run.induct) (auto dest!: pool_step_ok [OF sha])

text \<open>A new server is well-formed.\<close>

lemma with_template_provider_wf:
  assumes "with_template_provider show_f64 show_addr show_io from_str contents noise config = Inr s"
  shows "server_wf s"
  using assms
  by (auto simp: with_template_provider_def bindR_eq_Inr server_wf_def channels_wf_def im_inv_def
      InMemoryDuplicateDetector_new_def JobDistributor_new_def with_persistence_def PayoutTracker_default_def
      PayoutTracker_new_def map_err_eq_Inr split: option.splits prod.splits bool.splits)

section \<open>Blocks\<close>

definition solved_header :: "NewEquihashJob \<Rightarrow> SubmitEquihashShare \<Rightarrow> bytes" where
  "solved_header job share = build_header (job\<lparr>nj_time := ss_time share\<rparr>) (nj_nonce_1 job @ ss_nonce_2 share)"

lemma found_block_nonce:
  assumes "found_block sha256 job share t"
  shows "build_nonce job (ss_nonce_2 share) = Returns (Some (nj_nonce_1 job @ ss_nonce_2 share))"
    "length (solved_header job share) = 140"
    "solved_header job share = header_serialize ((bt_header t)\<lparr>eh_time := ss_time share,
      eh_nonce := nj_nonce_1 job @ ss_nonce_2 share\<rparr>)"
proof -
  have wf: "job_wf job" using assms by (simp add: found_block_def job_of_template_def)
  then show nonce: "build_nonce job (ss_nonce_2 share) = Returns (Some (nj_nonce_1 job @ ss_nonce_2 share))"
    using assms by (simp add: job_wf_def build_nonce_wf found_block_def)
  have "length (nj_nonce_1 job @ ss_nonce_2 share) = 32" using nonce by (rule build_nonce_length)
  then show "length (solved_header job share) = 140"
    using wf length_build_header [of "job\<lparr>nj_time := ss_time share\<rparr>"]
    by (simp add: solved_header_def job_wf_def job_arrays_def)
  show "solved_header job share = header_serialize ((bt_header t)\<lparr>eh_time := ss_time share,
      eh_nonce := nj_nonce_1 job @ ss_nonce_2 share\<rparr>)"
    using assms by (simp add: solved_header_def build_header_def header_serialize_def found_block_def
        job_of_template_def)
qed

lemma found_block_bytes:
  assumes "found_block sha256 job share t"
  shows "build_block_bytes hex job share t = Returns
    (if bt_coinbase t = [] then Inl (PoolTemplateProvider ''template coinbase is empty'')
     else bindR (decode_transactions hex (bt_transactions t)) (\<lambda>txs.
       Inr (solved_header job share @ compact_bytes 1344 @ ss_solution share
         @ compact_bytes (1 + of_nat (length (bt_transactions t))) @ bt_coinbase t @ txs)))"
proof -
  have time: "\<not> ss_time share > saturating_add (nj_time job) MAX_TIME_OFFSET"
    "\<not> ss_time share < saturating_sub (nj_time job) MAX_TIME_OFFSET"
    using assms unat_less_pow [of "ss_time share"]
    by (auto simp: found_block_def time_out_of_range_iff MAX_TIME_OFFSET_def word_less_nat_alt
        unat_saturating_add unat_saturating_sub)
  have "job_arrays job" using assms by (simp add: found_block_def job_of_template_def job_wf_def)
  then show ?thesis using time found_block_nonce(1) [OF assms]
    by (simp add: build_block_bytes_def share_header_eq solved_header_def write_compact_size_eq Let_def)
qed

lemma found_block_hash:
  "sha256 (sha256 (solved_header job share @ compact_bytes 1344 @ ss_solution share)) = share_hash sha256 job share"
  by (simp add: share_hash_def solved_header_def write_compact_size_eq)

text \<open>A share that wins a block: new to the detector, in time, and solving the job below both targets.\<close>

definition winning :: "equihash_fn \<Rightarrow> sha256_fn \<Rightarrow> (bytes \<Rightarrow> u64) \<Rightarrow> InMemoryDuplicateDetector \<Rightarrow> SubmitEquihashShare
    \<Rightarrow> NewEquihashJob \<Rightarrow> BlockTemplate \<Rightarrow> bool" where
  "winning vf sha256 siphash d share job t \<longleftrightarrow>
     hash_share siphash (ss_nonce_2 share) (ss_solution share) \<notin> im_seen d (ss_job_id share)
     \<and> \<not> im_full d (ss_job_id share) \<and> \<not> time_out_of_range share job
     \<and> length (ss_nonce_2 share) = unat (nj_nonce_2_len job) \<and> share_solves vf job share
     \<and> le_to_nat (share_hash sha256 job share) \<le> le_to_nat (nj_target job)
     \<and> le_to_nat (share_hash sha256 job share) \<le> le_to_nat (bt_target t)"

lemma winning_validated:
  assumes "\<And>m. length (sha256 m) = 32" "job_of_template t job" "share_wf share" "im_inv d"
    "winning vf sha256 siphash d share job t"
  obtains v d' where "validate_share_with_job vf sha256 (in_memory_detector siphash) d share job (bt_target t)
      = Returns (Inr v, d')" "sv_accepted v" "sv_is_block v"
proof -
  have wf: "job_wf job" "length (bt_target t) = 32" using assms(2) by (simp_all add: job_of_template_def template_wf_def)
  have "is_met_by (bt_target t) (share_hash sha256 job share)"
    using assms(1,5) wf(2) by (simp add: is_met_by_iff share_hash_def winning_def)
  moreover have "share_preflight vf sha256 (in_memory_detector siphash) d share job =
      Returns (ValidSolution (share_hash sha256 job share))"
    using assms(5) by (simp add: share_preflight_eq [of sha256, OF assms(1) wf(1) assms(3)] winning_def
        in_memory.is_seen_iff [OF assms(4)])
  moreover have "\<not> fst (dd_check_and_record (in_memory_detector siphash) d (ss_job_id share) (ss_nonce_2 share)
      (ss_solution share))"
    using assms(5) by (simp add: in_memory.record_answer [OF assms(4)] winning_def)
  ultimately show ?thesis
    using that by (auto simp: validate_share_with_job_def share_finish_def split_beta Let_def)
qed

lemma winning_handled:
  assumes "\<And>m. length (sha256 m) = 32" and "server_wf s" "share_wf share"
    and "admit_submission clk c share s = (Admitted job t, s1)"
    and "winning vf sha256 siphash (ps_detector s1) share job t" "still_active (clk 3) c share s1"
  shows "\<exists>out s'. handle_share_submission vf sha256 siphash clk sys_now alive c share s = Returns (out, s')
    \<and> so_block out = Some (job, share, t)"
proof -
  have job: "job_of_template t job" by (rule admit_submission_Admitted(1) [OF assms(4,2)])
  have wf1: "server_wf s1" by (rule admitted_wf [OF assms(4,2)])
  obtain v d where v: "validate_share_with_job vf sha256 (in_memory_detector siphash) (ps_detector s1) share job
      (bt_target t) = Returns (Inr v, d)" "sv_accepted v" "sv_is_block v"
    by (rule winning_validated [of sha256, OF assms(1) job assms(3) server_wf_detector [OF wf1] assms(5)])
  let ?s2 = "s1\<lparr>ps_detector := d\<rparr>"
  have s2: "server_wf ?s2" "validation_ok sha256 job share (bt_target t) v"
    using validated_wf [of sha256, OF assms(1) v(1) wf1 assms(3) job] by simp_all
  have "still_active (clk 3) c share ?s2" using assms(6) by (simp add: still_active_def)
  then obtain out s' where "finish_accepted sha256 clk sys_now alive c share job t v ?s2 = Returns (out, s')"
    "so_block out = Some (job, share, t)"
    using finish_accepted_total [OF s2 v(2), of clk sys_now alive c] v(3) by (metis option.distinct(1))
  then show ?thesis using assms(4) v by (simp add: handle_share_submission_def Let_def)
qed

text \<open>Handling a share without interruption is a run.\<close>

lemma handle_share_run:
  assumes "share_wf share" "handle_share_submission vf sha256 siphash clk sys_now alive c share s = Returns (out, s')"
  shows "\<exists>es. pool_run vf sha256 siphash (s, Listening) (es @ [Replies c share out]) (s', Listening)"
proof -
  let ?run = "pool_run vf sha256 siphash" and ?step = "pool_step vf sha256 siphash"
  have one: "?run (s, Listening) ([] @ [e]) y" if "?step (s, Listening) e y" for e y
    using run_nil that by (rule run_snoc)
  obtain a s1 where a: "admit_submission clk c share s = (a, s1)" by fastforce
  show ?thesis
  proof (cases a)
    case (Refused r)
    then have "?step (s, Listening) (Replies c share out) (s', Listening)"
      using assms a refused [OF assms(1), of clk c s r s1 vf sha256 siphash alive]
      by (auto simp: handle_share_submission_def)
    then show ?thesis by (blast dest: one)
  next
    case (Failed e)
    then have "?step (s, Listening) (Replies c share out) (s', Listening)"
      using assms a failed [OF assms(1), of clk c s e s1 vf sha256 siphash]
      by (auto simp: handle_share_submission_def)
    then show ?thesis by (blast dest: one)
  next
    case (Admitted job t)
    have run1: "?run (s, Listening) ([] @ [Tau]) (s1, Validating c share job t)"
      by (rule one) (use admitted assms(1) a Admitted in blast)
    obtain r d where r: "validate_share_with_job vf sha256 (in_memory_detector siphash) (ps_detector s1) share job
        (bt_target t) = Returns (r, d)"
      using assms(2) a Admitted by (auto simp: handle_share_submission_def split: outcome.splits prod.splits)
    show ?thesis
    proof (cases "\<exists>v. r = Inr v \<and> sv_accepted v")
      case False
      then have "?step (s1, Validating c share job t) (Replies c share out) (s', Listening)"
        using assms(2) a Admitted r invalid [of vf sha256 siphash s1 share job t _ d c alive]
          rejected [of vf sha256 siphash s1 share job t _ d c alive]
        by (cases r) (auto simp: handle_share_submission_def Let_def)
      with run1 show ?thesis by (blast intro: run_snoc)
    next
      case True
      then obtain v where v: "r = Inr v" "sv_accepted v" by blast
      have "?step (s1, Validating c share job t) Tau (s1\<lparr>ps_detector := d\<rparr>, Crediting c share job t v)"
        using r v by (blast intro: validated)
      moreover have "?step (s1\<lparr>ps_detector := d\<rparr>, Crediting c share job t v) (Replies c share out) (s', Listening)"
        using assms(2) a Admitted r v by (intro credited) (simp add: handle_share_submission_def Let_def)
      ultimately show ?thesis using run1 by (blast intro: run_snoc)
    qed
  qed
qed

section \<open>A server with one channel and one job\<close>

definition sample_server :: PoolServer where
  "sample_server =
     \<lparr>ps_config = PoolConfig_default\<lparr>pc_sequence_validation_enabled := False\<rparr>,
      ps_distributor = \<lparr>jd_current_template = Some sample_template, jd_prev_hash = None\<rparr>,
      ps_job_counter = 4, ps_channel_counter = 2, ps_detector = InMemoryDuplicateDetector_new,
      ps_payout = PayoutTracker_default, ps_worker_hashrate = PayoutTracker_default, ps_sessions = [1],
      ps_channels = [(1, sample_channel\<lparr>ch_jobs := [(3, \<lparr>cj_job_id = 3, cj_job = sample_job 3,
        cj_template = sample_template, cj_active = True, cj_created_at = 0\<rparr>)]\<rparr>)],
      ps_accepted_identities = {}, ps_sequence_validator = SequenceValidator_default,
      ps_connection_tracker = ConnectionTracker_default, ps_connection_times = []\<rparr>"

lemma sample_job_of_template: "job_of_template sample_template (sample_job 3)"
  using sample_wf(1) [of 3]
  by (simp add: job_of_template_def template_wf_def sample_template_header_wf)
    (simp add: sample_template_def sample_job_def)

lemma sample_server_wf: "server_wf sample_server"
proof -
  let ?cj = "\<lparr>cj_job_id = 3, cj_job = sample_job 3, cj_template = sample_template, cj_active = True,
    cj_created_at = 0\<rparr>"
  have "jobs_wf [(3, ?cj)]"
    using sample_job_of_template by (simp add: jobs_wf_def hm_wf_def hm_get_def) (simp add: sample_job_def)
  then have "channel_wf (sample_channel\<lparr>ch_jobs := [(3, ?cj)]\<rparr>)"
    using sample_channel_wf by (simp add: channel_wf_def)
  moreover have "config_validate (PoolConfig_default\<lparr>pc_sequence_validation_enabled := False\<rparr>) = Inr ()"
    by (simp add: config_validate_def PoolConfig_default_def f64_le_def)
  moreover have "template_wf sample_template" using sample_job_of_template by (simp add: job_of_template_def)
  ultimately show ?thesis
    by (auto simp: sample_server_def server_wf_def channels_wf_def hm_wf_def hm_get_def im_inv_def
        InMemoryDuplicateDetector_new_def PayoutTracker_default_def PayoutTracker_new_def)
qed

lemma sample_admitted_parts:
  obtains s0 s1 ch cj where "check_share_sequence 0 1 (sample_share 5) sample_server = (None, s0)"
    "check_share_rate 0 1 s0 = (True, s1)" "hm_get (ps_channels s1) 1 = Some ch"
    "is_job_active 0 ch (ss_job_id (sample_share 5))" "get_job ch (ss_job_id (sample_share 5)) = Some cj"
    "cj_job cj = sample_job 3" "cj_template cj = sample_template" "ps_detector s1 = InMemoryDuplicateDetector_new"
proof -
  have "rate_inv (for_shares 0)" "rl_last_refill (for_shares 0) = 0" "0 < whole_tokens (for_shares 0)"
    using f64_of_nat_exact [of 100]
    by (simp_all add: for_shares_def RateLimiter_new_inv) (simp_all add: RateLimiter_new_def whole_tokens_def)
  then have rate: "is_allowed (fst (rate_check 0 (for_shares 0)))"
    by (simp add: rate_check_same_instant is_allowed_def)
  let ?s0 = "snd (check_share_sequence 0 1 (sample_share 5) sample_server)"
  let ?s1 = "snd (check_share_rate 0 1 ?s0)"
  let ?ch = "the (hm_get (ps_channels ?s1) 1)"
  show ?thesis
    by (rule that [of ?s0 ?s1 ?ch "the (get_job ?ch (ss_job_id (sample_share 5)))"])
      (use rate in \<open>simp_all add: check_share_sequence_def check_share_rate_def
        sample_server_def hm_get_def hm_insert_def check_rate_limit_def split_beta Let_def
        sample_channel_def is_job_active_def get_job_def sample_share_def DEFAULT_JOB_TTL_def
        from_secs_def NANOS_PER_SEC_def\<close>)
qed

lemma sample_admitted:
  obtains s1 where "admit_submission (\<lambda>_. 0) 1 (sample_share 5) sample_server =
      (Admitted (sample_job 3) sample_template, s1)" "still_active 0 1 (sample_share 5) s1"
    "ps_detector s1 = InMemoryDuplicateDetector_new"
proof -
  obtain s0 s1 ch cj where s: "check_share_sequence 0 1 (sample_share 5) sample_server = (None, s0)"
    "check_share_rate 0 1 s0 = (True, s1)" "hm_get (ps_channels s1) 1 = Some ch"
    "is_job_active 0 ch (ss_job_id (sample_share 5))" "get_job ch (ss_job_id (sample_share 5)) = Some cj"
    "cj_job cj = sample_job 3" "cj_template cj = sample_template" "ps_detector s1 = InMemoryDuplicateDetector_new"
    by (rule sample_admitted_parts)
  then show ?thesis by (intro that [of s1]) (simp_all add: admit_submission_def look_up_job_def still_active_def)
qed

lemma sample_winning:
  "winning (\<lambda>_ _ _ _ _. Inr ()) (\<lambda>_. replicate 32 0) sample_siphash InMemoryDuplicateDetector_new
     (sample_share 5) (sample_job 3) sample_template"
  by (simp add: winning_def im_seen_def im_full_def InMemoryDuplicateDetector_new_def hm_get_or_def
      MAX_SHARES_PER_JOB_def share_solves_def share_hash_def Let_def time_out_of_range_iff)
    (simp add: sample_share_def sample_job_def)

lemma sample_handled:
  obtains out s' where "handle_share_submission (\<lambda>_ _ _ _ _. Inr ()) (\<lambda>_. replicate 32 0) sample_siphash (\<lambda>_. 0) 0
      True 1 (sample_share 5) sample_server = Returns (out, s')"
    "so_block out = Some (sample_job 3, sample_share 5, sample_template)"
proof -
  obtain s1 where s1: "admit_submission (\<lambda>_. 0) 1 (sample_share 5) sample_server =
      (Admitted (sample_job 3) sample_template, s1)" "still_active 0 1 (sample_share 5) s1"
    "ps_detector s1 = InMemoryDuplicateDetector_new" by (rule sample_admitted)
  have "\<exists>out s'. handle_share_submission (\<lambda>_ _ _ _ _. Inr ()) (\<lambda>_. replicate 32 0) sample_siphash (\<lambda>_. 0) 0
      True 1 (sample_share 5) sample_server = Returns (out, s')
    \<and> so_block out = Some (sample_job 3, sample_share 5, sample_template)"
    by (rule winning_handled [where ?sha256.0 = "\<lambda>_. replicate 32 0", OF _ sample_server_wf sample_wf(2) s1(1)])
      (use s1(2,3) sample_winning in simp_all)
  then show ?thesis using that by blast
qed

section \<open>Claims\<close>

text \<open>
  C1.  The running server never panics.  From a server the constructor returns, whatever connections,
  disconnections, identities, templates, shares, settlements, credits of the job declaration server
  and periodic work follow, interleaved in any way with the parts of a share's handling, no further
  operation panics: neither opening a connection, nor handling, validating or crediting a share, nor
  the retargeting of idle channels, nor any operation on the payouts.
\<close>

theorem pool_never_panics:
  assumes "\<And>m. length (sha256 m) = 32"
    and "with_template_provider show_f64 show_addr show_io from_str contents noise config = Inr s0"
    and "pool_run vf sha256 siphash (s0, Listening) es (s, g)"
  shows "handle_new_connection clk addr s \<noteq> Panics \<and> idle_retargets clks (ps_channels s) \<noteq> Panics
    \<and> apply_op sha256 x (ps_payout s) \<noteq> Panics
    \<and> (share_wf share \<longrightarrow> handle_share_submission vf sha256 siphash clk sys_now alive c share s \<noteq> Panics)
    \<and> (case g of Listening \<Rightarrow> True
       | Validating c share job t \<Rightarrow> validate_share_with_job vf sha256 (in_memory_detector siphash)
           (ps_detector s) share job (bt_target t) \<noteq> Panics
       | Crediting c share job t v \<Rightarrow> finish_accepted sha256 clk sys_now alive c share job t v s \<noteq> Panics)"
proof -
  have ok: "server_wf s" "stage_ok sha256 g"
    using pool_run_ok [OF assms(1,3)] with_template_provider_wf [OF assms(2)] by (simp_all add: run_ok_def)
  have "handle_new_connection clk addr s \<noteq> Panics"
    by (rule handle_new_connection_total [OF ok(1), of clk addr]) simp
  moreover have "idle_retargets clks (ps_channels s) \<noteq> Panics"
    by (rule idle_retargets_wf [of "ps_channels s" clks]) (use ok(1) in \<open>simp_all add: server_wf_def\<close>)
  moreover have "apply_op sha256 x (ps_payout s) \<noteq> Panics"
    by (rule apply_op_total [of "ps_payout s" sha256 x]) (use ok(1) in \<open>simp_all add: server_wf_def\<close>)
  moreover have "handle_share_submission vf sha256 siphash clk sys_now alive c share s \<noteq> Panics" if "share_wf share"
    by (rule handle_share_total [of sha256, OF assms(1) ok(1) that, of vf siphash clk sys_now alive c]) simp
  moreover have "validate_share_with_job vf sha256 (in_memory_detector siphash) (ps_detector s) share job
      (bt_target t) \<noteq> Panics" if "g = Validating c share job t" for c share job t
    by (rule validate_share_total [of sha256, OF assms(1), of job share "ps_detector s" vf siphash "bt_target t"])
      (use ok that in \<open>simp_all add: server_wf_def job_of_template_def\<close>)
  moreover have "finish_accepted sha256 clk sys_now alive c share job t v s \<noteq> Panics"
    if "g = Crediting c share job t v" for c share job t v
    by (rule finish_accepted_total [of s sha256 job share t v clk sys_now alive c]) (use ok that in simp_all)
  ultimately show ?thesis by (auto split: stage.split)
qed

theorem pool_never_panics_witness:
  "\<exists>s0. with_template_provider (\<lambda>_. []) (\<lambda>_. []) (\<lambda>_. []) (\<lambda>_. Inl ()) None None PoolConfig_default = Inr s0
    \<and> handle_new_connection (\<lambda>_. 0) \<lparr>sa_ip = V4 0x7F000001, sa_port = 1\<rparr> s0 \<noteq> Panics"
proof -
  have "\<exists>s0. with_template_provider (\<lambda>_. []) (\<lambda>_. []) (\<lambda>_. []) (\<lambda>_. Inl ()) None None PoolConfig_default = Inr s0"
    by (cases "pc_payout_state_path PoolConfig_default";
        cases "pc_noise_enabled PoolConfig_default \<or> pc_jd_noise_enabled PoolConfig_default")
      (simp_all add: with_template_provider_def config_validate_default with_persistence_def
        load_persisted_state_def Let_def)
  then obtain s0 where s0: "with_template_provider (\<lambda>_. []) (\<lambda>_. []) (\<lambda>_. []) (\<lambda>_. Inl ()) None None PoolConfig_default = Inr s0"
    by blast
  show ?thesis
    using pool_never_panics [of "\<lambda>_. replicate 32 0", OF _ s0 run_nil] s0 by auto
qed

text \<open>
  C3.  Every block the server reports is a block of its template, and reaches the node.  In any run
  from a well-formed server, when a share is answered with a block to submit, the block belongs to
  that share; the node is asked with a block whose header is the template's with the share's time
  and nonce, whose header and solution hash at most the template's target, and whose body is the
  template's coinbase and transactions with their count; and the real submission, if made, carries
  the same block.  The template must have a coinbase and decodable transactions.
\<close>

theorem reported_blocks_are_valid:
  assumes "\<And>m. length (sha256 m) = 32" and "server_wf s0"
    and "pool_run vf sha256 siphash (s0, Listening) es y" "Replies c share out \<in> set es"
    and "so_block out = Some (job, share', t)"
    and "bt_coinbase t \<noteq> []" "decode_transactions hex (bt_transactions t) = Inr txs"
  shows "share' = share \<and> (\<exists>block r calls. submit_block hex rpc job share t =
        Returns (r, (True, hex_encode hex block) # calls)
      \<and> (calls = [] \<or> calls = [(False, hex_encode hex block)])
      \<and> take 140 block = header_serialize ((bt_header t)\<lparr>eh_time := ss_time share,
          eh_nonce := nj_nonce_1 job @ ss_nonce_2 share\<rparr>)
      \<and> le_to_nat (sha256 (sha256 (take 1487 block))) \<le> le_to_nat (bt_target t)
      \<and> drop 1487 block = compact_bytes (1 + of_nat (length (bt_transactions t))) @ bt_coinbase t @ txs)"
proof -
  have "event_ok sha256 (Replies c share out)"
    using pool_run_ok [OF assms(1,3)] assms(2,4) by (auto simp: run_ok_def)
  then have share': "share' = share" and fb: "found_block sha256 job share t" using assms(5) by simp_all
  let ?solved = "solved_header job share @ compact_bytes 1344 @ ss_solution share"
  let ?block = "?solved @ compact_bytes (1 + of_nat (length (bt_transactions t))) @ bt_coinbase t @ txs"
  have bytes: "build_block_bytes hex job share t = Returns (Inr ?block)"
    using found_block_bytes [OF fb, of hex] assms(6,7) by simp
  have prev: "eh_prev_hash (bt_header t) = nj_prev_hash job" "length (ss_solution share) = 1344"
    using fb by (simp_all add: found_block_def job_of_template_def share_wf_def SOLUTION_SIZE_def)
  have len: "length ?solved = 1487" using found_block_nonce(2) [OF fb] prev(2) by (simp add: compact_bytes_def)
  have "\<exists>r calls. submit_block hex rpc job share t = Returns (r, (True, hex_encode hex ?block) # calls)
      \<and> (calls = [] \<or> calls = [(False, hex_encode hex ?block)])"
    by (simp add: submit_block_def prev(1) bytes Let_def split: sum.split SubmitBlockResult.split)
  moreover have "take 140 ?block = solved_header job share" using found_block_nonce(2) [OF fb] by simp
  moreover have "take 1487 ?block = ?solved" using len by (metis append_eq_conv_conj)
  moreover have "drop 1487 ?block = compact_bytes (1 + of_nat (length (bt_transactions t))) @ bt_coinbase t @ txs"
    using len by (metis append_eq_conv_conj)
  moreover have "le_to_nat (share_hash sha256 job share) \<le> le_to_nat (bt_target t)"
    using fb by (simp add: found_block_def)
  ultimately show ?thesis using share' found_block_nonce(3) [OF fb] found_block_hash [of sha256 job share] by metis
qed

theorem reported_blocks_are_valid_witness:
  "\<exists>block. submit_block sample_hex (\<lambda>_ _. Inr BlockAccepted) (sample_job 3) (sample_share 5) sample_template =
      Returns (Inr (), [(True, hex_encode sample_hex block), (False, hex_encode sample_hex block)])
    \<and> drop 1487 block = [1, 1]"
proof -
  obtain out s' where h: "handle_share_submission (\<lambda>_ _ _ _ _. Inr ()) (\<lambda>_. replicate 32 0) sample_siphash (\<lambda>_. 0) 0
      True 1 (sample_share 5) sample_server = Returns (out, s')"
    "so_block out = Some (sample_job 3, sample_share 5, sample_template)" by (rule sample_handled)
  obtain es where run: "pool_run (\<lambda>_ _ _ _ _. Inr ()) (\<lambda>_. replicate 32 0) sample_siphash (sample_server, Listening)
      (es @ [Replies 1 (sample_share 5) out]) (s', Listening)"
    using handle_share_run [OF sample_wf(2) h(1)] by blast
  have tmpl: "bt_coinbase sample_template = [1]" "bt_transactions sample_template = []"
    by (simp_all add: sample_template_def)
  have "\<exists>block r calls. submit_block sample_hex (\<lambda>_ _. Inr BlockAccepted) (sample_job 3) (sample_share 5)
        sample_template = Returns (r, (True, hex_encode sample_hex block) # calls)
      \<and> (calls = [] \<or> calls = [(False, hex_encode sample_hex block)]) \<and> drop 1487 block = [1, 1]"
    using reported_blocks_are_valid [where ?sha256.0 = "\<lambda>_. replicate 32 0" and hex = sample_hex and txs = "[]" and
        rpc = "\<lambda>_ _. Inr BlockAccepted" and c = 1 and share = "sample_share 5", OF _ sample_server_wf run _ h(2)]
    by (auto simp: tmpl compact_bytes_def)
  then show ?thesis
    by (auto simp: submit_block_def Let_def split: if_splits outcome.splits sum.splits)
qed

text \<open>
  C4.  A winning share that gets to the validation is not dropped.  If a share passes the sequence
  check and the rate limit of a well-formed server and its job is active, the share is in time, the
  duplicate detector has not seen it and still has room, it solves the job with a hash below the job's
  and the template's target, and the job is still active when the share is credited, then the handler
  returns with a block to submit: the solved job, the share and the template the job was made from,
  even when the payout of the solution was already credited through the job declaration path.
\<close>

theorem winning_share_is_submitted:
  assumes "\<And>m. length (sha256 m) = 32" and "server_wf s" "share_wf share"
    and "check_share_sequence (clk 0) c share s = (None, s0)" and "check_share_rate (clk 1) c s0 = (True, s1)"
    and "hm_get (ps_channels s1) c = Some ch" and "is_job_active (clk 2) ch (ss_job_id share)"
    and "get_job ch (ss_job_id share) = Some cj"
    and "winning vf sha256 siphash (ps_detector s1) share (cj_job cj) (cj_template cj)"
    and "is_job_active (clk 3) ch (ss_job_id share)"
  shows "\<exists>out s'. handle_share_submission vf sha256 siphash clk sys_now alive c share s = Returns (out, s')
    \<and> so_block out = Some (cj_job cj, share, cj_template cj)"
proof -
  have "admit_submission clk c share s = (Admitted (cj_job cj) (cj_template cj), s1)"
    using assms(4-8) by (simp add: admit_submission_def look_up_job_def)
  moreover have "still_active (clk 3) c share s1" using assms(6,10) by (simp add: still_active_def)
  ultimately show ?thesis by (rule winning_handled [OF assms(1-3) _ assms(9)])
qed

theorem winning_share_is_submitted_witness:
  "\<exists>out s'. handle_share_submission (\<lambda>_ _ _ _ _. Inr ()) (\<lambda>_. replicate 32 0) sample_siphash (\<lambda>_. 0) 0 True 1
      (sample_share 5) sample_server = Returns (out, s')
    \<and> so_block out = Some (sample_job 3, sample_share 5, sample_template)"
proof -
  obtain s0 s1 ch cj where s: "check_share_sequence 0 1 (sample_share 5) sample_server = (None, s0)"
    "check_share_rate 0 1 s0 = (True, s1)" "hm_get (ps_channels s1) 1 = Some ch"
    "is_job_active 0 ch (ss_job_id (sample_share 5))" "get_job ch (ss_job_id (sample_share 5)) = Some cj"
    "cj_job cj = sample_job 3" "cj_template cj = sample_template" "ps_detector s1 = InMemoryDuplicateDetector_new"
    by (rule sample_admitted_parts)
  have w: "winning (\<lambda>_ _ _ _ _. Inr ()) (\<lambda>_. replicate 32 0) sample_siphash (ps_detector s1) (sample_share 5) (cj_job cj) (cj_template cj)"
    using sample_winning by (simp add: s(6-8))
  show ?thesis
    using winning_share_is_submitted [where ?sha256.0 = "\<lambda>_. replicate 32 0" and clk = "\<lambda>_. 0" and sys_now = 0 and alive = True,
        OF _ sample_server_wf sample_wf(2) s(1-5) w s(4)]
    by (simp add: s(6,7))
qed

text \<open>
  C2.  Credit follows the answer.  For any share of any channel of a well-formed server whose session
  waits for the reply, the handler returns; it answers exactly when it reports no error; and it adds
  one share to the payouts of the channel's worker if and only if it answers with acceptance, and
  changes no other worker's.
\<close>

theorem share_credited_iff_accepted:
  assumes "\<And>m. length (sha256 m) = 32" and "server_wf s" "share_wf share"
  shows "\<exists>out s'. handle_share_submission vf sha256 siphash clk sys_now True c share s = Returns (out, s')
    \<and> (so_reply out = None \<longleftrightarrow> so_error out \<noteq> None)
    \<and> (\<forall>m. shares_of (ps_payout s') m =
         shares_of (ps_payout s) m + (if so_reply out = Some Accepted \<and> m = label_of s c then 1 else 0))"
  using handle_share_total [of sha256, OF assms, of vf siphash clk sys_now True c] by metis

theorem share_credited_iff_accepted_witness:
  "\<exists>out s'. handle_share_submission (\<lambda>_ _ _ _ _. Inr ()) (\<lambda>_. replicate 32 0) sample_siphash (\<lambda>_. 0) 0 True 1
      (sample_share 5) sample_server = Returns (out, s')
    \<and> shares_of (ps_payout s') ''channel_1'' = (if so_reply out = Some Accepted then 1 else 0)"
proof -
  have "label_of sample_server 1 = ''channel_1''"
    by (simp add: label_of_def sample_server_def sample_channel_def hm_get_def resolve_worker_label_def) code_simp
  moreover have "shares_of (ps_payout sample_server) m = 0" for m
    by (simp add: sample_server_def PayoutTracker_default_def PayoutTracker_new_def shares_of_def)
  ultimately show ?thesis
    using share_credited_iff_accepted [of "\<lambda>_. replicate 32 0", OF _ sample_server_wf sample_wf(2),
        where vf = "\<lambda>_ _ _ _ _. Inr ()" and siphash = sample_siphash and clk = "\<lambda>_. 0" and sys_now = 0 and c = 1]
    by fastforce
qed

text \<open>
  C39.  The header announced to the relay is not always the header of the block.  For a block the
  server submits, the announced header is that of the submitted block if and only if the share's
  time is the time of the job: the announcement is built without the share's time, so any miner that
  rolls the time has a header announced whose hash does not meet the target.
\<close>

theorem relay_header_lacks_share_time:
  assumes "found_block sha256 job share t" "build_block_bytes hex job share t = Returns (Inr block)"
  shows "\<exists>h. relay_header job share = Returns h \<and> (h = take 140 block \<longleftrightarrow> ss_time share = nj_time job)"
proof -
  let ?nonce = "nj_nonce_1 job @ ss_nonce_2 share"
  have relay: "relay_header job share = Returns (build_header job ?nonce)"
    using found_block_nonce(1) [OF assms(1)] by (simp add: relay_header_def)
  have "take 140 block = solved_header job share"
    using assms(2) found_block_nonce(2) [OF assms(1)]
    by (auto simp: found_block_bytes [OF assms(1)] bindR_eq_Inr split: if_splits)
  moreover have "build_header job ?nonce = solved_header job share \<longleftrightarrow> ss_time share = nj_time job"
    by (auto simp: build_header_def solved_header_def u32_to_le_inject)
  ultimately show ?thesis using relay by simp
qed

theorem relay_header_lacks_share_time_witness:
  "\<exists>h block. relay_header (sample_job 3) (sample_share 5) = Returns h
    \<and> build_block_bytes sample_hex (sample_job 3) (sample_share 5) sample_template = Returns (Inr block)
    \<and> h \<noteq> take 140 block"
proof -
  have fb: "found_block (\<lambda>_. replicate 32 0) (sample_job 3) (sample_share 5) sample_template"
    using sample_job_of_template sample_wf(2) [of 5] sample_winning by (simp add: found_block_def winning_def)
  have "bt_coinbase sample_template = [1]" "bt_transactions sample_template = []"
    by (simp_all add: sample_template_def)
  then obtain block where block: "build_block_bytes sample_hex (sample_job 3) (sample_share 5) sample_template
      = Returns (Inr block)" using found_block_bytes [OF fb, of sample_hex] by simp
  have "ss_time (sample_share 5) \<noteq> nj_time (sample_job 3)" by (simp add: sample_share_def sample_job_def)
  with relay_header_lacks_share_time [OF fb block] block show ?thesis by blast
qed

end
