(* ===== verification/Jd_Messages.thy ===== *)
theory Jd_Messages
  imports Mining_Codec
begin

text \<open>
  The Job Declaration protocol of \<open>zcash-jd-server/src/messages.rs\<close> and \<open>error.rs\<close>: the
  thirteen messages, their error codes with the byte values and texts, the declaration modes and the
  error type of the server.
\<close>

section \<open>Message types and errors\<close>

definition ALLOCATE_MINING_JOB_TOKEN :: u8 where "ALLOCATE_MINING_JOB_TOKEN = 0x50"
definition ALLOCATE_MINING_JOB_TOKEN_SUCCESS :: u8 where "ALLOCATE_MINING_JOB_TOKEN_SUCCESS = 0x51"
definition SET_CUSTOM_MINING_JOB :: u8 where "SET_CUSTOM_MINING_JOB = 0x52"
definition SET_CUSTOM_MINING_JOB_SUCCESS :: u8 where "SET_CUSTOM_MINING_JOB_SUCCESS = 0x53"
definition SET_CUSTOM_MINING_JOB_ERROR :: u8 where "SET_CUSTOM_MINING_JOB_ERROR = 0x54"
definition PUSH_SOLUTION :: u8 where "PUSH_SOLUTION = 0x55"
definition SET_FULL_TEMPLATE_JOB :: u8 where "SET_FULL_TEMPLATE_JOB = 0x56"
definition SET_FULL_TEMPLATE_JOB_SUCCESS :: u8 where "SET_FULL_TEMPLATE_JOB_SUCCESS = 0x57"
definition SET_FULL_TEMPLATE_JOB_ERROR :: u8 where "SET_FULL_TEMPLATE_JOB_ERROR = 0x58"
definition GET_MISSING_TRANSACTIONS :: u8 where "GET_MISSING_TRANSACTIONS = 0x59"
definition PROVIDE_MISSING_TRANSACTIONS :: u8 where "PROVIDE_MISSING_TRANSACTIONS = 0x5A"
definition SUBMIT_SHARES_JD :: u8 where "SUBMIT_SHARES_JD = 0x5B"
definition SUBMIT_SHARES_JD_RESPONSE :: u8 where "SUBMIT_SHARES_JD_RESPONSE = 0x5C"

datatype JdServerError =
    JdIo
  | JdInvalidToken
  | JdTokenExpired
  | JdInvalidCoinbase string
  | JdInvalidMerkleRoot
  | JdStalePrevHash
  | JdChannelSend
  | JdProtocol string

text \<open>The text of an I/O error is the operating system's and is passed in.\<close>

definition show_jd_error :: "string \<Rightarrow> JdServerError \<Rightarrow> string" where
  "show_jd_error io_text e = (case e of
     JdIo \<Rightarrow> ''IO error: '' @ io_text
   | JdInvalidToken \<Rightarrow> ''Invalid token''
   | JdTokenExpired \<Rightarrow> ''Token expired''
   | JdInvalidCoinbase s \<Rightarrow> ''Invalid coinbase: '' @ s
   | JdInvalidMerkleRoot \<Rightarrow> ''Invalid merkle root''
   | JdStalePrevHash \<Rightarrow> ''Stale prev_hash''
   | JdChannelSend \<Rightarrow> ''Channel send error''
   | JdProtocol s \<Rightarrow> ''Protocol error: '' @ s)"

section \<open>Declaration modes and error codes\<close>

datatype JobDeclarationMode = CoinbaseOnly | FullTemplate

definition mode_as_u8 :: "JobDeclarationMode \<Rightarrow> u8" where
  "mode_as_u8 m = (case m of CoinbaseOnly \<Rightarrow> 0 | FullTemplate \<Rightarrow> 1)"

definition mode_from_u8 :: "u8 \<Rightarrow> JobDeclarationMode option" where
  "mode_from_u8 v = (if v = 0 then Some CoinbaseOnly else if v = 1 then Some FullTemplate else None)"

definition show_mode :: "JobDeclarationMode \<Rightarrow> string" where
  "show_mode m = (case m of CoinbaseOnly \<Rightarrow> ''CoinbaseOnly'' | FullTemplate \<Rightarrow> ''FullTemplate'')"

datatype SetCustomMiningJobErrorCode =
    CustomInvalidToken | CustomTokenExpired | CustomInvalidCoinbase | CustomCoinbaseConstraintViolation
  | CustomStalePrevHash | CustomInvalidMerkleRoot | CustomInvalidVersion | CustomInvalidBits
  | CustomServerOverloaded | CustomOther

definition custom_code_as_u8 :: "SetCustomMiningJobErrorCode \<Rightarrow> u8" where
  "custom_code_as_u8 c = (case c of CustomInvalidToken \<Rightarrow> 0x01 | CustomTokenExpired \<Rightarrow> 0x02
     | CustomInvalidCoinbase \<Rightarrow> 0x03 | CustomCoinbaseConstraintViolation \<Rightarrow> 0x04
     | CustomStalePrevHash \<Rightarrow> 0x05 | CustomInvalidMerkleRoot \<Rightarrow> 0x06 | CustomInvalidVersion \<Rightarrow> 0x07
     | CustomInvalidBits \<Rightarrow> 0x08 | CustomServerOverloaded \<Rightarrow> 0x09 | CustomOther \<Rightarrow> 0xFF)"

definition custom_code_from_u8 :: "u8 \<Rightarrow> SetCustomMiningJobErrorCode option" where
  "custom_code_from_u8 v =
     (if v = 0x01 then Some CustomInvalidToken else if v = 0x02 then Some CustomTokenExpired
      else if v = 0x03 then Some CustomInvalidCoinbase
      else if v = 0x04 then Some CustomCoinbaseConstraintViolation
      else if v = 0x05 then Some CustomStalePrevHash else if v = 0x06 then Some CustomInvalidMerkleRoot
      else if v = 0x07 then Some CustomInvalidVersion else if v = 0x08 then Some CustomInvalidBits
      else if v = 0x09 then Some CustomServerOverloaded else if v = 0xFF then Some CustomOther else None)"

definition show_custom_code :: "SetCustomMiningJobErrorCode \<Rightarrow> string" where
  "show_custom_code c = (case c of CustomInvalidToken \<Rightarrow> ''invalid token''
     | CustomTokenExpired \<Rightarrow> ''token expired'' | CustomInvalidCoinbase \<Rightarrow> ''invalid coinbase''
     | CustomCoinbaseConstraintViolation \<Rightarrow> ''coinbase constraint violation''
     | CustomStalePrevHash \<Rightarrow> ''stale previous hash'' | CustomInvalidMerkleRoot \<Rightarrow> ''invalid merkle root''
     | CustomInvalidVersion \<Rightarrow> ''invalid version'' | CustomInvalidBits \<Rightarrow> ''invalid bits''
     | CustomServerOverloaded \<Rightarrow> ''server overloaded'' | CustomOther \<Rightarrow> ''other error'')"

datatype SetFullTemplateJobErrorCode =
    FullInvalidToken | FullTokenExpired | FullInvalidCoinbase | FullCoinbaseConstraintViolation
  | FullStalePrevHash | FullInvalidMerkleRoot | FullInvalidVersion | FullInvalidBits
  | FullServerOverloaded | FullModeMismatch | FullInvalidTransactions | FullTooManyTransactions | FullOther

definition full_code_as_u8 :: "SetFullTemplateJobErrorCode \<Rightarrow> u8" where
  "full_code_as_u8 c = (case c of FullInvalidToken \<Rightarrow> 0x01 | FullTokenExpired \<Rightarrow> 0x02
     | FullInvalidCoinbase \<Rightarrow> 0x03 | FullCoinbaseConstraintViolation \<Rightarrow> 0x04 | FullStalePrevHash \<Rightarrow> 0x05
     | FullInvalidMerkleRoot \<Rightarrow> 0x06 | FullInvalidVersion \<Rightarrow> 0x07 | FullInvalidBits \<Rightarrow> 0x08
     | FullServerOverloaded \<Rightarrow> 0x09 | FullModeMismatch \<Rightarrow> 0x0A | FullInvalidTransactions \<Rightarrow> 0x0B
     | FullTooManyTransactions \<Rightarrow> 0x0C | FullOther \<Rightarrow> 0xFF)"

definition full_code_from_u8 :: "u8 \<Rightarrow> SetFullTemplateJobErrorCode option" where
  "full_code_from_u8 v =
     (if v = 0x01 then Some FullInvalidToken else if v = 0x02 then Some FullTokenExpired
      else if v = 0x03 then Some FullInvalidCoinbase else if v = 0x04 then Some FullCoinbaseConstraintViolation
      else if v = 0x05 then Some FullStalePrevHash else if v = 0x06 then Some FullInvalidMerkleRoot
      else if v = 0x07 then Some FullInvalidVersion else if v = 0x08 then Some FullInvalidBits
      else if v = 0x09 then Some FullServerOverloaded else if v = 0x0A then Some FullModeMismatch
      else if v = 0x0B then Some FullInvalidTransactions else if v = 0x0C then Some FullTooManyTransactions
      else if v = 0xFF then Some FullOther else None)"

definition show_full_code :: "SetFullTemplateJobErrorCode \<Rightarrow> string" where
  "show_full_code c = (case c of FullInvalidToken \<Rightarrow> ''invalid token''
     | FullTokenExpired \<Rightarrow> ''token expired'' | FullInvalidCoinbase \<Rightarrow> ''invalid coinbase''
     | FullCoinbaseConstraintViolation \<Rightarrow> ''coinbase constraint violation''
     | FullStalePrevHash \<Rightarrow> ''stale previous hash'' | FullInvalidMerkleRoot \<Rightarrow> ''invalid merkle root''
     | FullInvalidVersion \<Rightarrow> ''invalid version'' | FullInvalidBits \<Rightarrow> ''invalid bits''
     | FullServerOverloaded \<Rightarrow> ''server overloaded'' | FullModeMismatch \<Rightarrow> ''mode mismatch''
     | FullInvalidTransactions \<Rightarrow> ''invalid transactions''
     | FullTooManyTransactions \<Rightarrow> ''too many transactions'' | FullOther \<Rightarrow> ''other error'')"

datatype JdShareErrorCode =
    ShareNone | ShareUnknownJob | ShareStaleJob | ShareLowDifficulty | ShareBadSolution
  | ShareDuplicate | ShareChannelMismatch

definition share_code_as_u8 :: "JdShareErrorCode \<Rightarrow> u8" where
  "share_code_as_u8 c = (case c of ShareNone \<Rightarrow> 0 | ShareUnknownJob \<Rightarrow> 1 | ShareStaleJob \<Rightarrow> 2
     | ShareLowDifficulty \<Rightarrow> 3 | ShareBadSolution \<Rightarrow> 4 | ShareDuplicate \<Rightarrow> 5 | ShareChannelMismatch \<Rightarrow> 6)"

definition share_code_from_u8 :: "u8 \<Rightarrow> JdShareErrorCode option" where
  "share_code_from_u8 v =
     (if v = 0 then Some ShareNone else if v = 1 then Some ShareUnknownJob else if v = 2 then Some ShareStaleJob
      else if v = 3 then Some ShareLowDifficulty else if v = 4 then Some ShareBadSolution
      else if v = 5 then Some ShareDuplicate else if v = 6 then Some ShareChannelMismatch else None)"

definition show_share_code :: "JdShareErrorCode \<Rightarrow> string" where
  "show_share_code c = (case c of ShareNone \<Rightarrow> ''none'' | ShareUnknownJob \<Rightarrow> ''unknown job''
     | ShareStaleJob \<Rightarrow> ''stale job'' | ShareLowDifficulty \<Rightarrow> ''low difficulty''
     | ShareBadSolution \<Rightarrow> ''bad solution'' | ShareDuplicate \<Rightarrow> ''duplicate''
     | ShareChannelMismatch \<Rightarrow> ''channel mismatch'')"

lemma mode_from_as [simp]: "mode_from_u8 (mode_as_u8 m) = Some m"
  by (cases m) (simp_all add: mode_as_u8_def mode_from_u8_def)

lemma custom_code_from_as [simp]: "custom_code_from_u8 (custom_code_as_u8 c) = Some c"
  by (cases c) (simp_all add: custom_code_as_u8_def custom_code_from_u8_def)

lemma full_code_from_as [simp]: "full_code_from_u8 (full_code_as_u8 c) = Some c"
  by (cases c) (simp_all add: full_code_as_u8_def full_code_from_u8_def)

lemma share_code_from_as [simp]: "share_code_from_u8 (share_code_as_u8 c) = Some c"
  by (cases c) (simp_all add: share_code_as_u8_def share_code_from_u8_def)

section \<open>Messages\<close>

record AllocateMiningJobToken =
  amt_request_id :: u32
  amt_user_identifier :: string
  amt_requested_mode :: JobDeclarationMode

record AllocateMiningJobTokenSuccess =
  ats_request_id :: u32
  ats_mining_job_token :: bytes
  ats_coinbase_output :: bytes
  ats_coinbase_output_max_additional_size :: u32
  ats_async_mining_allowed :: bool
  ats_granted_mode :: JobDeclarationMode

record SetCustomMiningJob =
  scj_channel_id :: u32
  scj_request_id :: u32
  scj_mining_job_token :: bytes
  scj_version :: u32
  scj_prev_hash :: bytes
  scj_merkle_root :: bytes
  scj_block_commitments :: bytes
  scj_coinbase_tx :: bytes
  scj_time :: u32
  scj_bits :: u32

definition custom_validate :: "SetCustomMiningJob \<Rightarrow> SetCustomMiningJobErrorCode + unit" where
  "custom_validate self =
     (if scj_mining_job_token self = [] then Inl CustomInvalidToken
      else if scj_coinbase_tx self = [] then Inl CustomInvalidCoinbase
      else Inr ())"

definition custom_build_header :: "SetCustomMiningJob \<Rightarrow> bytes \<Rightarrow> bytes" where
  "custom_build_header self nonce =
     u32_to_le_bytes (scj_version self) @ scj_prev_hash self @ scj_merkle_root self @
     scj_block_commitments self @ u32_to_le_bytes (scj_time self) @ u32_to_le_bytes (scj_bits self) @ nonce"

record SetCustomMiningJobSuccess =
  scs_channel_id :: u32
  scs_request_id :: u32
  scs_job_id :: u32
  scs_share_target :: bytes

record SetCustomMiningJobError =
  sce_channel_id :: u32
  sce_request_id :: u32
  sce_error_code :: SetCustomMiningJobErrorCode
  sce_error_message :: string

definition custom_error :: "u32 \<Rightarrow> u32 \<Rightarrow> SetCustomMiningJobErrorCode \<Rightarrow> string \<Rightarrow> SetCustomMiningJobError" where
  "custom_error channel_id request_id error_code message =
     \<lparr>sce_channel_id = channel_id, sce_request_id = request_id, sce_error_code = error_code,
       sce_error_message = message\<rparr>"

definition custom_error_invalid_token :: "u32 \<Rightarrow> u32 \<Rightarrow> SetCustomMiningJobError" where
  "custom_error_invalid_token channel_id request_id =
     custom_error channel_id request_id CustomInvalidToken ''Invalid or unknown mining job token''"

definition custom_error_token_expired :: "u32 \<Rightarrow> u32 \<Rightarrow> SetCustomMiningJobError" where
  "custom_error_token_expired channel_id request_id =
     custom_error channel_id request_id CustomTokenExpired ''Mining job token has expired''"

definition custom_error_invalid_coinbase :: "u32 \<Rightarrow> u32 \<Rightarrow> string \<Rightarrow> SetCustomMiningJobError" where
  "custom_error_invalid_coinbase channel_id request_id reason =
     custom_error channel_id request_id CustomInvalidCoinbase reason"

record PushSolution =
  pus_channel_id :: u32
  pus_job_id :: u32
  pus_version :: u32
  pus_time :: u32
  pus_nonce :: bytes
  pus_solution :: bytes

definition validate_solution_len :: "PushSolution \<Rightarrow> bool" where
  "validate_solution_len self = True"

record SetFullTemplateJob =
  sft_channel_id :: u32
  sft_request_id :: u32
  sft_mining_job_token :: bytes
  sft_version :: u32
  sft_prev_hash :: bytes
  sft_merkle_root :: bytes
  sft_block_commitments :: bytes
  sft_coinbase_tx :: bytes
  sft_time :: u32
  sft_bits :: u32
  sft_tx_short_ids :: "bytes list"
  sft_tx_data :: "bytes list"

definition full_validate :: "SetFullTemplateJob \<Rightarrow> SetFullTemplateJobErrorCode + unit" where
  "full_validate self =
     (if sft_mining_job_token self = [] then Inl FullInvalidToken
      else if sft_coinbase_tx self = [] then Inl FullInvalidCoinbase
      else Inr ())"

record SetFullTemplateJobSuccess =
  fts_channel_id :: u32
  fts_request_id :: u32
  fts_job_id :: u32

record SetFullTemplateJobError =
  fte_channel_id :: u32
  fte_request_id :: u32
  fte_error_code :: SetFullTemplateJobErrorCode
  fte_error_message :: string

definition full_error :: "u32 \<Rightarrow> u32 \<Rightarrow> SetFullTemplateJobErrorCode \<Rightarrow> string \<Rightarrow> SetFullTemplateJobError" where
  "full_error channel_id request_id error_code message =
     \<lparr>fte_channel_id = channel_id, fte_request_id = request_id, fte_error_code = error_code,
       fte_error_message = message\<rparr>"

definition full_error_invalid_token :: "u32 \<Rightarrow> u32 \<Rightarrow> SetFullTemplateJobError" where
  "full_error_invalid_token channel_id request_id =
     full_error channel_id request_id FullInvalidToken ''Invalid or unknown mining job token''"

definition full_error_mode_mismatch :: "u32 \<Rightarrow> u32 \<Rightarrow> SetFullTemplateJobError" where
  "full_error_mode_mismatch channel_id request_id =
     full_error channel_id request_id FullModeMismatch ''Token was not granted FullTemplate mode''"

record JdShare =
  jsh_version :: u32
  jsh_time :: u32
  jsh_nonce :: bytes
  jsh_solution :: bytes

record SubmitSharesJd =
  ssj_channel_id :: u32
  ssj_request_id :: u32
  ssj_job_id :: u32
  ssj_shares :: "JdShare list"

record SubmitSharesJdResponse =
  ssr_channel_id :: u32
  ssr_request_id :: u32
  ssr_accepted :: u16
  ssr_rejected :: u16
  ssr_first_error_code :: u8

record GetMissingTransactions =
  gmt_channel_id :: u32
  gmt_request_id :: u32
  gmt_missing_tx_ids :: "bytes list"

record ProvideMissingTransactions =
  pmt_channel_id :: u32
  pmt_request_id :: u32
  pmt_transactions :: "bytes list"

end
