(* ===== verification/Jd_Token.thy ===== *)
theory Jd_Token
  imports Jd_Messages Pool_Config Difficulty
begin

text \<open>
  Mining job tokens: \<open>zcash-jd-server/src/token.rs\<close> with the configuration of
  \<open>config.rs\<close>.  A token is the allocation counter followed by sixteen random bytes, which are a
  parameter.  Each operation takes the reading of the monotonic clock it compares with; allocation
  takes one reading per pass over the map.  Every method holds the lock for its whole body except
  allocation, which releases it between the limit checks and the insertion.
\<close>

section \<open>Configuration\<close>

record JdServerConfig =
  jc_token_lifetime :: duration
  jc_coinbase_output_max_additional_size :: u32
  jc_pool_payout_script :: bytes
  jc_async_mining_allowed :: bool
  jc_max_tokens_per_client :: nat
  jc_noise_enabled :: bool
  jc_full_template_enabled :: bool
  jc_full_template_validation :: ValidationLevel
  jc_min_pool_payout :: u64
  jc_share_target :: bytes

definition DEFAULT_SHARE_DIFFICULTY :: f64 where
  "DEFAULT_SHARE_DIFFICULTY = f64_lit (1 / 1000000000)"

definition JdServerConfig_default :: JdServerConfig where
  "JdServerConfig_default = \<lparr>jc_token_lifetime = from_secs 300,
     jc_coinbase_output_max_additional_size = 256, jc_pool_payout_script = [],
     jc_async_mining_allowed = True, jc_max_tokens_per_client = 10, jc_noise_enabled = False,
     jc_full_template_enabled = False, jc_full_template_validation = LevelStandard,
     jc_min_pool_payout = 0, jc_share_target = difficulty_to_target DEFAULT_SHARE_DIFFICULTY\<rparr>"

section \<open>Tokens\<close>

record DeclaredJobInfo =
  dj_job_id :: u32
  dj_client_id :: string
  dj_mode :: JobDeclarationMode
  dj_channel_id :: u32
  dj_version :: u32
  dj_prev_hash :: bytes
  dj_merkle_root :: bytes
  dj_block_commitments :: bytes
  dj_bits :: u32
  dj_time :: u32
  dj_coinbase_tx :: bytes
  dj_share_target :: bytes

record MiningJobToken =
  mt_token :: bytes
  mt_issued_at :: instant
  mt_lifetime :: duration
  mt_client_id :: string
  mt_granted_mode :: JobDeclarationMode
  mt_job_info :: "DeclaredJobInfo option"

definition is_expired :: "instant \<Rightarrow> MiningJobToken \<Rightarrow> bool" where
  "is_expired now self \<longleftrightarrow> mt_lifetime self < duration_since now (mt_issued_at self)"

record TokenManager =
  tm_config :: JdServerConfig
  tm_tokens :: "(bytes, MiningJobToken) hash_map"
  tm_token_counter :: u64

definition TokenManager_new :: "JdServerConfig \<Rightarrow> TokenManager" where
  "TokenManager_new config = \<lparr>tm_config = config, tm_tokens = [], tm_token_counter = 1\<rparr>"

definition MAX_TOTAL_TOKENS :: nat where
  "MAX_TOTAL_TOKENS = 100000"

definition cleanup_expired :: "instant \<Rightarrow> TokenManager \<Rightarrow> TokenManager" where
  "cleanup_expired now self = self\<lparr>tm_tokens := hm_retain (\<lambda>_ t. \<not> is_expired now t) (tm_tokens self)\<rparr>"

text \<open>The limits that hold the read lock.\<close>

definition token_limits :: "instant \<Rightarrow> string \<Rightarrow> TokenManager \<Rightarrow> JdServerError + unit" where
  "token_limits now client_id self =
     (if MAX_TOTAL_TOKENS \<le> length (tm_tokens self) then
        Inl (JdProtocol ''Server at capacity: too many active tokens'')
      else
        let client_token_count =
          length (filter (\<lambda>(_, t). mt_client_id t = client_id \<and> \<not> is_expired now t) (tm_tokens self)) in
        if jc_max_tokens_per_client (tm_config self) \<le> client_token_count then
          Inl (JdProtocol (''Max tokens per client exceeded ('' @
            show_nat (jc_max_tokens_per_client (tm_config self)) @ '')''))
        else Inr ())"

text \<open>Drawing the counter, and storing the token under the write lock.\<close>

definition draw_token :: "bytes \<Rightarrow> TokenManager \<Rightarrow> bytes \<times> TokenManager" where
  "draw_token random_bytes self =
     (u64_to_le_bytes (tm_token_counter self) @ random_bytes,
      self\<lparr>tm_token_counter := tm_token_counter self + 1\<rparr>)"

definition store_token ::
  "instant \<Rightarrow> string \<Rightarrow> JobDeclarationMode \<Rightarrow> bytes \<Rightarrow> TokenManager \<Rightarrow> MiningJobToken \<times> TokenManager" where
  "store_token now client_id granted_mode token self =
     (let mining_token = \<lparr>mt_token = token, mt_issued_at = now,
        mt_lifetime = jc_token_lifetime (tm_config self), mt_client_id = client_id,
        mt_granted_mode = granted_mode, mt_job_info = None\<rparr>
      in (mining_token, self\<lparr>tm_tokens := hm_insert token mining_token (tm_tokens self)\<rparr>))"

definition allocate_token_with_mode ::
  "(nat \<Rightarrow> instant) \<Rightarrow> bytes \<Rightarrow> string \<Rightarrow> JobDeclarationMode \<Rightarrow> TokenManager
    \<Rightarrow> (JdServerError + MiningJobToken) \<times> TokenManager" where
  "allocate_token_with_mode clk random_bytes client_id granted_mode self =
     (let self = cleanup_expired (clk 0) self in
      case token_limits (clk 1) client_id self of
        Inl e \<Rightarrow> (Inl e, self)
      | Inr _ \<Rightarrow>
          let (token, self) = draw_token random_bytes self;
              (mining_token, self) = store_token (clk 2) client_id granted_mode token self
          in (Inr mining_token, self))"

definition allocate_token ::
  "(nat \<Rightarrow> instant) \<Rightarrow> bytes \<Rightarrow> string \<Rightarrow> TokenManager
    \<Rightarrow> (JdServerError + MiningJobToken) \<times> TokenManager" where
  "allocate_token clk random_bytes client_id self =
     allocate_token_with_mode clk random_bytes client_id CoinbaseOnly self"

definition validate_token :: "instant \<Rightarrow> bytes \<Rightarrow> TokenManager \<Rightarrow> JdServerError + MiningJobToken" where
  "validate_token now token self =
     bindR (ok_or JdInvalidToken (hm_get (tm_tokens self) token)) (\<lambda>mining_token.
     if is_expired now mining_token then Inl JdTokenExpired else Inr mining_token)"

definition set_job_info ::
  "instant \<Rightarrow> bytes \<Rightarrow> DeclaredJobInfo \<Rightarrow> TokenManager \<Rightarrow> (JdServerError + unit) \<times> TokenManager" where
  "set_job_info now token job_info self =
     (case hm_get (tm_tokens self) token of
        None \<Rightarrow> (Inl JdInvalidToken, self)
      | Some mining_token \<Rightarrow>
          if is_expired now mining_token then (Inl JdTokenExpired, self)
          else (Inr (), self\<lparr>tm_tokens :=
            hm_insert token (mining_token\<lparr>mt_job_info := Some job_info\<rparr>) (tm_tokens self)\<rparr>))"

definition get_job_info :: "bytes \<Rightarrow> TokenManager \<Rightarrow> JdServerError + DeclaredJobInfo" where
  "get_job_info token self =
     bindR (ok_or JdInvalidToken (hm_get (tm_tokens self) token)) (\<lambda>mining_token.
     ok_or (JdProtocol ''Job not declared'') (mt_job_info mining_token))"

definition find_job_by_id :: "instant \<Rightarrow> u32 \<Rightarrow> TokenManager \<Rightarrow> JdServerError + DeclaredJobInfo" where
  "find_job_by_id now job_id self =
     ok_or (JdProtocol (''unknown job id '' @ show_nat (unat job_id)))
       (find (\<lambda>job. dj_job_id job = job_id)
         (List.map_filter mt_job_info (filter (\<lambda>t. \<not> is_expired now t) (map snd (tm_tokens self)))))"

section \<open>Invariant\<close>

text \<open>
  Every stored token is stored under its own bytes, begins with a counter value that was drawn, and
  no two tokens share one; \<open>drawn\<close> is the number of allocations so far.
\<close>

definition entry_ok :: "nat \<Rightarrow> bytes \<times> MiningJobToken \<Rightarrow> bool" where
  "entry_ok drawn x \<longleftrightarrow> mt_token (snd x) = fst x \<and>
     (\<exists>n < drawn. take 8 (fst x) = u64_to_le_bytes (of_nat (Suc n)))"

definition tokens_wf :: "nat \<Rightarrow> TokenManager \<Rightarrow> bool" where
  "tokens_wf drawn self \<longleftrightarrow> hm_wf (tm_tokens self) \<and>
     tm_token_counter self = of_nat (Suc drawn) \<and>
     (\<forall>x \<in> set (tm_tokens self). entry_ok drawn x) \<and>
     length (tm_tokens self) \<le> MAX_TOTAL_TOKENS"

lemma tokens_wf_new: "tokens_wf 0 (TokenManager_new config)"
  by (simp add: tokens_wf_def TokenManager_new_def)

lemma set_hm_retain: "set (hm_retain P m) \<subseteq> set m"
  by (auto simp: hm_retain_def)

lemma cleanup_expired_wf:
  assumes "tokens_wf n self"
  shows "tokens_wf n (cleanup_expired now self)"
  using assms subsetD [OF set_hm_retain, of _ "\<lambda>_ t. \<not> is_expired now t" "tm_tokens self"]
    order_trans [OF length_hm_retain_le, of "tm_tokens self" MAX_TOTAL_TOKENS "\<lambda>_ t. \<not> is_expired now t"]
  unfolding tokens_wf_def cleanup_expired_def by auto

lemma fresh_token:
  assumes "tokens_wf n self" "Suc n < 2 ^ 64"
  shows "fst (draw_token r self) \<notin> fst ` set (tm_tokens self)"
proof
  assume "fst (draw_token r self) \<in> fst ` set (tm_tokens self)"
  then obtain t where t: "(fst (draw_token r self), t) \<in> set (tm_tokens self)" by auto
  then obtain m where m: "m < n" "take 8 (fst (draw_token r self)) = u64_to_le_bytes (of_nat (Suc m))"
    using assms(1) by (auto simp: tokens_wf_def entry_ok_def dest!: bspec)
  have "u64_to_le_bytes (of_nat (Suc n)) = u64_to_le_bytes (of_nat (Suc m))"
    using m(2) assms(1) by (simp add: draw_token_def tokens_wf_def)
  then have eq: "(of_nat (Suc n) :: u64) = of_nat (Suc m)" by (metis u64_from_to_le)
  have "unat (of_nat (Suc k) :: u64) = Suc k" if "k \<le> n" for k
    using that assms(2) by (simp add: unat_of_nat del: of_nat_Suc)
  from this [of n] this [of m] show False using m(1) eq by simp
qed

lemma draw_token_wf:
  assumes "tokens_wf n self"
  shows "tm_tokens (snd (draw_token r self)) = tm_tokens self"
    "tm_token_counter (snd (draw_token r self)) = of_nat (Suc (Suc n))"
    "tm_config (snd (draw_token r self)) = tm_config self"
  using assms by (simp_all add: draw_token_def tokens_wf_def)

text \<open>A successful allocation stores one token, under bytes that no stored token has.\<close>

lemma allocate_InrD:
  assumes "allocate_token_with_mode clk r client mode self = (Inr t, self')" "tokens_wf n self" "Suc n < 2 ^ 64"
  defines "m \<equiv> tm_tokens (cleanup_expired (clk 0) self)"
  shows "tm_tokens self' = m @ [(mt_token t, t)]" "mt_token t \<notin> fst ` set m"
    "t = \<lparr>mt_token = u64_to_le_bytes (of_nat (Suc n)) @ r, mt_issued_at = clk 2,
       mt_lifetime = jc_token_lifetime (tm_config self), mt_client_id = client, mt_granted_mode = mode,
       mt_job_info = None\<rparr>"
    "tm_config self' = tm_config self" "tm_token_counter self' = of_nat (Suc (Suc n))"
    "token_limits (clk 1) client (cleanup_expired (clk 0) self) = Inr ()"
proof -
  let ?s = "cleanup_expired (clk 0) self"
  have wf: "tokens_wf n ?s" using assms(2) by (rule cleanup_expired_wf)
  have lim: "token_limits (clk 1) client ?s = Inr ()"
    and st: "store_token (clk 2) client mode (fst (draw_token r ?s)) (snd (draw_token r ?s)) = (t, self')"
    using assms(1) by (auto simp: allocate_token_with_mode_def Let_def split_beta split: sum.splits)
  show "token_limits (clk 1) client ?s = Inr ()" by (rule lim)
  have cfg: "tm_config ?s = tm_config self" by (simp add: cleanup_expired_def)
  have tok: "fst (draw_token r ?s) = u64_to_le_bytes (of_nat (Suc n)) @ r"
    using wf by (simp add: draw_token_def tokens_wf_def)
  note fresh = fresh_token [OF wf assms(3), of r]
  show "t = \<lparr>mt_token = u64_to_le_bytes (of_nat (Suc n)) @ r, mt_issued_at = clk 2,
       mt_lifetime = jc_token_lifetime (tm_config self), mt_client_id = client, mt_granted_mode = mode,
       mt_job_info = None\<rparr>"
    using st draw_token_wf(3) [OF wf] cfg by (auto simp: store_token_def Let_def tok)
  then show "mt_token t \<notin> fst ` set m" using fresh tok by (simp add: m_def)
  show "tm_tokens self' = m @ [(mt_token t, t)]"
    using st draw_token_wf(1) [OF wf] hm_insert_fresh [OF fresh] by (auto simp: store_token_def Let_def m_def)
  show "tm_config self' = tm_config self" "tm_token_counter self' = of_nat (Suc (Suc n))"
    using st draw_token_wf(2,3) [OF wf] cfg by (auto simp: store_token_def Let_def)
qed

lemma allocate_wf:
  assumes "allocate_token_with_mode clk r client mode self = (Inr t, self')" "tokens_wf n self" "Suc n < 2 ^ 64"
  shows "tokens_wf (Suc n) self'"
proof -
  let ?s = "cleanup_expired (clk 0) self"
  note D = allocate_InrD [OF assms]
  have wf: "tokens_wf n ?s" using assms(2) by (rule cleanup_expired_wf)
  have "length (tm_tokens ?s) < MAX_TOTAL_TOKENS"
    using D(6) by (auto simp: token_limits_def split: if_splits)
  moreover have "hm_wf (tm_tokens ?s @ [(mt_token t, t)])"
    using wf D(2) by (auto simp: tokens_wf_def hm_wf_def)
  moreover have "entry_ok (Suc n) (mt_token t, t)"
    by (auto simp: entry_ok_def D(3) intro!: exI [of _ n])
  moreover have "entry_ok (Suc n) x" if "entry_ok n x" for x
    using that by (auto simp: entry_ok_def intro: less_SucI)
  ultimately show ?thesis
    using wf D(1,5) unfolding tokens_wf_def by auto
qed

lemma allocate_Inl_wf:
  "allocate_token_with_mode clk r client mode self = (Inl e, self') \<Longrightarrow> self' = cleanup_expired (clk 0) self"
  by (auto simp: allocate_token_with_mode_def Let_def split_beta split: sum.splits)

lemma set_job_info_wf:
  assumes "tokens_wf n self"
  shows "tokens_wf n (snd (set_job_info now token job self))"
proof (cases "hm_get (tm_tokens self) token")
  case (Some t)
  have t: "(token, t) \<in> set (tm_tokens self)" using Some by (rule hm_get_SomeD)
  have "length (hm_insert token (t\<lparr>mt_job_info := Some job\<rparr>) (tm_tokens self)) = length (tm_tokens self)"
    using t by (force simp: length_hm_insert hm_contains_iff)
  moreover have "set (hm_insert token (t\<lparr>mt_job_info := Some job\<rparr>) (tm_tokens self)) \<subseteq>
      insert (token, t\<lparr>mt_job_info := Some job\<rparr>) (set (tm_tokens self))"
    by (rule set_hm_insert_subset)
  moreover have "entry_ok n (token, t\<lparr>mt_job_info := Some job\<rparr>)"
    using assms t by (auto simp: tokens_wf_def entry_ok_def dest!: bspec)
  ultimately show ?thesis
    using assms Some unfolding tokens_wf_def set_job_info_def by auto
qed (use assms in \<open>simp add: set_job_info_def\<close>)

section \<open>Limits\<close>

definition live :: "string \<Rightarrow> instant \<Rightarrow> TokenManager \<Rightarrow> nat" where
  "live client now self = length (filter (\<lambda>(_, t). mt_client_id t = client \<and> \<not> is_expired now t) (tm_tokens self))"

lemma is_expired_mono: "now \<le> later \<Longrightarrow> is_expired now t \<Longrightarrow> is_expired later t"
  by (auto simp: is_expired_def duration_since_def)

lemma length_filter_le_filter: "(\<And>x. P x \<Longrightarrow> Q x) \<Longrightarrow> length (filter P xs) \<le> length (filter Q xs)"
  by (induction xs) auto

lemma live_later: "now \<le> later \<Longrightarrow> live client later self \<le> live client now self"
  unfolding live_def by (intro length_filter_le_filter) (auto dest: is_expired_mono)

lemma live_cleanup: "live client now (cleanup_expired t self) \<le> live client now self"
proof -
  have "filter P (filter Q xs) = filter (\<lambda>x. P x \<and> Q x) xs" for P Q and xs :: "(bytes \<times> MiningJobToken) list"
    by (simp add: conj_commute)
  then show ?thesis
    by (simp add: live_def cleanup_expired_def hm_retain_def del: filter_filter) (intro length_filter_le_filter, auto)
qed

lemma length_filter_update:
  "map_of al k = Some v \<Longrightarrow> P (k, v') = P (k, v) \<Longrightarrow> length (filter P (AList.update k v' al)) = length (filter P al)"
  by (induction al) (auto split: if_splits)

lemma live_set_job_info: "live client now (snd (set_job_info t token job self)) = live client now self"
proof (cases "hm_get (tm_tokens self) token")
  case (Some mt)
  have "is_expired now (mt\<lparr>mt_job_info := Some job\<rparr>) = is_expired now mt"
    by (simp add: is_expired_def)
  then show ?thesis
    using Some length_filter_update [of "tm_tokens self" token mt]
    by (simp add: set_job_info_def live_def hm_insert_def hm_get_def)
qed (simp add: set_job_info_def)

lemma live_allocate:
  assumes "allocate_token_with_mode clk r c mode self = (Inr t, self')" "tokens_wf n self" "Suc n < 2 ^ 64"
    and "clk 1 \<le> now" "\<forall>c. live c now self \<le> jc_max_tokens_per_client (tm_config self)"
  shows "live client now self' \<le> jc_max_tokens_per_client (tm_config self)"
proof -
  let ?s = "cleanup_expired (clk 0) self"
  note D = allocate_InrD [OF assms(1-3)]
  have "live client now self' \<le> live client now ?s + (if client = c then 1 else 0)"
    using D(1) by (simp add: live_def D(3))
  moreover have "live client now ?s \<le> jc_max_tokens_per_client (tm_config self)"
    using live_cleanup [of client now "clk 0" self] assms(5) le_trans by blast
  moreover have "live client now ?s < jc_max_tokens_per_client (tm_config self)" if "client = c"
  proof -
    have "live c (clk 1) ?s < jc_max_tokens_per_client (tm_config ?s)"
      using D(6) by (auto simp: token_limits_def live_def Let_def split: if_splits)
    then show ?thesis
      using live_later [OF assms(4), of c ?s] that by (simp add: cleanup_expired_def)
  qed
  ultimately show ?thesis by (auto split: if_splits)
qed

section \<open>Sequences of operations\<close>

text \<open>
  The calls that change the manager, one after another; the result lists the tokens issued.  The
  readings of the clock never go back.
\<close>

datatype token_op =
    Allocate "nat \<Rightarrow> instant" bytes string JobDeclarationMode
  | SetJob instant bytes DeclaredJobInfo

fun token_step :: "token_op \<Rightarrow> TokenManager \<Rightarrow> MiningJobToken option \<times> TokenManager" where
  "token_step (Allocate clk r client mode) self =
     (let (res, self) = allocate_token_with_mode clk r client mode self
      in (case res of Inl _ \<Rightarrow> None | Inr t \<Rightarrow> Some t, self))"
| "token_step (SetJob now token job) self = (None, snd (set_job_info now token job self))"

fun token_run :: "token_op list \<Rightarrow> TokenManager \<Rightarrow> MiningJobToken list \<times> TokenManager" where
  "token_run [] self = ([], self)"
| "token_run (op # ops) self =
     (let (out, self) = token_step op self; (issued, self) = token_run ops self
      in ((case out of None \<Rightarrow> [] | Some t \<Rightarrow> [t]) @ issued, self))"

fun op_times :: "token_op \<Rightarrow> instant list" where
  "op_times (Allocate clk r client mode) = [clk 0, clk 1, clk 2]"
| "op_times (SetJob now token job) = [now]"

definition clocked :: "token_op list \<Rightarrow> bool" where
  "clocked ops \<longleftrightarrow> sorted (concat (map op_times ops))"

definition within_limits :: "instant \<Rightarrow> TokenManager \<Rightarrow> bool" where
  "within_limits now self \<longleftrightarrow> (\<forall>client. live client now self \<le> jc_max_tokens_per_client (tm_config self))"

lemma within_limits_later: "within_limits now self \<Longrightarrow> now \<le> later \<Longrightarrow> within_limits later self"
  using live_later le_trans unfolding within_limits_def by blast

lemma within_limits_cleanup:
  assumes "within_limits now self"
  shows "within_limits now (cleanup_expired t self)"
proof -
  have "tm_config (cleanup_expired t self) = tm_config self" by (simp add: cleanup_expired_def)
  then show ?thesis
    using assms live_cleanup [of _ now t self] le_trans unfolding within_limits_def by metis
qed

lemma token_step_inv:
  assumes step: "token_step op self = (out, self')" and wf: "tokens_wf n self" and n: "Suc n < 2 ^ 64"
    and "sorted (op_times op)" "\<forall>t' \<in> set (op_times op). t \<le> t'" "within_limits t self"
  shows "tm_config self' = tm_config self \<and> within_limits (last (op_times op)) self' \<and>
    (case out of None \<Rightarrow> tokens_wf n self'
     | Some x \<Rightarrow> tokens_wf (Suc n) self' \<and> take 8 (mt_token x) = u64_to_le_bytes (of_nat (Suc n)))"
proof (cases op)
  case (Allocate clk r client mode)
  have t: "t \<le> clk 2" "clk 1 \<le> clk 2" using assms(4,5) Allocate by auto
  obtain res where al: "allocate_token_with_mode clk r client mode self = (res, self')"
    using step Allocate by (auto simp: Let_def split: prod.splits)
  have lim: "within_limits (clk 2) self" using assms(6) t(1) by (rule within_limits_later)
  show ?thesis
  proof (cases res)
    case (Inl e)
    then have "out = None" "self' = cleanup_expired (clk 0) self"
      using al step Allocate allocate_Inl_wf [of clk r client mode self e self'] by auto
    then show ?thesis
      using cleanup_expired_wf [OF wf] within_limits_cleanup [OF lim] Allocate
      by (simp add: cleanup_expired_def)
  next
    case (Inr x)
    note al = al [unfolded Inr]
    have "out = Some x" using al step Allocate by simp
    moreover have "within_limits (clk 2) self'"
      using live_allocate [OF al wf n t(2)] lim allocate_InrD(4) [OF al wf n] by (simp add: within_limits_def)
    moreover have "take 8 (mt_token x) = u64_to_le_bytes (of_nat (Suc n))"
      by (subst allocate_InrD(3) [OF al wf n]) simp
    ultimately show ?thesis
      using allocate_wf [OF al wf n] allocate_InrD(4) [OF al wf n] Allocate by simp
  qed
next
  case (SetJob now token job)
  have s: "self' = snd (set_job_info now token job self)" "out = None" using step SetJob by auto
  have "tm_config self' = tm_config self"
    by (simp add: s set_job_info_def split: option.splits)
  moreover have "within_limits now self"
    using within_limits_later [OF assms(6)] assms(5) SetJob by simp
  ultimately show ?thesis
    using set_job_info_wf [OF wf, of now token job] SetJob s
    by (simp add: within_limits_def live_set_job_info)
qed

lemma token_run_inv:
  "tokens_wf n self \<Longrightarrow> Suc (n + length ops) < 2 ^ 64 \<Longrightarrow> sorted (t # concat (map op_times ops)) \<Longrightarrow>
    within_limits t self \<Longrightarrow> token_run ops self = (issued, self') \<Longrightarrow>
    tm_config self' = tm_config self \<and> tokens_wf (n + length issued) self' \<and>
    within_limits (last (t # concat (map op_times ops))) self' \<and> length issued \<le> length ops \<and>
    (\<forall>i < length issued. take 8 (mt_token (issued ! i)) = u64_to_le_bytes (of_nat (Suc (n + i))))"
proof (induction ops arbitrary: n self t issued)
  case (Cons op ops)
  obtain out s1 where st: "token_step op self = (out, s1)" by (metis surj_pair)
  obtain more where rn: "token_run ops s1 = (more, self')" and
    iss: "issued = (case out of None \<Rightarrow> [] | Some x \<Rightarrow> [x]) @ more"
    using Cons.prems(5) st by (auto simp: Let_def split: prod.splits)
  have ne: "op_times op \<noteq> []" by (cases op) auto
  have srt: "sorted (op_times op)" "\<forall>t' \<in> set (op_times op). t \<le> t'"
    "sorted (last (op_times op) # concat (map op_times ops))"
    using Cons.prems(3) ne by (auto simp: sorted_append)
  have n: "Suc n < 2 ^ 64" using Cons.prems(2) by simp
  note S = token_step_inv [OF st Cons.prems(1) n srt(1,2) Cons.prems(4)]
  have lst: "last (t # concat (map op_times (op # ops))) = last (last (op_times op) # concat (map op_times ops))"
    using ne by simp
  show ?case
  proof (cases out)
    case None
    then show ?thesis
      using S Cons.IH [OF _ _ srt(3) _ rn, of n] Cons.prems(2) iss lst by simp
  next
    case (Some x)
    then show ?thesis
      using S Cons.IH [OF _ _ srt(3) _ rn, of "Suc n"] Cons.prems(2) iss lst by (simp add: all_less_Suc_shift)
  qed
qed simp

section \<open>Two allocations at once\<close>

text \<open>
  Allocation releases the lock between the limit checks and the insertion.  Two connections of the
  same client can both pass the checks before either stores its token.
\<close>

definition racing_allocations ::
  "instant \<Rightarrow> string \<Rightarrow> JobDeclarationMode \<Rightarrow> bytes \<Rightarrow> bytes \<Rightarrow> TokenManager \<Rightarrow> TokenManager" where
  "racing_allocations now client mode r1 r2 self =
     (let first = token_limits now client self; second = token_limits now client self;
          allocate = (\<lambda>limits r self. case limits of Inl _ \<Rightarrow> self
            | Inr _ \<Rightarrow> (let (token, self) = draw_token r self in snd (store_token now client mode token self)))
      in allocate second r2 (allocate first r1 self))"

lemma live_store:
  assumes "tokens_wf n self" "Suc n < 2 ^ 64"
  shows "live client now (snd (store_token now client mode (fst (draw_token r self)) (snd (draw_token r self)))) =
      Suc (live client now self)"
    and "tokens_wf n self \<Longrightarrow> length (tm_tokens self) < MAX_TOTAL_TOKENS \<Longrightarrow>
      tokens_wf (Suc n) (snd (store_token now client mode (fst (draw_token r self)) (snd (draw_token r self))))"
proof -
  note fresh = fresh_token [OF assms, of r] and D = draw_token_wf [OF assms(1), of r]
  show "live client now (snd (store_token now client mode (fst (draw_token r self)) (snd (draw_token r self)))) =
      Suc (live client now self)"
    using hm_insert_fresh [OF fresh] D(1)
    by (simp add: store_token_def Let_def live_def is_expired_def)
  assume room: "length (tm_tokens self) < MAX_TOTAL_TOKENS"
  have "take 8 (fst (draw_token r self)) = u64_to_le_bytes (of_nat (Suc n))"
    using assms(1) by (simp add: draw_token_def tokens_wf_def)
  moreover have "entry_ok (Suc n) x" if "entry_ok n x" for x
    using that by (auto simp: entry_ok_def intro: less_SucI)
  ultimately show "tokens_wf (Suc n)
      (snd (store_token now client mode (fst (draw_token r self)) (snd (draw_token r self))))"
    using assms(1) room hm_insert_fresh [OF fresh] fresh D(1,2)
    by (auto simp: tokens_wf_def store_token_def Let_def hm_wf_def entry_ok_def)
qed

section \<open>Properties\<close>

text \<open>
  C36.  Tokens are unique and bounded.  In every sequence of allocations and job declarations, with a clock
  that does not go back, the tokens issued are pairwise different whatever the random bytes are, the
  map never holds more than 100000 tokens, and no client ever holds more unexpired tokens than the
  configured limit.
\<close>

theorem tokens_unique_and_bounded:
  assumes "clocked ops" "length ops < 2 ^ 64 - 1" "token_run ops (TokenManager_new config) = (issued, self)"
    and "\<forall>t \<in> set (concat (map op_times ops)). t \<le> now"
  shows "distinct (map mt_token issued) \<and> length (tm_tokens self) \<le> MAX_TOTAL_TOKENS \<and>
    live client now self \<le> jc_max_tokens_per_client config"
proof (intro conjI)
  let ?times = "concat (map op_times ops)"
  define t where "t = Min (insert now (set ?times))"
  have t: "\<forall>t' \<in> set ?times. t \<le> t'" "t \<le> now"
    unfolding t_def by (intro ballI Min_le; simp)+
  have I: "tm_config self = config \<and> tokens_wf (length issued) self \<and> within_limits (last (t # ?times)) self \<and>
      length issued \<le> length ops \<and>
      (\<forall>i < length issued. take 8 (mt_token (issued ! i)) = u64_to_le_bytes (of_nat (Suc i)))"
  proof -
    have w: "within_limits t (TokenManager_new config)" and c: "tm_config (TokenManager_new config) = config"
      by (simp_all add: within_limits_def live_def TokenManager_new_def)
    have srt: "sorted (t # ?times)" using assms(1) t(1) unfolding clocked_def sorted_simps(2) by blast
    have len: "Suc (0 + length ops) < 2 ^ 64" using assms(2) by simp
    show ?thesis by (rule token_run_inv [OF tokens_wf_new len srt w assms(3), unfolded c add_0])
  qed
  have inj: "i = j" if "i < length issued" "j < length issued" "mt_token (issued ! i) = mt_token (issued ! j)" for i j
  proof -
    have C: "u64_to_le_bytes (of_nat (Suc k)) = take 8 (mt_token (issued ! k))" if "k < length issued" for k
      using I that by simp
    have "u64_to_le_bytes (of_nat (Suc i)) = u64_to_le_bytes (of_nat (Suc j))"
      unfolding C [OF that(1)] C [OF that(2)] that(3) ..
    from arg_cong [OF this, of u64_from_le_bytes] have eq: "(of_nat (Suc i) :: u64) = of_nat (Suc j)"
      unfolding u64_from_to_le .
    have U: "unat (of_nat (Suc k) :: u64) = Suc k" if "k < length issued" for k
      using that I assms(2) by (simp add: unat_of_nat del: of_nat_Suc)
    have "Suc i = Suc j" using arg_cong [OF eq, of unat] unfolding U [OF that(1)] U [OF that(2)] .
    then show ?thesis by simp
  qed
  show "distinct (map mt_token issued)"
  proof (unfold distinct_conv_nth length_map, intro allI impI)
    fix i j assume "i < length issued" "j < length issued" "i \<noteq> j"
    then show "map mt_token issued ! i \<noteq> map mt_token issued ! j" using inj [of i j] by auto
  qed
  show "length (tm_tokens self) \<le> MAX_TOTAL_TOKENS" using I by (simp add: tokens_wf_def)
  define l where "l = last (t # ?times)"
  have "l \<in> set (t # ?times)" unfolding l_def by (rule last_in_set) simp
  then have "l = t \<or> l \<in> set ?times" by (simp only: list.set insert_iff)
  then have le: "l \<le> now" using bspec [OF assms(4), of l] t(2) by (elim disjE) (simp only:)+
  have "within_limits l self" using I by (simp only: l_def)
  then have "within_limits now self" using le by (rule within_limits_later)
  then show "live client now self \<le> jc_max_tokens_per_client config"
    using I by (simp add: within_limits_def)
qed

text \<open>
  The limit on the tokens of a client is checked and enforced under different locks.  A client with
  one token less than the limit that asks over two connections at the same time holds one more than
  the limit afterwards.
\<close>

theorem token_limit_race:
  assumes "tokens_wf n self" "Suc (Suc n) < 2 ^ 64" "Suc (length (tm_tokens self)) < MAX_TOTAL_TOKENS"
    and "Suc (live client now self) = jc_max_tokens_per_client (tm_config self)"
  shows "live client now (racing_allocations now client mode r1 r2 self) =
    Suc (jc_max_tokens_per_client (tm_config self))"
proof -
  have lim: "token_limits now client self = Inr ()"
    using assms(3,4) by (simp add: token_limits_def live_def Let_def)
  let ?s = "snd (store_token now client mode (fst (draw_token r1 self)) (snd (draw_token r1 self)))"
  have n: "Suc n < 2 ^ 64" using assms(2) by simp
  have "tokens_wf (Suc n) ?s" using live_store(2) [OF assms(1) n assms(1)] assms(3) by simp
  then show ?thesis
    using live_store(1) [OF assms(1) n] live_store(1) [of "Suc n" ?s] assms(2,4)
    by (simp add: racing_allocations_def lim split_beta)
qed

definition one_token_config :: JdServerConfig where
  "one_token_config = JdServerConfig_default\<lparr>jc_max_tokens_per_client := 1\<rparr>"

theorem token_limit_race_witness:
  "live ''m'' 0 (racing_allocations 0 ''m'' CoinbaseOnly [1] [2] (TokenManager_new one_token_config)) = 2"
  using token_limit_race [OF tokens_wf_new [of one_token_config], of "''m''" 0 CoinbaseOnly "[1]" "[2]"]
  by (simp add: live_def TokenManager_new_def one_token_config_def MAX_TOTAL_TOKENS_def)

theorem tokens_unique_and_bounded_witness:
  "live ''m'' 9 (snd (token_run [Allocate (\<lambda>_. 1) (replicate 16 7) ''m'' CoinbaseOnly,
     Allocate (\<lambda>_. 2) (replicate 16 7) ''m'' CoinbaseOnly] (TokenManager_new one_token_config))) \<le> 1"
proof -
  let ?ops = "[Allocate (\<lambda>_. 1) (replicate 16 7) ''m'' CoinbaseOnly,
     Allocate (\<lambda>_. 2) (replicate 16 7) ''m'' CoinbaseOnly]"
  have "clocked ?ops" by (simp add: clocked_def)
  then show ?thesis
    using tokens_unique_and_bounded [of ?ops one_token_config "fst (token_run ?ops (TokenManager_new one_token_config))"
      "snd (token_run ?ops (TokenManager_new one_token_config))" 9 "''m''"]
    by (simp add: one_token_config_def del: token_run.simps)
qed

end
