(* ===== verification/Coinbase.thy ===== *)
theory Coinbase
  imports Template Compact_Size Equihash_Validator
begin

text \<open>
  The crate \<open>zcash-coinbase\<close>: the transaction parser of \<open>tx_parse.rs\<close>, the ZIP 244 digests of
  \<open>auth_digest.rs\<close>, the coinbase builder of \<open>builder.rs\<close>, the payout check of
  \<open>validator.rs\<close> and the subsidy schedule of \<open>reward.rs\<close>.

  The index of the parser is a \<open>nat\<close>.  Where the source adds an attacker's length to it the sum
  can leave 64 bits: the development profile panics in the addition, the release profile wraps
  below the index and panics in the slice that follows, so both are \<open>Panics\<close>.  Reserving a
  vector panics above \<open>isize::MAX\<close> bytes and aborts when the allocator refuses; the parameter
  \<open>heap\<close> is the largest allocation in bytes that the allocator grants.
\<close>

unbundle bit_operations_syntax

section \<open>Transactions\<close>

datatype ParseError = TooShort nat nat | UnsupportedVersion u32 | InvalidCompactSize nat

definition show_parse_error :: "ParseError \<Rightarrow> string" where
  "show_parse_error e = (case e of
     TooShort need have \<Rightarrow>
       ''transaction too short: need '' @ show_nat need @ '' bytes, have '' @ show_nat have
   | UnsupportedVersion v \<Rightarrow> ''unsupported transaction version: '' @ show_nat (unat v)
   | InvalidCompactSize p \<Rightarrow> ''invalid compact size at offset '' @ show_nat p)"

record TxIn =
  ti_prevout_hash :: bytes
  ti_prevout_index :: u32
  ti_script_sig :: bytes
  ti_sequence :: u32

record TxOut =
  to_value :: u64
  to_script_pubkey :: bytes

record ParsedTx =
  px_version :: u32
  px_is_overwinter_plus :: bool
  px_version_group_id :: "u32 option"
  px_inputs :: "TxIn list"
  px_outputs :: "TxOut list"
  px_lock_time :: u32
  px_expiry_height :: "u32 option"
  px_raw :: bytes
  px_trailing_data_offset :: "nat option"

definition ISIZE_MAX :: nat where
  "ISIZE_MAX = 2 ^ 63 - 1"

definition USIZE_LIMIT :: nat where
  "USIZE_LIMIT = 2 ^ 64"

definition can_reserve :: "nat \<Rightarrow> nat \<Rightarrow> nat \<Rightarrow> bool" where
  "can_reserve heap item_size n \<longleftrightarrow> item_size * n \<le> min heap ISIZE_MAX"

definition read_compact_size_tx :: "bytes \<Rightarrow> nat \<Rightarrow> ParseError + (u64 \<times> nat)" where
  "read_compact_size_tx data cursor =
     (let pos = cursor in
      if length data \<le> pos then Inl (InvalidCompactSize pos)
      else let first = data ! pos; cursor = cursor + 1 in
        if unat first \<le> 252 then Inr (ucast first, cursor)
        else if first = 253 then
          (if length data < cursor + 2 then Inl (InvalidCompactSize pos)
           else Inr (ucast (u16_from_le_bytes (take 2 (drop cursor data))), cursor + 2))
        else if first = 254 then
          (if length data < cursor + 4 then Inl (InvalidCompactSize pos)
           else Inr (ucast (u32_from_le_bytes (take 4 (drop cursor data))), cursor + 4))
        else
          (if length data < cursor + 8 then Inl (InvalidCompactSize pos)
           else Inr (u64_from_le_bytes (take 8 (drop cursor data)), cursor + 8)))"

definition push_compact_size :: "bytes \<Rightarrow> u64 \<Rightarrow> bytes" where
  "push_compact_size buf n =
     (if n < 253 then buf @ [ucast n]
      else if n \<le> 65535 then buf @ [253] @ u16_to_le_bytes (ucast n)
      else if n \<le> 4294967295 then buf @ [254] @ u32_to_le_bytes (ucast n)
      else buf @ [255] @ u64_to_le_bytes n)"

definition read_bytes :: "bytes \<Rightarrow> nat \<Rightarrow> nat \<Rightarrow> (ParseError + (bytes \<times> nat)) outcome" where
  "read_bytes data cursor n =
     (if USIZE_LIMIT \<le> cursor + n then Panics
      else if length data < cursor + n then Returns (Inl (TooShort (cursor + n) (length data)))
      else Returns (Inr (take n (drop cursor data), cursor + n)))"

definition read_u32_le :: "bytes \<Rightarrow> nat \<Rightarrow> (ParseError + (u32 \<times> nat)) outcome" where
  "read_u32_le data cursor =
     bindP (read_bytes data cursor 4) (\<lambda>(bs, cursor). Returns (Inr (u32_from_le_bytes bs, cursor)))"

definition read_u64_le :: "bytes \<Rightarrow> nat \<Rightarrow> (ParseError + (u64 \<times> nat)) outcome" where
  "read_u64_le data cursor =
     bindP (read_bytes data cursor 8) (\<lambda>(bs, cursor). Returns (Inr (u64_from_le_bytes bs, cursor)))"

fun parse_inputs :: "bytes \<Rightarrow> nat \<Rightarrow> nat \<Rightarrow> (ParseError + (TxIn list \<times> nat)) outcome" where
  "parse_inputs data 0 cursor = Returns (Inr ([], cursor))"
| "parse_inputs data (Suc n) cursor =
     bindP (read_bytes data cursor 32) (\<lambda>(prevout_hash, cursor).
     bindP (read_u32_le data cursor) (\<lambda>(prevout_index, cursor).
     bindP (Returns (read_compact_size_tx data cursor)) (\<lambda>(script_len, cursor).
     bindP (read_bytes data cursor (unat script_len)) (\<lambda>(script_sig, cursor).
     bindP (read_u32_le data cursor) (\<lambda>(sequence, cursor).
     bindP (parse_inputs data n cursor) (\<lambda>(inputs, cursor).
     Returns (Inr (\<lparr>ti_prevout_hash = prevout_hash, ti_prevout_index = prevout_index,
       ti_script_sig = script_sig, ti_sequence = sequence\<rparr> # inputs, cursor))))))))"

fun parse_outputs :: "bytes \<Rightarrow> nat \<Rightarrow> nat \<Rightarrow> (ParseError + (TxOut list \<times> nat)) outcome" where
  "parse_outputs data 0 cursor = Returns (Inr ([], cursor))"
| "parse_outputs data (Suc n) cursor =
     bindP (read_u64_le data cursor) (\<lambda>(v, cursor).
     bindP (Returns (read_compact_size_tx data cursor)) (\<lambda>(script_len, cursor).
     bindP (read_bytes data cursor (unat script_len)) (\<lambda>(script_pubkey, cursor).
     bindP (parse_outputs data n cursor) (\<lambda>(outputs, cursor).
     Returns (Inr (\<lparr>to_value = v, to_script_pubkey = script_pubkey\<rparr> # outputs, cursor))))))"

definition read_opt_u32 :: "bool \<Rightarrow> bytes \<Rightarrow> nat \<Rightarrow> (ParseError + (u32 option \<times> nat)) outcome" where
  "read_opt_u32 present data cursor =
     (if present then bindP (read_u32_le data cursor) (\<lambda>(v, cursor). Returns (Inr (Some v, cursor)))
      else Returns (Inr (None, cursor)))"

text \<open>A \<open>TxIn\<close> occupies 64 bytes of memory and a \<open>TxOut\<close> 32.\<close>

definition parse_transaction :: "nat \<Rightarrow> bytes \<Rightarrow> (ParseError + ParsedTx) outcome" where
  "parse_transaction heap data =
     (if length data < 4 then Returns (Inl (TooShort 4 (length data))) else
      bindP (read_u32_le data 0) (\<lambda>(header, cursor).
      let is_overwinter_plus = (drop_bit 31 header = 1); version = (header AND 0x7FFFFFFF) in
      if version \<noteq> 4 \<and> version \<noteq> 5 then Returns (Inl (UnsupportedVersion version)) else
      bindP (read_opt_u32 is_overwinter_plus data cursor) (\<lambda>(version_group_id, cursor).
      bindP (Returns (read_compact_size_tx data cursor)) (\<lambda>(input_count, cursor).
      if \<not> can_reserve heap 64 (unat input_count) then Panics else
      bindP (parse_inputs data (unat input_count) cursor) (\<lambda>(inputs, cursor).
      bindP (Returns (read_compact_size_tx data cursor)) (\<lambda>(output_count, cursor).
      if \<not> can_reserve heap 32 (unat output_count) then Panics else
      bindP (parse_outputs data (unat output_count) cursor) (\<lambda>(outputs, cursor).
      bindP (read_u32_le data cursor) (\<lambda>(lock_time, cursor).
      bindP (read_opt_u32 is_overwinter_plus data cursor) (\<lambda>(expiry_height, cursor).
      Returns (Inr \<lparr>px_version = version, px_is_overwinter_plus = is_overwinter_plus,
        px_version_group_id = version_group_id, px_inputs = inputs, px_outputs = outputs,
        px_lock_time = lock_time, px_expiry_height = expiry_height, px_raw = data,
        px_trailing_data_offset = (if cursor < length data then Some cursor else None)\<rparr>))))))))))"

section \<open>Digests\<close>

definition TRANSPARENT_AUTH_PERSONALIZATION :: bytes where
  "TRANSPARENT_AUTH_PERSONALIZATION = as_bytes ''ZTxAuthTransHash''"
definition SAPLING_AUTH_PERSONALIZATION :: bytes where
  "SAPLING_AUTH_PERSONALIZATION = as_bytes ''ZTxAuthSapliHash''"
definition ORCHARD_AUTH_PERSONALIZATION :: bytes where
  "ORCHARD_AUTH_PERSONALIZATION = as_bytes ''ZTxAuthOrchaHash''"
definition AUTH_DATA_HASH_PERSONALIZATION :: bytes where
  "AUTH_DATA_HASH_PERSONALIZATION = as_bytes ''ZcashAuthDatHash''"
definition TX_AUTH_PERSONALIZATION_PREFIX :: bytes where
  "TX_AUTH_PERSONALIZATION_PREFIX = as_bytes ''ZTxAuthHash_''"
definition NO_AUTH_DATA :: bytes where
  "NO_AUTH_DATA = replicate 32 0"

type_synonym blake2b_fn = "bytes \<Rightarrow> bytes \<Rightarrow> bytes"

definition compute_transparent_auth_digest :: "blake2b_fn \<Rightarrow> bytes \<Rightarrow> bytes" where
  "compute_transparent_auth_digest blake2b script_sigs = blake2b TRANSPARENT_AUTH_PERSONALIZATION script_sigs"

definition compute_coinbase_auth_digest :: "blake2b_fn \<Rightarrow> bytes \<Rightarrow> u32 \<Rightarrow> bytes" where
  "compute_coinbase_auth_digest blake2b transparent_script_sigs consensus_branch_id =
     (let transparent_digest = compute_transparent_auth_digest blake2b transparent_script_sigs;
          sapling_digest = blake2b SAPLING_AUTH_PERSONALIZATION NO_AUTH_DATA;
          orchard_digest = blake2b ORCHARD_AUTH_PERSONALIZATION NO_AUTH_DATA;
          personalization = TX_AUTH_PERSONALIZATION_PREFIX @ u32_to_le_bytes consensus_branch_id
      in blake2b personalization (transparent_digest @ sapling_digest @ orchard_digest))"

definition compute_v4_txid :: "sha256_fn \<Rightarrow> bytes \<Rightarrow> bytes" where
  "compute_v4_txid sha256 raw_tx = sha256 (sha256 raw_tx)"

text \<open>\<open>usize::next_power_of_two\<close>, searched upwards from one.\<close>

function next_power_of_two_from :: "nat \<Rightarrow> nat \<Rightarrow> nat" where
  "next_power_of_two_from p n = (if n \<le> p \<or> p = 0 then p else next_power_of_two_from (2 * p) n)"
  by auto
termination by (relation "measure (\<lambda>(p, n). n - p)") auto

text \<open>One pass of \<open>chunks(2)\<close>; indexing the second element of a short last chunk panics.\<close>

fun auth_layer :: "blake2b_fn \<Rightarrow> bytes list \<Rightarrow> bytes list outcome" where
  "auth_layer blake2b [] = Returns []"
| "auth_layer blake2b [a] = Panics"
| "auth_layer blake2b (a # b # rest) =
     (case auth_layer blake2b rest of Panics \<Rightarrow> Panics
      | Returns next_layer \<Rightarrow> Returns (blake2b AUTH_DATA_HASH_PERSONALIZATION (a @ b) # next_layer))"

lemma auth_layer_length:
  "auth_layer blake2b layer = Returns next_layer \<Longrightarrow> length layer = 2 * length next_layer"
  by (induction blake2b layer arbitrary: next_layer rule: auth_layer.induct) (auto split: outcome.splits)

function auth_tree :: "blake2b_fn \<Rightarrow> bytes list \<Rightarrow> bytes outcome" where
  "auth_tree blake2b layer =
     (if length layer > 1 then
        (case auth_layer blake2b layer of Panics \<Rightarrow> Panics
         | Returns next_layer \<Rightarrow> auth_tree blake2b next_layer)
      else (case layer of [] \<Rightarrow> Panics | r # _ \<Rightarrow> Returns r))"
  by auto
termination
  by (relation "measure (\<lambda>(_, layer). length layer)")
    (use auth_layer_length in \<open>fastforce+\<close>)

definition compute_auth_data_root :: "blake2b_fn \<Rightarrow> bytes list \<Rightarrow> bytes outcome" where
  "compute_auth_data_root blake2b tx_auth_digests =
     (if tx_auth_digests = [] then Panics
      else let n = next_power_of_two_from 1 (length tx_auth_digests);
               layer = tx_auth_digests @ replicate (n - length tx_auth_digests) (last tx_auth_digests)
           in auth_tree blake2b layer)"

declare next_power_of_two_from.simps [simp del] auth_tree.simps [simp del]

section \<open>The coinbase builder\<close>

datatype BuilderError =
    BuilderParse ParseError
  | NoInputs
  | ScriptSigTooLarge nat
  | EmptyScriptSig
  | ScriptSigTooShort nat nat

record BuiltCoinbase =
  bc_tx_bytes :: bytes
  bc_txid :: bytes

definition serialize_input :: "bytes \<Rightarrow> TxIn \<Rightarrow> bytes" where
  "serialize_input script input =
     push_compact_size (ti_prevout_hash input @ u32_to_le_bytes (ti_prevout_index input))
       (of_nat (length script)) @ script @ u32_to_le_bytes (ti_sequence input)"

fun serialize_inputs :: "nat \<Rightarrow> bytes \<Rightarrow> TxIn list \<Rightarrow> bytes" where
  "serialize_inputs i new_script [] = []"
| "serialize_inputs i new_script (input # rest) =
     serialize_input (if i = 0 then new_script else ti_script_sig input) input @
     serialize_inputs (i + 1) new_script rest"

definition serialize_output :: "TxOut \<Rightarrow> bytes" where
  "serialize_output out =
     push_compact_size (u64_to_le_bytes (to_value out)) (of_nat (length (to_script_pubkey out))) @
     to_script_pubkey out"

definition opt_u32_bytes :: "u32 option \<Rightarrow> bytes" where
  "opt_u32_bytes v = (case v of None \<Rightarrow> [] | Some w \<Rightarrow> u32_to_le_bytes w)"

definition reserialize_with_script :: "ParsedTx \<Rightarrow> bytes \<Rightarrow> bytes" where
  "reserialize_with_script parsed new_script =
     (let header = (if px_is_overwinter_plus parsed then px_version parsed OR push_bit 31 1
                    else px_version parsed) in
      push_compact_size (u32_to_le_bytes header @ opt_u32_bytes (px_version_group_id parsed))
        (of_nat (length (px_inputs parsed))) @
      serialize_inputs 0 new_script (px_inputs parsed) @
      push_compact_size [] (of_nat (length (px_outputs parsed))) @
      concat (map serialize_output (px_outputs parsed)) @
      u32_to_le_bytes (px_lock_time parsed) @
      opt_u32_bytes (px_expiry_height parsed) @
      (case px_trailing_data_offset parsed of None \<Rightarrow> [] | Some offset \<Rightarrow> drop offset (px_raw parsed)))"

definition build_coinbase ::
  "sha256_fn \<Rightarrow> nat \<Rightarrow> bytes \<Rightarrow> bytes \<Rightarrow> (BuilderError + BuiltCoinbase) outcome" where
  "build_coinbase sha256 heap raw_coinbase pool_tag =
     bindP (map_errP BuilderParse (parse_transaction heap raw_coinbase)) (\<lambda>parsed. Returns (
     case px_inputs parsed of [] \<Rightarrow> Inl NoInputs
     | input # _ \<Rightarrow>
       let original_script = ti_script_sig input in
       if original_script = [] then Inl EmptyScriptSig else
       let height_push_len = unat (hd original_script); needed = 1 + height_push_len in
       if length original_script < needed then Inl (ScriptSigTooShort needed (length original_script)) else
       let new_script = take needed original_script @ pool_tag in
       if 100 < length new_script then Inl (ScriptSigTooLarge (length new_script)) else
       let tx_bytes = reserialize_with_script parsed new_script in
       Inr \<lparr>bc_tx_bytes = tx_bytes, bc_txid = compute_v4_txid sha256 tx_bytes\<rparr>))"

section \<open>The payout check\<close>

datatype CoinbaseError =
    CoinbaseParse ParseError
  | MissingPoolPayout bytes
  | InsufficientPayout u64 u64

record CoinbaseValidator =
  cv_pool_payout_script :: bytes
  cv_min_pool_payout :: u64

definition validate_payout_outputs :: "nat \<Rightarrow> CoinbaseValidator \<Rightarrow> bytes \<Rightarrow> (CoinbaseError + unit) outcome" where
  "validate_payout_outputs heap self coinbase_tx =
     (if cv_pool_payout_script self = [] then Returns (Inr ()) else
      bindP (map_errP CoinbaseParse (parse_transaction heap coinbase_tx)) (\<lambda>parsed. Returns (
      case find (\<lambda>out. to_script_pubkey out = cv_pool_payout_script self \<and> cv_min_pool_payout self \<le> to_value out)
          (px_outputs parsed) of
        Some _ \<Rightarrow> Inr ()
      | None \<Rightarrow>
        (case find (\<lambda>out. to_script_pubkey out = cv_pool_payout_script self) (px_outputs parsed) of
           Some out \<Rightarrow> Inl (InsufficientPayout (to_value out) (cv_min_pool_payout self))
         | None \<Rightarrow> Inl (MissingPoolPayout (cv_pool_payout_script self))))))"

section \<open>Block rewards\<close>

definition POST_BLOSSOM_HALVING_INTERVAL :: u64 where "POST_BLOSSOM_HALVING_INTERVAL = 1680000"
definition BLOSSOM_ACTIVATION_HEIGHT :: u64 where "BLOSSOM_ACTIVATION_HEIGHT = 653600"
definition PRE_BLOSSOM_HALVINGS :: u64 where "PRE_BLOSSOM_HALVINGS = 0"
definition POST_BLOSSOM_INITIAL_SUBSIDY :: u64 where "POST_BLOSSOM_INITIAL_SUBSIDY = 312500000"
definition DEFAULT_MINER_SHARE_PERCENT :: u64 where "DEFAULT_MINER_SHARE_PERCENT = 80"

definition block_subsidy :: "u64 \<Rightarrow> u64" where
  "block_subsidy height =
     (let halvings =
        (if height < BLOSSOM_ACTIVATION_HEIGHT then PRE_BLOSSOM_HALVINGS
         else PRE_BLOSSOM_HALVINGS + (height - BLOSSOM_ACTIVATION_HEIGHT) div POST_BLOSSOM_HALVING_INTERVAL) in
      if 64 \<le> halvings then 0 else drop_bit (unat halvings) POST_BLOSSOM_INITIAL_SUBSIDY)"

definition miner_reward :: "u64 \<Rightarrow> u64 \<Rightarrow> u64" where
  "miner_reward subsidy miner_share_percent = subsidy * miner_share_percent div 100"

definition apply_pool_fee :: "u64 \<Rightarrow> u64 \<Rightarrow> u64" where
  "apply_pool_fee amount fee_percent = amount - (amount * fee_percent div 100)"

section \<open>Reading back what was written\<close>

lemma read_compact_size_tx_eq:
  "read_compact_size_tx data c = map_err (\<lambda>_. InvalidCompactSize c) (read_compact_size data c)"
  by (simp add: read_compact_size_tx_def read_compact_size_def Let_def)

lemma push_compact_size_eq: "push_compact_size buf n = buf @ compact_bytes n"
  by (auto simp: push_compact_size_def compact_bytes_def word_less_nat_alt word_le_nat_alt)

text \<open>The bytes from position \<open>c\<close> on are \<open>s\<close>.\<close>

definition at_pos :: "bytes \<Rightarrow> nat \<Rightarrow> bytes \<Rightarrow> bool" where
  "at_pos data c s \<longleftrightarrow> c \<le> length data \<and> drop c data = s"

lemma at_pos_le:
  assumes "at_pos data c (xs @ s)"
  shows "c + length xs \<le> length data"
proof -
  have "length (drop c data) = length xs + length s" and "c \<le> length data"
    using assms by (simp_all add: at_pos_def)
  then show ?thesis by simp
qed

lemma at_pos_adv:
  assumes "at_pos data c (xs @ s)" "length xs = n"
  shows "at_pos data (c + n) s"
proof -
  have "drop (c + n) data = drop n (drop c data)" by (simp add: add.commute)
  also have "\<dots> = s" using assms by (simp add: at_pos_def)
  finally show ?thesis using at_pos_le [OF assms(1)] assms(2) by (simp add: at_pos_def)
qed

lemma at_pos_split: "at_pos data c s \<Longrightarrow> data = take c data @ s \<and> length (take c data) = c"
  by (auto simp: at_pos_def)

lemma read_bytes_at:
  assumes "at_pos data c (xs @ s)" "length xs = n" "length data < USIZE_LIMIT"
  shows "read_bytes data c n = Returns (Inr (xs, c + n))"
  using assms at_pos_le [OF assms(1)] by (auto simp: read_bytes_def at_pos_def)

lemma read_u32_at:
  "at_pos data c (u32_to_le_bytes w @ s) \<Longrightarrow> length data < USIZE_LIMIT \<Longrightarrow>
     read_u32_le data c = Returns (Inr (w, c + 4))"
  by (simp add: read_u32_le_def read_bytes_at)

lemma read_u64_at:
  "at_pos data c (u64_to_le_bytes w @ s) \<Longrightarrow> length data < USIZE_LIMIT \<Longrightarrow>
     read_u64_le data c = Returns (Inr (w, c + 8))"
  by (simp add: read_u64_le_def read_bytes_at)

lemma read_compact_at:
  assumes "at_pos data c (compact_bytes v @ s)"
  shows "read_compact_size_tx data c = Inr (v, c + length (compact_bytes v))"
proof -
  obtain pre where "data = pre @ compact_bytes v @ s" "length pre = c"
    using at_pos_split [OF assms] by blast
  then show ?thesis using read_compact_bytes [of pre v s] by (simp add: read_compact_size_tx_eq)
qed


text \<open>What the type of the Rust structs guarantees, and what fits 64 bits.\<close>

definition in_wf :: "TxIn \<Rightarrow> bool" where
  "in_wf i \<longleftrightarrow> length (ti_prevout_hash i) = 32 \<and> length (ti_script_sig i) < USIZE_LIMIT"

definition out_wf :: "TxOut \<Rightarrow> bool" where
  "out_wf out \<longleftrightarrow> length (to_script_pubkey out) < USIZE_LIMIT"

definition in_bytes :: "TxIn \<Rightarrow> bytes" where
  "in_bytes i = ti_prevout_hash i @ u32_to_le_bytes (ti_prevout_index i) @
     compact_bytes (of_nat (length (ti_script_sig i))) @ ti_script_sig i @ u32_to_le_bytes (ti_sequence i)"

definition out_bytes :: "TxOut \<Rightarrow> bytes" where
  "out_bytes out = u64_to_le_bytes (to_value out) @
     compact_bytes (of_nat (length (to_script_pubkey out))) @ to_script_pubkey out"

lemma unat_of_nat_usize [simp]: "n < USIZE_LIMIT \<Longrightarrow> unat (of_nat n :: u64) = n"
  by (simp add: USIZE_LIMIT_def unat_of_nat)

lemma parse_inputs_at:
  assumes "length data < USIZE_LIMIT" "\<forall>i \<in> set ins. in_wf i"
    and "at_pos data c (concat (map in_bytes ins) @ s)"
  shows "parse_inputs data (length ins) c = Returns (Inr (ins, c + length (concat (map in_bytes ins))))"
  using assms(2,3)
proof (induction ins arbitrary: c)
  case (Cons i ins)
  define t where "t = concat (map in_bytes ins) @ s"
  have wf: "length (ti_prevout_hash i) = 32" "length (ti_script_sig i) < USIZE_LIMIT"
    using Cons.prems(1) by (auto simp: in_wf_def)
  have a: "at_pos data c (ti_prevout_hash i @ u32_to_le_bytes (ti_prevout_index i) @
     compact_bytes (of_nat (length (ti_script_sig i))) @ ti_script_sig i @ u32_to_le_bytes (ti_sequence i) @ t)"
    using Cons.prems(2) by (simp add: in_bytes_def [of i] t_def)
  note b = at_pos_adv [OF a wf(1)]
  note d = at_pos_adv [OF b length_to_le_bytes(2)]
  note e = at_pos_adv [OF d refl]
  note f = at_pos_adv [OF e refl]
  note g = at_pos_adv [OF f length_to_le_bytes(2)]
  note rest = Cons.IH [OF _ g [unfolded t_def]]
  show ?case
    using wf read_bytes_at [OF a wf(1) assms(1)] read_u32_at [OF b assms(1)] read_compact_at [OF d]
      read_bytes_at [OF e refl assms(1)] read_u32_at [OF f assms(1)] rest Cons.prems(1)
    by (simp add: in_bytes_def [of i] add.assoc)
qed simp

lemma parse_outputs_at:
  assumes "length data < USIZE_LIMIT" "\<forall>out \<in> set outs. out_wf out"
    and "at_pos data c (concat (map out_bytes outs) @ s)"
  shows "parse_outputs data (length outs) c = Returns (Inr (outs, c + length (concat (map out_bytes outs))))"
  using assms(2,3)
proof (induction outs arbitrary: c)
  case (Cons out outs)
  define t where "t = concat (map out_bytes outs) @ s"
  have wf: "length (to_script_pubkey out) < USIZE_LIMIT"
    using Cons.prems(1) by (auto simp: out_wf_def)
  have a: "at_pos data c (u64_to_le_bytes (to_value out) @
     compact_bytes (of_nat (length (to_script_pubkey out))) @ to_script_pubkey out @ t)"
    using Cons.prems(2) by (simp add: out_bytes_def [of out] t_def)
  note b = at_pos_adv [OF a length_to_le_bytes(3)]
  note d = at_pos_adv [OF b refl]
  note e = at_pos_adv [OF d refl]
  note rest = Cons.IH [OF _ e [unfolded t_def]]
  show ?case
    using wf read_u64_at [OF a assms(1)] read_compact_at [OF b] read_bytes_at [OF d refl assms(1)]
      rest Cons.prems(1)
    by (simp add: out_bytes_def [of out] add.assoc)
qed simp


definition header_word :: "ParsedTx \<Rightarrow> u32" where
  "header_word p = (if px_is_overwinter_plus p then px_version p OR push_bit 31 1 else px_version p)"

definition tx_bytes :: "ParsedTx \<Rightarrow> bytes \<Rightarrow> bytes" where
  "tx_bytes p tail = u32_to_le_bytes (header_word p) @ opt_u32_bytes (px_version_group_id p) @
     compact_bytes (of_nat (length (px_inputs p))) @ concat (map in_bytes (px_inputs p)) @
     compact_bytes (of_nat (length (px_outputs p))) @ concat (map out_bytes (px_outputs p)) @
     u32_to_le_bytes (px_lock_time p) @ opt_u32_bytes (px_expiry_height p) @ tail"

definition tx_wf :: "nat \<Rightarrow> ParsedTx \<Rightarrow> bool" where
  "tx_wf heap p \<longleftrightarrow> (px_version p = 4 \<or> px_version p = 5) \<and>
     (px_version_group_id p \<noteq> None) = px_is_overwinter_plus p \<and>
     (px_expiry_height p \<noteq> None) = px_is_overwinter_plus p \<and>
     (\<forall>i \<in> set (px_inputs p). in_wf i) \<and> (\<forall>out \<in> set (px_outputs p). out_wf out) \<and>
     can_reserve heap 64 (length (px_inputs p)) \<and> can_reserve heap 32 (length (px_outputs p))"

lemma header_word_fields:
  assumes "px_version p = 4 \<or> px_version p = 5"
  shows "drop_bit 31 (header_word p) = 1 \<longleftrightarrow> px_is_overwinter_plus p"
    and "header_word p AND 0x7FFFFFFF = px_version p"
  using assms by (auto simp: header_word_def)

lemma can_reserve_limit: "can_reserve heap k n \<Longrightarrow> 0 < k \<Longrightarrow> n < USIZE_LIMIT"
  by (cases k) (auto simp: can_reserve_def ISIZE_MAX_def USIZE_LIMIT_def)

lemma read_opt_u32_at:
  assumes "at_pos data c (opt_u32_bytes v @ s)" "length data < USIZE_LIMIT" "(v \<noteq> None) = b"
  shows "read_opt_u32 b data c = Returns (Inr (v, c + length (opt_u32_bytes v)))"
  using assms read_u32_at [of data c] by (auto simp: read_opt_u32_def opt_u32_bytes_def split: option.splits)

lemma parse_tx_bytes:
  assumes wf: "tx_wf heap p" and len: "length (tx_bytes p tail) < USIZE_LIMIT"
  shows "parse_transaction heap (tx_bytes p tail) = Returns (Inr (p\<lparr>px_raw := tx_bytes p tail,
    px_trailing_data_offset := (if tail = [] then None else Some (length (tx_bytes p tail) - length tail))\<rparr>))"
proof -
  define data where "data = tx_bytes p tail"
  let ?ins = "px_inputs p" and ?outs = "px_outputs p"
  have w: "px_version p = 4 \<or> px_version p = 5" "(px_version_group_id p \<noteq> None) = px_is_overwinter_plus p"
    "(px_expiry_height p \<noteq> None) = px_is_overwinter_plus p" "\<forall>i \<in> set ?ins. in_wf i" "\<forall>out \<in> set ?outs. out_wf out"
    "can_reserve heap 64 (length ?ins)" "can_reserve heap 32 (length ?outs)"
    using wf by (auto simp: tx_wf_def)
  have n: "unat (of_nat (length ?ins) :: u64) = length ?ins" "unat (of_nat (length ?outs) :: u64) = length ?outs"
    using w(6,7) by (auto intro!: unat_of_nat_usize elim!: can_reserve_limit)
  note len = len [folded data_def]
  have a: "at_pos data 0 (u32_to_le_bytes (header_word p) @ opt_u32_bytes (px_version_group_id p) @
     compact_bytes (of_nat (length ?ins)) @ concat (map in_bytes ?ins) @
     compact_bytes (of_nat (length ?outs)) @ concat (map out_bytes ?outs) @
     u32_to_le_bytes (px_lock_time p) @ opt_u32_bytes (px_expiry_height p) @ tail)"
    by (simp add: at_pos_def tx_bytes_def data_def)
  note b = at_pos_adv [OF a length_to_le_bytes(2), unfolded add_0]
  define k1 where "k1 = 4 + length (opt_u32_bytes (px_version_group_id p))"
  define k2 where "k2 = k1 + length (compact_bytes (of_nat (length ?ins)))"
  define k3 where "k3 = k2 + length (concat (map in_bytes ?ins))"
  define k4 where "k4 = k3 + length (compact_bytes (of_nat (length ?outs)))"
  define k5 where "k5 = k4 + length (concat (map out_bytes ?outs))"
  note c = at_pos_adv [OF b refl, folded k1_def]
  note d = at_pos_adv [OF c refl, folded k2_def]
  note e = at_pos_adv [OF d refl, folded k3_def]
  note f = at_pos_adv [OF e refl, folded k4_def]
  note g = at_pos_adv [OF f refl, folded k5_def]
  note h = at_pos_adv [OF g length_to_le_bytes(2)]
  have big: "\<not> length data < 4" by (simp add: tx_bytes_def data_def)
  have fin: "k5 + 4 + length (opt_u32_bytes (px_expiry_height p)) = length data - length tail"
    by (simp add: tx_bytes_def data_def k1_def k2_def k3_def k4_def k5_def)
  have lt: "length data - length tail < length data \<longleftrightarrow> tail \<noteq> []"
    by (auto simp: tx_bytes_def data_def)
  show ?thesis
    unfolding parse_transaction_def data_def [symmetric]
    using big w(1,6,7) n lt
    by (simp add: read_u32_at [OF a len] header_word_fields [OF w(1)] read_opt_u32_at [OF b len w(2), folded k1_def]
        read_compact_at [OF c, folded k2_def] parse_inputs_at [OF len w(4) d, folded k3_def]
        read_compact_at [OF e, folded k4_def] parse_outputs_at [OF len w(5) f, folded k5_def] read_u32_at [OF g len] read_opt_u32_at [OF h len w(3)] fin
        Let_def)
qed


text \<open>What a successful parse says of its result.\<close>

lemma read_bytes_InrD:
  "read_bytes data c n = Returns (Inr (xs, c')) \<Longrightarrow>
     xs = take n (drop c data) \<and> length xs = n \<and> c' = c + n \<and> c' \<le> length data"
  by (auto simp: read_bytes_def split: if_splits)

lemma read_u32_le_InrD: "read_u32_le data c = Returns (Inr (w, c')) \<Longrightarrow> c' = c + 4 \<and> c' \<le> length data"
  by (auto simp: read_u32_le_def bindP_eq_Inr dest!: read_bytes_InrD)

lemma read_u64_le_InrD: "read_u64_le data c = Returns (Inr (w, c')) \<Longrightarrow> c' = c + 8 \<and> c' \<le> length data"
  by (auto simp: read_u64_le_def bindP_eq_Inr dest!: read_bytes_InrD)

lemma unat_u64_limit: "unat (w :: u64) < USIZE_LIMIT"
  using unat_less_pow [of w] by (simp add: USIZE_LIMIT_def)

lemma parse_inputs_wf:
  "parse_inputs data n c = Returns (Inr (ins, c')) \<Longrightarrow> length ins = n \<and> (\<forall>i \<in> set ins. in_wf i)"
  by (induction data n c arbitrary: ins c' rule: parse_inputs.induct)
    (auto simp: bindP_eq_Inr in_wf_def unat_u64_limit dest!: read_bytes_InrD)

lemma parse_outputs_wf:
  "parse_outputs data n c = Returns (Inr (outs, c')) \<Longrightarrow> length outs = n \<and> (\<forall>out \<in> set outs. out_wf out)"
  by (induction data n c arbitrary: outs c' rule: parse_outputs.induct)
    (auto simp: bindP_eq_Inr out_wf_def unat_u64_limit dest!: read_bytes_InrD)

lemma read_opt_u32_InrD: "read_opt_u32 b data c = Returns (Inr (v, c')) \<Longrightarrow> (v \<noteq> None) = b"
  by (auto simp: read_opt_u32_def bindP_eq_Inr split: if_splits)

lemma parse_transaction_wf:
  assumes "parse_transaction heap data = Returns (Inr p)"
  shows "tx_wf heap p" "px_raw p = data"
    "px_trailing_data_offset p = Some off \<Longrightarrow> off < length data"
  using assms
  by (auto simp: parse_transaction_def Let_def bindP_eq_Inr tx_wf_def split: if_splits
      dest!: parse_inputs_wf parse_outputs_wf read_opt_u32_InrD)

section \<open>The coinbase that is built\<close>

lemma find_SomeD: "find P xs = Some x \<Longrightarrow> x \<in> set xs \<and> P x"
  by (auto simp: find_Some_iff)

definition set_script :: "bytes \<Rightarrow> ParsedTx \<Rightarrow> ParsedTx" where
  "set_script script p = p\<lparr>px_inputs := (case px_inputs p of [] \<Rightarrow> []
     | i # rest \<Rightarrow> i\<lparr>ti_script_sig := script\<rparr> # rest)\<rparr>"

definition trailing_data :: "ParsedTx \<Rightarrow> bytes" where
  "trailing_data p = (case px_trailing_data_offset p of None \<Rightarrow> [] | Some off \<Rightarrow> drop off (px_raw p))"

lemma serialize_inputs_tail: "0 < n \<Longrightarrow> serialize_inputs n script ins = concat (map in_bytes ins)"
  by (induction ins arbitrary: n)
    (simp_all add: serialize_input_def in_bytes_def push_compact_size_eq)

lemma reserialize_eq: "reserialize_with_script p script = tx_bytes (set_script script p) (trailing_data p)"
proof -
  have out: "serialize_output = out_bytes"
    by (simp add: fun_eq_iff serialize_output_def out_bytes_def push_compact_size_eq)
  have ins: "serialize_inputs 0 script (px_inputs p) = concat (map in_bytes (px_inputs (set_script script p)))"
    by (cases "px_inputs p")
      (simp_all add: set_script_def serialize_inputs_tail serialize_input_def in_bytes_def push_compact_size_eq)
  have len: "length (px_inputs (set_script script p)) = length (px_inputs p)"
    by (simp add: set_script_def split: list.split)
  show ?thesis
    by (simp add: reserialize_with_script_def tx_bytes_def ins len out push_compact_size_eq trailing_data_def
        header_word_def Let_def) (simp add: set_script_def)
qed

lemma set_script_wf: "tx_wf heap p \<Longrightarrow> length script < USIZE_LIMIT \<Longrightarrow> tx_wf heap (set_script script p)"
  by (auto simp: tx_wf_def set_script_def in_wf_def split: list.splits)

definition rebuilt :: "bytes \<Rightarrow> bytes \<Rightarrow> nat option \<Rightarrow> ParsedTx \<Rightarrow> ParsedTx" where
  "rebuilt script raw off p = set_script script p\<lparr>px_raw := raw, px_trailing_data_offset := off\<rparr>"

lemma trailing_rebuilt:
  "trailing_data (rebuilt script raw off p) = (case off of None \<Rightarrow> [] | Some k \<Rightarrow> drop k raw)"
  by (simp add: rebuilt_def trailing_data_def split: option.split)

lemma reparse:
  assumes "tx_wf heap p" "length script < USIZE_LIMIT"
    and len: "length (reserialize_with_script p script) < USIZE_LIMIT"
  shows "\<exists>off. parse_transaction heap (reserialize_with_script p script) =
      Returns (Inr (rebuilt script (reserialize_with_script p script) off p)) \<and>
    trailing_data (rebuilt script (reserialize_with_script p script) off p) = trailing_data p"
proof (intro exI conjI)
  let ?tail = "trailing_data p" and ?data = "reserialize_with_script p script"
  let ?off = "if ?tail = [] then None else Some (length ?data - length ?tail)"
  show "parse_transaction heap ?data = Returns (Inr (rebuilt script ?data ?off p))"
    using parse_tx_bytes [OF set_script_wf [OF assms(1,2)]] len by (simp add: reserialize_eq rebuilt_def)
  have "drop (length ?data - length ?tail) ?data = ?tail"
    by (simp add: reserialize_eq tx_bytes_def)
  then show "trailing_data (rebuilt script ?data ?off p) = ?tail"
    by (simp add: trailing_rebuilt)
qed

section \<open>The authorization data tree\<close>

text \<open>The perfect binary tree over \<open>2 ^ k\<close> leaves.\<close>

fun perfect_tree :: "blake2b_fn \<Rightarrow> nat \<Rightarrow> bytes list \<Rightarrow> bytes" where
  "perfect_tree blake2b 0 xs = hd xs"
| "perfect_tree blake2b (Suc k) xs = blake2b AUTH_DATA_HASH_PERSONALIZATION
     (perfect_tree blake2b k (take (2 ^ k) xs) @ perfect_tree blake2b k (drop (2 ^ k) xs))"

lemma auth_layer_append:
  assumes "auth_layer blake2b xs = Returns us" "auth_layer blake2b ys = Returns vs"
  shows "auth_layer blake2b (xs @ ys) = Returns (us @ vs)"
  using assms by (induction blake2b xs arbitrary: us rule: auth_layer.induct) (auto split: outcome.splits)

lemma auth_layer_tree:
  "length xs = 2 ^ Suc k \<Longrightarrow>
     \<exists>ys. auth_layer blake2b xs = Returns ys \<and> length ys = 2 ^ k \<and>
       perfect_tree blake2b (Suc k) xs = perfect_tree blake2b k ys"
proof (induction k arbitrary: xs)
  case 0
  then obtain a b where "xs = [a, b]" by (auto simp: numeral_2_eq_2 length_Suc_conv)
  then show ?case by simp
next
  case (Suc k)
  define l r where "l = take (2 ^ Suc k) xs" and "r = drop (2 ^ Suc k) xs"
  have len: "length l = 2 ^ Suc k" "length r = 2 ^ Suc k" and xs: "xs = l @ r"
    using Suc.prems by (simp_all add: l_def r_def)
  obtain us where us: "auth_layer blake2b l = Returns us" "length us = 2 ^ k"
    "perfect_tree blake2b (Suc k) l = perfect_tree blake2b k us" using Suc.IH [OF len(1)] by blast
  obtain vs where vs: "auth_layer blake2b r = Returns vs" "length vs = 2 ^ k"
    "perfect_tree blake2b (Suc k) r = perfect_tree blake2b k vs" using Suc.IH [OF len(2)] by blast
  have "perfect_tree blake2b (Suc (Suc k)) xs = perfect_tree blake2b (Suc k) (us @ vs)"
    using us vs len by (simp add: xs del: perfect_tree.simps) (simp only: perfect_tree.simps(2) append_eq_conv_conj, simp)
  moreover have "auth_layer blake2b xs = Returns (us @ vs)"
    by (simp add: xs auth_layer_append [OF us(1) vs(1)])
  ultimately show ?case using us(2) vs(2) by (intro exI [of _ "us @ vs"]) simp
qed

lemma auth_tree_eq: "length xs = 2 ^ k \<Longrightarrow> auth_tree blake2b xs = Returns (perfect_tree blake2b k xs)"
proof (induction k arbitrary: xs)
  case 0
  then obtain a where "xs = [a]" by (auto simp: length_Suc_conv)
  then show ?case by (simp add: auth_tree.simps)
next
  case (Suc k)
  obtain ys where ys: "auth_layer blake2b xs = Returns ys" "length ys = 2 ^ k"
    "perfect_tree blake2b (Suc k) xs = perfect_tree blake2b k ys" using auth_layer_tree [OF Suc.prems] by blast
  have "1 < length xs" using Suc.prems one_less_power [of "2 :: nat" "Suc k"] by (simp del: power_Suc)
  then show ?case using ys Suc.IH [OF ys(2)] by (simp add: auth_tree.simps [of blake2b xs] del: perfect_tree.simps)
qed

lemma next_power_of_two_from_least:
  "0 < p \<Longrightarrow> \<exists>j. next_power_of_two_from p n = p * 2 ^ j \<and> n \<le> p * 2 ^ j \<and> (\<forall>i < j. p * 2 ^ i < n)"
proof (induction p n rule: next_power_of_two_from.induct)
  case (1 p n)
  show ?case
  proof (cases "n \<le> p")
    case True
    then show ?thesis by (intro exI [of _ 0]) (simp add: next_power_of_two_from.simps)
  next
    case False
    then obtain j where j: "next_power_of_two_from (2 * p) n = 2 * p * 2 ^ j" "n \<le> 2 * p * 2 ^ j"
      "\<forall>i < j. 2 * p * 2 ^ i < n" using 1 by auto
    have "p * 2 ^ i < n" if "i < Suc j" for i using that j(3) False by (cases i) (auto simp: ac_simps)
    then show ?thesis
      using j(1,2) False "1.prems"
      by (intro exI [of _ "Suc j"]) (simp add: next_power_of_two_from.simps [of p] ac_simps)
  qed
qed


section \<open>Properties\<close>

text \<open>An overwinter coinbase with one input, one output of 5000 zatoshi and three trailing bytes.\<close>

definition sample_tx :: ParsedTx where
  "sample_tx = \<lparr>px_version = 4, px_is_overwinter_plus = True, px_version_group_id = Some 0x892F2085,
     px_inputs = [\<lparr>ti_prevout_hash = replicate 32 0, ti_prevout_index = 0xFFFFFFFF,
       ti_script_sig = [3, 1, 2, 3, 9], ti_sequence = 0xFFFFFFFF\<rparr>],
     px_outputs = [\<lparr>to_value = 5000, to_script_pubkey = [81, 82]\<rparr>],
     px_lock_time = 0, px_expiry_height = Some 0, px_raw = [], px_trailing_data_offset = None\<rparr>"

definition sample_coinbase :: bytes where
  "sample_coinbase = tx_bytes sample_tx [0, 0, 0]"

lemma compact_bytes_le: "length (compact_bytes v) \<le> 9"
  using compact_bytes_length [of v] by auto

lemma sample_tx_wf: "tx_wf 1000000 sample_tx"
  by (simp add: tx_wf_def sample_tx_def in_wf_def out_wf_def can_reserve_def ISIZE_MAX_def USIZE_LIMIT_def)

lemma length_sample_tx: "length script < 200 \<Longrightarrow> length (tx_bytes (set_script script sample_tx) [0, 0, 0]) \<le> 1000"
  using compact_bytes_le [of "of_nat (length script)"] compact_bytes_le [of 1] compact_bytes_le [of 2]
  by (simp add: tx_bytes_def sample_tx_def set_script_def in_bytes_def out_bytes_def opt_u32_bytes_def)

lemma parse_sample_coinbase:
  "\<exists>r off. parse_transaction 1000000 sample_coinbase =
     Returns (Inr (sample_tx\<lparr>px_raw := r, px_trailing_data_offset := Some off\<rparr>)) \<and> drop off r = [0, 0, 0]"
proof -
  have same: "set_script [3, 1, 2, 3, 9] sample_tx = sample_tx"
    by (simp add: set_script_def sample_tx_def)
  have "length (tx_bytes sample_tx [0, 0, 0]) < USIZE_LIMIT"
    using length_sample_tx [of "[3, 1, 2, 3, 9]"] unfolding same by (simp add: USIZE_LIMIT_def)
  then have "parse_transaction 1000000 sample_coinbase = Returns (Inr (sample_tx\<lparr>px_raw := sample_coinbase,
      px_trailing_data_offset := Some (length sample_coinbase - length [0 :: u8, 0, 0])\<rparr>))"
    using parse_tx_bytes [OF sample_tx_wf, of "[0, 0, 0]"] by (simp add: sample_coinbase_def)
  moreover have "drop (length sample_coinbase - length [0 :: u8, 0, 0]) sample_coinbase = [0, 0, 0]"
    by (simp add: sample_coinbase_def tx_bytes_def)
  ultimately show ?thesis by blast
qed

text \<open>
  C37.  The coinbase that the builder returns parses to the transaction it was given with one change,
  the script of the first input, which is the height push followed by the pool's tag and has at
  most 100 bytes; the shielded data behind the transparent part is kept byte for byte.
\<close>

theorem built_coinbase_reparses:
  assumes "build_coinbase sha256 heap raw tag = Returns (Inr b)" "length (bc_tx_bytes b) \<le> ISIZE_MAX"
  shows "\<exists>p i rest script off. parse_transaction heap raw = Returns (Inr p) \<and> px_inputs p = i # rest \<and>
    script = take (1 + unat (hd (ti_script_sig i))) (ti_script_sig i) @ tag \<and> length script \<le> 100 \<and>
    parse_transaction heap (bc_tx_bytes b) = Returns (Inr (rebuilt script (bc_tx_bytes b) off p)) \<and>
    trailing_data (rebuilt script (bc_tx_bytes b) off p) = trailing_data p"
proof -
  obtain p where p: "parse_transaction heap raw = Returns (Inr p)"
    using assms(1) by (auto simp: build_coinbase_def bindP_eq_Inr map_errP_eq_Inr)
  obtain i rest where i: "px_inputs p = i # rest"
    using assms(1) p by (auto simp: build_coinbase_def split: list.splits)
  define script where "script = take (1 + unat (hd (ti_script_sig i))) (ti_script_sig i) @ tag"
  have script: "length script \<le> 100" and b: "bc_tx_bytes b = reserialize_with_script p script"
    using assms(1) p i by (auto simp: build_coinbase_def script_def Let_def split: if_splits)
  have lim: "length script < USIZE_LIMIT" "length (reserialize_with_script p script) < USIZE_LIMIT"
    using script assms(2) b by (simp_all add: USIZE_LIMIT_def ISIZE_MAX_def)
  show ?thesis
    using reparse [OF parse_transaction_wf(1) [OF p] lim] p i script_def script b by metis
qed

theorem built_coinbase_reparses_witness:
  "\<exists>b q. build_coinbase (\<lambda>_. []) 1000000 sample_coinbase [47, 90] = Returns (Inr b) \<and>
     parse_transaction 1000000 (bc_tx_bytes b) = Returns (Inr q) \<and>
     ti_script_sig (hd (px_inputs q)) = [3, 1, 2, 3, 47, 90]"
proof -
  obtain r off where p: "parse_transaction 1000000 sample_coinbase =
      Returns (Inr (sample_tx\<lparr>px_raw := r, px_trailing_data_offset := Some off\<rparr>))" and "drop off r = [0, 0, 0]"
    using parse_sample_coinbase by blast
  define p' where "p' = sample_tx\<lparr>px_raw := r, px_trailing_data_offset := Some off\<rparr>"
  define b where "b = \<lparr>bc_tx_bytes = reserialize_with_script p' [3, 1, 2, 3, 47, 90], bc_txid = []\<rparr>"
  have build: "build_coinbase (\<lambda>_. []) 1000000 sample_coinbase [47, 90] = Returns (Inr b)"
    by (simp add: build_coinbase_def p p'_def b_def) (simp add: sample_tx_def compute_v4_txid_def Let_def)
  have "bc_tx_bytes b = tx_bytes (set_script [3, 1, 2, 3, 47, 90] sample_tx) [0, 0, 0]"
    using \<open>drop off r = [0, 0, 0]\<close>
    by (simp add: b_def reserialize_eq p'_def trailing_data_def) (simp add: tx_bytes_def header_word_def set_script_def)
  then have len: "length (bc_tx_bytes b) \<le> ISIZE_MAX"
    using length_sample_tx [of "[3, 1, 2, 3, 47, 90]"] by (simp add: ISIZE_MAX_def)
  obtain q where "parse_transaction 1000000 (bc_tx_bytes b) = Returns (Inr q)"
    "ti_script_sig (hd (px_inputs q)) = [3, 1, 2, 3, 47, 90]"
    using built_coinbase_reparses [OF build len] p by (auto simp: sample_tx_def rebuilt_def set_script_def)
  then show ?thesis using build by blast
qed

text \<open>
  The payout check passes exactly when no payout script is configured, or the coinbase parses and
  one of its outputs pays at least the minimum to that script.
\<close>

lemma payout_check_iff:
  "validate_payout_outputs heap v coinbase = Returns (Inr ()) \<longleftrightarrow>
     cv_pool_payout_script v = [] \<or>
     (\<exists>p out. parse_transaction heap coinbase = Returns (Inr p) \<and> out \<in> set (px_outputs p) \<and>
        to_script_pubkey out = cv_pool_payout_script v \<and> cv_min_pool_payout v \<le> to_value out)"
proof (cases "\<exists>p. parse_transaction heap coinbase = Returns (Inr p)")
  case True
  then obtain p where "parse_transaction heap coinbase = Returns (Inr p)" by blast
  then show ?thesis
    by (auto simp: validate_payout_outputs_def find_None_iff split: option.splits dest: find_SomeD)
next
  case False
  then show ?thesis by (auto simp: validate_payout_outputs_def bindP_eq_Inr map_errP_eq_Inr)
qed

text \<open>The parser reserves memory for the declared number of inputs before it has read one, so a
  transaction of a few bytes whose count exceeds the memory at hand brings the process down
  instead of being refused.\<close>

lemma parser_trusts_input_count:
  assumes "heap < 64 * unat n"
  shows "parse_transaction heap (u32_to_le_bytes 4 @ compact_bytes n) = Panics"
proof -
  let ?data = "u32_to_le_bytes 4 @ compact_bytes n"
  have len: "length ?data < USIZE_LIMIT" "\<not> length ?data < 4"
    using compact_bytes_length [of n] by (auto simp: USIZE_LIMIT_def)
  have a: "at_pos ?data 0 (u32_to_le_bytes 4 @ compact_bytes n @ [])" by (simp add: at_pos_def)
  note b = at_pos_adv [OF a length_to_le_bytes(2), unfolded add_0]
  show ?thesis
    using len(2) assms
    by (simp add: parse_transaction_def read_u32_at [OF a len(1)] read_opt_u32_def read_compact_at [OF b]
        can_reserve_def Let_def)
qed

text \<open>
  The root of the authorization data digests of a block is computed without a panic, and it is the
  root of the perfect binary tree over the smallest power of two of leaves, the digests padded by
  repeating the last one.
\<close>

theorem auth_data_root_is_perfect_tree:
  assumes "digests \<noteq> []"
  shows "\<exists>k. length digests \<le> 2 ^ k \<and> (\<forall>i < k. 2 ^ i < length digests) \<and>
    compute_auth_data_root blake2b digests =
      Returns (perfect_tree blake2b k (digests @ replicate (2 ^ k - length digests) (last digests)))"
proof -
  obtain k where k: "next_power_of_two_from 1 (length digests) = 2 ^ k" "length digests \<le> 2 ^ k"
    "\<forall>i < k. 2 ^ i < length digests"
    using next_power_of_two_from_least [of 1 "length digests"] by auto
  have "length (digests @ replicate (2 ^ k - length digests) (last digests)) = 2 ^ k" using k(2) by simp
  then show ?thesis
    using k assms by (auto simp: compute_auth_data_root_def Let_def auth_tree_eq intro!: exI [of _ k])
qed

theorem auth_data_root_is_perfect_tree_witness:
  "compute_auth_data_root (\<lambda>p m. [of_nat (length m)]) [[1], [2], [3]] = Returns [2]"
proof -
  obtain k where k: "length [[1 :: u8], [2], [3]] \<le> 2 ^ k" "\<forall>i < k. 2 ^ i < length [[1 :: u8], [2], [3]]"
    "compute_auth_data_root (\<lambda>p m. [of_nat (length m)]) [[1], [2], [3]] = Returns
      (perfect_tree (\<lambda>p m. [of_nat (length m)]) k
        ([[1], [2], [3]] @ replicate (2 ^ k - length [[1 :: u8], [2], [3]]) (last [[1], [2], [3]])))"
    using auth_data_root_is_perfect_tree [of "[[1], [2], [3]]" "\<lambda>p m. [of_nat (length m)]"] by blast
  have "k = 2"
  proof -
    have "k \<noteq> 0" using k(1) by (rule_tac notI) simp
    moreover have "k \<noteq> 1" using k(1) by (rule_tac notI) simp
    moreover have "\<not> 2 < k" using k(2) by (auto dest: spec [of _ 2])
    ultimately show ?thesis by simp
  qed
  then show ?thesis using k(3) by (simp add: numeral_2_eq_2)
qed

text \<open>
  The subsidy at a height is the initial one halved once for every full interval since Blossom; the
  cut after 64 halvings changes no value.
\<close>

lemma unat_block_subsidy:
  "unat (block_subsidy h) = 312500000 div 2 ^ ((unat h - 653600) div 1680000)"
proof -
  define n where "n = (unat h - 653600) div 1680000"
  have n: "unat (if h < BLOSSOM_ACTIVATION_HEIGHT then PRE_BLOSSOM_HALVINGS
      else PRE_BLOSSOM_HALVINGS + (h - BLOSSOM_ACTIVATION_HEIGHT) div POST_BLOSSOM_HALVING_INTERVAL) = n"
    by (auto simp: n_def BLOSSOM_ACTIVATION_HEIGHT_def PRE_BLOSSOM_HALVINGS_def POST_BLOSSOM_HALVING_INTERVAL_def
        word_less_nat_alt unat_div unat_sub_if_size)
  show ?thesis
  proof (cases "64 \<le> n")
    case True
    have "(312500000 :: nat) < 2 ^ 64" by simp
    also have "\<dots> \<le> 2 ^ n" using True by (intro power_increasing) simp_all
    finally have "(312500000 :: nat) div 2 ^ n = 0" by simp
    then show ?thesis using True n by (simp add: block_subsidy_def Let_def word_le_nat_alt n_def [symmetric])
  next
    case False
    have "unat (drop_bit n POST_BLOSSOM_INITIAL_SUBSIDY) = drop_bit n (unat POST_BLOSSOM_INITIAL_SUBSIDY)"
      by (rule unat_drop_bit_eq)
    also have "\<dots> = 312500000 div 2 ^ n"
      unfolding drop_bit_eq_div by (simp add: POST_BLOSSOM_INITIAL_SUBSIDY_def)
    finally show ?thesis
      using n False by (simp add: block_subsidy_def Let_def word_le_nat_alt n_def [symmetric])
  qed
qed

end
