(* ===== verification/Jd_Validation.thy ===== *)
theory Jd_Validation
  imports Coinbase Jd_Messages Pool_Config
begin

text \<open>
  The template validator of \<open>zcash-jd-server/src/validation.rs\<close>: levels, known transaction
  identifiers with their eviction, the structural transaction parser, the Merkle root over double
  SHA-256, and the three levels of template validation.

  The parser adds declared script lengths to its index with the wrapping addition of a release
  build, written out here with \<open>wrap\<close>.  The iteration order of a \<open>HashSet\<close> is the parameter
  \<open>iter\<close>.
\<close>

section \<open>Levels\<close>

fun to_lower :: "char \<Rightarrow> char" where
  "to_lower c = (let n = of_char c :: nat in if 65 \<le> n \<and> n \<le> 90 then char_of (n + 32) else c)"

text \<open>
  \<open>to_lowercase\<close> maps letters outside ASCII as well; none of them has an image among the three
  names apart from the Kelvin sign, which occurs in no name.
\<close>

definition level_parse :: "string \<Rightarrow> ValidationLevel option" where
  "level_parse s =
     (let l = map to_lower s in
      if l = ''minimal'' then Some LevelMinimal else if l = ''standard'' then Some LevelStandard
      else if l = ''strict'' then Some LevelStrict else None)"

definition level_as_str :: "ValidationLevel \<Rightarrow> string" where
  "level_as_str l = (case l of LevelMinimal \<Rightarrow> ''minimal'' | LevelStandard \<Rightarrow> ''standard''
     | LevelStrict \<Rightarrow> ''strict'')"

lemma level_parse_as_str: "level_parse (level_as_str l) = Some l"
  by (cases l) (simp_all add: level_parse_def level_as_str_def Let_def)

datatype ValidationResult = Valid | Invalid string | NeedTransactions "bytes list"

record TemplateValidator =
  tv_level :: ValidationLevel
  tv_pool_payout_script :: bytes
  tv_min_pool_payout :: u64
  tv_known_txids :: "bytes set"

definition TemplateValidator_new :: "ValidationLevel \<Rightarrow> bytes \<Rightarrow> u64 \<Rightarrow> TemplateValidator" where
  "TemplateValidator_new lvl script min_payout =
     \<lparr>tv_level = lvl, tv_pool_payout_script = script, tv_min_pool_payout = min_payout, tv_known_txids = {}\<rparr>"

section \<open>Known transactions\<close>

definition MAX_KNOWN_TXIDS :: nat where
  "MAX_KNOWN_TXIDS = 100000"

type_synonym set_iter = "bytes set \<Rightarrow> bytes list"

text \<open>Keep the first half in iteration order.\<close>

definition evict_half :: "set_iter \<Rightarrow> bytes set \<Rightarrow> bytes set" where
  "evict_half iter known = known - set (drop (card known div 2) (iter known))"

definition update_known_txids :: "set_iter \<Rightarrow> bytes list \<Rightarrow> TemplateValidator \<Rightarrow> TemplateValidator" where
  "update_known_txids iter txids self =
     (let known = (if MAX_KNOWN_TXIDS < card (tv_known_txids self) + length txids
        then evict_half iter (tv_known_txids self) else tv_known_txids self)
      in self\<lparr>tv_known_txids := known \<union> set txids\<rparr>)"

definition clear_known_txids :: "TemplateValidator \<Rightarrow> TemplateValidator" where
  "clear_known_txids self = self\<lparr>tv_known_txids := {}\<rparr>"

definition add_known_txid :: "set_iter \<Rightarrow> bytes \<Rightarrow> TemplateValidator \<Rightarrow> TemplateValidator" where
  "add_known_txid iter txid self =
     (let known = (if MAX_KNOWN_TXIDS \<le> card (tv_known_txids self)
        then evict_half iter (tv_known_txids self) else tv_known_txids self)
      in self\<lparr>tv_known_txids := insert txid known\<rparr>)"

definition is_txid_known :: "TemplateValidator \<Rightarrow> bytes \<Rightarrow> bool" where
  "is_txid_known self txid \<longleftrightarrow> txid \<in> tv_known_txids self"

section \<open>The structural parser\<close>

definition wrap :: "nat \<Rightarrow> nat" where
  "wrap n = n mod USIZE_LIMIT"

definition jd_read_compact_size :: "bytes \<Rightarrow> nat \<Rightarrow> string + (nat \<times> nat)" where
  "jd_read_compact_size data cursor =
     bindR (map_err (\<lambda>_. ''compact size out of bounds'') (read_compact_size data cursor))
       (\<lambda>(n, cursor). Inr (unat n, cursor))"

fun skip_inputs :: "bytes \<Rightarrow> nat \<Rightarrow> nat \<Rightarrow> string + nat" where
  "skip_inputs data 0 cursor = Inr cursor"
| "skip_inputs data (Suc n) cursor =
     (if length data < cursor + 36 then Inl ''input out of bounds'' else
      bindR (jd_read_compact_size data (cursor + 36)) (\<lambda>(script_len, cursor).
      if length data < wrap (wrap (cursor + script_len) + 4) then Inl ''scriptSig out of bounds'' else
      skip_inputs data n (wrap (wrap (cursor + script_len) + 4))))"

fun skip_outputs :: "bytes \<Rightarrow> nat \<Rightarrow> nat \<Rightarrow> string + nat" where
  "skip_outputs data 0 cursor = Inr cursor"
| "skip_outputs data (Suc n) cursor =
     (if length data < cursor + 8 then Inl ''output value out of bounds'' else
      bindR (jd_read_compact_size data (cursor + 8)) (\<lambda>(script_len, cursor).
      if length data < wrap (cursor + script_len) then Inl ''output script out of bounds'' else
      skip_outputs data n (wrap (cursor + script_len))))"

definition parse_transaction_jd :: "bytes \<Rightarrow> string + unit" where
  "parse_transaction_jd data =
     (if length data < 4 then Inl ''transaction too short'' else
      let version = u32_from_le_bytes (take 4 data); overwinter = (version AND 0x80000000 \<noteq> 0) in
      if overwinter \<and> length data < 8 then Inl ''missing version group id'' else
      bindR (jd_read_compact_size data (if overwinter then 8 else 4)) (\<lambda>(vin_count, cursor).
      bindR (skip_inputs data vin_count cursor) (\<lambda>cursor.
      bindR (jd_read_compact_size data cursor) (\<lambda>(vout_count, cursor).
      bindR (skip_outputs data vout_count cursor) (\<lambda>cursor.
      if length data < cursor + 4 then Inl ''missing lock_time'' else
      if overwinter \<and> length data < cursor + 8 then Inl ''missing expiry_height'' else
      if length data < cursor + (if overwinter then 8 else 4) then Inl ''transaction parse overflow''
      else Inr ())))))"

section \<open>Identifiers and the Merkle root\<close>

definition compute_txid :: "sha256_fn \<Rightarrow> bytes \<Rightarrow> bytes" where
  "compute_txid sha256 data = sha256 (sha256 data)"

fun txid_layer :: "sha256_fn \<Rightarrow> bytes list \<Rightarrow> bytes list" where
  "txid_layer sha256 [] = []"
| "txid_layer sha256 [l] = [compute_txid sha256 (l @ l)]"
| "txid_layer sha256 (l # r # rest) = compute_txid sha256 (l @ r) # txid_layer sha256 rest"

lemma length_txid_layer: "length (txid_layer sha256 xs) = (length xs + 1) div 2"
  by (induction sha256 xs rule: txid_layer.induct) auto

function merkle_loop :: "sha256_fn \<Rightarrow> bytes list \<Rightarrow> bytes" where
  "merkle_loop sha256 layer =
     (if length layer > 1 then merkle_loop sha256 (txid_layer sha256 layer) else layer ! 0)"
  by auto
termination
  by (relation "measure (\<lambda>(_, layer). length layer)") (auto simp: length_txid_layer)

declare merkle_loop.simps [simp del]

definition merkle_root_from_txids :: "sha256_fn \<Rightarrow> bytes list \<Rightarrow> bytes" where
  "merkle_root_from_txids sha256 txids =
     (if txids = [] then replicate 32 0 else merkle_loop sha256 txids)"

definition compute_merkle_root :: "sha256_fn \<Rightarrow> bytes \<Rightarrow> bytes list \<Rightarrow> bytes option" where
  "compute_merkle_root sha256 coinbase txids =
     (if coinbase = [] then None
      else Some (merkle_root_from_txids sha256 (compute_txid sha256 coinbase # txids)))"

section \<open>Validation\<close>

definition validate_pool_payout :: "nat \<Rightarrow> TemplateValidator \<Rightarrow> bytes \<Rightarrow> bool outcome" where
  "validate_pool_payout heap self coinbase =
     (if tv_pool_payout_script self = [] then Returns True
      else case validate_payout_outputs heap \<lparr>cv_pool_payout_script = tv_pool_payout_script self,
             cv_min_pool_payout = tv_min_pool_payout self\<rparr> coinbase of
        Panics \<Rightarrow> Panics
      | Returns r \<Rightarrow> Returns (\<not> isl r))"

definition validate_coinbase :: "nat \<Rightarrow> TemplateValidator \<Rightarrow> bytes \<Rightarrow> (string + unit) outcome" where
  "validate_coinbase heap self coinbase =
     (case (if tv_pool_payout_script self \<noteq> [] then validate_pool_payout heap self coinbase else Returns True) of
        Panics \<Rightarrow> Panics
      | Returns paid \<Rightarrow>
          if \<not> paid then Returns (Inl ''Missing or insufficient pool payout'')
          else Returns (map_err (\<lambda>err. ''invalid coinbase transaction: '' @ err) (parse_transaction_jd coinbase)))"

fun check_provided :: "sha256_fn \<Rightarrow> bytes list \<Rightarrow> bytes list \<Rightarrow> string + bytes set" where
  "check_provided sha256 ids [] = Inr {}"
| "check_provided sha256 ids (tx # txs) =
     bindR (map_err (\<lambda>err. ''invalid transaction data: '' @ err) (parse_transaction_jd tx)) (\<lambda>_.
     if compute_txid sha256 tx \<notin> set ids then Inl ''transaction data not referenced'' else
     bindR (check_provided sha256 ids txs) (\<lambda>provided. Inr (insert (compute_txid sha256 tx) provided)))"

definition validate_standard :: "sha256_fn \<Rightarrow> TemplateValidator \<Rightarrow> SetFullTemplateJob \<Rightarrow> ValidationResult" where
  "validate_standard sha256 self job =
     (if length (sft_tx_short_ids job) < length (sft_tx_data job) then Invalid ''too many transactions provided''
      else case check_provided sha256 (sft_tx_short_ids job) (sft_tx_data job) of
        Inl reason \<Rightarrow> Invalid reason
      | Inr provided \<Rightarrow>
          let missing = filter (\<lambda>txid. txid \<notin> tv_known_txids self \<and> txid \<notin> provided) (sft_tx_short_ids job) in
          if missing \<noteq> [] then NeedTransactions missing
          else case compute_merkle_root sha256 (sft_coinbase_tx job) (sft_tx_short_ids job) of
            Some r \<Rightarrow> if r \<noteq> sft_merkle_root job then Invalid ''invalid merkle root'' else Valid
          | None \<Rightarrow> Invalid ''empty coinbase transaction'')"

fun check_strict :: "sha256_fn \<Rightarrow> bytes list \<Rightarrow> bytes list \<Rightarrow> ValidationResult" where
  "check_strict sha256 ids [] = Valid"
| "check_strict sha256 ids (tx # txs) =
     (if tx = [] then Invalid ''empty transaction data''
      else if compute_txid sha256 tx \<notin> set ids then Invalid ''transaction data not referenced''
      else check_strict sha256 ids txs)"

definition validate_strict :: "sha256_fn \<Rightarrow> TemplateValidator \<Rightarrow> SetFullTemplateJob \<Rightarrow> ValidationResult" where
  "validate_strict sha256 self job =
     (case validate_standard sha256 self job of
        Valid \<Rightarrow> check_strict sha256 (sft_tx_short_ids job) (sft_tx_data job)
      | other \<Rightarrow> other)"

definition validate_template ::
  "nat \<Rightarrow> sha256_fn \<Rightarrow> TemplateValidator \<Rightarrow> SetFullTemplateJob \<Rightarrow> ValidationResult outcome" where
  "validate_template heap sha256 self job =
     (case (if tv_pool_payout_script self \<noteq> [] then validate_pool_payout heap self (sft_coinbase_tx job)
            else Returns True) of
        Panics \<Rightarrow> Panics
      | Returns paid \<Rightarrow> Returns (
          if \<not> paid then Invalid ''Missing or insufficient pool payout''
          else case parse_transaction_jd (sft_coinbase_tx job) of
            Inl err \<Rightarrow> Invalid (''invalid coinbase transaction: '' @ err)
          | Inr _ \<Rightarrow>
              (case tv_level self of LevelMinimal \<Rightarrow> Valid
               | LevelStandard \<Rightarrow> validate_standard sha256 self job
               | LevelStrict \<Rightarrow> validate_strict sha256 self job)))"

section \<open>The two parsers agree\<close>

lemma wrap_id: "n < USIZE_LIMIT \<Longrightarrow> wrap n = n"
  by (simp add: wrap_def)

lemma jd_read_compact_size_eq:
  "read_compact_size_tx data c = Inr (n, c') \<Longrightarrow> jd_read_compact_size data c = Inr (unat n, c')"
  by (auto simp: read_compact_size_tx_eq jd_read_compact_size_def map_err_eq_Inr)

lemma skip_inputs_follows:
  "parse_inputs data n c = Returns (Inr (ins, c')) \<Longrightarrow> length data < USIZE_LIMIT \<Longrightarrow> skip_inputs data n c = Inr c'"
proof (induction n arbitrary: c ins)
  case (Suc n)
  from Suc.prems(1) obtain h i l s q c1 c2 c3 c4 c5 rest where
    r: "read_bytes data c 32 = Returns (Inr (h, c1))" "read_u32_le data c1 = Returns (Inr (i, c2))"
    "read_compact_size_tx data c2 = Inr (l, c3)" "read_bytes data c3 (unat l) = Returns (Inr (s, c4))"
    "read_u32_le data c4 = Returns (Inr (q, c5))" "parse_inputs data n c5 = Returns (Inr (rest, c'))"
    by (auto simp: bindP_eq_Inr)
  have c: "c2 = c + 36" "c + 36 \<le> length data" "c5 = c3 + unat l + 4" "c3 + unat l + 4 \<le> length data"
    using r by (auto dest!: read_bytes_InrD read_u32_le_InrD)
  have "skip_inputs data n c5 = Inr c'"
    using Suc.IH [OF r(6) Suc.prems(2)] .
  then show ?case
    using c jd_read_compact_size_eq [OF r(3)] Suc.prems(2) by (simp add: wrap_id)
qed simp

lemma skip_outputs_follows:
  "parse_outputs data n c = Returns (Inr (outs, c')) \<Longrightarrow> length data < USIZE_LIMIT \<Longrightarrow> skip_outputs data n c = Inr c'"
proof (induction n arbitrary: c outs)
  case (Suc n)
  from Suc.prems(1) obtain v l s c1 c2 c3 rest where
    r: "read_u64_le data c = Returns (Inr (v, c1))" "read_compact_size_tx data c1 = Inr (l, c2)"
    "read_bytes data c2 (unat l) = Returns (Inr (s, c3))" "parse_outputs data n c3 = Returns (Inr (rest, c'))"
    by (auto simp: bindP_eq_Inr)
  have c: "c1 = c + 8" "c + 8 \<le> length data" "c3 = c2 + unat l" "c2 + unat l \<le> length data"
    using r by (auto dest!: read_bytes_InrD read_u64_le_InrD)
  have "skip_outputs data n c3 = Inr c'"
    using Suc.IH [OF r(4) Suc.prems(2)] .
  then show ?case
    using c jd_read_compact_size_eq [OF r(2)] Suc.prems(2) by (simp add: wrap_id)
qed simp

lemma high_bit_iff: "((w :: u32) AND 0x80000000 \<noteq> 0) \<longleftrightarrow> drop_bit 31 w = 1"
proof -
  have a: "w AND 0x80000000 = push_bit 31 (drop_bit 31 w)"
  proof (rule bit_word_eqI)
    fix n assume "n < LENGTH(32)"
    then have "bit (0x80000000 :: u32) n \<longleftrightarrow> n = 31"
      using bit_push_bit_iff [of 31 "1 :: u32" n] by (auto simp: push_bit_eq_mult)
    moreover have "n \<ge> 31 \<longleftrightarrow> n = 31" using \<open>n < LENGTH(32)\<close> by auto
    ultimately show "bit (w AND 0x80000000) n \<longleftrightarrow> bit (push_bit 31 (drop_bit 31 w)) n"
      using \<open>n < LENGTH(32)\<close> by (auto simp: bit_and_iff bit_push_bit_iff bit_drop_bit_eq)
  qed
  have "unat (drop_bit 31 w) = drop_bit 31 (unat w)" by (rule unat_drop_bit_eq)
  then have "unat (drop_bit 31 w) = unat w div 2 ^ 31" by (simp only: drop_bit_eq_div [of 31 "unat w"])
  moreover have "unat w < 2 ^ 32" using unat_less_pow [of w] by simp
  ultimately have small: "unat (drop_bit 31 w) < 2" by (simp add: less_mult_imp_div_less)
  then have "drop_bit 31 w = 0 \<or> drop_bit 31 w = 1"
    by (auto simp: word_unat_eq_iff less_2_cases_iff)
  then show ?thesis unfolding a by auto
qed

lemma parsers_agree:
  assumes "parse_transaction heap data = Returns (Inr p)" "length data < USIZE_LIMIT"
  shows "parse_transaction_jd data = Inr ()"
proof -
  define w where "w = u32_from_le_bytes (take 4 data)"
  define ow where "ow = (drop_bit 31 w = 1)"
  have len: "\<not> length data < 4" using assms(1) by (auto simp: parse_transaction_def split: if_splits)
  have hd: "read_u32_le data 0 = Returns (Inr (w, 4))"
    using len assms(2) by (simp add: read_u32_le_def read_bytes_def w_def)
  obtain g n ins m outs lt ex c1 c2 c3 c4 c5 c6 c7 where
    r: "read_opt_u32 ow data 4 = Returns (Inr (g, c1))" "read_compact_size_tx data c1 = Inr (n, c2)"
    "parse_inputs data (unat n) c2 = Returns (Inr (ins, c3))" "read_compact_size_tx data c3 = Inr (m, c4)"
    "parse_outputs data (unat m) c4 = Returns (Inr (outs, c5))" "read_u32_le data c5 = Returns (Inr (lt, c6))"
    "read_opt_u32 ow data c6 = Returns (Inr (ex, c7))"
    using assms(1) len hd
    by (auto simp: parse_transaction_def ow_def Let_def bindP_eq_Inr split: if_splits)
  have c: "c1 = (if ow then 8 else 4)" "ow \<Longrightarrow> 8 \<le> length data" "c5 + 4 \<le> length data" "ow \<Longrightarrow> c5 + 8 \<le> length data"
    using r(1,6,7) by (auto simp: read_opt_u32_def bindP_eq_Inr split: if_splits dest!: read_u32_le_InrD)
  have ow: "(w AND 0x80000000 \<noteq> 0) = ow" by (simp add: high_bit_iff ow_def)
  show ?thesis
    using len c jd_read_compact_size_eq [OF r(2)] jd_read_compact_size_eq [OF r(4)]
      skip_inputs_follows [OF r(3) assms(2)] skip_outputs_follows [OF r(5) assms(2)] ow
    by (cases ow) (simp_all add: parse_transaction_jd_def w_def [symmetric] Let_def)
qed

section \<open>Properties\<close>

lemma isl_unit: "isl (r :: 'a + unit) \<longleftrightarrow> r \<noteq> Inr ()"
  by (cases r) auto

lemma parse_jd_length: "parse_transaction_jd tx = Inr () \<Longrightarrow> 4 \<le> length tx"
  by (auto simp: parse_transaction_jd_def split: if_splits)

lemma check_provided_ok:
  "check_provided sha256 ids txs = Inr provided \<longleftrightarrow>
     (\<forall>tx \<in> set txs. parse_transaction_jd tx = Inr () \<and> compute_txid sha256 tx \<in> set ids) \<and>
     provided = compute_txid sha256 ` set txs"
  by (induction txs arbitrary: provided) (auto simp: bindR_eq_Inr map_err_eq_Inr)

lemma check_strict_ok:
  "check_strict sha256 ids txs = Valid \<longleftrightarrow> (\<forall>tx \<in> set txs. tx \<noteq> [] \<and> compute_txid sha256 tx \<in> set ids)"
  by (induction txs) auto

lemma validate_standard_ok:
  "validate_standard sha256 v job = Valid \<longleftrightarrow>
     length (sft_tx_data job) \<le> length (sft_tx_short_ids job) \<and>
     (\<forall>tx \<in> set (sft_tx_data job). parse_transaction_jd tx = Inr () \<and>
        compute_txid sha256 tx \<in> set (sft_tx_short_ids job)) \<and>
     (\<forall>txid \<in> set (sft_tx_short_ids job). txid \<in> tv_known_txids v \<or> txid \<in> compute_txid sha256 ` set (sft_tx_data job)) \<and>
     compute_merkle_root sha256 (sft_coinbase_tx job) (sft_tx_short_ids job) = Some (sft_merkle_root job)"
proof (cases "check_provided sha256 (sft_tx_short_ids job) (sft_tx_data job)")
  case (Inl e)
  then have "\<not> (\<forall>tx \<in> set (sft_tx_data job). parse_transaction_jd tx = Inr () \<and>
      compute_txid sha256 tx \<in> set (sft_tx_short_ids job))"
    using check_provided_ok [of sha256 "sft_tx_short_ids job" "sft_tx_data job"] by fastforce
  with Inl show ?thesis by (auto simp: validate_standard_def)
next
  case (Inr provided)
  then show ?thesis
    using check_provided_ok [of sha256 "sft_tx_short_ids job" "sft_tx_data job" provided]
    by (auto simp: validate_standard_def Let_def not_less filter_empty_conv split: option.splits)
qed

text \<open>With a payout script configured, a declared coinbase passes exactly when it parses and one of its
  outputs pays at least the minimum to the pool's script: the second, structural parser never
  refuses what the first one accepted, and its wrapping additions never wrap on it.\<close>

lemma coinbase_accepted_iff:
  assumes "tv_pool_payout_script v \<noteq> []" "length coinbase \<le> ISIZE_MAX"
  shows "validate_coinbase heap v coinbase = Returns (Inr ()) \<longleftrightarrow>
    (\<exists>p out. parse_transaction heap coinbase = Returns (Inr p) \<and> out \<in> set (px_outputs p) \<and>
       to_script_pubkey out = tv_pool_payout_script v \<and> tv_min_pool_payout v \<le> to_value out)"
proof -
  let ?cv = "\<lparr>cv_pool_payout_script = tv_pool_payout_script v, cv_min_pool_payout = tv_min_pool_payout v\<rparr>"
  have lim: "length coinbase < USIZE_LIMIT" using assms(2) by (simp add: ISIZE_MAX_def USIZE_LIMIT_def)
  have "validate_coinbase heap v coinbase = Returns (Inr ()) \<longleftrightarrow>
      validate_payout_outputs heap ?cv coinbase = Returns (Inr ()) \<and> parse_transaction_jd coinbase = Inr ()"
    using assms(1)
    by (auto simp: validate_coinbase_def validate_pool_payout_def map_err_eq_Inr isl_unit split: outcome.splits if_splits)
  then show ?thesis
    using payout_check_iff [of heap ?cv coinbase] parsers_agree [OF _ lim] assms(1) by auto
qed

text \<open>
  The strict level accepts exactly the templates that the standard level accepts, and answers
  every template the same way: all it checks has been checked.
\<close>

theorem strict_is_standard: "validate_strict sha256 v job = validate_standard sha256 v job"
proof (cases "validate_standard sha256 v job")
  case Valid
  then have "\<forall>tx \<in> set (sft_tx_data job). parse_transaction_jd tx = Inr () \<and>
      compute_txid sha256 tx \<in> set (sft_tx_short_ids job)"
    by (simp add: validate_standard_ok)
  then have "check_strict sha256 (sft_tx_short_ids job) (sft_tx_data job) = Valid"
    by (fastforce simp: check_strict_ok dest: parse_jd_length)
  with Valid show ?thesis by (simp add: validate_strict_def)
qed (simp_all add: validate_strict_def)

definition looping_tx :: bytes where
  "looping_tx = u32_to_le_bytes 4 @ compact_bytes 0xFFFFFFFFFFFFFFFF @ replicate 36 0 @ compact_bytes 0xFFFFFFFFFFFFFFCF"

text \<open>
  The structural parser need not make progress.  On this transaction of 58 bytes every pass of the
  input loop wraps the index back to where it was, so the loop runs as often as the declared number
  of inputs says, \<open>2 ^ 64 - 1\<close> times, before the transaction is accepted.
\<close>

theorem parser_makes_no_progress:
  "length looping_tx = 58 \<and> jd_read_compact_size looping_tx 4 = Inr (2 ^ 64 - 1, 13) \<and>
   (\<forall>n. skip_inputs looping_tx n 13 = Inr 13) \<and> parse_transaction_jd looping_tx = Inr ()"
proof -
  have m1: "unat (0xFFFFFFFFFFFFFFFF :: u64) = 2 ^ 64 - 1" by simp
  have m49: "unat (0xFFFFFFFFFFFFFFCF :: u64) = 2 ^ 64 - 49" by simp
  have len: "length (compact_bytes 0xFFFFFFFFFFFFFFFF) = 9" "length (compact_bytes 0xFFFFFFFFFFFFFFCF) = 9"
    using m1 m49 by (simp_all add: compact_bytes_def)
  have total: "length looping_tx = 58" using len by (simp add: looping_tx_def)
  have r1: "jd_read_compact_size looping_tx 4 = Inr (2 ^ 64 - 1, 13)"
    using read_compact_bytes [of "u32_to_le_bytes 4" "0xFFFFFFFFFFFFFFFF" "replicate 36 0 @ compact_bytes 0xFFFFFFFFFFFFFFCF"] len m1
    by (simp add: jd_read_compact_size_def looping_tx_def)
  have r2: "jd_read_compact_size looping_tx 49 = Inr (2 ^ 64 - 49, 58)"
    using read_compact_bytes [of "u32_to_le_bytes 4 @ compact_bytes 0xFFFFFFFFFFFFFFFF @ replicate 36 0" "0xFFFFFFFFFFFFFFCF" "[]"] len m49
    by (simp add: jd_read_compact_size_def looping_tx_def)
  have w: "wrap (wrap (58 + (2 ^ 64 - 49)) + 4) = 13" by (simp add: wrap_def USIZE_LIMIT_def)
  have loop: "skip_inputs looping_tx n 13 = Inr 13" for n
  proof (induction n)
    case (Suc n)
    then show ?case using total r2 w by simp
  qed simp
  have r3: "jd_read_compact_size looping_tx 13 = Inr (0, 14)"
    using len total by (simp add: jd_read_compact_size_def read_compact_size_def looping_tx_def nth_append)
  have v: "u32_from_le_bytes (take 4 looping_tx) = 4" by (simp add: looping_tx_def)
  have "parse_transaction_jd looping_tx = Inr ()"
    using total r1 loop r3 by (simp add: parse_transaction_jd_def v)
  then show ?thesis using total r1 loop by blast
qed

text \<open>
  The number of known transaction identifiers stays within the maximum when they arrive one by one,
  whatever order the set is iterated in; a batch larger than the maximum is stored whole.
\<close>

theorem known_txids_bound:
  assumes "finite (tv_known_txids v)" "card (tv_known_txids v) \<le> MAX_KNOWN_TXIDS"
    and "set (iter (tv_known_txids v)) = tv_known_txids v" "distinct (iter (tv_known_txids v))"
  shows "card (tv_known_txids (add_known_txid iter txid v)) \<le> MAX_KNOWN_TXIDS \<and>
    (distinct txids \<longrightarrow> length txids \<le> card (tv_known_txids (update_known_txids iter txids v)))"
proof -
  let ?k = "tv_known_txids v"
  have "?k - set (drop (card ?k div 2) (iter ?k)) \<subseteq> set (take (card ?k div 2) (iter ?k))"
    using assms(3) by (metis Diff_subset_conv append_take_drop_id order_refl set_append sup.commute)
  then have "card (evict_half iter ?k) \<le> card ?k div 2"
    unfolding evict_half_def
    using card_mono [of "set (take (card ?k div 2) (iter ?k))"] card_length [of "take (card ?k div 2) (iter ?k)"]
    by (metis (no_types, lifting) List.finite_set length_take min.cobounded2 order_trans)
  moreover have "finite (evict_half iter ?k)" using assms(1) by (simp add: evict_half_def)
  ultimately have "card (insert txid (evict_half iter ?k)) \<le> Suc (card ?k div 2)"
    by (simp add: card_insert_if)
  then have "card (tv_known_txids (add_known_txid iter txid v)) \<le> MAX_KNOWN_TXIDS"
    using assms(1,2) by (auto simp: add_known_txid_def card_insert_if MAX_KNOWN_TXIDS_def Let_def)
  moreover have "length txids \<le> card (tv_known_txids (update_known_txids iter txids v))" if "distinct txids"
  proof -
    have "finite (tv_known_txids (update_known_txids iter txids v))"
      using assms(1) by (simp add: update_known_txids_def evict_half_def Let_def)
    moreover have "set txids \<subseteq> tv_known_txids (update_known_txids iter txids v)"
      by (simp add: update_known_txids_def Let_def)
    ultimately show ?thesis using card_mono distinct_card [OF that] by metis
  qed
  ultimately show ?thesis by blast
qed

theorem known_txids_bound_witness:
  "card (tv_known_txids (add_known_txid (\<lambda>_. []) [1] (TemplateValidator_new LevelStandard [] 0))) \<le> MAX_KNOWN_TXIDS"
  using known_txids_bound [of "TemplateValidator_new LevelStandard [] 0" "\<lambda>_. []" "[1]" "[]"]
  by (simp add: TemplateValidator_new_def)

end
