(* ===== verification/Jd_Codec.thy ===== *)
theory Jd_Codec
  imports Jd_Messages
begin

text \<open>
  The binary codec of \<open>zcash-jd-server/src/codec.rs\<close>: the shared frame checks, the readers and
  writers of length-prefixed strings, byte vectors, transaction lists and shares, and an encoder and
  a decoder for each message.  A length is written with an \<open>as u16\<close> or \<open>as u32\<close> cast, which
  truncates; every message whose fields fit is an instance of the codec contract.
\<close>

section \<open>Frames, strings and byte vectors\<close>

definition show_protocol_error :: "ProtocolError \<Rightarrow> string" where
  "show_protocol_error e = (case e of
     InvalidMessageType t \<Rightarrow> ''Invalid message type: '' @ show_nat (unat t)
   | MessageTooShort ex ac \<Rightarrow> ''Message too short: expected '' @ show_nat ex @ '', got '' @ show_nat ac
   | InvalidNonceLength ex ac \<Rightarrow> ''Invalid nonce length: expected '' @ show_nat ex @ '', got '' @ show_nat ac
   | InvalidSolutionLength n \<Rightarrow> ''Invalid solution length: expected 1344, got '' @ show_nat n
   | UnknownChannel c \<Rightarrow> ''Unknown channel: '' @ show_nat (unat c)
   | UnknownJob j \<Rightarrow> ''Unknown job: '' @ show_nat (unat j)
   | StaleShare j \<Rightarrow> ''Stale share: job '' @ show_nat (unat j) @ '' superseded''
   | DuplicateShare \<Rightarrow> ''Duplicate share''
   | InvalidSolution s \<Rightarrow> ''Invalid solution: '' @ s
   | TargetNotMet \<Rightarrow> ''Target not met: share difficulty below threshold''
   | EncodingError s \<Rightarrow> ''Encoding error: '' @ s)"

text \<open>The two lower case digits of \<open>{:02x}\<close>.\<close>

definition hex_char :: "nat \<Rightarrow> char" where
  "hex_char n = (if n < 10 then char_of (48 + n) else char_of (87 + n))"

definition show_hex2 :: "u8 \<Rightarrow> string" where
  "show_hex2 b = [hex_char (unat b div 16), hex_char (unat b mod 16)]"

definition frame_payload :: "bytes \<Rightarrow> u8 \<Rightarrow> JdServerError + bytes" where
  "frame_payload data expected_type =
     bindR (map_err (\<lambda>e. JdProtocol (show_protocol_error e)) (MessageFrame_decode data)) (\<lambda>frame.
     if msg_type frame \<noteq> expected_type then
       Inl (JdProtocol (''Invalid message type: expected 0x'' @ show_hex2 expected_type @ '', got 0x'' @
         show_hex2 (msg_type frame))) else
     let total_len = HEADER_SIZE + unat (frame_length frame) in
     if length data < total_len then
       Inl (JdProtocol (''Message too short: expected '' @ show_nat total_len @ '', got '' @ show_nat (length data))) else
     if total_len < length data then Inl (JdProtocol ''trailing bytes in message'') else
     Inr (take (unat (frame_length frame)) (drop HEADER_SIZE data)))"

definition rdj :: "('a \<times> bytes) option \<Rightarrow> JdServerError + ('a \<times> bytes)" where
  "rdj r = ok_or (JdProtocol ''failed to fill whole buffer'') r"

definition exceeds_remaining :: "string \<Rightarrow> nat \<Rightarrow> nat \<Rightarrow> JdServerError" where
  "exceeds_remaining what len remaining =
     JdProtocol (what @ '' length '' @ show_nat len @ '' exceeds remaining message data ('' @ show_nat remaining @ '')'')"

definition read_string :: "bytes \<Rightarrow> JdServerError + (string \<times> bytes)" where
  "read_string cursor =
     bindR (rdj (read_u16 cursor)) (\<lambda>(len, cursor).
     if length cursor < unat len then Inl (exceeds_remaining ''string'' (unat len) (length cursor)) else
     bindR (rdj (read_exact (unat len) cursor)) (\<lambda>(buf, cursor).
     bindR (map_err (\<lambda>e. JdProtocol (utf8_error_display e)) (from_utf8 buf)) (\<lambda>s.
     Inr (s, cursor))))"

definition write_string :: "string \<Rightarrow> bytes" where
  "write_string s = u16_to_le_bytes (of_nat (length s)) @ as_bytes s"

definition read_bytes_u16 :: "bytes \<Rightarrow> JdServerError + (bytes \<times> bytes)" where
  "read_bytes_u16 cursor =
     bindR (rdj (read_u16 cursor)) (\<lambda>(len, cursor).
     if length cursor < unat len then Inl (exceeds_remaining ''field'' (unat len) (length cursor)) else
     rdj (read_exact (unat len) cursor))"

definition write_bytes_u16 :: "bytes \<Rightarrow> bytes" where
  "write_bytes_u16 data = u16_to_le_bytes (of_nat (length data)) @ data"

definition read_bytes_u32 :: "bytes \<Rightarrow> JdServerError + (bytes \<times> bytes)" where
  "read_bytes_u32 cursor =
     bindR (rdj (read_u32 cursor)) (\<lambda>(len, cursor).
     if length cursor < unat len then Inl (exceeds_remaining ''field'' (unat len) (length cursor)) else
     rdj (read_exact (unat len) cursor))"

definition write_bytes_u32 :: "bytes \<Rightarrow> bytes" where
  "write_bytes_u32 data = u32_to_le_bytes (of_nat (length data)) @ data"

section \<open>Token allocation\<close>

definition encode_allocate_token :: "AllocateMiningJobToken \<Rightarrow> JdServerError + bytes" where
  "encode_allocate_token msg =
     (let payload = u32_to_le_bytes (amt_request_id msg) @ write_string (amt_user_identifier msg) @
        [mode_as_u8 (amt_requested_mode msg)]
      in Inr (frame_message ALLOCATE_MINING_JOB_TOKEN payload))"

text \<open>A missing or unknown mode byte means coinbase only.\<close>

definition read_mode :: "bytes \<Rightarrow> JobDeclarationMode" where
  "read_mode cursor = (case read_u8 cursor of
     Some (b, _) \<Rightarrow> (case mode_from_u8 b of Some m \<Rightarrow> m | None \<Rightarrow> CoinbaseOnly)
   | None \<Rightarrow> CoinbaseOnly)"

definition decode_allocate_token :: "bytes \<Rightarrow> JdServerError + AllocateMiningJobToken" where
  "decode_allocate_token data =
     bindR (frame_payload data ALLOCATE_MINING_JOB_TOKEN) (\<lambda>cursor.
     bindR (rdj (read_u32 cursor)) (\<lambda>(request_id, cursor).
     bindR (read_string cursor) (\<lambda>(user_identifier, cursor).
     Inr \<lparr>amt_request_id = request_id, amt_user_identifier = user_identifier,
       amt_requested_mode = read_mode cursor\<rparr>)))"

definition encode_allocate_token_success :: "AllocateMiningJobTokenSuccess \<Rightarrow> JdServerError + bytes" where
  "encode_allocate_token_success msg =
     (let payload = u32_to_le_bytes (ats_request_id msg) @ write_bytes_u16 (ats_mining_job_token msg) @
        write_bytes_u16 (ats_coinbase_output msg) @
        u32_to_le_bytes (ats_coinbase_output_max_additional_size msg) @
        [bool_byte (ats_async_mining_allowed msg)] @ [mode_as_u8 (ats_granted_mode msg)]
      in Inr (frame_message ALLOCATE_MINING_JOB_TOKEN_SUCCESS payload))"

definition decode_allocate_token_success :: "bytes \<Rightarrow> JdServerError + AllocateMiningJobTokenSuccess" where
  "decode_allocate_token_success data =
     bindR (frame_payload data ALLOCATE_MINING_JOB_TOKEN_SUCCESS) (\<lambda>cursor.
     bindR (rdj (read_u32 cursor)) (\<lambda>(request_id, cursor).
     bindR (read_bytes_u16 cursor) (\<lambda>(mining_job_token, cursor).
     bindR (read_bytes_u16 cursor) (\<lambda>(coinbase_output, cursor).
     bindR (rdj (read_u32 cursor)) (\<lambda>(max_additional_size, cursor).
     bindR (rdj (read_u8 cursor)) (\<lambda>(async_mining_allowed, cursor).
     Inr \<lparr>ats_request_id = request_id, ats_mining_job_token = mining_job_token,
       ats_coinbase_output = coinbase_output, ats_coinbase_output_max_additional_size = max_additional_size,
       ats_async_mining_allowed = (async_mining_allowed \<noteq> 0), ats_granted_mode = read_mode cursor\<rparr>))))))"

section \<open>Custom jobs\<close>

definition custom_job_payload :: "SetCustomMiningJob \<Rightarrow> bytes" where
  "custom_job_payload msg =
     u32_to_le_bytes (scj_channel_id msg) @ u32_to_le_bytes (scj_request_id msg) @
     write_bytes_u16 (scj_mining_job_token msg) @ u32_to_le_bytes (scj_version msg) @
     scj_prev_hash msg @ scj_merkle_root msg @ scj_block_commitments msg @
     write_bytes_u32 (scj_coinbase_tx msg) @ u32_to_le_bytes (scj_time msg) @ u32_to_le_bytes (scj_bits msg)"

definition encode_set_custom_job :: "SetCustomMiningJob \<Rightarrow> JdServerError + bytes" where
  "encode_set_custom_job msg = Inr (frame_message SET_CUSTOM_MINING_JOB (custom_job_payload msg))"

definition decode_set_custom_job :: "bytes \<Rightarrow> JdServerError + SetCustomMiningJob" where
  "decode_set_custom_job data =
     bindR (frame_payload data SET_CUSTOM_MINING_JOB) (\<lambda>cursor.
     bindR (rdj (read_u32 cursor)) (\<lambda>(channel_id, cursor).
     bindR (rdj (read_u32 cursor)) (\<lambda>(request_id, cursor).
     bindR (read_bytes_u16 cursor) (\<lambda>(mining_job_token, cursor).
     bindR (rdj (read_u32 cursor)) (\<lambda>(version, cursor).
     bindR (rdj (read_exact 32 cursor)) (\<lambda>(prev_hash, cursor).
     bindR (rdj (read_exact 32 cursor)) (\<lambda>(merkle_root, cursor).
     bindR (rdj (read_exact 32 cursor)) (\<lambda>(block_commitments, cursor).
     bindR (read_bytes_u32 cursor) (\<lambda>(coinbase_tx, cursor).
     bindR (rdj (read_u32 cursor)) (\<lambda>(time, cursor).
     bindR (rdj (read_u32 cursor)) (\<lambda>(bits, cursor).
     Inr \<lparr>scj_channel_id = channel_id, scj_request_id = request_id, scj_mining_job_token = mining_job_token,
       scj_version = version, scj_prev_hash = prev_hash, scj_merkle_root = merkle_root,
       scj_block_commitments = block_commitments, scj_coinbase_tx = coinbase_tx, scj_time = time,
       scj_bits = bits\<rparr>)))))))))))"

definition encode_set_custom_job_success :: "SetCustomMiningJobSuccess \<Rightarrow> JdServerError + bytes" where
  "encode_set_custom_job_success msg =
     (let payload = u32_to_le_bytes (scs_channel_id msg) @ u32_to_le_bytes (scs_request_id msg) @
        u32_to_le_bytes (scs_job_id msg) @ scs_share_target msg
      in Inr (frame_message SET_CUSTOM_MINING_JOB_SUCCESS payload))"

definition decode_set_custom_job_success :: "bytes \<Rightarrow> JdServerError + SetCustomMiningJobSuccess" where
  "decode_set_custom_job_success data =
     bindR (frame_payload data SET_CUSTOM_MINING_JOB_SUCCESS) (\<lambda>cursor.
     bindR (rdj (read_u32 cursor)) (\<lambda>(channel_id, cursor).
     bindR (rdj (read_u32 cursor)) (\<lambda>(request_id, cursor).
     bindR (rdj (read_u32 cursor)) (\<lambda>(job_id, cursor).
     bindR (rdj (read_exact 32 cursor)) (\<lambda>(share_target, cursor).
     Inr \<lparr>scs_channel_id = channel_id, scs_request_id = request_id, scs_job_id = job_id,
       scs_share_target = share_target\<rparr>)))))"

definition encode_set_custom_job_error :: "SetCustomMiningJobError \<Rightarrow> JdServerError + bytes" where
  "encode_set_custom_job_error msg =
     (let payload = u32_to_le_bytes (sce_channel_id msg) @ u32_to_le_bytes (sce_request_id msg) @
        [custom_code_as_u8 (sce_error_code msg)] @ write_string (sce_error_message msg)
      in Inr (frame_message SET_CUSTOM_MINING_JOB_ERROR payload))"

definition decode_set_custom_job_error :: "bytes \<Rightarrow> JdServerError + SetCustomMiningJobError" where
  "decode_set_custom_job_error data =
     bindR (frame_payload data SET_CUSTOM_MINING_JOB_ERROR) (\<lambda>cursor.
     bindR (rdj (read_u32 cursor)) (\<lambda>(channel_id, cursor).
     bindR (rdj (read_u32 cursor)) (\<lambda>(request_id, cursor).
     bindR (rdj (read_u8 cursor)) (\<lambda>(error_code_byte, cursor).
     bindR (ok_or (JdProtocol (''Unknown error code: 0x'' @ show_hex2 error_code_byte))
       (custom_code_from_u8 error_code_byte)) (\<lambda>error_code.
     bindR (read_string cursor) (\<lambda>(error_message, cursor).
     Inr \<lparr>sce_channel_id = channel_id, sce_request_id = request_id, sce_error_code = error_code,
       sce_error_message = error_message\<rparr>))))))"

definition encode_push_solution :: "PushSolution \<Rightarrow> JdServerError + bytes" where
  "encode_push_solution msg =
     (let payload = u32_to_le_bytes (pus_channel_id msg) @ u32_to_le_bytes (pus_job_id msg) @
        u32_to_le_bytes (pus_version msg) @ u32_to_le_bytes (pus_time msg) @ pus_nonce msg @ pus_solution msg
      in Inr (frame_message PUSH_SOLUTION payload))"

definition decode_push_solution :: "bytes \<Rightarrow> JdServerError + PushSolution" where
  "decode_push_solution data =
     bindR (frame_payload data PUSH_SOLUTION) (\<lambda>cursor.
     bindR (rdj (read_u32 cursor)) (\<lambda>(channel_id, cursor).
     bindR (rdj (read_u32 cursor)) (\<lambda>(job_id, cursor).
     bindR (rdj (read_u32 cursor)) (\<lambda>(version, cursor).
     bindR (rdj (read_u32 cursor)) (\<lambda>(time, cursor).
     bindR (rdj (read_exact 32 cursor)) (\<lambda>(nonce, cursor).
     bindR (rdj (read_exact 1344 cursor)) (\<lambda>(solution, cursor).
     Inr \<lparr>pus_channel_id = channel_id, pus_job_id = job_id, pus_version = version, pus_time = time,
       pus_nonce = nonce, pus_solution = solution\<rparr>)))))))"

section \<open>Full templates and missing transactions\<close>

definition MAX_TX_COUNT :: u16 where
  "MAX_TX_COUNT = 10000"

fun read_txid_loop :: "nat \<Rightarrow> bytes \<Rightarrow> JdServerError + (bytes list \<times> bytes)" where
  "read_txid_loop 0 cursor = Inr ([], cursor)"
| "read_txid_loop (Suc n) cursor =
     bindR (rdj (read_exact 32 cursor)) (\<lambda>(txid, cursor).
     bindR (read_txid_loop n cursor) (\<lambda>(result, cursor).
     Inr (txid # result, cursor)))"

definition read_tx_ids :: "bytes \<Rightarrow> JdServerError + (bytes list \<times> bytes)" where
  "read_tx_ids cursor =
     bindR (rdj (read_u16 cursor)) (\<lambda>(count, cursor).
     if MAX_TX_COUNT < count then
       Inl (JdProtocol (''Transaction ID count '' @ show_nat (unat count) @ '' exceeds maximum '' @
         show_nat (unat MAX_TX_COUNT)))
     else read_txid_loop (unat count) cursor)"

definition write_tx_ids :: "bytes list \<Rightarrow> bytes" where
  "write_tx_ids tx_ids = u16_to_le_bytes (of_nat (length tx_ids)) @ concat tx_ids"

fun read_tx_loop :: "nat \<Rightarrow> bytes \<Rightarrow> JdServerError + (bytes list \<times> bytes)" where
  "read_tx_loop 0 cursor = Inr ([], cursor)"
| "read_tx_loop (Suc n) cursor =
     bindR (read_bytes_u32 cursor) (\<lambda>(tx, cursor).
     bindR (read_tx_loop n cursor) (\<lambda>(result, cursor).
     Inr (tx # result, cursor)))"

definition read_tx_data :: "bytes \<Rightarrow> JdServerError + (bytes list \<times> bytes)" where
  "read_tx_data cursor =
     bindR (rdj (read_u16 cursor)) (\<lambda>(count, cursor).
     if MAX_TX_COUNT < count then
       Inl (JdProtocol (''Transaction data count '' @ show_nat (unat count) @ '' exceeds maximum '' @
         show_nat (unat MAX_TX_COUNT)))
     else read_tx_loop (unat count) cursor)"

definition write_tx_data :: "bytes list \<Rightarrow> bytes" where
  "write_tx_data tx_data = u16_to_le_bytes (of_nat (length tx_data)) @ concat (map write_bytes_u32 tx_data)"

definition full_job_payload :: "SetFullTemplateJob \<Rightarrow> bytes" where
  "full_job_payload msg =
     u32_to_le_bytes (sft_channel_id msg) @ u32_to_le_bytes (sft_request_id msg) @
     write_bytes_u16 (sft_mining_job_token msg) @ u32_to_le_bytes (sft_version msg) @
     sft_prev_hash msg @ sft_merkle_root msg @ sft_block_commitments msg @
     write_bytes_u32 (sft_coinbase_tx msg) @ u32_to_le_bytes (sft_time msg) @ u32_to_le_bytes (sft_bits msg) @
     write_tx_ids (sft_tx_short_ids msg) @ write_tx_data (sft_tx_data msg)"

definition encode_set_full_template_job :: "SetFullTemplateJob \<Rightarrow> JdServerError + bytes" where
  "encode_set_full_template_job msg = Inr (frame_message SET_FULL_TEMPLATE_JOB (full_job_payload msg))"

definition decode_set_full_template_job :: "bytes \<Rightarrow> JdServerError + SetFullTemplateJob" where
  "decode_set_full_template_job data =
     bindR (frame_payload data SET_FULL_TEMPLATE_JOB) (\<lambda>cursor.
     bindR (rdj (read_u32 cursor)) (\<lambda>(channel_id, cursor).
     bindR (rdj (read_u32 cursor)) (\<lambda>(request_id, cursor).
     bindR (read_bytes_u16 cursor) (\<lambda>(mining_job_token, cursor).
     bindR (rdj (read_u32 cursor)) (\<lambda>(version, cursor).
     bindR (rdj (read_exact 32 cursor)) (\<lambda>(prev_hash, cursor).
     bindR (rdj (read_exact 32 cursor)) (\<lambda>(merkle_root, cursor).
     bindR (rdj (read_exact 32 cursor)) (\<lambda>(block_commitments, cursor).
     bindR (read_bytes_u32 cursor) (\<lambda>(coinbase_tx, cursor).
     bindR (rdj (read_u32 cursor)) (\<lambda>(time, cursor).
     bindR (rdj (read_u32 cursor)) (\<lambda>(bits, cursor).
     bindR (read_tx_ids cursor) (\<lambda>(tx_short_ids, cursor).
     bindR (read_tx_data cursor) (\<lambda>(tx_data, cursor).
     Inr \<lparr>sft_channel_id = channel_id, sft_request_id = request_id, sft_mining_job_token = mining_job_token,
       sft_version = version, sft_prev_hash = prev_hash, sft_merkle_root = merkle_root,
       sft_block_commitments = block_commitments, sft_coinbase_tx = coinbase_tx, sft_time = time,
       sft_bits = bits, sft_tx_short_ids = tx_short_ids, sft_tx_data = tx_data\<rparr>)))))))))))))"

definition encode_set_full_template_job_success :: "SetFullTemplateJobSuccess \<Rightarrow> JdServerError + bytes" where
  "encode_set_full_template_job_success msg =
     (let payload = u32_to_le_bytes (fts_channel_id msg) @ u32_to_le_bytes (fts_request_id msg) @
        u32_to_le_bytes (fts_job_id msg)
      in Inr (frame_message SET_FULL_TEMPLATE_JOB_SUCCESS payload))"

definition decode_set_full_template_job_success :: "bytes \<Rightarrow> JdServerError + SetFullTemplateJobSuccess" where
  "decode_set_full_template_job_success data =
     bindR (frame_payload data SET_FULL_TEMPLATE_JOB_SUCCESS) (\<lambda>cursor.
     bindR (rdj (read_u32 cursor)) (\<lambda>(channel_id, cursor).
     bindR (rdj (read_u32 cursor)) (\<lambda>(request_id, cursor).
     bindR (rdj (read_u32 cursor)) (\<lambda>(job_id, cursor).
     Inr \<lparr>fts_channel_id = channel_id, fts_request_id = request_id, fts_job_id = job_id\<rparr>))))"

definition encode_set_full_template_job_error :: "SetFullTemplateJobError \<Rightarrow> JdServerError + bytes" where
  "encode_set_full_template_job_error msg =
     (let payload = u32_to_le_bytes (fte_channel_id msg) @ u32_to_le_bytes (fte_request_id msg) @
        [full_code_as_u8 (fte_error_code msg)] @ write_string (fte_error_message msg)
      in Inr (frame_message SET_FULL_TEMPLATE_JOB_ERROR payload))"

definition decode_set_full_template_job_error :: "bytes \<Rightarrow> JdServerError + SetFullTemplateJobError" where
  "decode_set_full_template_job_error data =
     bindR (frame_payload data SET_FULL_TEMPLATE_JOB_ERROR) (\<lambda>cursor.
     bindR (rdj (read_u32 cursor)) (\<lambda>(channel_id, cursor).
     bindR (rdj (read_u32 cursor)) (\<lambda>(request_id, cursor).
     bindR (rdj (read_u8 cursor)) (\<lambda>(error_code_byte, cursor).
     bindR (ok_or (JdProtocol (''Unknown error code: 0x'' @ show_hex2 error_code_byte))
       (full_code_from_u8 error_code_byte)) (\<lambda>error_code.
     bindR (read_string cursor) (\<lambda>(error_message, cursor).
     Inr \<lparr>fte_channel_id = channel_id, fte_request_id = request_id, fte_error_code = error_code,
       fte_error_message = error_message\<rparr>))))))"

definition encode_get_missing_transactions :: "GetMissingTransactions \<Rightarrow> JdServerError + bytes" where
  "encode_get_missing_transactions msg =
     (let payload = u32_to_le_bytes (gmt_channel_id msg) @ u32_to_le_bytes (gmt_request_id msg) @
        write_tx_ids (gmt_missing_tx_ids msg)
      in Inr (frame_message GET_MISSING_TRANSACTIONS payload))"

definition decode_get_missing_transactions :: "bytes \<Rightarrow> JdServerError + GetMissingTransactions" where
  "decode_get_missing_transactions data =
     bindR (frame_payload data GET_MISSING_TRANSACTIONS) (\<lambda>cursor.
     bindR (rdj (read_u32 cursor)) (\<lambda>(channel_id, cursor).
     bindR (rdj (read_u32 cursor)) (\<lambda>(request_id, cursor).
     bindR (read_tx_ids cursor) (\<lambda>(missing_tx_ids, cursor).
     Inr \<lparr>gmt_channel_id = channel_id, gmt_request_id = request_id, gmt_missing_tx_ids = missing_tx_ids\<rparr>))))"

definition provide_payload :: "ProvideMissingTransactions \<Rightarrow> bytes" where
  "provide_payload msg = u32_to_le_bytes (pmt_channel_id msg) @ u32_to_le_bytes (pmt_request_id msg) @
     write_tx_data (pmt_transactions msg)"

definition encode_provide_missing_transactions :: "ProvideMissingTransactions \<Rightarrow> JdServerError + bytes" where
  "encode_provide_missing_transactions msg =
     Inr (frame_message PROVIDE_MISSING_TRANSACTIONS (provide_payload msg))"

definition decode_provide_missing_transactions :: "bytes \<Rightarrow> JdServerError + ProvideMissingTransactions" where
  "decode_provide_missing_transactions data =
     bindR (frame_payload data PROVIDE_MISSING_TRANSACTIONS) (\<lambda>cursor.
     bindR (rdj (read_u32 cursor)) (\<lambda>(channel_id, cursor).
     bindR (rdj (read_u32 cursor)) (\<lambda>(request_id, cursor).
     bindR (read_tx_data cursor) (\<lambda>(transactions, cursor).
     Inr \<lparr>pmt_channel_id = channel_id, pmt_request_id = request_id, pmt_transactions = transactions\<rparr>))))"

section \<open>Share batches\<close>

definition MAX_SHARE_COUNT :: u16 where
  "MAX_SHARE_COUNT = 64"

definition write_share :: "JdShare \<Rightarrow> bytes" where
  "write_share share = u32_to_le_bytes (jsh_version share) @ u32_to_le_bytes (jsh_time share) @
     jsh_nonce share @ jsh_solution share"

text \<open>The \<open>debug_assert\<close> on the number of shares is not compiled into a release build.\<close>

definition encode_submit_shares_jd :: "SubmitSharesJd \<Rightarrow> JdServerError + bytes" where
  "encode_submit_shares_jd msg =
     (let payload = u32_to_le_bytes (ssj_channel_id msg) @ u32_to_le_bytes (ssj_request_id msg) @
        u32_to_le_bytes (ssj_job_id msg) @ u16_to_le_bytes (of_nat (length (ssj_shares msg))) @
        concat (map write_share (ssj_shares msg))
      in Inr (frame_message SUBMIT_SHARES_JD payload))"

fun read_share_loop :: "nat \<Rightarrow> bytes \<Rightarrow> JdServerError + (JdShare list \<times> bytes)" where
  "read_share_loop 0 cursor = Inr ([], cursor)"
| "read_share_loop (Suc n) cursor =
     bindR (rdj (read_u32 cursor)) (\<lambda>(version, cursor).
     bindR (rdj (read_u32 cursor)) (\<lambda>(time, cursor).
     bindR (rdj (read_exact 32 cursor)) (\<lambda>(nonce, cursor).
     bindR (rdj (read_exact 1344 cursor)) (\<lambda>(solution, cursor).
     bindR (read_share_loop n cursor) (\<lambda>(shares, cursor).
     Inr (\<lparr>jsh_version = version, jsh_time = time, jsh_nonce = nonce, jsh_solution = solution\<rparr> # shares,
       cursor))))))"

definition decode_submit_shares_jd :: "bytes \<Rightarrow> JdServerError + SubmitSharesJd" where
  "decode_submit_shares_jd data =
     bindR (frame_payload data SUBMIT_SHARES_JD) (\<lambda>cursor.
     bindR (rdj (read_u32 cursor)) (\<lambda>(channel_id, cursor).
     bindR (rdj (read_u32 cursor)) (\<lambda>(request_id, cursor).
     bindR (rdj (read_u32 cursor)) (\<lambda>(job_id, cursor).
     bindR (rdj (read_u16 cursor)) (\<lambda>(count, cursor).
     if count = 0 then Inl (JdProtocol ''SubmitSharesJd: share count must be at least 1'') else
     if MAX_SHARE_COUNT < count then
       Inl (JdProtocol (''SubmitSharesJd: share count '' @ show_nat (unat count) @ '' exceeds maximum '' @
         show_nat (unat MAX_SHARE_COUNT))) else
     bindR (read_share_loop (unat count) cursor) (\<lambda>(shares, cursor).
     Inr \<lparr>ssj_channel_id = channel_id, ssj_request_id = request_id, ssj_job_id = job_id,
       ssj_shares = shares\<rparr>))))))"

definition encode_submit_shares_jd_response :: "SubmitSharesJdResponse \<Rightarrow> JdServerError + bytes" where
  "encode_submit_shares_jd_response msg =
     (let payload = u32_to_le_bytes (ssr_channel_id msg) @ u32_to_le_bytes (ssr_request_id msg) @
        u16_to_le_bytes (ssr_accepted msg) @ u16_to_le_bytes (ssr_rejected msg) @ [ssr_first_error_code msg]
      in Inr (frame_message SUBMIT_SHARES_JD_RESPONSE payload))"

definition decode_submit_shares_jd_response :: "bytes \<Rightarrow> JdServerError + SubmitSharesJdResponse" where
  "decode_submit_shares_jd_response data =
     bindR (frame_payload data SUBMIT_SHARES_JD_RESPONSE) (\<lambda>cursor.
     bindR (rdj (read_u32 cursor)) (\<lambda>(channel_id, cursor).
     bindR (rdj (read_u32 cursor)) (\<lambda>(request_id, cursor).
     bindR (rdj (read_u16 cursor)) (\<lambda>(accepted, cursor).
     bindR (rdj (read_u16 cursor)) (\<lambda>(rejected, cursor).
     bindR (rdj (read_u8 cursor)) (\<lambda>(first_error_code, cursor).
     Inr \<lparr>ssr_channel_id = channel_id, ssr_request_id = request_id, ssr_accepted = accepted,
       ssr_rejected = rejected, ssr_first_error_code = first_error_code\<rparr>))))))"

section \<open>The readers invert the writers\<close>

lemma rdj_Some [simp]: "rdj (Some x) = Inr x"
  by (simp add: rdj_def)

lemma rdj_eq_Inr: "rdj r = Inr x \<longleftrightarrow> r = Some x"
  by (simp add: rdj_def ok_or_eq_Inr)

lemma frame_payload_iff: "frame_payload data ty = Inr payload \<longleftrightarrow> open_frame ty data = Inr payload"
  by (auto simp: frame_payload_def open_frame_def bindR_eq_Inr map_err_eq_Inr Let_def)

lemma frame_payload_message: "length payload \<le> 1048576 \<Longrightarrow> frame_payload (frame_message ty payload) ty = Inr payload"
  by (simp add: frame_payload_iff open_frame_message)

lemma frame_payload_length: "frame_payload data ty = Inr payload \<Longrightarrow> length payload \<le> 1048576"
  by (auto simp: frame_payload_iff dest!: open_frame_InrD)

lemma unat_of_nat_u16 [simp]: "n < 65536 \<Longrightarrow> unat (of_nat n :: u16) = n"
  by (simp add: unat_of_nat)

lemma unat_of_nat_u32: "n < 4294967296 \<Longrightarrow> unat (of_nat n :: u32) = n"
  by (simp add: unat_of_nat)

lemma unat_u16_less: "unat (w :: u16) < 65536"
  using unat_less_pow [of w] by simp

lemma unat_u32_less: "unat (w :: u32) < 4294967296"
  using unat_less_pow [of w] by simp

lemma read_string_append [simp]:
  "utf8_valid s \<Longrightarrow> length s < 65536 \<Longrightarrow> read_string (write_string s @ ys) = Inr (s, ys)"
  by (simp add: read_string_def write_string_def)

lemma read_bytes_u16_append [simp]: "length d < 65536 \<Longrightarrow> read_bytes_u16 (write_bytes_u16 d @ ys) = Inr (d, ys)"
  by (simp add: read_bytes_u16_def write_bytes_u16_def)

lemma read_bytes_u32_append [simp]:
  "length d < 4294967296 \<Longrightarrow> read_bytes_u32 (write_bytes_u32 d @ ys) = Inr (d, ys)"
  by (simp add: read_bytes_u32_def write_bytes_u32_def unat_of_nat_u32)

lemma read_txid_loop_append:
  "\<forall>x \<in> set ids. length x = 32 \<Longrightarrow> read_txid_loop (length ids) (concat ids @ ys) = Inr (ids, ys)"
  by (induction ids) simp_all

lemma read_tx_loop_append:
  "\<forall>x \<in> set txs. length x < 4294967296 \<Longrightarrow>
     read_tx_loop (length txs) (concat (map write_bytes_u32 txs) @ ys) = Inr (txs, ys)"
  by (induction txs) simp_all

definition share_ok :: "JdShare \<Rightarrow> bool" where
  "share_ok s \<longleftrightarrow> length (jsh_nonce s) = 32 \<and> length (jsh_solution s) = 1344"

lemma read_share_loop_append:
  "\<forall>s \<in> set ss. share_ok s \<Longrightarrow> read_share_loop (length ss) (concat (map write_share ss) @ ys) = Inr (ss, ys)"
  by (induction ss) (simp_all add: write_share_def share_ok_def)

lemma read_tx_ids_append [simp]:
  "length ids \<le> 10000 \<Longrightarrow> \<forall>x \<in> set ids. length x = 32 \<Longrightarrow> read_tx_ids (write_tx_ids ids @ ys) = Inr (ids, ys)"
  by (simp add: read_tx_ids_def write_tx_ids_def MAX_TX_COUNT_def word_less_nat_alt read_txid_loop_append)

lemma read_tx_data_append [simp]:
  "length txs \<le> 10000 \<Longrightarrow> \<forall>x \<in> set txs. length x < 4294967296 \<Longrightarrow>
     read_tx_data (write_tx_data txs @ ys) = Inr (txs, ys)"
  by (simp add: read_tx_data_def write_tx_data_def MAX_TX_COUNT_def word_less_nat_alt read_tx_loop_append)

lemmas read_all [simp] =
  read_u32_append [where ys = "[]", simplified]
  read_string_append [where ys = "[]", simplified] read_bytes_u32_append [where ys = "[]", simplified]
  read_tx_ids_append [where ys = "[]", simplified] read_tx_data_append [where ys = "[]", simplified]

lemma read_mode_as [simp]: "read_mode [mode_as_u8 m] = m"
  by (simp add: read_mode_def)

text \<open>What a reader that succeeds has consumed.\<close>

lemma read_string_InrD:
  "read_string c = Inr (s, ys) \<Longrightarrow> c = write_string s @ ys \<and> utf8_valid s \<and> length s < 65536"
  by (auto simp: read_string_def write_string_def bindR_eq_Inr rdj_eq_Inr map_err_eq_Inr unat_u16_less
      split: if_splits dest!: read_SomeD from_utf8_InrD)

lemma read_bytes_u16_InrD:
  "read_bytes_u16 c = Inr (d, ys) \<Longrightarrow> c = write_bytes_u16 d @ ys \<and> length d < 65536"
  by (auto simp: read_bytes_u16_def write_bytes_u16_def bindR_eq_Inr rdj_eq_Inr unat_u16_less
      split: if_splits dest!: read_SomeD)

lemma read_bytes_u32_InrD:
  "read_bytes_u32 c = Inr (d, ys) \<Longrightarrow> c = write_bytes_u32 d @ ys \<and> length d < 4294967296"
  by (auto simp: read_bytes_u32_def write_bytes_u32_def bindR_eq_Inr rdj_eq_Inr unat_u32_less
      split: if_splits dest!: read_SomeD)

lemma read_txid_loop_InrD:
  "read_txid_loop n c = Inr (ids, ys) \<Longrightarrow> c = concat ids @ ys \<and> length ids = n \<and> (\<forall>x \<in> set ids. length x = 32)"
  by (induction n c arbitrary: ids ys rule: read_txid_loop.induct)
    (auto simp: bindR_eq_Inr rdj_eq_Inr dest!: read_SomeD)

lemma read_tx_loop_InrD:
  "read_tx_loop n c = Inr (txs, ys) \<Longrightarrow> c = concat (map write_bytes_u32 txs) @ ys \<and> length txs = n \<and>
     (\<forall>x \<in> set txs. length x < 4294967296)"
  by (induction n c arbitrary: txs ys rule: read_tx_loop.induct)
    (auto simp: bindR_eq_Inr dest!: read_bytes_u32_InrD)

lemma read_share_loop_InrD:
  "read_share_loop n c = Inr (ss, ys) \<Longrightarrow> c = concat (map write_share ss) @ ys \<and> length ss = n \<and>
     (\<forall>s \<in> set ss. share_ok s)"
  by (induction n c arbitrary: ss ys rule: read_share_loop.induct)
    (auto simp: bindR_eq_Inr rdj_eq_Inr write_share_def share_ok_def dest!: read_SomeD)

lemma read_tx_ids_InrD:
  "read_tx_ids c = Inr (ids, ys) \<Longrightarrow> c = write_tx_ids ids @ ys \<and> length ids \<le> 10000 \<and>
     (\<forall>x \<in> set ids. length x = 32)"
  by (auto simp: read_tx_ids_def write_tx_ids_def MAX_TX_COUNT_def word_less_nat_alt bindR_eq_Inr rdj_eq_Inr
      split: if_splits dest!: read_SomeD read_txid_loop_InrD)

lemma read_tx_data_InrD:
  "read_tx_data c = Inr (txs, ys) \<Longrightarrow> c = write_tx_data txs @ ys \<and> length txs \<le> 10000 \<and>
     (\<forall>x \<in> set txs. length x < 4294967296)"
  by (auto simp: read_tx_data_def write_tx_data_def MAX_TX_COUNT_def word_less_nat_alt bindR_eq_Inr rdj_eq_Inr
      split: if_splits dest!: read_SomeD read_tx_loop_InrD)

lemmas reader_InrD = read_string_InrD read_bytes_u16_InrD read_bytes_u32_InrD read_tx_ids_InrD read_tx_data_InrD

lemmas jd_framed = frame_payload_message bindR_Inr Let_def

section \<open>The messages are instances of the codec contract\<close>

lemma length_writes [simp]:
  "length (write_string t) = 2 + length t" "length (write_bytes_u16 d) = 2 + length d"
  "length (write_bytes_u32 d) = 4 + length d"
  by (simp_all add: write_string_def write_bytes_u16_def write_bytes_u32_def)

lemma length_concat_ids: "\<forall>x \<in> set ids. length x = k \<Longrightarrow> length (concat ids) = k * length ids"
  by (induction ids) simp_all

lemma length_write_shares: "\<forall>s \<in> set ss. share_ok s \<Longrightarrow> length (concat (map write_share ss)) = 1384 * length ss"
  by (induction ss) (simp_all add: write_share_def share_ok_def)

lemma length_tx_data_ge: "x \<in> set txs \<Longrightarrow> length x \<le> length (write_tx_data txs)"
  by (induction txs) (auto simp: write_tx_data_def)

definition allocate_valid :: "AllocateMiningJobToken \<Rightarrow> bool" where
  "allocate_valid m \<longleftrightarrow> utf8_valid (amt_user_identifier m) \<and> length (amt_user_identifier m) < 65536"

definition allocated_valid :: "AllocateMiningJobTokenSuccess \<Rightarrow> bool" where
  "allocated_valid m \<longleftrightarrow> length (ats_mining_job_token m) < 65536 \<and> length (ats_coinbase_output m) < 65536"

definition custom_valid :: "SetCustomMiningJob \<Rightarrow> bool" where
  "custom_valid m \<longleftrightarrow> length (scj_mining_job_token m) < 65536 \<and> length (scj_prev_hash m) = 32 \<and>
     length (scj_merkle_root m) = 32 \<and> length (scj_block_commitments m) = 32 \<and>
     length (custom_job_payload m) \<le> 1048576"

definition push_valid :: "PushSolution \<Rightarrow> bool" where
  "push_valid m \<longleftrightarrow> length (pus_nonce m) = 32 \<and> length (pus_solution m) = 1344"

definition full_valid :: "SetFullTemplateJob \<Rightarrow> bool" where
  "full_valid m \<longleftrightarrow> length (sft_mining_job_token m) < 65536 \<and> length (sft_prev_hash m) = 32 \<and>
     length (sft_merkle_root m) = 32 \<and> length (sft_block_commitments m) = 32 \<and>
     length (sft_tx_short_ids m) \<le> 10000 \<and> (\<forall>x \<in> set (sft_tx_short_ids m). length x = 32) \<and>
     length (sft_tx_data m) \<le> 10000 \<and> length (full_job_payload m) \<le> 1048576"

definition missing_valid :: "GetMissingTransactions \<Rightarrow> bool" where
  "missing_valid m \<longleftrightarrow> length (gmt_missing_tx_ids m) \<le> 10000 \<and> (\<forall>x \<in> set (gmt_missing_tx_ids m). length x = 32)"

definition provide_valid :: "ProvideMissingTransactions \<Rightarrow> bool" where
  "provide_valid m \<longleftrightarrow> length (pmt_transactions m) \<le> 10000 \<and> length (provide_payload m) \<le> 1048576"

definition batch_valid :: "SubmitSharesJd \<Rightarrow> bool" where
  "batch_valid m \<longleftrightarrow> 0 < length (ssj_shares m) \<and> length (ssj_shares m) \<le> 64 \<and> (\<forall>s \<in> set (ssj_shares m). share_ok s)"

interpretation allocate_codec: message_codec encode_allocate_token decode_allocate_token allocate_valid
  by unfold_locales
    (auto simp: encode_allocate_token_def decode_allocate_token_def jd_framed allocate_valid_def bindR_eq_Inr
      rdj_eq_Inr dest!: reader_InrD)

interpretation allocated_codec:
  message_codec encode_allocate_token_success decode_allocate_token_success allocated_valid
  by unfold_locales
    (auto simp: encode_allocate_token_success_def decode_allocate_token_success_def jd_framed allocated_valid_def
      bindR_eq_Inr rdj_eq_Inr dest!: reader_InrD)

interpretation custom_codec: message_codec encode_set_custom_job decode_set_custom_job custom_valid
proof
  fix m assume v: "custom_valid m"
  then have "length (scj_coinbase_tx m) < 4294967296"
    by (simp add: custom_valid_def custom_job_payload_def)
  with v show "\<exists>bs. encode_set_custom_job m = Inr bs \<and> decode_set_custom_job bs = Inr m"
    by (simp add: encode_set_custom_job_def decode_set_custom_job_def jd_framed custom_valid_def)
      (simp add: custom_job_payload_def)
next
  fix bs m assume "decode_set_custom_job bs = Inr m"
  then show "custom_valid m"
    by (auto simp: decode_set_custom_job_def custom_valid_def custom_job_payload_def bindR_eq_Inr rdj_eq_Inr
        dest!: reader_InrD read_SomeD frame_payload_length)
qed

interpretation custom_success_codec:
  message_codec encode_set_custom_job_success decode_set_custom_job_success "\<lambda>m. length (scs_share_target m) = 32"
  by unfold_locales
    (auto simp: encode_set_custom_job_success_def decode_set_custom_job_success_def jd_framed
      bindR_eq_Inr rdj_eq_Inr dest!: read_SomeD)

interpretation custom_error_codec:
  message_codec encode_set_custom_job_error decode_set_custom_job_error
    "\<lambda>m. utf8_valid (sce_error_message m) \<and> length (sce_error_message m) < 65536"
  by unfold_locales
    (auto simp: encode_set_custom_job_error_def decode_set_custom_job_error_def jd_framed
      bindR_eq_Inr rdj_eq_Inr dest!: reader_InrD)

interpretation push_codec: message_codec encode_push_solution decode_push_solution push_valid
  by unfold_locales
    (auto simp: encode_push_solution_def decode_push_solution_def jd_framed push_valid_def
      bindR_eq_Inr rdj_eq_Inr dest!: read_SomeD)

interpretation full_codec: message_codec encode_set_full_template_job decode_set_full_template_job full_valid
proof
  fix m assume v: "full_valid m"
  then have len: "length (sft_coinbase_tx m) + length (write_tx_data (sft_tx_data m)) < 4294967296"
    by (simp add: full_valid_def full_job_payload_def)
  have "\<forall>x \<in> set (sft_tx_data m). length x < 4294967296"
  proof
    fix x assume "x \<in> set (sft_tx_data m)"
    then show "length x < 4294967296" using length_tx_data_ge [of x "sft_tx_data m"] len by linarith
  qed
  with v len show "\<exists>bs. encode_set_full_template_job m = Inr bs \<and> decode_set_full_template_job bs = Inr m"
    by (simp add: encode_set_full_template_job_def decode_set_full_template_job_def jd_framed full_valid_def)
      (simp add: full_job_payload_def)
next
  fix bs m assume "decode_set_full_template_job bs = Inr m"
  then show "full_valid m"
    by (auto simp: decode_set_full_template_job_def full_valid_def full_job_payload_def bindR_eq_Inr rdj_eq_Inr
        dest!: reader_InrD read_SomeD frame_payload_length)
qed

interpretation full_success_codec:
  message_codec encode_set_full_template_job_success decode_set_full_template_job_success "\<lambda>_. True"
  by unfold_locales
    (auto simp: encode_set_full_template_job_success_def decode_set_full_template_job_success_def jd_framed)

interpretation full_error_codec:
  message_codec encode_set_full_template_job_error decode_set_full_template_job_error
    "\<lambda>m. utf8_valid (fte_error_message m) \<and> length (fte_error_message m) < 65536"
  by unfold_locales
    (auto simp: encode_set_full_template_job_error_def decode_set_full_template_job_error_def jd_framed
      bindR_eq_Inr rdj_eq_Inr dest!: reader_InrD)

interpretation missing_codec:
  message_codec encode_get_missing_transactions decode_get_missing_transactions missing_valid
proof
  fix m assume v: "missing_valid m"
  then have "length (concat (gmt_missing_tx_ids m)) \<le> 320000"
    by (simp add: missing_valid_def length_concat_ids [of _ 32])
  then have "length (write_tx_ids (gmt_missing_tx_ids m)) \<le> 320002" by (simp add: write_tx_ids_def)
  with v show "\<exists>bs. encode_get_missing_transactions m = Inr bs \<and> decode_get_missing_transactions bs = Inr m"
    by (simp add: encode_get_missing_transactions_def decode_get_missing_transactions_def jd_framed missing_valid_def)
qed (auto simp: decode_get_missing_transactions_def missing_valid_def bindR_eq_Inr dest!: reader_InrD)

interpretation provide_codec:
  message_codec encode_provide_missing_transactions decode_provide_missing_transactions provide_valid
proof
  fix m assume v: "provide_valid m"
  then have len: "length (write_tx_data (pmt_transactions m)) < 4294967296"
    by (simp add: provide_valid_def provide_payload_def)
  have "\<forall>x \<in> set (pmt_transactions m). length x < 4294967296"
  proof
    fix x assume "x \<in> set (pmt_transactions m)"
    then show "length x < 4294967296" using length_tx_data_ge [of x "pmt_transactions m"] len by linarith
  qed
  with v show "\<exists>bs. encode_provide_missing_transactions m = Inr bs \<and> decode_provide_missing_transactions bs = Inr m"
    by (simp add: encode_provide_missing_transactions_def decode_provide_missing_transactions_def jd_framed
        provide_valid_def) (simp add: provide_payload_def)
qed (auto simp: decode_provide_missing_transactions_def provide_valid_def provide_payload_def bindR_eq_Inr rdj_eq_Inr
    dest!: reader_InrD read_SomeD frame_payload_length)

interpretation batch_codec: message_codec encode_submit_shares_jd decode_submit_shares_jd batch_valid
proof
  fix m assume v: "batch_valid m"
  then have len: "length (concat (map write_share (ssj_shares m))) \<le> 88576"
    by (simp add: batch_valid_def length_write_shares)
  have loop: "read_share_loop (length (ssj_shares m)) (concat (map write_share (ssj_shares m))) = Inr (ssj_shares m, [])"
    using v read_share_loop_append [of "ssj_shares m" "[]"] by (simp add: batch_valid_def)
  have "of_nat (length (ssj_shares m)) \<noteq> (0 :: u16)"
    using v by (simp add: word_unat_eq_iff batch_valid_def)
  with v len loop show "\<exists>bs. encode_submit_shares_jd m = Inr bs \<and> decode_submit_shares_jd bs = Inr m"
    by (simp add: encode_submit_shares_jd_def decode_submit_shares_jd_def jd_framed batch_valid_def
        MAX_SHARE_COUNT_def word_less_nat_alt)
next
  fix bs m assume "decode_submit_shares_jd bs = Inr m"
  then show "batch_valid m"
    by (auto simp: decode_submit_shares_jd_def batch_valid_def bindR_eq_Inr rdj_eq_Inr MAX_SHARE_COUNT_def
        word_less_nat_alt word_unat_eq_iff split: if_splits dest!: read_share_loop_InrD)
qed

interpretation batch_response_codec:
  message_codec encode_submit_shares_jd_response decode_submit_shares_jd_response "\<lambda>_. True"
  by unfold_locales
    (auto simp: encode_submit_shares_jd_response_def decode_submit_shares_jd_response_def jd_framed)

section \<open>Property\<close>

text \<open>
  C33.  Each of the six messages a client sends survives encoding and decoding exactly when its
  fields fit: a token request when its identifier is valid UTF-8 of less than 65536 bytes; a job
  declaration, with or without a full template, when its arrays have the declared sizes, the token
  fits its 16 bit length, at most 10000 transactions are listed and the payload is at most one MiB; a
  solution when its nonce has 32 and its solution 1344 bytes; missing transactions when they are at
  most 10000 and at most one MiB; and a batch of 1 to 64 well-formed shares.
\<close>

theorem client_messages_roundtrip_iff:
  "(bindR (encode_allocate_token request) decode_allocate_token = Inr request \<longleftrightarrow> allocate_valid request) \<and>
   (bindR (encode_set_custom_job job) decode_set_custom_job = Inr job \<longleftrightarrow> custom_valid job) \<and>
   (bindR (encode_push_solution solution) decode_push_solution = Inr solution \<longleftrightarrow> push_valid solution) \<and>
   (bindR (encode_set_full_template_job full) decode_set_full_template_job = Inr full \<longleftrightarrow> full_valid full) \<and>
   (bindR (encode_provide_missing_transactions missing) decode_provide_missing_transactions = Inr missing \<longleftrightarrow>
      provide_valid missing) \<and>
   (bindR (encode_submit_shares_jd batch) decode_submit_shares_jd = Inr batch \<longleftrightarrow> batch_valid batch)"
  by (intro conjI allocate_codec.roundtrip_iff custom_codec.roundtrip_iff push_codec.roundtrip_iff
      full_codec.roundtrip_iff provide_codec.roundtrip_iff batch_codec.roundtrip_iff)

end
