(* ===== verification/Jd_Server.thy ===== *)
theory Jd_Server
  imports Jd_Token Jd_Validation Jd_Codec Id_Counter Payout_Credit "HOL-Library.Multiset"
begin

text \<open>
  The job declaration server, \<open>zcash-jd-server/src/server.rs\<close>: pending requests for missing
  transactions, sessions, the current template, and the handlers for tokens, custom jobs, full
  templates, missing transactions and block solutions.  Share batches are in \<open>Jd_Shares\<close> and the
  connection loop in \<open>Jd_Session\<close>.

  A handler is a function of the state of the server at the time it runs; the payout tracker is
  shared with the pool and is passed in.  Clock readings are arguments.
\<close>

section \<open>Job identifiers and headers\<close>

definition FULL_TEMPLATE_PAYOUT_AUTHORIZATION_SUPPORTED :: bool where
  "FULL_TEMPLATE_PAYOUT_AUTHORIZATION_SUPPORTED = False"

definition FULL_TEMPLATE_UNAVAILABLE :: string where
  "FULL_TEMPLATE_UNAVAILABLE = ''FullTemplate is unavailable: current-version consensus transaction parsing, selected-fee payout authorization and commitment validation are not implemented''"

text \<open>One pass of the compare-and-exchange loop that no other thread disturbs.\<close>

definition next_positive_job_id :: "u32 \<Rightarrow> u32 \<times> u32" where
  "next_positive_job_id current =
     (let job_id = (if current = 0 \<or> MAX_JOB_ID < current then 1 else current);
          next = (if MAX_JOB_ID \<le> job_id then 1 else job_id + 1)
      in (job_id, next))"

definition jd_build_header :: "DeclaredJobInfo \<Rightarrow> u32 \<Rightarrow> bytes \<Rightarrow> bytes" where
  "jd_build_header job time nonce =
     u32_to_le_bytes (dj_version job) @ dj_prev_hash job @ dj_merkle_root job @ dj_block_commitments job @
     u32_to_le_bytes time @ u32_to_le_bytes (dj_bits job) @ nonce"

definition share_dedup_key :: "sha256_fn \<Rightarrow> JdShare \<Rightarrow> bytes" where
  "share_dedup_key sha256 share =
     sha256 (jsh_nonce share @ u32_to_le_bytes (jsh_time share) @ take 64 (jsh_solution share))"

definition recompute_coinbase_only_block_commitments ::
  "blake2b_fn \<Rightarrow> nat \<Rightarrow> bytes \<Rightarrow> bytes \<Rightarrow> u32 \<Rightarrow> (string + bytes) outcome" where
  "recompute_coinbase_only_block_commitments blake2b heap coinbase_tx chain_history_root consensus_branch_id =
     bindP (map_errP (\<lambda>e. ''declared coinbase cannot be parsed for commitments: '' @ show_parse_error e)
       (parse_transaction heap coinbase_tx)) (\<lambda>parsed.
     if px_inputs parsed = [] then
       Returns (Inl ''declared coinbase has no transparent inputs for commitments'') else
     let script_sigs = concat (map ti_script_sig (px_inputs parsed));
         coinbase_digest = compute_coinbase_auth_digest blake2b script_sigs consensus_branch_id in
     case compute_auth_data_root blake2b [coinbase_digest] of
       Panics \<Rightarrow> Panics
     | Returns auth_data_root \<Rightarrow>
         Returns (Inr (calculate_block_commitments_hash blake2b chain_history_root auth_data_root)))"

section \<open>Pending requests for missing transactions\<close>

record CurrentTemplateContext =
  ctx_version :: u32
  ctx_prev_hash :: bytes
  ctx_block_commitments :: bytes
  ctx_chain_history_root :: bytes
  ctx_consensus_branch_id :: u32
  ctx_bits :: u32
  ctx_time :: u32
  ctx_txids :: "bytes list"
  ctx_coinbase_tx_len :: nat

record PendingMissingTransactions =
  pm_expected_txids :: "bytes list"
  pm_created_at :: instant

definition MAX_PENDING_PER_SESSION :: nat where "MAX_PENDING_PER_SESSION = 8"
definition MAX_PENDING_GLOBAL :: nat where "MAX_PENDING_GLOBAL = 256"
definition MAX_PENDING_TXID_BYTES_PER_SESSION :: nat where "MAX_PENDING_TXID_BYTES_PER_SESSION = 512 * 1024"
definition MAX_PENDING_TXID_BYTES_GLOBAL :: nat where "MAX_PENDING_TXID_BYTES_GLOBAL = 8 * 1024 * 1024"
definition PENDING_MISSING_TTL :: duration where "PENDING_MISSING_TTL = from_secs 30"

datatype PendingOwner = SessionOwner u64 | LegacyOwner string

type_synonym PendingRequestKey = "PendingOwner \<times> u32 \<times> u32"

record PendingMissingState =
  pe_requests :: "(PendingRequestKey, PendingMissingTransactions) hash_map"
  pe_template_epoch :: u64

definition PendingMissingState_default :: PendingMissingState where
  "PendingMissingState_default = \<lparr>pe_requests = [], pe_template_epoch = 0\<rparr>"

definition pending_expire :: "instant \<Rightarrow> PendingMissingState \<Rightarrow> PendingMissingState" where
  "pending_expire now self = self\<lparr>pe_requests :=
     hm_retain (\<lambda>_ pending. duration_since now (pm_created_at pending) < PENDING_MISSING_TTL) (pe_requests self)\<rparr>"

definition invalidate_template :: "PendingMissingState \<Rightarrow> PendingMissingState" where
  "invalidate_template self = self\<lparr>pe_requests := [], pe_template_epoch := pe_template_epoch self + 1\<rparr>"

definition txid_bytes :: "bytes list \<Rightarrow> nat" where
  "txid_bytes txids = 32 * length txids"

definition entry_bytes :: "PendingRequestKey \<times> PendingMissingTransactions \<Rightarrow> nat" where
  "entry_bytes e = txid_bytes (pm_expected_txids (snd e))"

definition of_owner :: "PendingOwner \<Rightarrow> PendingRequestKey \<times> PendingMissingTransactions \<Rightarrow> bool" where
  "of_owner owner e \<longleftrightarrow> fst (fst e) = owner"

definition pending_insert ::
  "(nat \<Rightarrow> instant) \<Rightarrow> PendingRequestKey \<Rightarrow> bytes list \<Rightarrow> PendingMissingState \<Rightarrow> bool \<times> PendingMissingState" where
  "pending_insert clk key txids self =
     (let self = pending_expire (clk 0) self;
          others = filter (\<lambda>e. fst e \<noteq> key) (pe_requests self);
          same_owner = filter (of_owner (fst key)) others;
          owner_count = 1 + length same_owner;
          total_count = 1 + length others;
          owner_bytes = txid_bytes txids + sum_list (map entry_bytes same_owner);
          total_bytes = txid_bytes txids + sum_list (map entry_bytes others) in
      if MAX_PENDING_PER_SESSION < owner_count \<or> MAX_PENDING_GLOBAL < total_count
        \<or> MAX_PENDING_TXID_BYTES_PER_SESSION < owner_bytes \<or> MAX_PENDING_TXID_BYTES_GLOBAL < total_bytes
      then (False, self)
      else (True, self\<lparr>pe_requests := hm_insert key
        \<lparr>pm_expected_txids = txids, pm_created_at = clk 1\<rparr> (pe_requests self)\<rparr>))"

text \<open>Dropping a session removes its requests.\<close>

definition drop_jd_session :: "u64 \<Rightarrow> PendingMissingState \<Rightarrow> PendingMissingState" where
  "drop_jd_session session_id self = self\<lparr>pe_requests :=
     hm_retain (\<lambda>(owner, _, _) _. owner \<noteq> SessionOwner session_id) (pe_requests self)\<rparr>"

section \<open>The server\<close>

record JdServer =
  js_config :: JdServerConfig
  js_token_manager :: TokenManager
  js_validator :: TemplateValidator
  js_next_job_id :: u32
  js_current_prev_hash :: "bytes option"
  js_current_template :: "CurrentTemplateContext option"
  js_pending_missing :: PendingMissingState
  js_next_session_id :: u64
  js_seen_shares :: "(u32, bytes set) hash_map"

definition MAX_SEEN_SHARES_PER_JOB :: nat where
  "MAX_SEEN_SHARES_PER_JOB = 10000"

definition JdServer_new :: "JdServerConfig \<Rightarrow> JdServer" where
  "JdServer_new config = \<lparr>js_config = config, js_token_manager = TokenManager_new config,
     js_validator = TemplateValidator_new (jc_full_template_validation config) (jc_pool_payout_script config)
       (jc_min_pool_payout config),
     js_next_job_id = 1, js_current_prev_hash = None, js_current_template = None,
     js_pending_missing = PendingMissingState_default, js_next_session_id = 1, js_seen_shares = []\<rparr>"

definition set_current_prev_hash :: "bytes \<Rightarrow> JdServer \<Rightarrow> JdServer" where
  "set_current_prev_hash prev_hash self =
     (let changed = (js_current_prev_hash self \<noteq> Some prev_hash);
          self = self\<lparr>js_current_prev_hash := Some prev_hash,
            js_current_template := map_option (ctx_prev_hash_update (\<lambda>_. prev_hash)) (js_current_template self)\<rparr>
      in if changed then self\<lparr>js_pending_missing := invalidate_template (js_pending_missing self)\<rparr> else self)"

definition set_current_template :: "CurrentTemplateContext \<Rightarrow> JdServer \<Rightarrow> JdServer" where
  "set_current_template template self =
     self\<lparr>js_current_prev_hash := Some (ctx_prev_hash template), js_current_template := Some template,
       js_pending_missing := invalidate_template (js_pending_missing self)\<rparr>"

definition JD_MAX_TIME_FORWARD :: u32 where "JD_MAX_TIME_FORWARD = 7200"
definition JD_MAX_TIME_BACKWARD :: u32 where "JD_MAX_TIME_BACKWARD = 60"

definition time_in_range :: "u32 \<Rightarrow> u32 \<Rightarrow> bool" where
  "time_in_range base time \<longleftrightarrow>
     \<not> (time < saturating_sub base JD_MAX_TIME_BACKWARD \<or> saturating_add base JD_MAX_TIME_FORWARD < time)"

definition validate_header_fields ::
  "u32 \<Rightarrow> u32 \<Rightarrow> u32 \<Rightarrow> JdServer \<Rightarrow> string + CurrentTemplateContext option" where
  "validate_header_fields version time bits self =
     (case js_current_template self of
        None \<Rightarrow> Inr None
      | Some template \<Rightarrow>
          if version \<noteq> ctx_version template then Inl ''block version does not match current template''
          else if bits \<noteq> ctx_bits template then Inl ''difficulty bits do not match current template''
          else if \<not> time_in_range (ctx_time template) time then Inl ''template time is out of range''
          else Inr (Some template))"

definition custom_header_code :: "string \<Rightarrow> SetCustomMiningJobErrorCode" where
  "custom_header_code reason =
     (if reason = ''block version does not match current template'' then CustomInvalidVersion
      else if reason = ''block commitments do not match current template'' then CustomOther
      else if reason = ''difficulty bits do not match current template'' then CustomInvalidBits
      else CustomOther)"

definition coinbase_too_long :: "nat \<Rightarrow> nat \<Rightarrow> string" where
  "coinbase_too_long len max_len =
     ''coinbase length '' @ show_nat len @ '' exceeds maximum '' @ show_nat max_len"

text \<open>The part of the check that needs a template.\<close>

definition check_against_template ::
  "sha256_fn \<Rightarrow> blake2b_fn \<Rightarrow> nat \<Rightarrow> SetCustomMiningJob \<Rightarrow> CurrentTemplateContext \<Rightarrow> JdServer
    \<Rightarrow> (SetCustomMiningJobError + unit) outcome" where
  "check_against_template sha256 blake2b heap request template self =
     (let err = custom_error (scj_channel_id request) (scj_request_id request);
          max_coinbase_len = ctx_coinbase_tx_len template + unat (jc_coinbase_output_max_additional_size (js_config self)) in
      if max_coinbase_len < length (scj_coinbase_tx request) then
        Returns (Inl (err CustomCoinbaseConstraintViolation
          (coinbase_too_long (length (scj_coinbase_tx request)) max_coinbase_len))) else
      bindP (Returns (ok_or (custom_error_invalid_coinbase (scj_channel_id request) (scj_request_id request)
          ''coinbase transaction is empty'')
        (compute_merkle_root sha256 (scj_coinbase_tx request) (ctx_txids template)))) (\<lambda>expected_merkle_root.
      if expected_merkle_root \<noteq> scj_merkle_root request then
        Returns (Inl (err CustomInvalidMerkleRoot ''merkle root does not match pool transaction set'')) else
      bindP (map_errP (err CustomOther)
        (recompute_coinbase_only_block_commitments blake2b heap (scj_coinbase_tx request)
          (ctx_chain_history_root template) (ctx_consensus_branch_id template))) (\<lambda>expected_block_commitments.
      if expected_block_commitments \<noteq> scj_block_commitments request then
        Returns (Inl (err CustomOther
          ''declared block commitments do not verify against declared coinbase and chain tip''))
      else Returns (Inr ()))))"

definition validate_custom_job_request ::
  "sha256_fn \<Rightarrow> blake2b_fn \<Rightarrow> nat \<Rightarrow> SetCustomMiningJob \<Rightarrow> JdServer
    \<Rightarrow> (SetCustomMiningJobError + unit) outcome" where
  "validate_custom_job_request sha256 blake2b heap request self =
     (let err = custom_error (scj_channel_id request) (scj_request_id request) in
      bindP (Returns (map_err (\<lambda>reason. err (custom_header_code reason) reason)
        (validate_header_fields (scj_version request) (scj_time request) (scj_bits request) self))) (\<lambda>template.
      bindP (map_errP (err CustomCoinbaseConstraintViolation)
        (validate_coinbase heap (js_validator self) (scj_coinbase_tx request))) (\<lambda>_.
      case template of
        None \<Rightarrow> Returns (Inr ())
      | Some template \<Rightarrow> check_against_template sha256 blake2b heap request template self)))"

section \<open>Tokens and custom jobs\<close>

definition handle_allocate_token ::
  "(nat \<Rightarrow> instant) \<Rightarrow> bytes \<Rightarrow> PayoutTracker \<Rightarrow> u32 \<Rightarrow> string \<Rightarrow> JobDeclarationMode \<Rightarrow> JdServer
    \<Rightarrow> (JdServerError + AllocateMiningJobTokenSuccess) \<times> JdServer" where
  "handle_allocate_token clk random_bytes payout request_id user_id requested_mode self =
     (if is_ephemeral_miner_id user_id then
        (Inl (JdProtocol (''user_identifier '' @ [CHR 39] @ user_id @ [CHR 39] @
          '' uses the reserved ephemeral prefix'')), self)
      else if \<not> knows_worker payout user_id \<and> MAX_PERSISTED_WORKERS \<le> named_worker_count payout then
        (Inl (JdProtocol (''worker identity cap ('' @ show_nat MAX_PERSISTED_WORKERS @
          '') reached; cannot allocate token for new worker '' @ [CHR 39] @ user_id @ [CHR 39])), self)
      else if requested_mode = FullTemplate \<and> jc_full_template_enabled (js_config self) then
        (Inl (JdProtocol FULL_TEMPLATE_UNAVAILABLE), self)
      else
        let granted_mode = CoinbaseOnly;
            (res, tokens) = allocate_token_with_mode clk random_bytes user_id granted_mode (js_token_manager self);
            self = self\<lparr>js_token_manager := tokens\<rparr> in
        case res of
          Inl e \<Rightarrow> (Inl e, self)
        | Inr token \<Rightarrow>
            (Inr \<lparr>ats_request_id = request_id, ats_mining_job_token = mt_token token,
               ats_coinbase_output = jc_pool_payout_script (js_config self),
               ats_coinbase_output_max_additional_size = jc_coinbase_output_max_additional_size (js_config self),
               ats_async_mining_allowed = jc_async_mining_allowed (js_config self),
               ats_granted_mode = granted_mode\<rparr>, self))"

text \<open>Steps 1 to 3 of a declaration: structure, token, mode and chain tip.\<close>

definition check_declaration ::
  "instant \<Rightarrow> SetCustomMiningJob \<Rightarrow> JdServer \<Rightarrow> SetCustomMiningJobError + MiningJobToken" where
  "check_declaration now request self =
     (let err = custom_error (scj_channel_id request) (scj_request_id request) in
      bindR (map_err (\<lambda>e. err e (''Validation failed: '' @ show_custom_code e)) (custom_validate request)) (\<lambda>_.
      bindR (map_err (\<lambda>e. case e of
          JdInvalidToken \<Rightarrow> custom_error_invalid_token (scj_channel_id request) (scj_request_id request)
        | JdTokenExpired \<Rightarrow> custom_error_token_expired (scj_channel_id request) (scj_request_id request)
        | e \<Rightarrow> err CustomOther (''Token validation error: '' @ show_jd_error [] e))
        (validate_token now (scj_mining_job_token request) (js_token_manager self))) (\<lambda>token_info.
      if \<not> FULL_TEMPLATE_PAYOUT_AUTHORIZATION_SUPPORTED \<and> mt_granted_mode token_info = FullTemplate then
        Inl (err CustomOther FULL_TEMPLATE_UNAVAILABLE) else
      case js_current_prev_hash self of
        None \<Rightarrow> Inl (err CustomStalePrevHash ''Server has not received a block template yet'')
      | Some expected_prev_hash \<Rightarrow>
          if scj_prev_hash request \<noteq> expected_prev_hash then
            Inl (err CustomStalePrevHash ''Previous block hash does not match current chain tip'')
          else Inr token_info)))"

definition declared_job :: "u32 \<Rightarrow> MiningJobToken \<Rightarrow> SetCustomMiningJob \<Rightarrow> JdServer \<Rightarrow> DeclaredJobInfo" where
  "declared_job job_id token_info request self =
     \<lparr>dj_job_id = job_id, dj_client_id = mt_client_id token_info, dj_mode = mt_granted_mode token_info,
       dj_channel_id = scj_channel_id request, dj_version = scj_version request,
       dj_prev_hash = scj_prev_hash request, dj_merkle_root = scj_merkle_root request,
       dj_block_commitments = scj_block_commitments request, dj_bits = scj_bits request,
       dj_time = scj_time request, dj_coinbase_tx = scj_coinbase_tx request,
       dj_share_target = jc_share_target (js_config self)\<rparr>"

definition handle_declare_job ::
  "sha256_fn \<Rightarrow> blake2b_fn \<Rightarrow> nat \<Rightarrow> (nat \<Rightarrow> instant) \<Rightarrow> SetCustomMiningJob \<Rightarrow> JdServer
    \<Rightarrow> ((SetCustomMiningJobError + SetCustomMiningJobSuccess) \<times> JdServer) outcome" where
  "handle_declare_job sha256 blake2b heap clk request self =
     (case check_declaration (clk 0) request self of
        Inl e \<Rightarrow> Returns (Inl e, self)
      | Inr token_info \<Rightarrow>
          (case validate_custom_job_request sha256 blake2b heap request self of
             Panics \<Rightarrow> Panics
           | Returns (Inl e) \<Rightarrow> Returns (Inl e, self)
           | Returns (Inr _) \<Rightarrow>
               let (job_id, next) = next_positive_job_id (js_next_job_id self);
                   self = self\<lparr>js_next_job_id := next\<rparr>;
                   (res, tokens) = set_job_info (clk 1) (scj_mining_job_token request)
                     (declared_job job_id token_info request self) (js_token_manager self);
                   self = self\<lparr>js_token_manager := tokens\<rparr> in
               case res of
                 Inl e \<Rightarrow> Returns (Inl (custom_error (scj_channel_id request) (scj_request_id request) CustomOther
                   (''Failed to store job info: '' @ show_jd_error [] e)), self)
               | Inr _ \<Rightarrow> Returns (Inr \<lparr>scs_channel_id = scj_channel_id request,
                   scs_request_id = scj_request_id request, scs_job_id = job_id,
                   scs_share_target = jc_share_target (js_config self)\<rparr>, self)))"

section \<open>Block solutions\<close>

definition show_validation_error :: "ValidationError \<Rightarrow> string" where
  "show_validation_error e = (case e of
     ValidationError.InvalidSolution s \<Rightarrow> ''Invalid Equihash solution: '' @ s
   | ValidationError.TargetNotMet \<Rightarrow> ''Solution does not meet target difficulty''
   | ValidationError.InvalidHeaderLength n \<Rightarrow> ''Invalid header length: expected 140, got '' @ show_nat n
   | ValidationError.InvalidSolutionLength n \<Rightarrow> ''Invalid solution length: expected 1344, got '' @ show_nat n
   | ValidationError.InvalidNonceLength n \<Rightarrow> ''Invalid nonce length: expected 32, got '' @ show_nat n
   | ValidationError.HashError s \<Rightarrow> ''Hash computation failed: '' @ s)"

definition handle_push_solution ::
  "equihash_fn \<Rightarrow> sha256_fn \<Rightarrow> instant \<Rightarrow> PushSolution \<Rightarrow> JdServer \<Rightarrow> JdServerError + unit" where
  "handle_push_solution eq sha256 now solution self =
     (if \<not> validate_solution_len solution then Inl (JdProtocol ''Invalid solution length'') else
      bindR (find_job_by_id now (pus_job_id solution) (js_token_manager self)) (\<lambda>job.
      if \<not> FULL_TEMPLATE_PAYOUT_AUTHORIZATION_SUPPORTED \<and> dj_mode job = FullTemplate then
        Inl (JdProtocol FULL_TEMPLATE_UNAVAILABLE) else
      if dj_channel_id job \<noteq> pus_channel_id solution then
        Inl (JdProtocol (''solution channel '' @ show_nat (unat (pus_channel_id solution)) @
          '' does not match declared job channel '' @ show_nat (unat (dj_channel_id job)))) else
      if pus_version solution \<noteq> dj_version job then
        Inl (JdProtocol (''solution version '' @ show_nat (unat (pus_version solution)) @
          '' does not match declared version '' @ show_nat (unat (dj_version job)))) else
      if \<not> time_in_range (dj_time job) (pus_time solution) then
        Inl (JdProtocol ''solution time out of range'') else
      let header = jd_build_header job (pus_time solution) (pus_nonce solution);
          target = compact_to_target (dj_bits job) in
      bindR (map_err (\<lambda>e. JdProtocol (''invalid solution: '' @ show_validation_error e))
        (verify_share eq sha256 EquihashValidator_new header (pus_solution solution) target)) (\<lambda>_. Inr ())))"

section \<open>Full templates\<close>

datatype FullTemplateJobResponse = FullError SetFullTemplateJobError | FullNeedTransactions GetMissingTransactions

definition full_header_code :: "string \<Rightarrow> SetFullTemplateJobErrorCode" where
  "full_header_code reason =
     (if reason = ''block version does not match current template'' then FullInvalidVersion
      else if reason = ''difficulty bits do not match current template'' then FullInvalidBits
      else FullOther)"

definition register_full_template_job ::
  "instant \<Rightarrow> SetFullTemplateJob \<Rightarrow> MiningJobToken \<Rightarrow> JdServer \<Rightarrow> (JdServerError + u32) \<times> JdServer" where
  "register_full_template_job now job token_info self =
     (let (job_id, next) = next_positive_job_id (js_next_job_id self);
          self = self\<lparr>js_next_job_id := next\<rparr>;
          job_info = \<lparr>dj_job_id = job_id, dj_client_id = mt_client_id token_info,
            dj_mode = mt_granted_mode token_info, dj_channel_id = sft_channel_id job, dj_version = sft_version job,
            dj_prev_hash = sft_prev_hash job, dj_merkle_root = sft_merkle_root job,
            dj_block_commitments = sft_block_commitments job, dj_bits = sft_bits job, dj_time = sft_time job,
            dj_coinbase_tx = sft_coinbase_tx job, dj_share_target = jc_share_target (js_config self)\<rparr>;
          (res, tokens) = set_job_info now (sft_mining_job_token job) job_info (js_token_manager self);
          self = self\<lparr>js_token_manager := tokens\<rparr>
      in (bindR res (\<lambda>_. Inr job_id), self))"

text \<open>Everything before the template itself is validated: structure, token, mode and support.\<close>

definition check_full_declaration ::
  "instant \<Rightarrow> SetFullTemplateJob \<Rightarrow> JdServer \<Rightarrow> SetFullTemplateJobError + MiningJobToken" where
  "check_full_declaration now request self =
     (let err = full_error (sft_channel_id request) (sft_request_id request) in
      bindR (map_err (\<lambda>e. err e (''Validation failed: '' @ show_full_code e)) (full_validate request)) (\<lambda>_.
      bindR (map_err (\<lambda>e. case e of
          JdInvalidToken \<Rightarrow> full_error_invalid_token (sft_channel_id request) (sft_request_id request)
        | JdTokenExpired \<Rightarrow> err FullTokenExpired ''Mining job token has expired''
        | e \<Rightarrow> err FullOther (''Token validation error: '' @ show_jd_error [] e))
        (validate_token now (sft_mining_job_token request) (js_token_manager self))) (\<lambda>token_info.
      if mt_granted_mode token_info \<noteq> FullTemplate then
        Inl (full_error_mode_mismatch (sft_channel_id request) (sft_request_id request)) else
      if \<not> FULL_TEMPLATE_PAYOUT_AUTHORIZATION_SUPPORTED then Inl (err FullOther FULL_TEMPLATE_UNAVAILABLE)
      else Inr token_info)))"

text \<open>The header fields, the commitments and the chain tip; the result is the template, if any.\<close>

definition check_full_header ::
  "SetFullTemplateJob \<Rightarrow> JdServer \<Rightarrow> SetFullTemplateJobError + CurrentTemplateContext option" where
  "check_full_header request self =
     (let err = full_error (sft_channel_id request) (sft_request_id request) in
      bindR (map_err (\<lambda>reason. err (full_header_code reason) reason)
        (validate_header_fields (sft_version request) (sft_time request) (sft_bits request) self)) (\<lambda>template.
      if (case template of None \<Rightarrow> False | Some current \<Rightarrow> sft_block_commitments request \<noteq> ctx_block_commitments current)
      then Inl (err FullOther ''block commitments do not match current template'') else
      case js_current_prev_hash self of
        None \<Rightarrow> Inl (err FullStalePrevHash ''Server has not received a block template yet'')
      | Some expected_prev_hash \<Rightarrow>
          if sft_prev_hash request \<noteq> expected_prev_hash then
            Inl (err FullStalePrevHash ''Previous block hash does not match current chain tip'')
          else Inr template))"

definition check_full_coinbase ::
  "nat \<Rightarrow> SetFullTemplateJob \<Rightarrow> CurrentTemplateContext option \<Rightarrow> JdServer
    \<Rightarrow> (SetFullTemplateJobError + unit) outcome" where
  "check_full_coinbase heap request template self =
     (let err = full_error (sft_channel_id request) (sft_request_id request) in
      bindP (map_errP (err FullCoinbaseConstraintViolation)
        (validate_coinbase heap (js_validator self) (sft_coinbase_tx request))) (\<lambda>_. Returns (
      case template of None \<Rightarrow> Inr ()
      | Some current \<Rightarrow>
          let max_coinbase_len = ctx_coinbase_tx_len current +
            unat (jc_coinbase_output_max_additional_size (js_config self)) in
          if max_coinbase_len < length (sft_coinbase_tx request) then
            Inl (err FullCoinbaseConstraintViolation
              (coinbase_too_long (length (sft_coinbase_tx request)) max_coinbase_len))
          else Inr ())))"

definition handle_set_full_template_job_for_session ::
  "sha256_fn \<Rightarrow> nat \<Rightarrow> (nat \<Rightarrow> instant) \<Rightarrow> SetFullTemplateJob \<Rightarrow> u64 option \<Rightarrow> JdServer
    \<Rightarrow> ((FullTemplateJobResponse + SetFullTemplateJobSuccess) \<times> JdServer) outcome" where
  "handle_set_full_template_job_for_session sha256 heap clk request session_id self =
     (let template_epoch = pe_template_epoch (js_pending_missing self);
          err = full_error (sft_channel_id request) (sft_request_id request) in
      case check_full_declaration (clk 0) request self of
        Inl e \<Rightarrow> Returns (Inl (FullError e), self)
      | Inr token_info \<Rightarrow>
          let owner = (case session_id of Some i \<Rightarrow> SessionOwner i | None \<Rightarrow> LegacyOwner (mt_client_id token_info));
              pending_key = (owner, sft_channel_id request, sft_request_id request) in
          case check_full_header request self of
            Inl e \<Rightarrow> Returns (Inl (FullError e), self)
          | Inr template \<Rightarrow>
              (case check_full_coinbase heap request template self of
                 Panics \<Rightarrow> Panics
               | Returns (Inl e) \<Rightarrow> Returns (Inl (FullError e), self)
               | Returns (Inr _) \<Rightarrow>
                   (case validate_template heap sha256 (js_validator self) request of
                      Panics \<Rightarrow> Panics
                    | Returns (Invalid reason) \<Rightarrow> Returns (Inl (FullError (err FullInvalidTransactions reason)), self)
                    | Returns (NeedTransactions missing) \<Rightarrow>
                        if pe_template_epoch (js_pending_missing self) \<noteq> template_epoch then
                          Returns (Inl (FullError (err FullStalePrevHash
                            ''Template changed during declaration; retry with the current template'')), self)
                        else
                          let (ok, pending) = pending_insert (\<lambda>i. clk (i + 1)) pending_key missing (js_pending_missing self);
                              self = self\<lparr>js_pending_missing := pending\<rparr> in
                          if \<not> ok then Returns (Inl (FullError (err FullServerOverloaded
                            ''Too many pending missing-transaction requests or retained txids'')), self)
                          else Returns (Inl (FullNeedTransactions \<lparr>gmt_channel_id = sft_channel_id request,
                            gmt_request_id = sft_request_id request, gmt_missing_tx_ids = missing\<rparr>), self)
                    | Returns Valid \<Rightarrow>
                        let self = self\<lparr>js_pending_missing := (js_pending_missing self)
                              \<lparr>pe_requests := hm_remove pending_key (pe_requests (js_pending_missing self))\<rparr>\<rparr>;
                            (res, self) = register_full_template_job (clk 1) request token_info self in
                        case res of
                          Inl e \<Rightarrow> Returns (Inl (FullError (err FullOther
                            (''Failed to register job: '' @ show_jd_error [] e))), self)
                        | Inr job_id \<Rightarrow> Returns (Inr \<lparr>fts_channel_id = sft_channel_id request,
                            fts_request_id = sft_request_id request, fts_job_id = job_id\<rparr>, self))))"

section \<open>Provided transactions and sessions\<close>

definition NO_PENDING :: JdServerError where
  "NO_PENDING = JdProtocol ''no outstanding missing-transaction request for this session, channel, and request''"

fun parse_provided :: "sha256_fn \<Rightarrow> bytes list \<Rightarrow> JdServerError + bytes list" where
  "parse_provided sha256 [] = Inr []"
| "parse_provided sha256 (tx # txs) =
     bindR (map_err JdProtocol (parse_transaction_jd tx)) (\<lambda>_.
     bindR (parse_provided sha256 txs) (\<lambda>txids. Inr (compute_txid sha256 tx # txids)))"

definition handle_provide_missing_transactions_for_owner ::
  "sha256_fn \<Rightarrow> set_iter \<Rightarrow> (nat \<Rightarrow> instant) \<Rightarrow> ProvideMissingTransactions \<Rightarrow> PendingOwner \<Rightarrow> JdServer
    \<Rightarrow> (JdServerError + unit) \<times> JdServer" where
  "handle_provide_missing_transactions_for_owner sha256 iter clk msg owner self =
     (let key = (owner, pmt_channel_id msg, pmt_request_id msg);
          pending = pending_expire (clk 0) (js_pending_missing self);
          self = self\<lparr>js_pending_missing := pending\<rparr> in
      case hm_get (pe_requests pending) key of
        None \<Rightarrow> (Inl NO_PENDING, self)
      | Some request \<Rightarrow>
          if length (pmt_transactions msg) \<noteq> length (pm_expected_txids request) then
            (Inl (JdProtocol (''expected '' @ show_nat (length (pm_expected_txids request)) @ '' transactions, got '' @
              show_nat (length (pmt_transactions msg)))), self)
          else
            case parse_provided sha256 (pmt_transactions msg) of
              Inl e \<Rightarrow> (Inl e, self)
            | Inr txids \<Rightarrow>
                let pending = pending_expire (clk 1) (js_pending_missing self) in
                case hm_get (pe_requests pending) key of
                  None \<Rightarrow> (Inl NO_PENDING, self\<lparr>js_pending_missing := pending\<rparr>)
                | Some request \<Rightarrow>
                    let pending = pending\<lparr>pe_requests := hm_remove key (pe_requests pending)\<rparr>;
                        self = self\<lparr>js_pending_missing := pending\<rparr> in
                    if txids \<noteq> pm_expected_txids request then
                      (Inl (JdProtocol ''provided transaction txids did not match requested txids''), self)
                    else (Inr (), self\<lparr>js_validator := fold (add_known_txid iter) txids (js_validator self)\<rparr>))"

definition handle_provide_missing_transactions ::
  "sha256_fn \<Rightarrow> set_iter \<Rightarrow> (nat \<Rightarrow> instant) \<Rightarrow> ProvideMissingTransactions \<Rightarrow> string \<Rightarrow> JdServer
    \<Rightarrow> (JdServerError + unit) \<times> JdServer" where
  "handle_provide_missing_transactions sha256 iter clk msg client_id self =
     handle_provide_missing_transactions_for_owner sha256 iter clk msg (LegacyOwner client_id) self"

definition server_update_known_txids :: "set_iter \<Rightarrow> bytes list \<Rightarrow> JdServer \<Rightarrow> JdServer" where
  "server_update_known_txids iter txids self =
     self\<lparr>js_validator := update_known_txids iter txids (js_validator self)\<rparr>"

text \<open>\<open>checked_add\<close> fails on the largest identifier; the loop has one undisturbed pass.\<close>

definition open_session :: "JdServer \<Rightarrow> (JdServerError + u64) \<times> JdServer" where
  "open_session self =
     (let session_id = js_next_session_id self in
      if session_id = - 1 then (Inl (JdProtocol ''JD session IDs exhausted''), self)
      else (Inr session_id, self\<lparr>js_next_session_id := session_id + 1\<rparr>))"

section \<open>The pending requests stay bounded\<close>

definition owner_entries ::
  "PendingOwner \<Rightarrow> PendingMissingState \<Rightarrow> (PendingRequestKey \<times> PendingMissingTransactions) list" where
  "owner_entries owner self = filter (of_owner owner) (pe_requests self)"

definition retained_bytes :: "(PendingRequestKey \<times> PendingMissingTransactions) list \<Rightarrow> nat" where
  "retained_bytes entries = sum_list (map entry_bytes entries)"

definition pending_ok :: "PendingMissingState \<Rightarrow> bool" where
  "pending_ok self \<longleftrightarrow> hm_wf (pe_requests self) \<and>
     length (pe_requests self) \<le> MAX_PENDING_GLOBAL \<and>
     retained_bytes (pe_requests self) \<le> MAX_PENDING_TXID_BYTES_GLOBAL \<and>
     (\<forall>owner. length (owner_entries owner self) \<le> MAX_PENDING_PER_SESSION \<and>
        retained_bytes (owner_entries owner self) \<le> MAX_PENDING_TXID_BYTES_PER_SESSION)"

lemma retained_bytes_filter: "retained_bytes (filter P xs) \<le> retained_bytes xs"
  by (induction xs) (auto simp: retained_bytes_def)

lemma pending_ok_filter:
  assumes "pending_ok self"
  shows "pending_ok (self\<lparr>pe_requests := filter P (pe_requests self), pe_template_epoch := n\<rparr>)"
proof -
  have swap: "filter (of_owner owner) (filter P (pe_requests self)) = filter P (owner_entries owner self)" for owner
    by (simp add: owner_entries_def conj_commute)
  have "hm_wf (filter P (pe_requests self))"
    using assms hm_wf_retain [of "pe_requests self" "\<lambda>k v. P (k, v)"] by (simp add: pending_ok_def hm_retain_def)
  moreover have "length (filter P xs) \<le> n" if "length xs \<le> n" for xs and n :: nat
    using that length_filter_le le_trans by blast
  moreover have "retained_bytes (filter P xs) \<le> n" if "retained_bytes xs \<le> n" for xs and n :: nat
    using that retained_bytes_filter le_trans by blast
  ultimately show ?thesis
    using assms by (simp add: pending_ok_def owner_entries_def [of _ "self\<lparr>pe_requests := filter P (pe_requests self), pe_template_epoch := n\<rparr>"] swap del: filter_filter)
qed

lemma pending_filter_same_epoch:
  "pending_ok self \<Longrightarrow> pending_ok (self\<lparr>pe_requests := filter P (pe_requests self)\<rparr>)"
  using pending_ok_filter [of self "pe_template_epoch self" P] by simp

lemma pending_expire_ok: "pending_ok self \<Longrightarrow> pending_ok (pending_expire now self)"
  unfolding pending_expire_def hm_retain_def by (rule pending_filter_same_epoch)

lemma drop_jd_session_ok: "pending_ok self \<Longrightarrow> pending_ok (drop_jd_session session_id self)"
  unfolding drop_jd_session_def hm_retain_def by (rule pending_filter_same_epoch)

lemma pending_remove_ok: "pending_ok self \<Longrightarrow> pending_ok (self\<lparr>pe_requests := hm_remove key (pe_requests self)\<rparr>)"
  using pending_filter_same_epoch [of self "\<lambda>(k, v). key \<noteq> k"] by (simp add: hm_remove_def AList.delete_eq)

lemma pending_default_ok: "pending_ok PendingMissingState_default"
  by (simp add: pending_ok_def PendingMissingState_default_def owner_entries_def retained_bytes_def)

lemma invalidate_template_ok: "pending_ok self \<Longrightarrow> pending_ok (invalidate_template self)"
  using pending_ok_filter [of self "pe_template_epoch self + 1" "\<lambda>_. False"] by (simp add: invalidate_template_def)

text \<open>An insertion replaces the entry under the key; the others are the same.\<close>

lemma mset_hm_insert:
  "hm_wf m \<Longrightarrow> mset (hm_insert k v m) = add_mset (k, v) (mset (filter (\<lambda>e. fst e \<noteq> k) m))"
proof (induction m)
  case (Cons e m)
  then have "k \<notin> fst ` set m" if "fst e = k" using that by (auto simp: hm_wf_def)
  then have "filter (\<lambda>e. fst e \<noteq> k) m = m" if "fst e = k"
    using that by (auto simp: filter_id_conv image_iff)
  with Cons show ?case by (cases e) (auto simp: hm_insert_def hm_wf_def)
qed (simp add: hm_insert_def)

lemma length_filter_hm_insert:
  assumes "hm_wf m"
  shows "length (filter P (hm_insert k v m)) = (if P (k, v) then 1 else 0) + length (filter P (filter (\<lambda>e. fst e \<noteq> k) m))"
    "sum_list (map f (filter P (hm_insert k v m))) =
      (if P (k, v) then f (k, v) else (0 :: nat)) + sum_list (map f (filter P (filter (\<lambda>e. fst e \<noteq> k) m)))"
proof -
  have m: "mset (filter P (hm_insert k v m)) =
      (if P (k, v) then add_mset (k, v) (mset (filter P (filter (\<lambda>e. fst e \<noteq> k) m)))
       else mset (filter P (filter (\<lambda>e. fst e \<noteq> k) m)))"
    unfolding mset_filter mset_hm_insert [OF assms] by simp
  from arg_cong [OF m, of size] show "length (filter P (hm_insert k v m)) =
      (if P (k, v) then 1 else 0) + length (filter P (filter (\<lambda>e. fst e \<noteq> k) m))"
    by (simp add: size_mset [symmetric] split: if_splits del: filter_filter size_mset)
  from arg_cong [OF m, of "\<lambda>M. sum_mset (image_mset f M)"]
  show "sum_list (map f (filter P (hm_insert k v m))) =
      (if P (k, v) then f (k, v) else 0) + sum_list (map f (filter P (filter (\<lambda>e. fst e \<noteq> k) m)))"
    by (simp add: sum_mset_sum_list [symmetric] split: if_splits del: filter_filter)
qed

lemma pending_insert_ok:
  assumes "pending_ok self"
  shows "pending_ok (snd (pending_insert clk key txids self))"
proof -
  define s where "s = pending_expire (clk 0) self"
  define e where "e = \<lparr>pm_expected_txids = txids, pm_created_at = clk 1\<rparr>"
  define s' where "s' = s\<lparr>pe_requests := hm_insert key e (pe_requests s)\<rparr>"
  have s: "pending_ok s" using assms by (simp add: s_def pending_expire_ok)
  have wf: "hm_wf (pe_requests s)" using s by (simp add: pending_ok_def)
  have e: "entry_bytes (key, e) = txid_bytes txids" by (simp add: entry_bytes_def e_def)
  have own: "of_owner owner (key, e) \<longleftrightarrow> owner = fst key" for owner by (auto simp: of_owner_def)
  note all = length_filter_hm_insert(1) [OF wf, where P = "\<lambda>_. True" and k = key and v = e, simplified]
    length_filter_hm_insert(2) [OF wf, where P = "\<lambda>_. True" and k = key and v = e and f = entry_bytes, simplified]
  note mine = length_filter_hm_insert(1) [OF wf, where P = "of_owner owner" and k = key and v = e for owner]
    length_filter_hm_insert(2) [OF wf, where P = "of_owner owner" and k = key and v = e and f = entry_bytes for owner]
  have drop_key: "length (filter (of_owner owner) (filter (\<lambda>e. fst e \<noteq> key) (pe_requests s))) \<le> MAX_PENDING_PER_SESSION"
    "retained_bytes (filter (of_owner owner) (filter (\<lambda>e. fst e \<noteq> key) (pe_requests s))) \<le> MAX_PENDING_TXID_BYTES_PER_SESSION"
    for owner
    using pending_filter_same_epoch [OF s, of "\<lambda>e. fst e \<noteq> key"] by (simp_all add: pending_ok_def owner_entries_def)
  have split: "pending_insert clk key txids self = (False, s) \<or>
      (pending_insert clk key txids self = (True, s') \<and>
       length (filter (of_owner (fst key)) (filter (\<lambda>e. fst e \<noteq> key) (pe_requests s))) + 1 \<le> MAX_PENDING_PER_SESSION \<and>
       length (filter (\<lambda>e. fst e \<noteq> key) (pe_requests s)) + 1 \<le> MAX_PENDING_GLOBAL \<and>
       txid_bytes txids + retained_bytes (filter (of_owner (fst key)) (filter (\<lambda>e. fst e \<noteq> key) (pe_requests s)))
         \<le> MAX_PENDING_TXID_BYTES_PER_SESSION \<and>
       txid_bytes txids + retained_bytes (filter (\<lambda>e. fst e \<noteq> key) (pe_requests s)) \<le> MAX_PENDING_TXID_BYTES_GLOBAL)"
    by (auto simp: pending_insert_def Let_def s_def s'_def e_def retained_bytes_def)
  have "pending_ok s'" if "pending_insert clk key txids self = (True, s')"
    using split that wf drop_key all mine e own
    by (auto simp: pending_ok_def s'_def owner_entries_def retained_bytes_def simp del: filter_filter split: if_splits)
  then show ?thesis using split s by auto
qed

datatype pending_op =
    PendExpire instant
  | PendInsert "nat \<Rightarrow> instant" PendingRequestKey "bytes list"
  | PendInvalidate
  | PendDropSession u64
  | PendRemove PendingRequestKey

fun pending_step :: "pending_op \<Rightarrow> PendingMissingState \<Rightarrow> PendingMissingState" where
  "pending_step (PendExpire now) self = pending_expire now self"
| "pending_step (PendInsert clk key txids) self = snd (pending_insert clk key txids self)"
| "pending_step PendInvalidate self = invalidate_template self"
| "pending_step (PendDropSession session_id) self = drop_jd_session session_id self"
| "pending_step (PendRemove key) self = self\<lparr>pe_requests := hm_remove key (pe_requests self)\<rparr>"

lemma pending_step_ok: "pending_ok self \<Longrightarrow> pending_ok (pending_step op self)"
  by (cases op) (simp_all add: pending_expire_ok pending_insert_ok invalidate_template_ok drop_jd_session_ok pending_remove_ok)

text \<open>
  C35.  Whatever clients and new templates do, the requests that wait for transactions stay bounded: at most
  256 requests with 8 MiB of identifiers in all, and at most 8 requests with 512 KiB for any one owner.
\<close>

theorem pending_requests_bounded:
  "length (pe_requests (fold pending_step ops PendingMissingState_default)) \<le> 256 \<and>
   retained_bytes (pe_requests (fold pending_step ops PendingMissingState_default)) \<le> 8 * 1024 * 1024 \<and>
   (\<forall>owner. length (owner_entries owner (fold pending_step ops PendingMissingState_default)) \<le> 8 \<and>
      retained_bytes (owner_entries owner (fold pending_step ops PendingMissingState_default)) \<le> 512 * 1024)"
proof -
  have "pending_ok self \<Longrightarrow> pending_ok (fold pending_step ops self)" for self
    by (induction ops arbitrary: self) (simp_all add: pending_step_ok)
  from this [OF pending_default_ok] show ?thesis
    by (simp add: pending_ok_def MAX_PENDING_GLOBAL_def MAX_PENDING_PER_SESSION_def MAX_PENDING_TXID_BYTES_GLOBAL_def
        MAX_PENDING_TXID_BYTES_PER_SESSION_def)
qed

section \<open>Declarations\<close>

lemma validate_coinbase_pays:
  assumes "validate_coinbase heap v coinbase = Returns (Inr ())" "tv_pool_payout_script v \<noteq> []"
  shows "\<exists>p out. parse_transaction heap coinbase = Returns (Inr p) \<and> out \<in> set (px_outputs p) \<and>
    to_script_pubkey out = tv_pool_payout_script v \<and> tv_min_pool_payout v \<le> to_value out"
proof -
  let ?cv = "\<lparr>cv_pool_payout_script = tv_pool_payout_script v, cv_min_pool_payout = tv_min_pool_payout v\<rparr>"
  have "validate_payout_outputs heap ?cv coinbase = Returns (Inr ())"
    using assms by (auto simp: validate_coinbase_def validate_pool_payout_def isl_unit split: outcome.splits if_splits)
  then show ?thesis using payout_check_iff [of heap ?cv coinbase] assms(2) by auto
qed

lemma validate_custom_job_request_ok:
  "validate_custom_job_request sha256 blake2b heap request self = Returns (Inr ()) \<Longrightarrow>
    validate_coinbase heap (js_validator self) (scj_coinbase_tx request) = Returns (Inr ())"
  by (auto simp: validate_custom_job_request_def bindP_eq_Inr map_errP_eq_Inr Let_def)

lemma check_declaration_token:
  "check_declaration now request self = Inr t \<Longrightarrow>
    hm_get (tm_tokens (js_token_manager self)) (scj_mining_job_token request) = Some t \<and> mt_granted_mode t = CoinbaseOnly \<and>
    js_current_prev_hash self = Some (scj_prev_hash request)"
  by (cases "mt_granted_mode t")
    (auto simp: check_declaration_def bindR_eq_Inr map_err_eq_Inr Let_def validate_token_def
      FULL_TEMPLATE_PAYOUT_AUTHORIZATION_SUPPORTED_def ok_or_eq_Inr split: option.splits if_splits)

lemma word_inc_range:
  assumes "c < MAX_JOB_ID"
  shows "c + 1 \<noteq> 0 \<and> c + 1 \<le> MAX_JOB_ID"
proof -
  have c: "unat c < 2 ^ 32 - 2" using assms by (simp add: word_less_nat_alt unat_max_id)
  then have "unat (c + 1) = unat c + 1" by (simp add: unat_word_ariths)
  then show ?thesis using c by (auto simp: word_le_nat_alt unat_max_id unat_eq_zero [symmetric])
qed

lemma next_positive_job_id_range:
  assumes "next_positive_job_id c = (job_id, n)"
  shows "job_id \<noteq> 0 \<and> job_id \<le> MAX_JOB_ID \<and> n \<noteq> 0 \<and> n \<le> MAX_JOB_ID"
proof -
  have one: "1 \<le> MAX_JOB_ID" by (simp add: word_le_nat_alt unat_max_id)
  have "job_id \<noteq> 0 \<and> job_id \<le> MAX_JOB_ID"
    using assms one by (auto simp: next_positive_job_id_def Let_def not_less split: if_splits)
  moreover have "n = (if MAX_JOB_ID \<le> job_id then 1 else job_id + 1)"
    using assms by (auto simp: next_positive_job_id_def Let_def)
  ultimately show ?thesis using word_inc_range [of job_id] one by (auto simp: not_le)
qed

text \<open>
  The count of inputs in a declared coinbase is trusted before anything else in it is looked at: a
  client that holds a token and follows the current template can declare a coinbase of a few bytes whose
  count asks for more memory than there is, and the handler ends in a failed allocation instead of an
  error.
\<close>

theorem declaration_can_abort:
  assumes "check_declaration (clk 0) request self = Inr token"
    and "validate_header_fields (scj_version request) (scj_time request) (scj_bits request) self = Inr template"
    and "tv_pool_payout_script (js_validator self) \<noteq> []"
    and "scj_coinbase_tx request = u32_to_le_bytes 4 @ compact_bytes n" "heap < 64 * unat n"
  shows "handle_declare_job sha256 blake2b heap clk request self = Panics"
proof -
  have "validate_coinbase heap (js_validator self) (scj_coinbase_tx request) = Panics"
    using parser_trusts_input_count [OF assms(5)] assms(3)
    by (simp add: validate_coinbase_def validate_pool_payout_def validate_payout_outputs_def assms(4))
  then show ?thesis
    by (simp add: handle_declare_job_def assms(1) validate_custom_job_request_def assms(2))
qed

definition held_token :: MiningJobToken where
  "held_token = \<lparr>mt_token = [9], mt_issued_at = 0, mt_lifetime = from_secs 300, mt_client_id = ''alice'',
     mt_granted_mode = CoinbaseOnly, mt_job_info = None\<rparr>"

definition tip_server :: JdServer where
  "tip_server = (JdServer_new (JdServerConfig_default\<lparr>jc_pool_payout_script := [81, 82]\<rparr>))\<lparr>
     js_token_manager := \<lparr>tm_config = JdServerConfig_default, tm_tokens = [([9], held_token)], tm_token_counter = 2\<rparr>,
     js_current_prev_hash := Some (replicate 32 1)\<rparr>"

definition short_declaration :: SetCustomMiningJob where
  "short_declaration = \<lparr>scj_channel_id = 7, scj_request_id = 1, scj_mining_job_token = [9], scj_version = 4,
     scj_prev_hash = replicate 32 1, scj_merkle_root = replicate 32 2, scj_block_commitments = replicate 32 3,
     scj_coinbase_tx = u32_to_le_bytes 4 @ [254, 0, 0, 0, 128], scj_time = 1000, scj_bits = 0x1f07ffff\<rparr>"

theorem declaration_can_abort_witness:
  "handle_declare_job (\<lambda>x. x) (\<lambda>_ x. x) (2 ^ 36) (\<lambda>_. 0) short_declaration tip_server = Panics"
proof (rule declaration_can_abort)
  show "check_declaration 0 short_declaration tip_server = Inr held_token"
    by (simp add: check_declaration_def custom_validate_def short_declaration_def tip_server_def validate_token_def
        hm_get_def held_token_def is_expired_def duration_since_def from_secs_def
        FULL_TEMPLATE_PAYOUT_AUTHORIZATION_SUPPORTED_def Let_def)
  show "validate_header_fields (scj_version short_declaration) (scj_time short_declaration) (scj_bits short_declaration)
      tip_server = Inr None"
    by (simp add: validate_header_fields_def tip_server_def JdServer_new_def)
  show "tv_pool_payout_script (js_validator tip_server) \<noteq> []"
    by (simp add: tip_server_def JdServer_new_def TemplateValidator_new_def)
  show "scj_coinbase_tx short_declaration = u32_to_le_bytes 4 @ compact_bytes 2147483648"
    by (simp add: short_declaration_def compact_bytes_def u32_to_le_bytes_def nat_to_le_numeral)
qed simp

end
