(* ===== verification/Jd_Shares.thy ===== *)
theory Jd_Shares
  imports Jd_Server
begin

text \<open>
  Batches of shares for declared jobs, \<open>handle_submit_shares_jd\<close> of \<open>zcash-jd-server/src/server.rs\<close>.
  How their credits interleave with the pool server is in \<open>Cross_Credit\<close>.

  The handler gives up its thread between the stages of a share, so the chain tip may move while a
  batch is processed: \<open>env i\<close> holds the clock readings and the tip at the time the share number \<open>i\<close> is
  credited.
\<close>

section \<open>The stages of one share\<close>

definition seen_for :: "u32 \<Rightarrow> JdServer \<Rightarrow> bytes set" where
  "seen_for job_id self = hm_get_or {} (js_seen_shares self) job_id"

definition stale_for :: "DeclaredJobInfo \<Rightarrow> bytes option \<Rightarrow> bool" where
  "stale_for job tip = (case tip of None \<Rightarrow> False | Some expected_prev_hash \<Rightarrow> dj_prev_hash job \<noteq> expected_prev_hash)"

text \<open>Steps 1 to 5: the cheap checks.\<close>

definition preflight ::
  "sha256_fn \<Rightarrow> SubmitSharesJd \<Rightarrow> DeclaredJobInfo \<Rightarrow> bytes option \<Rightarrow> JdShare \<Rightarrow> JdServer
    \<Rightarrow> JdShareErrorCode + bytes" where
  "preflight sha256 msg job tip share self =
     (if ssj_channel_id msg \<noteq> dj_channel_id job then Inl ShareChannelMismatch
      else if jsh_version share \<noteq> dj_version job then Inl ShareStaleJob
      else if \<not> time_in_range (dj_time job) (jsh_time share) then Inl ShareStaleJob
      else if stale_for job tip then Inl ShareStaleJob
      else
        let key = share_dedup_key sha256 share in
        if key \<in> seen_for (ssj_job_id msg) self then Inl ShareDuplicate else Inr key)"

text \<open>Step 6: a solution that is valid but misses the target is told apart from an invalid one.\<close>

definition verify_jd_share ::
  "equihash_fn \<Rightarrow> sha256_fn \<Rightarrow> DeclaredJobInfo \<Rightarrow> JdShare \<Rightarrow> JdShareErrorCode + bool" where
  "verify_jd_share eq sha256 job share =
     (case verify_share eq sha256 EquihashValidator_new (jd_build_header job (jsh_time share) (jsh_nonce share))
         (jsh_solution share) (dj_share_target job) of
        Inr _ \<Rightarrow> Inr True
      | Inl e \<Rightarrow> if e = ValidationError.TargetNotMet then Inr False else Inl ShareBadSolution)"

text \<open>Step 7: the check and the insertion under one lock.\<close>

definition record_key :: "u32 \<Rightarrow> bytes \<Rightarrow> JdServer \<Rightarrow> bool \<times> JdServer" where
  "record_key job_id key self =
     (let keys = seen_for job_id self;
          self = self\<lparr>js_seen_shares := hm_insert job_id keys (js_seen_shares self)\<rparr> in
      if key \<in> keys then (False, self)
      else if MAX_SEEN_SHARES_PER_JOB \<le> card keys then (False, self)
      else (True, self\<lparr>js_seen_shares := hm_insert job_id (insert key keys) (js_seen_shares self)\<rparr>))"

text \<open>The credit, under the read lock on the chain tip.\<close>

definition credit_jd_share ::
  "sha256_fn \<Rightarrow> instant \<Rightarrow> int \<Rightarrow> bytes option \<Rightarrow> DeclaredJobInfo \<Rightarrow> JdShare \<Rightarrow> PayoutTracker
    \<Rightarrow> (bool option \<times> PayoutTracker) outcome" where
  "credit_jd_share sha256 now sys_now tip job share tracker =
     (if stale_for job tip then Returns (None, tracker)
      else
        case try_record_share_once sha256 now sys_now tracker (dj_client_id job)
            (target_to_difficulty (dj_share_target job)) (jsh_solution share) of
          Panics \<Rightarrow> Panics
        | Returns (credited, tracker) \<Rightarrow> Returns (Some credited, tracker))"

section \<open>A batch\<close>

record share_env =
  se_now :: instant
  se_sys_now :: int
  se_tip :: "bytes option"

type_synonym jd_world = "JdServer \<times> PayoutTracker"

text \<open>All stages of one share; the result is the reason of a rejection, or nothing.\<close>

definition process_share ::
  "equihash_fn \<Rightarrow> sha256_fn \<Rightarrow> SubmitSharesJd \<Rightarrow> DeclaredJobInfo \<Rightarrow> bytes option \<Rightarrow> share_env \<Rightarrow> JdShare
    \<Rightarrow> jd_world \<Rightarrow> (JdShareErrorCode option \<times> jd_world) outcome" where
  "process_share eq sha256 msg job tip env share w =
     (let (self, tracker) = w in
      case preflight sha256 msg job tip share self of
        Inl code \<Rightarrow> Returns (Some code, w)
      | Inr key \<Rightarrow>
          (case verify_jd_share eq sha256 job share of
             Inl code \<Rightarrow> Returns (Some code, w)
           | Inr equihash_ok \<Rightarrow>
               let (is_new, self) = record_key (ssj_job_id msg) key self in
               if \<not> is_new then Returns (Some ShareDuplicate, self, tracker)
               else if \<not> equihash_ok then Returns (Some ShareLowDifficulty, self, tracker)
               else
                 case credit_jd_share sha256 (se_now env) (se_sys_now env) (se_tip env) job share tracker of
                   Panics \<Rightarrow> Panics
                 | Returns (credit, tracker) \<Rightarrow> Returns
                     (case credit of None \<Rightarrow> Some ShareStaleJob
                      | Some True \<Rightarrow> None
                      | Some False \<Rightarrow> Some ShareDuplicate, self, tracker)))"

record share_counts =
  sc_accepted :: u16
  sc_rejected :: u16
  sc_first_error :: "JdShareErrorCode option"

definition count_verdict :: "JdShareErrorCode option \<Rightarrow> share_counts \<Rightarrow> share_counts" where
  "count_verdict v c = (case v of
     None \<Rightarrow> c\<lparr>sc_accepted := sc_accepted c + 1\<rparr>
   | Some code \<Rightarrow> c\<lparr>sc_rejected := sc_rejected c + 1,
       sc_first_error := (if sc_first_error c = None then Some code else sc_first_error c)\<rparr>)"

fun process_shares ::
  "equihash_fn \<Rightarrow> sha256_fn \<Rightarrow> SubmitSharesJd \<Rightarrow> DeclaredJobInfo \<Rightarrow> bytes option \<Rightarrow> (nat \<Rightarrow> share_env) \<Rightarrow> JdShare list
    \<Rightarrow> share_counts \<Rightarrow> jd_world \<Rightarrow> (share_counts \<times> jd_world) outcome" where
  "process_shares eq sha256 msg job tip env [] c w = Returns (c, w)"
| "process_shares eq sha256 msg job tip env (share # shares) c w =
     (case process_share eq sha256 msg job tip (env 0) share w of
        Panics \<Rightarrow> Panics
      | Returns (v, w) \<Rightarrow> process_shares eq sha256 msg job tip (\<lambda>i. env (Suc i)) shares (count_verdict v c) w)"

definition evict_unresolved :: "instant \<Rightarrow> JdServer \<Rightarrow> JdServer" where
  "evict_unresolved now self = self\<lparr>js_seen_shares :=
     hm_retain (\<lambda>job_id _. \<not> isl (find_job_by_id now job_id (js_token_manager self))) (js_seen_shares self)\<rparr>"

definition share_response :: "SubmitSharesJd \<Rightarrow> share_counts \<Rightarrow> SubmitSharesJdResponse" where
  "share_response msg c = \<lparr>ssr_channel_id = ssj_channel_id msg, ssr_request_id = ssj_request_id msg,
     ssr_accepted = sc_accepted c, ssr_rejected = sc_rejected c,
     ssr_first_error_code = (case sc_first_error c of None \<Rightarrow> 0 | Some code \<Rightarrow> share_code_as_u8 code)\<rparr>"

definition all_rejected :: "SubmitSharesJd \<Rightarrow> JdShareErrorCode \<Rightarrow> share_counts" where
  "all_rejected msg code =
     \<lparr>sc_accepted = 0, sc_rejected = of_nat (length (ssj_shares msg)), sc_first_error = Some code\<rparr>"

definition handle_submit_shares_jd ::
  "equihash_fn \<Rightarrow> sha256_fn \<Rightarrow> (nat \<Rightarrow> instant) \<Rightarrow> (nat \<Rightarrow> share_env) \<Rightarrow> SubmitSharesJd \<Rightarrow> jd_world
    \<Rightarrow> (SubmitSharesJdResponse \<times> jd_world) outcome" where
  "handle_submit_shares_jd eq sha256 clk env msg w =
     (let (self, tracker) = w;
          self = evict_unresolved (clk 0) self in
      case find_job_by_id (clk 1) (ssj_job_id msg) (js_token_manager self) of
        Inl _ \<Rightarrow> Returns (share_response msg (all_rejected msg ShareUnknownJob), self, tracker)
      | Inr job \<Rightarrow>
          if \<not> FULL_TEMPLATE_PAYOUT_AUTHORIZATION_SUPPORTED \<and> dj_mode job = FullTemplate then
            Returns (share_response msg (all_rejected msg ShareStaleJob), self, tracker)
          else
            case process_shares eq sha256 msg job (js_current_prev_hash self) env (ssj_shares msg)
                \<lparr>sc_accepted = 0, sc_rejected = 0, sc_first_error = None\<rparr> (self, tracker) of
              Panics \<Rightarrow> Panics
            | Returns (c, w) \<Rightarrow> Returns (share_response msg c, w))"

section \<open>Lemmas\<close>

text \<open>What the checks before the credit establish.\<close>

definition sound_share ::
  "equihash_fn \<Rightarrow> sha256_fn \<Rightarrow> SubmitSharesJd \<Rightarrow> DeclaredJobInfo \<Rightarrow> bytes option \<Rightarrow> JdShare \<Rightarrow> bool" where
  "sound_share eq sha256 msg job tip share \<longleftrightarrow>
     ssj_channel_id msg = dj_channel_id job \<and> jsh_version share = dj_version job \<and>
     time_in_range (dj_time job) (jsh_time share) \<and> \<not> stale_for job tip \<and>
     \<not> isl (verify_share eq sha256 EquihashValidator_new (jd_build_header job (jsh_time share) (jsh_nonce share))
       (jsh_solution share) (dj_share_target job))"

definition jd_submission :: "instant \<Rightarrow> int \<Rightarrow> DeclaredJobInfo \<Rightarrow> JdShare \<Rightarrow> submission" where
  "jd_submission now sys_now job share = \<lparr>sub_now = now, sub_sys_now = sys_now, sub_miner = dj_client_id job,
     sub_difficulty = target_to_difficulty (dj_share_target job), sub_solution = jsh_solution share\<rparr>"

lemma credit_jd_share_eq:
  assumes "bs_inv (pt_seen_solutions tracker)"
  shows "credit_jd_share sha256 now sys_now tip job share tracker = Returns
    (if stale_for job tip then (None, tracker)
     else (Some (fst (submit_result sha256 tracker (jd_submission now sys_now job share))),
       snd (submit_result sha256 tracker (jd_submission now sys_now job share))))"
  using submit_result_eq [OF assms, of sha256 "jd_submission now sys_now job share"]
  by (simp add: credit_jd_share_def submit_once_def jd_submission_def split_beta)

lemma preflight_InrD:
  "preflight sha256 msg job tip share self = Inr key \<Longrightarrow>
    ssj_channel_id msg = dj_channel_id job \<and> jsh_version share = dj_version job \<and>
    time_in_range (dj_time job) (jsh_time share) \<and> \<not> stale_for job tip \<and>
    key = share_dedup_key sha256 share \<and> key \<notin> seen_for (ssj_job_id msg) self"
  by (auto simp: preflight_def Let_def split: if_splits)

lemma preflight_Inl: "preflight sha256 msg job tip share self = Inl code \<Longrightarrow> code \<noteq> ShareNone"
  by (auto simp: preflight_def Let_def split: if_splits)

lemma verify_jd_share_cases:
  "verify_jd_share eq sha256 job share = Inl code \<Longrightarrow> code = ShareBadSolution"
  "verify_jd_share eq sha256 job share = Inr True \<Longrightarrow>
    \<not> isl (verify_share eq sha256 EquihashValidator_new (jd_build_header job (jsh_time share) (jsh_nonce share))
      (jsh_solution share) (dj_share_target job))"
  by (auto simp: verify_jd_share_def split: sum.splits if_splits)

lemma seen_for_record_key:
  "record_key job_id key self = (is_new, self') \<Longrightarrow>
    seen_for job_id self' = (if is_new then insert key (seen_for job_id self) else seen_for job_id self) \<and>
    (is_new \<longrightarrow> key \<notin> seen_for job_id self) \<and> self' = self\<lparr>js_seen_shares := js_seen_shares self'\<rparr>"
  by (auto simp: record_key_def seen_for_def hm_get_or_def Let_def split: if_splits)

text \<open>One share: it never panics, and it credits its client exactly when it is accepted.\<close>

lemma process_share_result:
  assumes "bs_inv (pt_seen_solutions tracker)"
  obtains v self' tracker' where
    "process_share eq sha256 msg job tip env share (self, tracker) = Returns (v, self', tracker')"
    "bs_inv (pt_seen_solutions tracker')" "v \<noteq> Some ShareNone"
    "self' = self\<lparr>js_seen_shares := js_seen_shares self'\<rparr>"
    "seen_for (ssj_job_id msg) self \<subseteq> seen_for (ssj_job_id msg) self'"
    "v = None \<longrightarrow> sound_share eq sha256 msg job tip share \<and> \<not> stale_for job (se_tip env) \<and>
       share_dedup_key sha256 share \<notin> seen_for (ssj_job_id msg) self \<and>
       share_dedup_key sha256 share \<in> seen_for (ssj_job_id msg) self'"
    "\<forall>m. shares_of tracker' m = shares_of tracker m + (if v = None \<and> m = dj_client_id job then 1 else 0)"
proof (cases "preflight sha256 msg job tip share self")
  case (Inl code)
  then show ?thesis
    using that [of "Some code" self tracker] preflight_Inl [OF Inl] assms by (simp add: process_share_def)
next
  case (Inr key)
  note pre = preflight_InrD [OF Inr]
  show ?thesis
  proof (cases "verify_jd_share eq sha256 job share")
    case (Inl code)
    then show ?thesis
      using that [of "Some code" self tracker] verify_jd_share_cases(1) [OF Inl] assms Inr
      by (simp add: process_share_def)
  next
    case (Inr ok)
    obtain is_new self' where rk: "record_key (ssj_job_id msg) key self = (is_new, self')" by fastforce
    note seen = seen_for_record_key [OF rk]
    let ?s = "jd_submission (se_now env) (se_sys_now env) job share"
    note step = process_share_def \<open>preflight sha256 msg job tip share self = Inr key\<close> Inr rk
      credit_jd_share_eq [OF assms]
    have credit: "shares_of (snd (submit_result sha256 tracker ?s)) m = shares_of tracker m +
        (if fst (submit_result sha256 tracker ?s) \<and> dj_client_id job = m then 1 else 0)" for m
      using shares_of_submit_result [OF assms, of sha256 ?s m] by (simp add: jd_submission_def)
    have keys: "self' = self\<lparr>js_seen_shares := js_seen_shares self'\<rparr>"
      "seen_for (ssj_job_id msg) self \<subseteq> seen_for (ssj_job_id msg) self'"
      using seen by auto
    consider "\<not> is_new" | "is_new" "\<not> ok" | "is_new" "ok" "stale_for job (se_tip env)"
      | "is_new" "ok" "\<not> stale_for job (se_tip env)" by blast
    then show ?thesis
    proof cases
      case 1
      then show ?thesis using that [of "Some ShareDuplicate" self' tracker] assms keys by (simp add: step)
    next
      case 2
      then show ?thesis using that [of "Some ShareLowDifficulty" self' tracker] assms keys by (simp add: step)
    next
      case 3
      then show ?thesis using that [of "Some ShareStaleJob" self' tracker] assms keys by (simp add: step)
    next
      case 4
      have sound: "sound_share eq sha256 msg job tip share"
        using pre verify_jd_share_cases(2) [of eq sha256 job share] Inr 4 by (simp add: sound_share_def)
      let ?b = "fst (submit_result sha256 tracker ?s)"
      have run: "process_share eq sha256 msg job tip env share (self, tracker) =
          Returns (if ?b then None else Some ShareDuplicate, self', snd (submit_result sha256 tracker ?s))"
        using 4 by (simp add: step)
      show ?thesis
        by (rule that [OF run])
          (use cross_path.ins_inv [OF assms, of sha256 ?s] keys seen pre sound 4 credit in \<open>auto simp del: not_None_eq\<close>)
    qed
  qed
qed

section \<open>Accounting of a batch\<close>

text \<open>The keys of the shares that may be accepted.\<close>

definition fresh_keys ::
  "equihash_fn \<Rightarrow> sha256_fn \<Rightarrow> SubmitSharesJd \<Rightarrow> DeclaredJobInfo \<Rightarrow> bytes option \<Rightarrow> JdShare list \<Rightarrow> JdServer \<Rightarrow> bytes set" where
  "fresh_keys eq sha256 msg job tip shares self =
     share_dedup_key sha256 ` {share \<in> set shares. sound_share eq sha256 msg job tip share}
       - seen_for (ssj_job_id msg) self"

lemma finite_fresh_keys [simp]: "finite (fresh_keys eq sha256 msg job tip shares self)"
  by (simp add: fresh_keys_def)

lemma fresh_keys_Cons:
  assumes "seen_for (ssj_job_id msg) self \<subseteq> seen_for (ssj_job_id msg) self'"
    and "acc \<Longrightarrow> sound_share eq sha256 msg job tip share \<and>
       share_dedup_key sha256 share \<notin> seen_for (ssj_job_id msg) self \<and>
       share_dedup_key sha256 share \<in> seen_for (ssj_job_id msg) self'"
  shows "card (fresh_keys eq sha256 msg job tip shares self') + (if acc then 1 else 0)
    \<le> card (fresh_keys eq sha256 msg job tip (share # shares) self)"
proof (cases acc)
  case True
  let ?k = "share_dedup_key sha256 share"
  have "insert ?k (fresh_keys eq sha256 msg job tip shares self') \<subseteq> fresh_keys eq sha256 msg job tip (share # shares) self"
    using assms(1) assms(2) [OF True] by (auto simp: fresh_keys_def)
  moreover have "?k \<notin> fresh_keys eq sha256 msg job tip shares self'"
    using assms(2) [OF True] by (simp add: fresh_keys_def)
  ultimately have "card (insert ?k (fresh_keys eq sha256 msg job tip shares self')) \<le>
      card (fresh_keys eq sha256 msg job tip (share # shares) self)"
    by (intro card_mono) simp_all
  with \<open>?k \<notin> _\<close> show ?thesis using True by simp
next
  case False
  have "fresh_keys eq sha256 msg job tip shares self' \<subseteq> fresh_keys eq sha256 msg job tip (share # shares) self"
    using assms(1) by (auto simp: fresh_keys_def)
  then show ?thesis using False by (simp add: card_mono)
qed

lemma unat_inc_u16: "unat (a :: u16) + 1 < 2 ^ 16 \<Longrightarrow> unat (a + 1) = unat a + 1"
  by (simp add: unat_word_ariths)

text \<open>The loop of a batch over given counts, as long as the counters do not wrap.\<close>

lemma process_shares_result:
  assumes "bs_inv (pt_seen_solutions tracker)"
    and "unat (sc_accepted c) + unat (sc_rejected c) + length shares < 2 ^ 16"
    and "sc_first_error c \<noteq> Some ShareNone" "(sc_first_error c = None) = (sc_rejected c = 0)"
  shows "\<exists>c' self' tracker'. process_shares eq sha256 msg job tip env shares c (self, tracker) = Returns (c', self', tracker')
    \<and> bs_inv (pt_seen_solutions tracker')
    \<and> unat (sc_accepted c') + unat (sc_rejected c') = unat (sc_accepted c) + unat (sc_rejected c) + length shares
    \<and> unat (sc_accepted c) \<le> unat (sc_accepted c')
    \<and> unat (sc_accepted c') - unat (sc_accepted c) \<le> card (fresh_keys eq sha256 msg job tip shares self)
    \<and> sc_first_error c' \<noteq> Some ShareNone \<and> (sc_first_error c' = None) = (sc_rejected c' = 0)
    \<and> self' = self\<lparr>js_seen_shares := js_seen_shares self'\<rparr>
    \<and> (\<forall>m. shares_of tracker' m = shares_of tracker m
         + (if m = dj_client_id job then of_nat (unat (sc_accepted c') - unat (sc_accepted c)) else 0))"
  using assms
proof (induction shares arbitrary: c self tracker env)
  case Nil
  then show ?case by simp
next
  case (Cons share shares)
  obtain v self1 tracker1 where
    run: "process_share eq sha256 msg job tip (env 0) share (self, tracker) = Returns (v, self1, tracker1)"
    and inv: "bs_inv (pt_seen_solutions tracker1)" and v: "v \<noteq> Some ShareNone"
    and self1: "self1 = self\<lparr>js_seen_shares := js_seen_shares self1\<rparr>"
    and seen: "seen_for (ssj_job_id msg) self \<subseteq> seen_for (ssj_job_id msg) self1"
    and acc: "v = None \<longrightarrow> sound_share eq sha256 msg job tip share \<and> \<not> stale_for job (se_tip (env 0)) \<and>
       share_dedup_key sha256 share \<notin> seen_for (ssj_job_id msg) self \<and>
       share_dedup_key sha256 share \<in> seen_for (ssj_job_id msg) self1"
    and cred: "\<forall>m. shares_of tracker1 m = shares_of tracker m + (if v = None \<and> m = dj_client_id job then 1 else 0)"
    using process_share_result [OF Cons.prems(1), of eq sha256 msg job tip "env 0" share self] by blast
  let ?c = "count_verdict v c"
  have acc1: "unat (sc_accepted ?c) = unat (sc_accepted c) + (if v = None then 1 else 0)"
    and rej1: "unat (sc_rejected ?c) = unat (sc_rejected c) + (if v = None then 0 else 1)"
    using Cons.prems(2) by (auto simp: count_verdict_def unat_inc_u16 split: option.splits)
  have err: "sc_first_error ?c \<noteq> Some ShareNone" "(sc_first_error ?c = None) = (sc_rejected ?c = 0)"
    using Cons.prems(3,4) v rej1 by (auto simp: count_verdict_def unat_eq_zero [symmetric] split: option.splits)
  have bound: "unat (sc_accepted ?c) + unat (sc_rejected ?c) + length shares < 2 ^ 16"
    using Cons.prems(2) acc1 rej1 by (auto split: if_splits)
  from Cons.IH [OF inv bound err, of "\<lambda>i. env (Suc i)" self1] obtain c' self' tracker' where
    IH: "process_shares eq sha256 msg job tip (\<lambda>i. env (Suc i)) shares ?c (self1, tracker1) = Returns (c', self', tracker')"
      "bs_inv (pt_seen_solutions tracker')"
      "unat (sc_accepted c') + unat (sc_rejected c') = unat (sc_accepted ?c) + unat (sc_rejected ?c) + length shares"
      "unat (sc_accepted ?c) \<le> unat (sc_accepted c')"
      "unat (sc_accepted c') - unat (sc_accepted ?c) \<le> card (fresh_keys eq sha256 msg job tip shares self1)"
      "sc_first_error c' \<noteq> Some ShareNone" "(sc_first_error c' = None) = (sc_rejected c' = 0)"
      "self' = self1\<lparr>js_seen_shares := js_seen_shares self'\<rparr>"
      "\<forall>m. shares_of tracker' m = shares_of tracker1 m
         + (if m = dj_client_id job then of_nat (unat (sc_accepted c') - unat (sc_accepted ?c)) else 0)"
    by (elim exE conjE) (rule that)
  have keys: "card (fresh_keys eq sha256 msg job tip shares self1) + (if v = None then 1 else 0)
      \<le> card (fresh_keys eq sha256 msg job tip (share # shares) self)"
    using seen acc by (intro fresh_keys_Cons) auto
  have "unat (sc_accepted c') - unat (sc_accepted c) \<le> card (fresh_keys eq sha256 msg job tip (share # shares) self)"
    using keys IH(4,5) acc1 by (auto split: if_splits)
  moreover have "self' = self\<lparr>js_seen_shares := js_seen_shares self'\<rparr>"
    by (subst IH(8), subst self1) simp
  moreover have "shares_of tracker' m = shares_of tracker m
      + (if m = dj_client_id job then of_nat (unat (sc_accepted c') - unat (sc_accepted c)) else 0)" for m
    using IH(4,9) spec [OF cred, of m] acc1
    by (auto simp: of_nat_diff split: if_splits)
  ultimately show ?case
    using IH(1-4,6,7) run acc1 rej1 by (auto split: if_splits)
qed

lemma js_token_manager_evict [simp]: "js_token_manager (evict_unresolved now self) = js_token_manager self"
  "js_current_prev_hash (evict_unresolved now self) = js_current_prev_hash self"
  by (simp_all add: evict_unresolved_def)

lemma share_code_nonzero: "share_code_as_u8 c = 0 \<longleftrightarrow> c = ShareNone"
  by (cases c) (simp_all add: share_code_as_u8_def)

text \<open>
  C6.  A batch of shares for a declared job never panics, counts every share once and pays for exactly the
  accepted ones.  The answer adds up to the number of shares and names an error exactly when a share
  was rejected; the client of the job gains the number of accepted shares, in a batch for an unknown
  job or a full template nobody gains; and the accepted shares are at most the distinct new keys of
  shares that have the channel and version of the job, a time within its window, a tip that was not
  stale and a solution that is valid and meets the share target.
\<close>

theorem jd_batch_pays_accepted:
  assumes "bs_inv (pt_seen_solutions tracker)" "ssj_shares msg \<noteq> []" "length (ssj_shares msg) < 2 ^ 16"
  shows "\<exists>resp self' tracker'.
    handle_submit_shares_jd eq sha256 clk env msg (self, tracker) = Returns (resp, self', tracker')
    \<and> unat (ssr_accepted resp) + unat (ssr_rejected resp) = length (ssj_shares msg)
    \<and> (ssr_first_error_code resp = 0 \<longleftrightarrow> ssr_rejected resp = 0)
    \<and> bs_inv (pt_seen_solutions tracker')
    \<and> (case find_job_by_id (clk 1) (ssj_job_id msg) (js_token_manager self) of
         Inl _ \<Rightarrow> ssr_accepted resp = 0 \<and> tracker' = tracker
       | Inr job \<Rightarrow>
           (dj_mode job = FullTemplate \<longrightarrow> ssr_accepted resp = 0)
           \<and> unat (ssr_accepted resp) \<le> card (fresh_keys eq sha256 msg job (js_current_prev_hash self)
               (ssj_shares msg) (evict_unresolved (clk 0) self))
           \<and> (\<forall>m. shares_of tracker' m = shares_of tracker m
                + (if m = dj_client_id job then of_nat (unat (ssr_accepted resp)) else 0)))"
proof -
  let ?self = "evict_unresolved (clk 0) self"
  let ?c = "\<lparr>sc_accepted = 0, sc_rejected = 0, sc_first_error = None\<rparr>"
  have n: "(of_nat (length (ssj_shares msg)) :: u16) \<noteq> 0" "unat (of_nat (length (ssj_shares msg)) :: u16) = length (ssj_shares msg)"
    using assms(2,3) by (auto simp: unat_of_nat unat_eq_zero [symmetric])
  note defs = handle_submit_shares_jd_def share_response_def all_rejected_def share_code_nonzero n assms(1)
  show ?thesis
  proof (cases "find_job_by_id (clk 1) (ssj_job_id msg) (js_token_manager self)")
    case (Inl e)
    then show ?thesis by (simp add: defs)
  next
    case (Inr job)
    show ?thesis
    proof (cases "dj_mode job = FullTemplate")
      case True
      then show ?thesis
        using Inr by (simp add: defs FULL_TEMPLATE_PAYOUT_AUTHORIZATION_SUPPORTED_def)
    next
      case False
      have "unat (sc_accepted ?c) + unat (sc_rejected ?c) + length (ssj_shares msg) < 2 ^ 16"
        "sc_first_error ?c \<noteq> Some ShareNone" "(sc_first_error ?c = None) = (sc_rejected ?c = 0)"
        using assms(3) by simp_all
      from process_shares_result [OF assms(1) this, of eq sha256 msg job "js_current_prev_hash self" env ?self]
      show ?thesis
        using Inr False by (elim exE conjE) (auto simp: defs split: option.splits)
    qed
  qed
qed

definition jd_job_1 :: DeclaredJobInfo where
  "jd_job_1 = \<lparr>dj_job_id = 1, dj_client_id = ''alice'', dj_mode = CoinbaseOnly, dj_channel_id = 7, dj_version = 4,
     dj_prev_hash = replicate 32 1, dj_merkle_root = replicate 32 2, dj_block_commitments = replicate 32 3,
     dj_bits = 0x1f07ffff, dj_time = 1000, dj_coinbase_tx = [], dj_share_target = max_mainnet\<rparr>"

definition jd_server_1 :: JdServer where
  "jd_server_1 = (JdServer_new JdServerConfig_default)\<lparr>
     js_token_manager := \<lparr>tm_config = JdServerConfig_default, tm_tokens = [([9], \<lparr>mt_token = [9], mt_issued_at = 0, mt_lifetime = from_secs 300, mt_client_id = ''alice'',
         mt_granted_mode = CoinbaseOnly, mt_job_info = Some jd_job_1\<rparr>)],
       tm_token_counter = 2\<rparr>,
     js_current_prev_hash := Some (replicate 32 1)\<rparr>"

definition jd_share_1 :: JdShare where
  "jd_share_1 = \<lparr>jsh_version = 4, jsh_time = 1000, jsh_nonce = replicate 32 0, jsh_solution = replicate 1344 0\<rparr>"

definition jd_batch_1 :: SubmitSharesJd where
  "jd_batch_1 = \<lparr>ssj_channel_id = 7, ssj_request_id = 1, ssj_job_id = 1, ssj_shares = [jd_share_1, jd_share_1]\<rparr>"

lemma find_jd_job_1: "find_job_by_id 0 1 (js_token_manager jd_server_1) = Inr jd_job_1"
  by (simp add: find_job_by_id_def jd_server_1_def is_expired_def duration_since_def List.map_filter_def jd_job_1_def
      from_secs_def)

text \<open>Both shares of the sample batch have the same key, so at most one of them is paid.\<close>

theorem jd_batch_pays_accepted_witness:
  "\<exists>resp self' tracker'.
    handle_submit_shares_jd (\<lambda>_ _ _ _ _. Inr ()) (\<lambda>x. x) (\<lambda>_. 0) (\<lambda>_. \<lparr>se_now = 0, se_sys_now = 0, se_tip = None\<rparr>)
      jd_batch_1 (jd_server_1, PayoutTracker_new 0) = Returns (resp, self', tracker')
    \<and> unat (ssr_accepted resp) + unat (ssr_rejected resp) = 2 \<and> unat (ssr_accepted resp) \<le> 1
    \<and> shares_of tracker' ''alice'' = of_nat (unat (ssr_accepted resp))"
proof -
  let ?eq = "\<lambda>_ _ _ _ _. Inr ()" and ?sha = "\<lambda>x. x :: bytes"
  have inv: "bs_inv (pt_seen_solutions (PayoutTracker_new 0))"
    by (simp add: PayoutTracker_new_def)
  have sh: "ssj_shares jd_batch_1 = [jd_share_1, jd_share_1]" and jid: "ssj_job_id jd_batch_1 = 1"
    by (simp_all add: jd_batch_1_def)
  have k: "card (fresh_keys ?eq ?sha jd_batch_1 jd_job_1 t [jd_share_1, jd_share_1] s) \<le> 1" for t s
    by (rule card_le_Suc0_iff_eq [THEN iffD2, simplified One_nat_def [symmetric]]) (auto simp: fresh_keys_def)
  have z: "shares_of (PayoutTracker_new 0) ''alice'' = 0" "dj_client_id jd_job_1 = ''alice''"
    by (simp_all add: shares_of_def PayoutTracker_new_def jd_job_1_def)
  have "ssj_shares jd_batch_1 \<noteq> []" "length (ssj_shares jd_batch_1) < 2 ^ 16" by (simp_all add: sh)
  from jd_batch_pays_accepted [OF inv this, of ?eq ?sha "\<lambda>_. 0"
      "\<lambda>_. \<lparr>se_now = 0, se_sys_now = 0, se_tip = None\<rparr>" jd_server_1]
  obtain resp self' tracker' where
    run: "handle_submit_shares_jd ?eq ?sha (\<lambda>_. 0) (\<lambda>_. \<lparr>se_now = 0, se_sys_now = 0, se_tip = None\<rparr>)
      jd_batch_1 (jd_server_1, PayoutTracker_new 0) = Returns (resp, self', tracker')"
    and n: "unat (ssr_accepted resp) + unat (ssr_rejected resp) = 2"
    and le: "unat (ssr_accepted resp) \<le> card (fresh_keys ?eq ?sha jd_batch_1 jd_job_1 (js_current_prev_hash jd_server_1)
      [jd_share_1, jd_share_1] (evict_unresolved 0 jd_server_1))"
    and cred: "\<forall>m. shares_of tracker' m = shares_of (PayoutTracker_new 0) m
      + (if m = ''alice'' then of_nat (unat (ssr_accepted resp)) else 0)"
    unfolding sh jid find_jd_job_1 z(2) sum.case
    by (elim exE conjE) (rule that, simp_all add: z)
  show ?thesis
    using run n order_trans [OF le k] spec [OF cred, of "''alice''"] z(1) by (intro exI conjI) simp_all
qed

section \<open>The largest target has difficulty one\<close>

lemma target_to_f64_loop_zeros:
  "(\<forall>j. 1 \<le> j \<and> j \<le> n \<longrightarrow> t ! j = 0) \<Longrightarrow>
    target_to_f64_loop (Suc n) t (Finite 0) = target_to_f64_loop (Suc 0) t (Finite 0)"
proof (induction n)
  case (Suc n)
  have "f64_add (f64_mul (Finite 0) (Finite 256)) (f64_of_nat 0) = Finite 0"
    by (simp add: f64_mul_exact f64_of_nat_exact f64_add_exact)
  moreover have "t ! Suc n = 0" using Suc.prems by simp
  ultimately have "target_to_f64_loop (Suc (Suc n)) t (Finite 0) = target_to_f64_loop (Suc n) t (Finite 0)"
    by (simp only: target_to_f64_loop.simps unat_0)
  with Suc show ?case by simp
qed simp

lemma target_to_f64_one: "target_to_f64 ((replicate 32 0)[0 := 1]) = Finite 1"
proof -
  have "f64_add (f64_mul (Finite 0) (Finite 256)) (f64_of_nat 1) = Finite 1"
    using f64_rep_of_nat [of 1] by (simp add: f64_mul_exact f64_of_nat_exact f64_add_exact)
  moreover have "((replicate 32 0)[0 := (1 :: u8)]) ! j = 0" if "1 \<le> j \<and> j \<le> 31" for j
    using that by (simp add: nth_list_update)
  ultimately show ?thesis
    using target_to_f64_loop_zeros [of 31 "(replicate 32 0)[0 := 1]"]
    by (simp add: target_to_f64_def)
qed

lemma difficulty_max_mainnet: "target_to_difficulty max_mainnet = Finite 1"
proof -
  have "is_met_by max_mainnet ((replicate 32 0)[0 := 1])" by code_simp
  then have "le_to_nat ((replicate 32 0)[0 := 1]) \<le> le_to_nat max_mainnet"
    by (simp add: is_met_by_iff max_mainnet_def)
  then obtain q where q: "target_to_f64 max_mainnet = Finite q" "1 \<le> q"
    using target_to_f64_mono [of "(replicate 32 0)[0 := 1]" max_mainnet] target_to_f64_one
    by (auto simp: max_mainnet_def)
  then show ?thesis
    using f64_div_self [of "Finite q"]
    by (simp add: target_to_difficulty_def target_to_difficulty_with_max_def f64_pos_iff f64_eq_def Let_def)
qed

end
