(* ===== verification/Cross_Credit.thy ===== *)
theory Cross_Credit
  imports Pool_Run Jd_Shares
begin

text \<open>
  The pool server and the job declaration server beside each other: both credit shares to the payout
  tracker of the pool, each of them decides by its own view of the chain whether a job is stale, and
  \<open>handle_new_template\<close> of \<open>zcash-pool-server/src/server.rs\<close> moves these views one after the other
  when a template comes in.  Its parts are steps here, and everything that credits a share or gives out
  jobs may happen between them: connections and their initial jobs, ending sessions, the crediting part
  of a pool share and the shares of a declared job.  Whatever touches neither jobs nor the filter of
  solutions is left out: validation, rate limits, identities, retargets, settlement and pruning.

  The theory shows when no solution is credited twice for the same previous block, and how the order
  of the parts lets it be credited twice otherwise.
\<close>

section \<open>The parts of handling a template\<close>

definition template_context :: "'h hex_crate \<Rightarrow> BlockTemplate \<Rightarrow> CurrentTemplateContext" where
  "template_context hex template =
     \<lparr>ctx_version = eh_version (bt_header template), ctx_prev_hash = eh_prev_hash (bt_header template),
      ctx_block_commitments = eh_hash_block_commitments (bt_header template),
      ctx_chain_history_root = bt_chain_history_root template,
      ctx_consensus_branch_id = bt_consensus_branch_id template, ctx_bits = eh_bits (bt_header template),
      ctx_time = eh_time (bt_header template),
      ctx_txids = concat (map (\<lambda>tx. case from_hex hex (tt_hash tx) of Inr hash \<Rightarrow> [hash] | Inl _ \<Rightarrow> []) (bt_transactions template)),
      ctx_coinbase_tx_len = length (bt_coinbase template)\<rparr>"

definition publish_template :: "'h hex_crate \<Rightarrow> BlockTemplate \<Rightarrow> JdServer \<Rightarrow> JdServer" where
  "publish_template hex template jd =
     set_current_template (template_context hex template)
       (set_current_prev_hash (eh_prev_hash (bt_header template)) jd)"

definition store_template :: "BlockTemplate \<Rightarrow> PoolServer \<Rightarrow> bool \<times> PoolServer" where
  "store_template template self =
     (let (is_new_block, distributor) = update_template template (ps_distributor self) in
      (is_new_block, self\<lparr>ps_distributor := distributor\<rparr>))"

definition end_template :: "bool \<Rightarrow> PoolServer \<Rightarrow> PoolServer" where
  "end_template is_new_block self =
     (if is_new_block then
        let active_job_ids = set (concat (map (\<lambda>(_, ch). tracked_job_ids ch) (ps_channels self))) in
        self\<lparr>ps_detector := im_prune_inactive (ps_detector self) active_job_ids,
          ps_payout := clear_cross_path_solutions (ps_payout self)\<rparr>
      else self)"

text \<open>Without interruption the parts in the pool are the whole handler.\<close>

lemma handle_new_template_parts:
  "handle_new_template now sent template self =
     (let (b, s) = store_template template self in end_template b (broadcast_jobs now sent b s))"
  by (simp add: handle_new_template_def store_template_def end_template_def split_beta Let_def)

section \<open>The two servers\<close>

datatype template_phase = Waiting | Published BlockTemplate | Stored bool | JobsSent bool

record world =
  w_pool :: PoolServer
  w_jd :: JdServer
  w_phase :: template_phase

datatype cross_event =
    PublishTemplate BlockTemplate
  | StoreTemplate
  | SendJobs "u32 \<Rightarrow> instant" "u32 \<Rightarrow> bool"
  | EndTemplate
  | Connect "nat \<Rightarrow> instant" SocketAddr
  | EndSession instant u32 bool
  | PoolCredit "nat \<Rightarrow> instant" int u32 SubmitEquihashShare f64
  | JdCredit SubmitSharesJd DeclaredJobInfo "bytes option" instant int JdShare

text \<open>
  A credit is the previous block of the job and the digest of the solution.  The job of a pool share is
  the one that its channel has under the identifier when the share is credited.
\<close>

definition pool_credit ::
  "sha256_fn \<Rightarrow> (nat \<Rightarrow> instant) \<Rightarrow> int \<Rightarrow> u32 \<Rightarrow> SubmitEquihashShare \<Rightarrow> f64 \<Rightarrow> PoolServer \<Rightarrow>
   (bytes \<times> bytes) option \<times> PoolServer" where
  "pool_credit sha256 clk sys_now c share difficulty s =
     (case credit_submission sha256 clk sys_now c share (Some difficulty) s of
        Panics \<Rightarrow> (None, s)
      | Returns (Credited _, s') \<Rightarrow>
          (case hm_get (ps_channels s) c of
             None \<Rightarrow> None
           | Some ch \<Rightarrow> map_option (\<lambda>j. (nj_prev_hash (cj_job j), sha256 (ss_solution share))) (get_job ch (ss_job_id share)), s')
      | Returns (_, s') \<Rightarrow> (None, s'))"

definition jd_credit ::
  "equihash_fn \<Rightarrow> sha256_fn \<Rightarrow> SubmitSharesJd \<Rightarrow> DeclaredJobInfo \<Rightarrow> bytes option \<Rightarrow> instant \<Rightarrow> int \<Rightarrow> JdShare \<Rightarrow> jd_world \<Rightarrow>
   (bytes \<times> bytes) option \<times> jd_world" where
  "jd_credit eq sha256 msg job tip now sys_now share w =
     (case process_share eq sha256 msg job tip
         \<lparr>se_now = now, se_sys_now = sys_now, se_tip = js_current_prev_hash (fst w)\<rparr> share w of
        Panics \<Rightarrow> (None, w)
      | Returns (v, w') \<Rightarrow> (if v = None then Some (dj_prev_hash job, sha256 (jsh_solution share)) else None, w'))"

text \<open>
  One step.  The parts of a template happen in their order, for one template at a time; a part that is
  not next changes nothing.  The job and the tip of a share of the job declaration server are those its
  handler has read earlier, so they may be any; the tip at the time of the credit is the current one.
\<close>

fun cross_step ::
  "equihash_fn \<Rightarrow> sha256_fn \<Rightarrow> 'h hex_crate \<Rightarrow> cross_event \<Rightarrow> world \<Rightarrow> (bytes \<times> bytes) option \<times> world" where
  "cross_step eq sha256 hex (PublishTemplate t) w =
     (None, if w_phase w = Waiting then w\<lparr>w_jd := publish_template hex t (w_jd w), w_phase := Published t\<rparr> else w)"
| "cross_step eq sha256 hex StoreTemplate w =
     (None, case w_phase w of
              Published t \<Rightarrow> w\<lparr>w_pool := snd (store_template t (w_pool w)), w_phase := Stored (fst (store_template t (w_pool w)))\<rparr>
            | _ \<Rightarrow> w)"
| "cross_step eq sha256 hex (SendJobs now sent) w =
     (None, case w_phase w of
              Stored b \<Rightarrow> w\<lparr>w_pool := broadcast_jobs now sent b (w_pool w), w_phase := JobsSent b\<rparr>
            | _ \<Rightarrow> w)"
| "cross_step eq sha256 hex EndTemplate w =
     (None, case w_phase w of
              JobsSent b \<Rightarrow> w\<lparr>w_pool := end_template b (w_pool w), w_phase := Waiting\<rparr>
            | _ \<Rightarrow> w)"
| "cross_step eq sha256 hex (Connect clk addr) w =
     (None, case handle_new_connection clk addr (w_pool w) of
              Panics \<Rightarrow> w
            | Returns (_, s) \<Rightarrow> w\<lparr>w_pool := s\<rparr>)"
| "cross_step eq sha256 hex (EndSession now c decryption_error) w =
     (None, w\<lparr>w_pool := session_ended now c decryption_error (w_pool w)\<rparr>)"
| "cross_step eq sha256 hex (PoolCredit clk sys_now c share difficulty) w =
     (let (credit, s) = pool_credit sha256 clk sys_now c share difficulty (w_pool w) in (credit, w\<lparr>w_pool := s\<rparr>))"
| "cross_step eq sha256 hex (JdCredit msg job tip now sys_now share) w =
     (let (credit, jd, tracker) = jd_credit eq sha256 msg job tip now sys_now share (w_jd w, ps_payout (w_pool w)) in
      (credit, w\<lparr>w_jd := jd, w_pool := (w_pool w)\<lparr>ps_payout := tracker\<rparr>\<rparr>))"

fun credit_run ::
  "equihash_fn \<Rightarrow> sha256_fn \<Rightarrow> 'h hex_crate \<Rightarrow> cross_event list \<Rightarrow> world \<Rightarrow> (bytes \<times> bytes) list \<times> world" where
  "credit_run eq sha256 hex [] w = ([], w)"
| "credit_run eq sha256 hex (e # es) w =
     (let (c, w) = cross_step eq sha256 hex e w; (cs, w) = credit_run eq sha256 hex es w
      in ((case c of None \<Rightarrow> cs | Some x \<Rightarrow> x # cs), w))"

abbreviation prev_of :: "BlockTemplate \<Rightarrow> bytes" where
  "prev_of t \<equiv> eh_prev_hash (bt_header t)"

text \<open>
  What is asked of a run: templates are well-formed, and a new previous block was not the tip before;
  nothing has been credited for the tip when the handling of its first template ends and clears the
  filter; and the filter has room for the next credit.
\<close>

fun orderly ::
  "equihash_fn \<Rightarrow> sha256_fn \<Rightarrow> 'h hex_crate \<Rightarrow> bytes set \<Rightarrow> (bytes \<times> bytes) set \<Rightarrow> cross_event list \<Rightarrow> world \<Rightarrow> bool" where
  "orderly eq sha256 hex used paid [] w \<longleftrightarrow> True"
| "orderly eq sha256 hex used paid (e # es) w \<longleftrightarrow>
     (case e of
        PublishTemplate t \<Rightarrow> template_wf t \<and> (js_current_prev_hash (w_jd w) = Some (prev_of t) \<or> prev_of t \<notin> used)
      | EndTemplate \<Rightarrow> \<not> (w_phase w = JobsSent True \<and> js_current_prev_hash (w_jd w) \<in> Some ` fst ` paid)
      | PoolCredit _ _ _ _ _ \<Rightarrow> 0 < bs_room (pt_seen_solutions (ps_payout (w_pool w)))
      | JdCredit _ _ _ _ _ _ \<Rightarrow> 0 < bs_room (pt_seen_solutions (ps_payout (w_pool w)))
      | _ \<Rightarrow> True) \<and>
     (let (c, w') = cross_step eq sha256 hex e w in
      orderly eq sha256 hex (case e of PublishTemplate t \<Rightarrow> insert (prev_of t) used | _ \<Rightarrow> used)
        (case c of None \<Rightarrow> paid | Some x \<Rightarrow> insert x paid) es w')"

section \<open>The blocks the jobs of the pool are for\<close>

definition active_on :: "bytes set \<Rightarrow> Channel \<Rightarrow> bool" where
  "active_on A ch \<longleftrightarrow>
     (\<forall>k j. hm_get (ch_jobs ch) k = Some j \<and> cj_active j \<longrightarrow> nj_prev_hash (cj_job j) \<in> A)"

text \<open>
  The server is well-formed, every channel has a session, the current template is for the block \<open>q\<close>,
  and the active jobs of the channel \<open>c\<close> are for a block of \<open>F c\<close>.
\<close>

definition pool_on :: "(u32 \<Rightarrow> bytes set) \<Rightarrow> bytes \<Rightarrow> PoolServer \<Rightarrow> bool" where
  "pool_on F q s \<longleftrightarrow> server_wf s \<and> jd_prev_hash (ps_distributor s) = Some q
     \<and> (\<exists>t. jd_current_template (ps_distributor s) = Some t \<and> prev_of t = q)
     \<and> (\<forall>c ch. hm_get (ps_channels s) c = Some ch \<longrightarrow> c \<in> set (ps_sessions s) \<and> active_on (F c) ch)"

lemma active_on_mono: "active_on A ch \<Longrightarrow> A \<subseteq> B \<Longrightarrow> active_on B ch"
  by (auto simp: active_on_def)

lemma active_on_add_job:
  assumes "channel_wf ch" "clean \<or> active_on A ch" "nj_prev_hash job \<in> A"
  shows "active_on A (add_job now job t clean ch)"
proof -
  have wf: "hm_wf (ch_jobs ch)" using assms(1) by (simp add: channel_wf_def jobs_wf_def)
  show ?thesis
    using assms(2,3) wf
    by (auto simp: active_on_def add_job_def Let_def dest!: hm_get_evict [rotated] split: if_splits)
qed

lemma created_job_prev:
  "create_job_with_template n (ps_distributor s) ch clean = (Some (job, t), n') \<Longrightarrow> pool_on F q s \<Longrightarrow>
    nj_prev_hash job = q"
  by (auto simp: create_job_with_template_def next_job_id_def pool_on_def split_beta split: option.splits)

lemma pool_on_mono: "pool_on F q s \<Longrightarrow> (\<And>c. F c \<subseteq> G c) \<Longrightarrow> pool_on G q s"
  unfolding pool_on_def using active_on_mono by blast

text \<open>A job that is filed with a channel: it comes to the others, or takes their place if it is clean.\<close>

lemma pool_on_filed:
  assumes "pool_on F q s" "hm_get (ps_channels s) c = Some ch"
    "create_job_with_template n (ps_distributor s) ch clean = (Some (job, t), n')" "clean' \<or> q \<in> F c"
    and same: "ps_distributor s' = ps_distributor s" "ps_sessions s' = ps_sessions s"
    "ps_channels s' = hm_insert c (add_job now job t clean' ch) (ps_channels s)" "server_wf s'"
  shows "pool_on (if clean' then F(c := {q}) else F) q s'"
proof -
  have "channel_wf ch" using assms(1,2) by (auto simp: pool_on_def server_wf_def dest: channels_wf_get)
  moreover have "nj_prev_hash job = q" using assms(1,3) by (blast dest: created_job_prev)
  ultimately have "active_on (if clean' then {q} else F c) (add_job now job t clean' ch)"
    using assms(1,2,4) by (auto simp: pool_on_def intro!: active_on_add_job)
  then show ?thesis using assms(1,2) same by (auto simp: pool_on_def)
qed

text \<open>A broadcast keeps the payout tracker.\<close>

lemma give_job_same:
  "ps_payout (snd (give_job now clean c s)) = ps_payout s" "ps_sessions (snd (give_job now clean c s)) = ps_sessions s"
  by (auto simp: give_job_def split: option.split prod.split)

lemma give_jobs_same:
  "ps_payout (snd (give_jobs now clean cs s)) = ps_payout s" "ps_sessions (snd (give_jobs now clean cs s)) = ps_sessions s"
  by (induction cs arbitrary: s) (simp_all add: split_beta Let_def give_job_same)

lemma ps_payout_drop_sessions: "ps_payout (fold drop_session cs s) = ps_payout s"
  by (induction cs arbitrary: s) (simp_all add: drop_session_def)

lemma ps_payout_broadcast: "ps_payout (broadcast_jobs now sent clean s) = ps_payout s"
  by (simp add: broadcast_jobs_def split_beta Let_def ps_payout_drop_sessions give_jobs_same)

lemma give_job_on:
  assumes "pool_on F q s" "clean \<or> q \<in> F c"
  shows "pool_on (if clean then F(c := {q}) else F) q (snd (give_job now clean c s))"
proof (cases "hm_get (ps_channels s) c")
  case None
  then show ?thesis using assms(1) by (auto simp: give_job_def pool_on_def)
next
  case (Some ch)
  obtain job t n where j: "create_job_with_template (ps_job_counter s) (ps_distributor s) ch clean = (Some (job, t), n)"
    using assms(1) by (auto simp: pool_on_def create_job_with_template_def split_beta)
  have wf: "server_wf (snd (give_job now clean c s))"
    using assms(1) by (auto simp: pool_on_def intro: give_job_wf)
  show ?thesis
    using pool_on_filed [OF assms(1) Some j assms(2), of "snd (give_job now clean c s)" now] wf
    by (simp add: give_job_def Some j)
qed

lemma give_jobs_on:
  assumes "pool_on F q s" "clean \<or> (\<forall>c. q \<in> F c)"
  shows "pool_on (\<lambda>c. if clean \<and> c \<in> set cs then {q} else F c) q (snd (give_jobs now clean cs s))"
  using assms
proof (induction cs arbitrary: F s)
  case (Cons c cs)
  let ?s = "snd (give_job (now c) clean c s)" and ?F = "if clean then F(c := {q}) else F"
  have 1: "pool_on ?F q ?s" using give_job_on Cons.prems by blast
  have "(\<lambda>d. if clean \<and> d \<in> set cs then {q} else ?F d) = (\<lambda>d. if clean \<and> d \<in> set (c # cs) then {q} else F d)"
    by (auto simp: fun_eq_iff)
  moreover have "clean \<or> (\<forall>c. q \<in> ?F c)" using Cons.prems(2) by auto
  ultimately show ?case using Cons.IH [OF 1] by (simp add: split_beta Let_def)
qed simp

lemma drop_sessions_on: "pool_on F q s \<Longrightarrow> pool_on F q (fold drop_session cs s)"
proof (induction cs arbitrary: s)
  case (Cons c cs)
  have "server_wf (drop_session c s)"
    using Cons.prems by (simp add: drop_session_def pool_on_def server_wf_def channels_wf_remove)
  then have "pool_on F q (drop_session c s)"
    using Cons.prems by (auto simp: pool_on_def drop_session_def)
  then show ?case using Cons.IH by simp
qed simp

text \<open>A broadcast of clean jobs leaves active jobs for the current template's block only.\<close>

lemma broadcast_jobs_on:
  assumes "pool_on (\<lambda>_. A) q s" "q \<in> A"
  shows "pool_on (\<lambda>_. if clean then {q} else A) q (broadcast_jobs now sent clean s)"
proof -
  have "has_template (ps_distributor s)" using assms(1) by (auto simp: pool_on_def has_template_def)
  moreover define s' where "s' = snd (give_jobs now clean (ps_sessions s) s)"
  have "pool_on (\<lambda>c. if clean \<and> c \<in> set (ps_sessions s) then {q} else A) q s'"
    using give_jobs_on [OF assms(1), of clean "ps_sessions s" now] assms(2) by (auto simp: s'_def)
  then have "pool_on (\<lambda>_. if clean then {q} else A) q s'"
    using give_jobs_same(2) [of now clean "ps_sessions s" s, folded s'_def] by (fastforce simp: pool_on_def)
  ultimately show ?thesis
    using drop_sessions_on by (simp add: broadcast_jobs_def split_beta Let_def s'_def)
qed

lemma initial_job_on:
  assumes "pool_on (\<lambda>_. A) q s" "q \<in> A"
  shows "pool_on (\<lambda>_. A) q (snd (initial_job now c s)) \<and> ps_payout (snd (initial_job now c s)) = ps_payout s"
proof (cases "hm_get (ps_channels s) c")
  case None
  then show ?thesis using assms(1) by (simp add: initial_job_def)
next
  case (Some ch)
  obtain job t n where j: "create_job_with_template (ps_job_counter s) (ps_distributor s) ch True = (Some (job, t), n)"
    using assms(1) by (auto simp: pool_on_def create_job_with_template_def split_beta)
  have wf: "server_wf (snd (initial_job now c s))" and has: "has_template (ps_distributor s)"
    using assms(1) by (auto simp: pool_on_def has_template_def intro: initial_job_wf)
  have "pool_on ((\<lambda>_. A)(c := {q})) q (snd (initial_job now c s))"
    using pool_on_filed [OF assms(1) Some j, of True "snd (initial_job now c s)" now] wf
    by (simp add: initial_job_def Some j has)
  then have "pool_on (\<lambda>_. A) q (snd (initial_job now c s))"
    by (rule pool_on_mono) (use assms(2) in auto)
  then show ?thesis by (simp add: initial_job_def Some j)
qed

lemma track_connection_same:
  "track_connection now addr s = (r, s') \<Longrightarrow> \<exists>v. s' = s\<lparr>ps_connection_tracker := v\<rparr>"
  by (cases s) (auto simp: track_connection_def split_beta Let_def split: if_splits)

lemma handle_new_connection_on:
  assumes "pool_on (\<lambda>_. A) q s" "q \<in> A" "handle_new_connection clk addr s = Returns (r, s')"
  shows "pool_on (\<lambda>_. A) q s' \<and> ps_payout s' = ps_payout s"
proof -
  obtain at0 v where t: "track_connection (clk 0) addr s = (at0, s\<lparr>ps_connection_tracker := v\<rparr>)"
    by (metis surj_pair track_connection_same)
  obtain c n where c: "next_id (ps_channel_counter s) = (c, n)" by fastforce
  then have ids: "fst (next_id (ps_channel_counter s)) = c" "snd (next_id (ps_channel_counter s)) = n" by simp_all
  let ?s0 = "s\<lparr>ps_connection_tracker := v, ps_channel_counter := n\<rparr>"
  have s0: "pool_on (\<lambda>_. A) q ?s0" "ps_payout ?s0 = ps_payout s"
    using assms(1) by (simp_all add: pool_on_def server_wf_def)
  let ?s1 = "\<lambda>ch. ?s0\<lparr>ps_sessions := c # filter (\<lambda>i. i \<noteq> c) (ps_sessions s),
    ps_channels := hm_insert c ch (ps_channels s),
    ps_connection_times := hm_insert c (at0, addr) (ps_connection_times s)\<rparr>"
  show ?thesis
  proof (cases "\<exists>ch nonce_1. new_with_id (clk 1) (clk 2) c nonce_1 (connection_vardiff (ps_config s)) = Returns (Some ch)
      \<and> s' = snd (initial_job (clk 3) c (?s1 ch))")
    case False
    then have "s' = ?s0"
      using assms(3)
      by (auto simp: handle_new_connection_def t ids split_beta Let_def split: option.splits outcome.splits)
    then show ?thesis using s0 by simp
  next
    case True
    then obtain ch nonce_1 where ch: "new_with_id (clk 1) (clk 2) c nonce_1 (connection_vardiff (ps_config s)) = Returns (Some ch)"
      and s': "s' = snd (initial_job (clk 3) c (?s1 ch))" by blast
    have "vc_initial_difficulty (connection_vardiff (ps_config s)) \<noteq> NaN"
      using assms(1) config_validate_ok(3) [of "ps_config s"]
      by (auto simp: pool_on_def server_wf_def connection_vardiff_def f64_pos_def)
    then have "channel_wf ch" using new_with_id_wf [of _ "clk 1" "clk 2" c nonce_1] ch by fastforce
    moreover have "ch_jobs ch = []"
      using ch by (auto simp: new_with_id_def Let_def split: if_splits outcome.splits)
    then have "active_on A ch" by (simp add: active_on_def hm_get_def)
    ultimately have "pool_on (\<lambda>_. A) q (?s1 ch)"
      using assms(1) by (auto simp: pool_on_def server_wf_def channels_wf_insert)
    from initial_job_on [OF this assms(2)] show ?thesis by (simp add: s')
  qed
qed

lemma session_ended_on:
  assumes "pool_on F q s"
  shows "pool_on F q (session_ended now c err s) \<and> ps_payout (session_ended now c err s) = ps_payout s"
proof -
  have "server_wf (session_ended now c err s)" using assms by (simp add: pool_on_def session_ended_wf)
  then show ?thesis
    using assms by (auto simp: pool_on_def session_ended_def Let_def split: option.splits)
qed

lemma store_template_on:
  assumes "pool_on F q s" "template_wf t"
  shows "pool_on F (prev_of t) (snd (store_template t s)) \<and> ps_payout (snd (store_template t s)) = ps_payout s \<and>
    (fst (store_template t s) \<longleftrightarrow> prev_of t \<noteq> q)"
  using assms by (auto simp: pool_on_def store_template_def update_template_def server_wf_def Let_def)

lemma end_template_on:
  assumes "pool_on F q s"
  shows "pool_on F q (end_template b s) \<and>
    ps_payout (end_template b s) = (if b then clear_cross_path_solutions (ps_payout s) else ps_payout s)"
  using assms by (auto simp: pool_on_def end_template_def server_wf_def Let_def detector_inv)

section \<open>One credit\<close>

text \<open>Every credit for a block that can still be credited for is in the filter.\<close>

definition filed :: "bytes set \<Rightarrow> (bytes \<times> bytes) set \<Rightarrow> PayoutTracker \<Rightarrow> bool" where
  "filed A paid tracker \<longleftrightarrow>
     (\<forall>p d. (p, d) \<in> paid \<and> p \<in> A \<longrightarrow> d \<in> set (bs_order (pt_seen_solutions tracker)))"

lemma filed_mono: "filed B paid tracker \<Longrightarrow> A \<inter> fst ` paid \<subseteq> B \<Longrightarrow> filed A paid tracker"
  by (auto simp: filed_def Domain_fst [symmetric])

lemma filed_none: "A \<inter> fst ` paid = {} \<Longrightarrow> filed A paid tracker"
  by (auto simp: filed_def Domain_fst [symmetric])

lemma filed_credit:
  assumes "filed A paid tracker" "bs_inv (pt_seen_solutions tracker)" "0 < bs_room (pt_seen_solutions tracker)"
    and "p \<in> A" "submit_result sha256 tracker s = (b, tracker')"
  defines "x \<equiv> (p, sha256 (sub_solution s))"
  shows "filed A (if b then insert x paid else paid) tracker' \<and> (b \<longrightarrow> x \<notin> paid)
    \<and> bs_inv (pt_seen_solutions tracker')"
proof -
  let ?seen = "\<lambda>t. set (bs_order (pt_seen_solutions t))"
  have b: "b \<longleftrightarrow> f64_pos (sub_difficulty s) \<and> sha256 (sub_solution s) \<notin> ?seen tracker"
    using cross_path.ins_answer [OF assms(2,3), of sha256 s] assms(5) by simp
  have mem: "?seen tracker' = (if f64_pos (sub_difficulty s) then insert (sha256 (sub_solution s)) (?seen tracker)
      else ?seen tracker)"
    using cross_path.ins_mem [OF assms(2,3), of sha256 s] assms(5) by simp
  have "bs_inv (pt_seen_solutions tracker')" using cross_path.ins_inv [OF assms(2), of sha256 s] assms(5) by simp
  then show ?thesis using assms(1,4) b mem by (auto simp: filed_def x_def)
qed

text \<open>What a step that credits or refuses a share keeps and reports.\<close>

definition credit_ok ::
  "bytes set \<Rightarrow> (bytes \<times> bytes) set \<Rightarrow> (bytes \<times> bytes) option \<Rightarrow> PayoutTracker \<Rightarrow> bool" where
  "credit_ok A paid credit tracker' \<longleftrightarrow> bs_inv (pt_seen_solutions tracker') \<and>
     (case credit of
        None \<Rightarrow> filed A paid tracker'
      | Some x \<Rightarrow> x \<notin> paid \<and> fst x \<in> A \<and> filed A (insert x paid) tracker')"

lemma credit_ok_submit:
  assumes "filed A paid tracker" "bs_inv (pt_seen_solutions tracker)" "0 < bs_room (pt_seen_solutions tracker)"
    and "p \<in> A" "submit_result sha256 tracker s = (b, tracker')"
  shows "credit_ok A paid (if b then Some (p, sha256 (sub_solution s)) else None) tracker'"
  using filed_credit [OF assms] assms(4) by (auto simp: credit_ok_def)

lemma pool_credit_on:
  assumes "pool_on (\<lambda>_. A) q s" "filed A paid (ps_payout s)" "0 < bs_room (pt_seen_solutions (ps_payout s))"
    and "pool_credit sha256 clk sys_now c share d s = (credit, s')"
  shows "pool_on (\<lambda>_. A) q s' \<and> credit_ok A paid credit (ps_payout s')"
proof (cases "\<exists>ch j. hm_get (ps_channels s) c = Some ch \<and> is_job_active (clk 3) ch (ss_job_id share)
    \<and> get_job ch (ss_job_id share) = Some j")
  case False
  then have "credit_submission sha256 clk sys_now c share (Some d) s = Returns (StaleAfterValidation, s)"
    by (auto simp: credit_submission_def is_job_active_def get_job_def split: option.splits)
  then have "credit = None" "s' = s" using assms(4) by (simp_all add: pool_credit_def)
  then show ?thesis using assms(1,2) by (simp add: credit_ok_def pool_on_def server_wf_def)
next
  case True
  then obtain ch j where ch: "hm_get (ps_channels s) c = Some ch" "is_job_active (clk 3) ch (ss_job_id share)"
    "get_job ch (ss_job_id share) = Some j" by blast
  let ?m = "resolve_worker_label (ch_worker_identity ch) c"
  let ?sub = "\<lparr>sub_now = clk 4, sub_sys_now = sys_now, sub_miner = ?m, sub_difficulty = d, sub_solution = ss_solution share\<rparr>"
  have inv: "bs_inv (pt_seen_solutions (ps_payout s))" using assms(1) by (simp add: pool_on_def server_wf_def)
  have "active_on A ch" and wf: "channel_wf ch"
    using assms(1) ch(1) by (auto simp: pool_on_def server_wf_def dest: channels_wf_get)
  then have p: "nj_prev_hash (cj_job j) \<in> A"
    using ch(2,3) by (auto simp: active_on_def is_job_active_def get_job_def)
  obtain b t where r: "submit_result sha256 (ps_payout s) ?sub = (b, t)" by fastforce
  then have once: "try_record_share_once sha256 (clk 4) sys_now (ps_payout s) ?m d (ss_solution share) = Returns (b, t)"
    using submit_result_eq [OF inv, of sha256 ?sub] by (simp add: submit_once_def)
  obtain ch' x where ch': "channel_record_share (clk 5) (clk 6) ch = Returns (ch', x)" "channel_wf ch'"
    "ch_jobs ch' = ch_jobs ch" by (rule channel_record_share_wf [OF wf])
  have ok: "credit_ok A paid (if b then Some (nj_prev_hash (cj_job j), sha256 (ss_solution share)) else None) t"
    using credit_ok_submit [OF assms(2) inv assms(3) p r] by (simp only: submission.select_convs)
  have "credit = (if b then Some (nj_prev_hash (cj_job j), sha256 (ss_solution share)) else None)"
    "s' = (if b then s\<lparr>ps_payout := t, ps_channels := hm_insert c ch' (ps_channels s)\<rparr> else s\<lparr>ps_payout := t\<rparr>)"
    using assms(4) ch ch'(1) once by (auto simp: pool_credit_def credit_submission_def Let_def split: if_splits)
  moreover have "pool_on (\<lambda>_. A) q (s\<lparr>ps_payout := t\<rparr>)"
    "pool_on (\<lambda>_. A) q (s\<lparr>ps_payout := t, ps_channels := hm_insert c ch' (ps_channels s)\<rparr>)"
    using assms(1) ch(1) ch'(2,3) ok
    by (auto simp: pool_on_def server_wf_def channels_wf_insert credit_ok_def active_on_def)
  ultimately show ?thesis using ok by (cases b) simp_all
qed

lemma record_key_tip: "js_current_prev_hash (snd (record_key job_id key jd)) = js_current_prev_hash jd"
  by (simp add: record_key_def Let_def)

text \<open>A share of a declared job either does not reach the payout tracker or is for the tip.\<close>

lemma process_share_credit:
  fixes job env share
  defines "sub \<equiv> jd_submission (se_now env) (se_sys_now env) job share"
  assumes "bs_inv (pt_seen_solutions tracker)"
  shows "\<exists>jd1. js_current_prev_hash jd1 = js_current_prev_hash jd \<and>
    ((\<exists>v. process_share eq sha256 msg job tip env share (jd, tracker) = Returns (Some v, jd1, tracker)) \<or>
     \<not> stale_for job (se_tip env) \<and> process_share eq sha256 msg job tip env share (jd, tracker) =
       Returns (if fst (submit_result sha256 tracker sub) then None else Some ShareDuplicate, jd1,
         snd (submit_result sha256 tracker sub)))"
proof (cases "preflight sha256 msg job tip share jd")
  case (Inl code)
  then show ?thesis by (intro exI [of _ jd]) (simp add: process_share_def)
next
  case (Inr key)
  note pre = Inr
  show ?thesis
  proof (cases "verify_jd_share eq sha256 job share")
    case (Inl code)
    then show ?thesis using pre by (intro exI [of _ jd]) (simp add: process_share_def)
  next
    case (Inr ok)
    let ?r = "record_key (ssj_job_id msg) key jd"
    show ?thesis
      by (intro exI [of _ "snd ?r"], cases "fst ?r"; cases ok; cases "stale_for job (se_tip env)")
        (simp_all add: process_share_def pre Inr split_beta Let_def record_key_tip credit_jd_share_eq [OF assms(2)] sub_def)
  qed
qed

lemma jd_credit_ok:
  assumes "filed A paid tracker" "bs_inv (pt_seen_solutions tracker)" "0 < bs_room (pt_seen_solutions tracker)"
    and "js_current_prev_hash jd = Some p" "p \<in> A"
    and "jd_credit eq sha256 msg job tip now sys_now share (jd, tracker) = (credit, jd', tracker')"
  shows "js_current_prev_hash jd' = Some p \<and> credit_ok A paid credit tracker'"
proof -
  let ?sub = "jd_submission now sys_now job share"
  let ?env = "\<lparr>se_now = now, se_sys_now = sys_now, se_tip = js_current_prev_hash jd\<rparr>"
  obtain b t where r: "submit_result sha256 tracker ?sub = (b, t)" by fastforce
  obtain jd1 where jd1: "js_current_prev_hash jd1 = js_current_prev_hash jd"
    "(\<exists>v. process_share eq sha256 msg job tip ?env share (jd, tracker) = Returns (Some v, jd1, tracker)) \<or>
     dj_prev_hash job = p \<and> process_share eq sha256 msg job tip ?env share (jd, tracker) =
       Returns (if b then None else Some ShareDuplicate, jd1, t)"
    using process_share_credit [OF assms(2), of jd eq sha256 msg job tip ?env share] r assms(4)
    by (auto simp: stale_for_def)
  from jd1(2) show ?thesis
  proof (elim disjE exE conjE)
    fix v
    assume "process_share eq sha256 msg job tip ?env share (jd, tracker) = Returns (Some v, jd1, tracker)"
    then have "credit = None" "tracker' = tracker" "jd' = jd1" using assms(6) by (simp_all add: jd_credit_def)
    then show ?thesis using assms jd1(1) by (simp add: credit_ok_def)
  next
    assume "process_share eq sha256 msg job tip ?env share (jd, tracker) =
        Returns (if b then None else Some ShareDuplicate, jd1, t)" "dj_prev_hash job = p"
    then have "credit = (if b then Some (p, sha256 (sub_solution ?sub)) else None)" "tracker' = t" "jd' = jd1"
      using assms(6) by (auto simp: jd_credit_def jd_submission_def split: if_splits)
    then show ?thesis
      using credit_ok_submit [OF assms(1-3,5) r] jd1(1) assms(4) by simp
  qed
qed

section \<open>Runs\<close>

text \<open>
  The blocks \<open>A\<close> that can be credited for, the tip of the job declaration server and the block \<open>q\<close> of
  the current template of the pool, in each phase.
\<close>

fun phase_ok :: "template_phase \<Rightarrow> bytes set \<Rightarrow> bytes \<Rightarrow> bytes \<Rightarrow> bool" where
  "phase_ok Waiting A tip q \<longleftrightarrow> A = {tip} \<and> q = tip"
| "phase_ok (Published t) A tip q \<longleftrightarrow> template_wf t \<and> tip = prev_of t \<and> A = {q, tip}"
| "phase_ok (Stored b) A tip q \<longleftrightarrow> q = tip \<and> tip \<in> A \<and> (b \<or> A = {tip})"
| "phase_ok (JobsSent b) A tip q \<longleftrightarrow> A = {tip} \<and> q = tip"

definition cross_inv ::
  "bytes set \<Rightarrow> (bytes \<times> bytes) set \<Rightarrow> bytes set \<Rightarrow> bytes \<Rightarrow> bytes \<Rightarrow> world \<Rightarrow> bool" where
  "cross_inv used paid A tip q w \<longleftrightarrow> phase_ok (w_phase w) A tip q \<and> js_current_prev_hash (w_jd w) = Some tip
     \<and> pool_on (\<lambda>_. A) q (w_pool w) \<and> A \<subseteq> used \<and> fst ` paid \<subseteq> used \<and> filed A paid (ps_payout (w_pool w))"

lemma phase_ok_mem: "phase_ok ph A tip q \<Longrightarrow> tip \<in> A \<and> q \<in> A"
  by (cases ph) auto

lemma cross_inv_publish:
  assumes "cross_inv used paid A tip q w" "template_wf t" "tip = prev_of t \<or> prev_of t \<notin> used" "w_phase w = Waiting"
  shows "cross_inv (insert (prev_of t) used) paid {q, prev_of t} (prev_of t) q
    (w\<lparr>w_jd := publish_template hex t (w_jd w), w_phase := Published t\<rparr>)"
proof -
  have A: "A = {tip}" "q = tip" using assms(1,4) by (simp_all add: cross_inv_def)
  have "pool_on (\<lambda>_. {q, prev_of t}) q (w_pool w)"
    by (rule pool_on_mono [of "\<lambda>_. A"]) (use assms(1) A in \<open>auto simp: cross_inv_def\<close>)
  moreover have "filed {q, prev_of t} paid (ps_payout (w_pool w))"
    by (rule filed_mono [of A]) (use assms(1,3) A in \<open>auto simp: cross_inv_def\<close>)
  ultimately show ?thesis
    using assms(1,2) A
    by (auto simp: cross_inv_def publish_template_def set_current_template_def template_context_def)
qed

lemma cross_inv_used: "cross_inv used paid A tip q w \<Longrightarrow> cross_inv (insert p used) paid A tip q w"
  by (auto simp: cross_inv_def)

lemma cross_inv_store:
  assumes "cross_inv used paid A tip q w" "w_phase w = Published t"
  shows "cross_inv used paid A tip tip
    (w\<lparr>w_pool := snd (store_template t (w_pool w)), w_phase := Stored (fst (store_template t (w_pool w)))\<rparr>)"
  using assms store_template_on [of "\<lambda>_. A" q "w_pool w" t] by (auto simp: cross_inv_def)

lemma cross_inv_send:
  assumes "cross_inv used paid A tip q w" "w_phase w = Stored b"
  shows "cross_inv used paid {tip} tip tip (w\<lparr>w_pool := broadcast_jobs now sent b (w_pool w), w_phase := JobsSent b\<rparr>)"
proof -
  have "pool_on (\<lambda>_. A) tip (w_pool w)" "tip \<in> A" "b \<or> A = {tip}"
    using assms by (auto simp: cross_inv_def)
  then show ?thesis
    using assms broadcast_jobs_on [of A tip "w_pool w" b now sent] filed_mono [of A paid _ "{tip}"]
    by (auto simp: cross_inv_def ps_payout_broadcast)
qed

lemma cross_inv_end:
  assumes "cross_inv used paid A tip q w" "w_phase w = JobsSent b" "b \<longrightarrow> tip \<notin> fst ` paid"
  shows "cross_inv used paid A tip q (w\<lparr>w_pool := end_template b (w_pool w), w_phase := Waiting\<rparr>)"
  using assms end_template_on [of "\<lambda>_. A" q "w_pool w" b] filed_none [of A paid]
  by (cases b) (auto simp: cross_inv_def)

lemma cross_inv_pool:
  assumes "cross_inv used paid A tip q w" "pool_on (\<lambda>_. A) q s" "ps_payout s = ps_payout (w_pool w)"
  shows "cross_inv used paid A tip q (w\<lparr>w_pool := s\<rparr>)"
  using assms by (simp add: cross_inv_def)

lemma cross_inv_credit:
  assumes "cross_inv used paid A tip q w" "pool_on (\<lambda>_. A) q (w_pool w')" "credit_ok A paid c (ps_payout (w_pool w'))"
    "js_current_prev_hash (w_jd w') = Some tip" "w_phase w' = w_phase w"
  shows "cross_inv used (case c of None \<Rightarrow> paid | Some x \<Rightarrow> insert x paid) A tip q w' \<and> (\<forall>x. c = Some x \<longrightarrow> x \<notin> paid)"
  using assms by (cases c) (auto simp: cross_inv_def credit_ok_def)

abbreviation used_after :: "cross_event \<Rightarrow> bytes set \<Rightarrow> bytes set" where
  "used_after e used \<equiv> (case e of PublishTemplate t \<Rightarrow> insert (prev_of t) used | _ \<Rightarrow> used)"

abbreviation paid_after :: "(bytes \<times> bytes) option \<Rightarrow> (bytes \<times> bytes) set \<Rightarrow> (bytes \<times> bytes) set" where
  "paid_after c paid \<equiv> (case c of None \<Rightarrow> paid | Some x \<Rightarrow> insert x paid)"

lemma cross_step_credit:
  assumes inv: "cross_inv used paid A tip q w" and "cross_step eq sha256 hex e w = (c, w')"
    and room: "0 < bs_room (pt_seen_solutions (ps_payout (w_pool w)))"
    and "(\<exists>clk sys_now ch share d. e = PoolCredit clk sys_now ch share d) \<or>
      (\<exists>msg job tip now sys_now share. e = JdCredit msg job tip now sys_now share)"
  shows "cross_inv used (paid_after c paid) A tip q w' \<and> (\<forall>x. c = Some x \<longrightarrow> x \<notin> paid)"
  using assms(4)
proof (elim disjE exE)
  have on: "pool_on (\<lambda>_. A) q (w_pool w)" and filed: "filed A paid (ps_payout (w_pool w))"
    and tip: "js_current_prev_hash (w_jd w) = Some tip" "tip \<in> A"
    using inv phase_ok_mem [of "w_phase w" A tip q] by (auto simp: cross_inv_def)
  {
    fix clk sys_now ch share d
    assume e: "e = PoolCredit clk sys_now ch share d"
    obtain s where s: "pool_credit sha256 clk sys_now ch share d (w_pool w) = (c, s)" "w' = w\<lparr>w_pool := s\<rparr>"
      using assms(2) e by (auto split: prod.splits)
    show ?thesis
      by (rule cross_inv_credit [OF inv]) (use pool_credit_on [OF on filed room s(1)] s(2) tip in simp_all)
  next
    fix msg job t now sys_now share
    assume e: "e = JdCredit msg job t now sys_now share"
    obtain jd tr where s: "jd_credit eq sha256 msg job t now sys_now share (w_jd w, ps_payout (w_pool w)) = (c, jd, tr)"
      "w' = w\<lparr>w_jd := jd, w_pool := (w_pool w)\<lparr>ps_payout := tr\<rparr>\<rparr>"
      using assms(2) e by (auto split: prod.splits)
    have "bs_inv (pt_seen_solutions (ps_payout (w_pool w)))" using on by (simp add: pool_on_def server_wf_def)
    from jd_credit_ok [OF filed this room tip s(1)]
    have ok: "js_current_prev_hash jd = Some tip" "credit_ok A paid c tr" by simp_all
    have "pool_on (\<lambda>_. A) q ((w_pool w)\<lparr>ps_payout := tr\<rparr>)"
      using on ok(2) by (auto simp: pool_on_def server_wf_def credit_ok_def)
    then show ?thesis by (intro cross_inv_credit [OF inv]) (use s(2) ok in simp_all)
  }
qed

lemma cross_step_inv:
  assumes inv: "cross_inv used paid A tip q w" and ord: "orderly eq sha256 hex used paid (e # es) w"
    and step: "cross_step eq sha256 hex e w = (c, w')"
  shows "(\<exists>A' tip' q'. cross_inv (used_after e used) (paid_after c paid) A' tip' q' w') \<and> (\<forall>x. c = Some x \<longrightarrow> x \<notin> paid)"
proof (cases e)
  case (PublishTemplate t)
  then show ?thesis
    using ord step cross_inv_publish [OF inv, of t hex] cross_inv_used [OF inv, of "prev_of t"] inv
    by (cases "w_phase w = Waiting") (auto simp: cross_inv_def [of used])
next
  case StoreTemplate
  then show ?thesis using inv step cross_inv_store [OF inv] by (fastforce split: template_phase.splits)
next
  case (SendJobs now sent)
  then show ?thesis using inv step cross_inv_send [OF inv] by (fastforce split: template_phase.splits)
next
  case EndTemplate
  have "b \<longrightarrow> tip \<notin> fst ` paid" if "w_phase w = JobsSent b" for b
    using ord inv EndTemplate that by (auto simp: cross_inv_def)
  then show ?thesis
    using inv step cross_inv_end [OF inv] EndTemplate by (fastforce split: template_phase.splits)
next
  case (Connect clk addr)
  have "pool_on (\<lambda>_. A) q (w_pool w)" "q \<in> A" using inv phase_ok_mem by (auto simp: cross_inv_def)
  from handle_new_connection_on [OF this, of clk addr] show ?thesis
    using inv step Connect by (auto intro!: exI cross_inv_pool [OF inv] split: outcome.splits)
next
  case (EndSession now ch err)
  have "pool_on (\<lambda>_. A) q (w_pool w)" using inv by (simp add: cross_inv_def)
  from session_ended_on [OF this, of now ch err] show ?thesis
    using step EndSession by (auto intro!: exI cross_inv_pool [OF inv])
next
  case (PoolCredit clk sys_now ch share d)
  then show ?thesis using cross_step_credit [OF inv step] ord by auto
next
  case (JdCredit msg job t now sys_now share)
  then show ?thesis using cross_step_credit [OF inv step] ord by auto
qed

lemma credit_run_distinct:
  "cross_inv used paid A tip q w \<Longrightarrow> orderly eq sha256 hex used paid es w \<Longrightarrow>
    distinct (fst (credit_run eq sha256 hex es w)) \<and> set (fst (credit_run eq sha256 hex es w)) \<inter> paid = {}"
proof (induction es arbitrary: used paid A tip q w)
  case (Cons e es)
  obtain c w' where c: "cross_step eq sha256 hex e w = (c, w')" by fastforce
  note inv = cross_step_inv [OF Cons.prems c]
  have "orderly eq sha256 hex (used_after e used) (paid_after c paid) es w'"
    using Cons.prems(2) c by simp
  with inv Cons.IH have IH: "distinct (fst (credit_run eq sha256 hex es w')) \<and>
      set (fst (credit_run eq sha256 hex es w')) \<inter> paid_after c paid = {}" by blast
  show ?case
    using IH inv c by (cases c) (auto simp: split_beta Let_def)
qed simp

section \<open>Claims\<close>

text \<open>No template is being handled, and everything is on the block \<open>p\<close>.\<close>

definition settled_on :: "bytes \<Rightarrow> world \<Rightarrow> bool" where
  "settled_on p w \<longleftrightarrow> w_phase w = Waiting \<and> js_current_prev_hash (w_jd w) = Some p \<and> pool_on (\<lambda>_. {p}) p (w_pool w)"

text \<open>Channels may be open before the first template; its handling gives them their first jobs.\<close>

lemma first_template_settles:
  assumes "server_wf s" "template_wf t"
    and "\<And>c ch. hm_get (ps_channels s) c = Some ch \<Longrightarrow> c \<in> set (ps_sessions s) \<and> ch_jobs ch = []"
  shows "settled_on (prev_of t)
    \<lparr>w_pool = handle_new_template now sent t s, w_jd = publish_template hex t jd, w_phase = Waiting\<rparr>"
proof -
  obtain b s1 where s1: "store_template t s = (b, s1)" by fastforce
  then have "pool_on (\<lambda>_. {prev_of t}) (prev_of t) s1"
    using assms
    by (auto simp: store_template_def update_template_def Let_def pool_on_def server_wf_def active_on_def hm_get_def)
  then have "pool_on (\<lambda>_. {prev_of t}) (prev_of t) (end_template b (broadcast_jobs now sent b s1))"
    using broadcast_jobs_on [of "{prev_of t}" "prev_of t" s1 b now sent] end_template_on by auto
  then show ?thesis
    by (simp add: settled_on_def handle_new_template_parts s1 publish_template_def set_current_template_def
        template_context_def)
qed

text \<open>
  C5.  Across any number of blocks and any interleaving of the two paths with the parts of the handling
  of templates, with connections and with sessions that end, no solution is credited twice for the same
  previous block: neither twice by the pool, nor twice by the job declaration server, nor once by each.
  It is asked that a new previous block was not the tip before, that nothing has been credited for a new
  tip when the handling of its first template ends and clears the filter, and that the filter has room
  for each credit.
\<close>

theorem credited_once_across_blocks:
  assumes "settled_on p w" "orderly eq sha256 hex {p} {} es w"
  shows "distinct (fst (credit_run eq sha256 hex es w))"
proof -
  have "cross_inv {p} {} {p} p p w" using assms(1) by (simp add: settled_on_def cross_inv_def filed_def)
  from credit_run_distinct [OF this assms(2)] show ?thesis by simp
qed

section \<open>A share that is credited\<close>

definition fresh_key :: "u32 \<Rightarrow> bytes \<Rightarrow> JdServer \<Rightarrow> bool" where
  "fresh_key job_id key jd \<longleftrightarrow> key \<notin> seen_for job_id jd \<and> card (seen_for job_id jd) < MAX_SEEN_SHARES_PER_JOB"

text \<open>The digest of the solution is not in the filter, which has room.\<close>

definition unseen_digest :: "bytes \<Rightarrow> PayoutTracker \<Rightarrow> bool" where
  "unseen_digest d tracker \<longleftrightarrow> bs_inv (pt_seen_solutions tracker) \<and> 0 < bs_room (pt_seen_solutions tracker)
     \<and> d \<notin> set (bs_order (pt_seen_solutions tracker))"

lemma process_share_accepts:
  assumes "sound_share eq sha256 msg job tip share" "fresh_key (ssj_job_id msg) (share_dedup_key sha256 share) jd"
    and "\<not> stale_for job (se_tip env)" "unseen_digest (sha256 (jsh_solution share)) tracker"
    and "f64_pos (target_to_difficulty (dj_share_target job))"
  defines "sub \<equiv> jd_submission (se_now env) (se_sys_now env) job share"
  shows "process_share eq sha256 msg job tip env share (jd, tracker) = Returns (None,
    snd (record_key (ssj_job_id msg) (share_dedup_key sha256 share) jd), snd (submit_result sha256 tracker sub))"
proof -
  have inv: "bs_inv (pt_seen_solutions tracker)" using assms(4) by (simp add: unseen_digest_def)
  have "preflight sha256 msg job tip share jd = Inr (share_dedup_key sha256 share)"
    using assms(1,2) by (simp add: preflight_def sound_share_def fresh_key_def Let_def)
  moreover have "verify_jd_share eq sha256 job share = Inr True"
    using assms(1) by (auto simp: verify_jd_share_def sound_share_def split: sum.splits)
  moreover have "fst (record_key (ssj_job_id msg) (share_dedup_key sha256 share) jd)"
    using assms(2) by (simp add: record_key_def fresh_key_def Let_def)
  moreover have "fst (submit_result sha256 tracker sub)"
    using cross_path.ins_answer [OF inv, of sha256 sub] assms(4,5)
    by (simp add: unseen_digest_def sub_def jd_submission_def)
  ultimately show ?thesis
    using assms(3) by (simp add: process_share_def split_beta Let_def credit_jd_share_eq [OF inv] sub_def)
qed

lemma fresh_key_record_key:
  "fresh_key i k jd \<Longrightarrow> i \<noteq> job_id \<Longrightarrow> fresh_key i k (snd (record_key job_id key jd))"
  by (simp add: fresh_key_def record_key_def seen_for_def hm_get_or_def Let_def)

lemma fresh_key_evict:
  assumes "hm_wf (js_seen_shares jd)" "fresh_key i k jd"
  shows "fresh_key i k (evict_unresolved now jd)"
  using assms
  by (auto simp: fresh_key_def evict_unresolved_def seen_for_def hm_get_or_def hm_get_retain MAX_SEEN_SHARES_PER_JOB_def
      split: option.splits if_splits)

lemma record_key_same:
  "js_token_manager (snd (record_key job_id key jd)) = js_token_manager jd"
  "hm_wf (js_seen_shares jd) \<Longrightarrow> hm_wf (js_seen_shares (snd (record_key job_id key jd)))"
  by (simp_all add: record_key_def Let_def)

text \<open>A batch of one share that nothing speaks against is accepted and credited.\<close>

lemma batch_of_one_accepted:
  assumes "find_job_by_id (clk 1) (ssj_job_id msg) (js_token_manager jd) = Inr job" "dj_mode job = CoinbaseOnly"
    and "ssj_shares msg = [share]" "sound_share eq sha256 msg job (js_current_prev_hash jd) share"
    and "hm_wf (js_seen_shares jd)" "fresh_key (ssj_job_id msg) (share_dedup_key sha256 share) jd"
    and "\<not> stale_for job (se_tip (env 0))" "unseen_digest (sha256 (jsh_solution share)) tracker"
    and "f64_pos (target_to_difficulty (dj_share_target job))"
  shows "\<exists>resp jd' tracker'. handle_submit_shares_jd eq sha256 clk env msg (jd, tracker) = Returns (resp, jd', tracker')
    \<and> ssr_accepted resp = 1 \<and> ssr_rejected resp = 0
    \<and> shares_of tracker' (dj_client_id job) = shares_of tracker (dj_client_id job) + 1
    \<and> js_token_manager jd' = js_token_manager jd \<and> js_current_prev_hash jd' = js_current_prev_hash jd
    \<and> hm_wf (js_seen_shares jd')
    \<and> (\<forall>i k. i \<noteq> ssj_job_id msg \<longrightarrow> fresh_key i k jd \<longrightarrow> fresh_key i k jd')"
proof -
  let ?jd = "evict_unresolved (clk 0) jd" and ?sub = "jd_submission (se_now (env 0)) (se_sys_now (env 0)) job share"
  let ?jd' = "snd (record_key (ssj_job_id msg) (share_dedup_key sha256 share) ?jd)"
  have same: "js_current_prev_hash ?jd = js_current_prev_hash jd" "hm_wf (js_seen_shares ?jd)"
    using assms(5) by (simp_all add: evict_unresolved_def)
  have run: "process_share eq sha256 msg job (js_current_prev_hash jd) (env 0) share (?jd, tracker) =
      Returns (None, ?jd', snd (submit_result sha256 tracker ?sub))"
    using process_share_accepts [OF assms(4) fresh_key_evict [OF assms(5,6)] assms(7,8,9)] by simp
  have inv: "bs_inv (pt_seen_solutions tracker)" using assms(8) by (simp add: unseen_digest_def)
  have "fst (submit_result sha256 tracker ?sub)"
    using cross_path.ins_answer [OF inv, of sha256 ?sub] assms(8,9) by (simp add: unseen_digest_def jd_submission_def)
  then have "shares_of (snd (submit_result sha256 tracker ?sub)) (dj_client_id job) = shares_of tracker (dj_client_id job) + 1"
    using shares_of_submit_result [OF inv, of sha256 ?sub "dj_client_id job"] by (simp add: jd_submission_def)
  moreover have "handle_submit_shares_jd eq sha256 clk env msg (jd, tracker) =
      Returns (share_response msg \<lparr>sc_accepted = 1, sc_rejected = 0, sc_first_error = None\<rparr>, ?jd',
        snd (submit_result sha256 tracker ?sub))"
    using assms(1-3) run same(1) by (simp add: handle_submit_shares_jd_def Let_def count_verdict_def)
  ultimately show ?thesis
    using same fresh_key_evict [OF assms(5)] fresh_key_record_key
    by (intro exI [of _ "share_response msg \<lparr>sc_accepted = 1, sc_rejected = 0, sc_first_error = None\<rparr>"] exI [of _ ?jd']
        exI [of _ "snd (submit_result sha256 tracker ?sub)"])
      (auto simp: share_response_def record_key_same record_key_tip)
qed

lemma handle_new_template_clears:
  "jd_prev_hash (ps_distributor s) \<noteq> Some (prev_of t) \<Longrightarrow>
    ps_payout (handle_new_template now sent t s) = clear_cross_path_solutions (ps_payout s)"
  by (simp add: handle_new_template_parts store_template_def update_template_def end_template_def Let_def
      ps_payout_broadcast)

text \<open>
  C38.  The condition on clearing is needed: \<open>handle_new_template\<close> publishes the new tip to the job
  declaration server, and broadcasts the new jobs, before it clears the cross-path filter.  Take a job
  declaration server that already has the new tip and has two declared jobs for it that differ in their
  identifiers only, and a share that is sound for them.  If it comes for the first identifier before the
  rest of \<open>handle_new_template\<close> runs and for the second one after that, both batches are answered with
  one accepted share, and the client has two shares for one solution.
\<close>

theorem credit_before_clear_is_repeated:
  assumes "jd_prev_hash (ps_distributor s) \<noteq> Some (prev_of t)" "js_current_prev_hash jd = Some (prev_of t)"
    and "dj_prev_hash job = prev_of t" "dj_mode job = CoinbaseOnly" "ssj_job_id msg2 \<noteq> ssj_job_id msg1"
    and "find_job_by_id (clk1 1) (ssj_job_id msg1) (js_token_manager jd) = Inr job"
    and "find_job_by_id (clk2 1) (ssj_job_id msg2) (js_token_manager jd) = Inr (job\<lparr>dj_job_id := ssj_job_id msg2\<rparr>)"
    and "ssj_shares msg1 = [share]" "ssj_shares msg2 = [share]" "ssj_channel_id msg2 = ssj_channel_id msg1"
    and "sound_share eq sha256 msg1 job (Some (prev_of t)) share" "hm_wf (js_seen_shares jd)"
    and "fresh_key (ssj_job_id msg1) (share_dedup_key sha256 share) jd"
      "fresh_key (ssj_job_id msg2) (share_dedup_key sha256 share) jd"
    and "unseen_digest (sha256 (jsh_solution share)) (ps_payout s)"
    and "f64_pos (target_to_difficulty (dj_share_target job))"
    and "se_tip (env1 0) = Some (prev_of t)" "se_tip (env2 0) = Some (prev_of t)"
  shows "\<exists>resp1 jd1 tracker1 resp2 jd2 tracker2.
    handle_submit_shares_jd eq sha256 clk1 env1 msg1 (jd, ps_payout s) = Returns (resp1, jd1, tracker1)
    \<and> handle_submit_shares_jd eq sha256 clk2 env2 msg2
        (jd1, ps_payout (handle_new_template now sent t (s\<lparr>ps_payout := tracker1\<rparr>))) = Returns (resp2, jd2, tracker2)
    \<and> ssr_accepted resp1 = 1 \<and> ssr_accepted resp2 = 1
    \<and> shares_of tracker2 (dj_client_id job) = shares_of (ps_payout s) (dj_client_id job) + 2"
proof -
  let ?job = "job\<lparr>dj_job_id := ssj_job_id msg2\<rparr>"
  have live: "\<not> stale_for job (se_tip (env1 0))" "\<not> stale_for ?job (se_tip (env2 0))"
    using assms(3,17,18) by (simp_all add: stale_for_def)
  obtain resp1 jd1 tracker1 where 1: "handle_submit_shares_jd eq sha256 clk1 env1 msg1 (jd, ps_payout s) =
      Returns (resp1, jd1, tracker1)" "ssr_accepted resp1 = 1"
    "shares_of tracker1 (dj_client_id job) = shares_of (ps_payout s) (dj_client_id job) + 1"
    "js_token_manager jd1 = js_token_manager jd" "js_current_prev_hash jd1 = Some (prev_of t)"
    "hm_wf (js_seen_shares jd1)" "fresh_key (ssj_job_id msg2) (share_dedup_key sha256 share) jd1"
    using batch_of_one_accepted [where jd = jd and clk = clk1 and env = env1,
        OF assms(6,4,8) _ assms(12,13) live(1) assms(15,16), unfolded assms(2), OF assms(11)] assms(5,14)
    by blast
  define tracker where "tracker = ps_payout (handle_new_template now sent t (s\<lparr>ps_payout := tracker1\<rparr>))"
  have cleared: "tracker = clear_cross_path_solutions tracker1"
    using assms(1) by (simp add: tracker_def handle_new_template_clears)
  then have unseen: "unseen_digest (sha256 (jsh_solution share)) tracker"
    by (simp add: unseen_digest_def clear_cross_path_solutions_def) (simp add: BoundedSolutionSet_new_def)
  have sound: "sound_share eq sha256 msg2 ?job (js_current_prev_hash jd1) share"
    using assms(3,10,11) 1(5) by (simp add: sound_share_def jd_build_header_def stale_for_def)
  obtain resp2 jd2 tracker2 where 2: "handle_submit_shares_jd eq sha256 clk2 env2 msg2 (jd1, tracker) =
      Returns (resp2, jd2, tracker2)" "ssr_accepted resp2 = 1"
    "shares_of tracker2 (dj_client_id job) = shares_of tracker (dj_client_id job) + 1"
    using batch_of_one_accepted [where jd = jd1 and clk = clk2 and msg = msg2 and env = env2 and job = ?job,
        OF assms(7) [folded 1(4)] _ assms(9) sound 1(6,7) live(2) unseen] assms(4,16)
    by auto
  have "shares_of tracker2 (dj_client_id job) = shares_of (ps_payout s) (dj_client_id job) + 2"
    using 1(3) 2(3) cleared by simp
  with 1(1,2) 2(1,2) show ?thesis unfolding tracker_def by blast
qed

section \<open>Sample runs\<close>

text \<open>A pool with one channel and one job, and a job declaration server with two jobs of one client.\<close>

definition sample_next_template :: BlockTemplate where
  "sample_next_template = sample_template\<lparr>bt_header := (bt_header sample_template)\<lparr>eh_prev_hash := replicate 32 9\<rparr>\<rparr>"

definition jd_server_2 :: JdServer where
  "jd_server_2 = jd_server_1\<lparr>js_token_manager := (js_token_manager jd_server_1)\<lparr>tm_tokens :=
     map (\<lambda>i. ([of_nat i], \<lparr>mt_token = [of_nat i], mt_issued_at = 0, mt_lifetime = from_secs 300, mt_client_id = ''alice'',
       mt_granted_mode = CoinbaseOnly, mt_job_info = Some (jd_job_1\<lparr>dj_job_id := of_nat i\<rparr>)\<rparr>)) [1, 2]\<rparr>\<rparr>"

definition jd_batch_of_one :: "u32 \<Rightarrow> SubmitSharesJd" where
  "jd_batch_of_one job_id = \<lparr>ssj_channel_id = 7, ssj_request_id = 1, ssj_job_id = job_id, ssj_shares = [jd_share_1]\<rparr>"

definition sample_world :: world where
  "sample_world = \<lparr>w_pool = sample_server\<lparr>ps_distributor :=
       \<lparr>jd_current_template = Some sample_template, jd_prev_hash = Some (replicate 32 1)\<rparr>\<rparr>,
     w_jd = jd_server_2, w_phase = Waiting\<rparr>"

lemma sample_sound:
  "sound_share (\<lambda>_ _ _ _ _. Inr ()) (\<lambda>_. replicate 32 0) (jd_batch_of_one i) jd_job_1 (Some (replicate 32 1)) jd_share_1"
proof -
  have len: "length (jd_build_header jd_job_1 (jsh_time jd_share_1) (jsh_nonce jd_share_1)) = 140"
    "length (jsh_solution jd_share_1) = 1344"
    by (simp_all add: jd_build_header_def jd_job_1_def jd_share_1_def)
  have "is_met_by max_mainnet (replicate 32 0)" by code_simp
  then show ?thesis
    unfolding sound_share_def
    by (simp add: verify_share_def verify_solution_def len SOLUTION_BYTES_def bindR_def meets_target_eq
        compute_solution_hash_def consensus_block_hash_parts_def split_beta finish_sha256d_def Let_def)
      (simp add: jd_job_1_def jd_share_1_def jd_batch_of_one_def stale_for_def time_in_range_def saturating_sub_def
        saturating_add_def JD_MAX_TIME_BACKWARD_def JD_MAX_TIME_FORWARD_def)
qed

lemma sample_fresh: "fresh_key i k jd_server_2" "hm_wf (js_seen_shares jd_server_2)"
  "js_current_prev_hash jd_server_2 = Some (replicate 32 1)"
  by (simp_all add: jd_server_2_def jd_server_1_def JdServer_new_def fresh_key_def seen_for_def hm_get_or_def hm_get_def
      hm_wf_def MAX_SEEN_SHARES_PER_JOB_def)

lemma sample_unseen: "unseen_digest d (ps_payout sample_server)"
  by (simp add: sample_server_def PayoutTracker_default_def PayoutTracker_new_def unseen_digest_def)
    (simp add: BoundedSolutionSet_new_def bs_room_def MAX_CROSS_PATH_SOLUTIONS_def)

lemma sample_difficulty: "f64_pos (target_to_difficulty (dj_share_target jd_job_1))"
  by (simp add: jd_job_1_def difficulty_max_mainnet f64_pos_iff)

lemma sample_settled: "settled_on (replicate 32 1) sample_world"
proof -
  have "server_wf (sample_server\<lparr>ps_distributor :=
      \<lparr>jd_current_template = Some sample_template, jd_prev_hash = Some (replicate 32 1)\<rparr>\<rparr>)"
    using sample_server_wf sample_job_of_template by (simp add: server_wf_def job_of_template_def)
  moreover have "prev_of sample_template = replicate 32 1" by (simp add: sample_template_def)
  moreover have "c \<in> set (ps_sessions sample_server) \<and> active_on {replicate 32 1} ch"
    if "hm_get (ps_channels sample_server) c = Some ch" for c ch
    using that by (auto simp: sample_server_def active_on_def Channel.sample_job_def hm_get_def split: if_splits)
  ultimately show ?thesis by (simp add: settled_on_def sample_world_def sample_fresh pool_on_def)
qed

lemma jd_credit_room:
  assumes "bs_inv (pt_seen_solutions tracker)"
    and "jd_credit eq sha256 msg job tip now sys_now share (jd, tracker) = (credit, jd', tracker')"
  shows "bs_room (pt_seen_solutions tracker) \<le> Suc (bs_room (pt_seen_solutions tracker'))"
proof -
  let ?env = "\<lparr>se_now = now, se_sys_now = sys_now, se_tip = js_current_prev_hash jd\<rparr>"
  show ?thesis
    using process_share_credit [OF assms(1), of jd eq sha256 msg job tip ?env share] assms(2)
      cross_path.ins_room [OF assms(1), of sha256 "jd_submission now sys_now job share"]
    by (auto simp: jd_credit_def split: if_splits)
qed

text \<open>The handling of a template for a new block, and a share for an old job after it.\<close>

lemma orderly_new_block:
  assumes "cross_inv {p} paid {p} p p w" "w_phase w = Waiting" "template_wf t" "prev_of t \<noteq> p"
  shows "orderly eq sha256 hex {p} paid [PublishTemplate t, StoreTemplate, SendJobs now sent, EndTemplate,
    PoolCredit clk sys_now c share d] w"
proof -
  have "prev_of t \<notin> fst ` paid" "jd_prev_hash (ps_distributor (w_pool w)) = Some p"
    using assms(1,4) by (auto simp: cross_inv_def pool_on_def)
  moreover have "0 < bs_room (pt_seen_solutions (clear_cross_path_solutions tracker))" for tracker
    by (simp add: clear_cross_path_solutions_def bs_room_def BoundedSolutionSet_new_def MAX_CROSS_PATH_SOLUTIONS_def)
  ultimately show ?thesis
    using assms(2-4)
    by (auto simp: store_template_def update_template_def end_template_def Let_def split_beta publish_template_def
        set_current_template_def template_context_def)
qed

text \<open>The solution comes by both paths, then a new block, then the old share again.\<close>

theorem credited_once_across_blocks_witness:
  "distinct (fst (credit_run (\<lambda>_ _ _ _ _. Inr ()) (\<lambda>_. replicate 32 0) sample_hex
    [JdCredit (jd_batch_of_one 1) jd_job_1 (Some (replicate 32 1)) 0 0 jd_share_1,
     PoolCredit (\<lambda>_. 0) 0 1 (Share.sample_share 5) (Finite 1),
     PublishTemplate sample_next_template, StoreTemplate, SendJobs (\<lambda>_. 0) (\<lambda>_. True), EndTemplate,
     PoolCredit (\<lambda>_. 0) 0 1 (Share.sample_share 5) (Finite 1)] sample_world))"
    (is "distinct (fst (credit_run ?eq ?sha sample_hex (?e1 # ?e2 # ?es) sample_world))")
proof (rule credited_once_across_blocks [OF sample_settled])
  have new: "template_wf sample_next_template" "prev_of sample_next_template \<noteq> replicate 32 1"
    using sample_job_of_template
    by (simp_all add: sample_next_template_def job_of_template_def template_wf_def header_wf_def)
  let ?room = "\<lambda>w. bs_room (pt_seen_solutions (ps_payout (w_pool w)))"
  have inv: "cross_inv {replicate 32 1} {} {replicate 32 1} (replicate 32 1) (replicate 32 1) sample_world"
    using sample_settled by (simp add: settled_on_def cross_inv_def filed_def)
  obtain c1 w1 where 1: "cross_step ?eq ?sha sample_hex ?e1 sample_world = (c1, w1)" by fastforce
  have room: "1 < ?room sample_world"
    by (simp add: sample_world_def sample_server_def PayoutTracker_default_def PayoutTracker_new_def)
      (simp add: BoundedSolutionSet_new_def bs_room_def MAX_CROSS_PATH_SOLUTIONS_def)
  have inv1: "cross_inv {replicate 32 1} (paid_after c1 {}) {replicate 32 1} (replicate 32 1) (replicate 32 1) w1"
    using cross_step_credit [OF inv 1] room by simp
  have inv0: "bs_inv (pt_seen_solutions (ps_payout (w_pool sample_world)))"
    using sample_settled by (simp add: settled_on_def pool_on_def server_wf_def)
  have phase: "w_phase sample_world = Waiting" using sample_settled by (simp add: settled_on_def)
  have "w_phase w1 = Waiting" "0 < ?room w1"
    using 1 phase room jd_credit_room [OF inv0] by (fastforce split: prod.splits)+
  obtain c2 w2 where 2: "cross_step ?eq ?sha sample_hex ?e2 w1 = (c2, w2)" by fastforce
  then have "w_phase w2 = Waiting" using \<open>w_phase w1 = Waiting\<close> by (auto split: prod.splits)
  have inv2: "cross_inv {replicate 32 1} (paid_after c2 (paid_after c1 {})) {replicate 32 1} (replicate 32 1) (replicate 32 1) w2"
    using cross_step_credit [OF inv1 2] \<open>0 < ?room w1\<close> by simp
  show "orderly ?eq ?sha sample_hex {replicate 32 1} {} (?e1 # ?e2 # ?es) sample_world"
    using orderly_new_block [OF inv2 \<open>w_phase w2 = Waiting\<close> new] 1 2 room \<open>0 < ?room w1\<close>
    by (simp del: cross_step.simps)
qed

theorem credit_before_clear_is_repeated_witness:
  "\<exists>resp1 jd1 tracker1 resp2 jd2 tracker2.
    handle_submit_shares_jd (\<lambda>_ _ _ _ _. Inr ()) (\<lambda>_. replicate 32 0) (\<lambda>_. 0)
        (\<lambda>_. \<lparr>se_now = 0, se_sys_now = 0, se_tip = Some (replicate 32 1)\<rparr>) (jd_batch_of_one 1)
        (jd_server_2, ps_payout sample_server) = Returns (resp1, jd1, tracker1)
    \<and> handle_submit_shares_jd (\<lambda>_ _ _ _ _. Inr ()) (\<lambda>_. replicate 32 0) (\<lambda>_. 0)
        (\<lambda>_. \<lparr>se_now = 0, se_sys_now = 0, se_tip = Some (replicate 32 1)\<rparr>) (jd_batch_of_one 2)
        (jd1, ps_payout (handle_new_template (\<lambda>_. 0) (\<lambda>_. True) sample_template (sample_server\<lparr>ps_payout := tracker1\<rparr>)))
      = Returns (resp2, jd2, tracker2)
    \<and> ssr_accepted resp1 = 1 \<and> ssr_accepted resp2 = 1 \<and> shares_of tracker2 ''alice'' = 2"
proof -
  have prev: "prev_of sample_template = replicate 32 1" by (simp add: sample_template_def)
  have find: "find_job_by_id 0 1 (js_token_manager jd_server_2) = Inr jd_job_1"
    "find_job_by_id 0 2 (js_token_manager jd_server_2) = Inr (jd_job_1\<lparr>dj_job_id := 2\<rparr>)"
    by (simp_all add: find_job_by_id_def jd_server_2_def is_expired_def duration_since_def List.map_filter_def
        jd_job_1_def from_secs_def)
  have job: "dj_prev_hash jd_job_1 = replicate 32 1" "dj_mode jd_job_1 = CoinbaseOnly" "dj_client_id jd_job_1 = ''alice''"
    by (simp_all add: jd_job_1_def)
  have zero: "shares_of (ps_payout sample_server) ''alice'' = 0" "jd_prev_hash (ps_distributor sample_server) = None"
    by (simp_all add: sample_server_def shares_of_def PayoutTracker_default_def PayoutTracker_new_def)
  have msgs: "ssj_job_id (jd_batch_of_one i) = i" "ssj_shares (jd_batch_of_one i) = [jd_share_1]"
    "ssj_channel_id (jd_batch_of_one i) = 7" for i by (simp_all add: jd_batch_of_one_def)
  show ?thesis
    using credit_before_clear_is_repeated [where s = sample_server and t = sample_template and jd = jd_server_2
        and job = jd_job_1 and ?msg1.0 = "jd_batch_of_one 1" and ?msg2.0 = "jd_batch_of_one 2" and ?clk1.0 = "\<lambda>_. 0"
        and ?clk2.0 = "\<lambda>_. 0" and share = jd_share_1 and eq = "\<lambda>_ _ _ _ _. Inr ()" and ?sha256.0 = "\<lambda>_. replicate 32 0"
        and ?env1.0 = "\<lambda>_. \<lparr>se_now = 0, se_sys_now = 0, se_tip = Some (replicate 32 1)\<rparr>"
        and ?env2.0 = "\<lambda>_. \<lparr>se_now = 0, se_sys_now = 0, se_tip = Some (replicate 32 1)\<rparr>"
        and now = "\<lambda>_. 0" and sent = "\<lambda>_. True"]
      sample_sound [of 1] sample_fresh sample_unseen sample_difficulty
    by (simp add: prev find job zero msgs)
qed

end
