(* ===== verification/Jd_Session.thy ===== *)
theory Jd_Session
  imports Jd_Shares
begin

text \<open>
  A connection to the job declaration server, the end of \<open>zcash-jd-server/src/server.rs\<close>: framing of the
  byte stream, dispatch of a message to its handler and the loop of a session.

  The stream is the list of the bytes the client sends before it closes the connection, over the plain
  transport; reads fail only at its end and writes succeed.  What a handler takes from outside, hash
  functions, clock, random bytes, memory and the chain tip, is gathered in an environment.
\<close>

section \<open>Framing\<close>

definition MAX_FRAME_SIZE :: u32 where
  "MAX_FRAME_SIZE = 1048576"

definition read_full_message :: "bytes \<Rightarrow> (JdServerError + bytes option) \<times> bytes" where
  "read_full_message stream =
     (if length stream < HEADER_SIZE then (Inr None, [])
      else
        let header_buf = take HEADER_SIZE stream; stream = drop HEADER_SIZE stream in
        case map_err (\<lambda>e. JdProtocol (show_protocol_error e)) (MessageFrame_decode header_buf) of
          Inl e \<Rightarrow> (Inl e, stream)
        | Inr frame \<Rightarrow>
            if MAX_FRAME_SIZE < frame_length frame then
              (Inl (JdProtocol (''Frame size '' @ show_nat (unat (frame_length frame)) @ '' exceeds maximum of 1MB'')), stream)
            else if length stream < unat (frame_length frame) then (Inl JdIo, [])
            else (Inr (Some (header_buf @ take (unat (frame_length frame)) stream)), drop (unat (frame_length frame)) stream))"

section \<open>Dispatch\<close>

record jd_env =
  je_equihash :: equihash_fn
  je_sha256 :: sha256_fn
  je_blake2b :: blake2b_fn
  je_heap :: nat
  je_iter :: set_iter
  je_clk :: "nat \<Rightarrow> instant"
  je_random :: bytes
  je_shares :: "nat \<Rightarrow> share_env"
  je_ticks :: "instant list"

text \<open>An error ends the connection; otherwise there may be a reply.\<close>

type_synonym dispatch_result = "((JdServerError + bytes option) \<times> jd_world) outcome"

definition send_reply :: "JdServerError + bytes \<Rightarrow> jd_world \<Rightarrow> dispatch_result" where
  "send_reply encoded w = Returns (bindR encoded (\<lambda>data. Inr (Some data)), w)"

definition with_decoded :: "JdServerError + 'm \<Rightarrow> jd_world \<Rightarrow> ('m \<Rightarrow> dispatch_result) \<Rightarrow> dispatch_result" where
  "with_decoded r w k = (case r of Inl e \<Rightarrow> Returns (Inl e, w) | Inr m \<Rightarrow> k m)"

definition on_allocate :: "jd_env \<Rightarrow> AllocateMiningJobToken \<Rightarrow> jd_world \<Rightarrow> dispatch_result" where
  "on_allocate env request w =
     (let (self, tracker) = w;
          (res, self) = handle_allocate_token (je_clk env) (je_random env) tracker (amt_request_id request)
            (amt_user_identifier request) (amt_requested_mode request) self in
      case res of
        Inr response \<Rightarrow> send_reply (encode_allocate_token_success response) (self, tracker)
      | Inl _ \<Rightarrow> Returns (Inr None, self, tracker))"

definition on_declare :: "jd_env \<Rightarrow> SetCustomMiningJob \<Rightarrow> jd_world \<Rightarrow> dispatch_result" where
  "on_declare env request w =
     (let (self, tracker) = w in
      case handle_declare_job (je_sha256 env) (je_blake2b env) (je_heap env) (je_clk env) request self of
        Panics \<Rightarrow> Panics
      | Returns (Inr response, self) \<Rightarrow> send_reply (encode_set_custom_job_success response) (self, tracker)
      | Returns (Inl err, self) \<Rightarrow> send_reply (encode_set_custom_job_error err) (self, tracker))"

text \<open>A solution is checked, and neither answered nor stored.\<close>

definition on_push :: "jd_env \<Rightarrow> PushSolution \<Rightarrow> jd_world \<Rightarrow> dispatch_result" where
  "on_push env solution w =
     (case handle_push_solution (je_equihash env) (je_sha256 env) (je_clk env 0) solution (fst w) of
        Inl _ \<Rightarrow> Returns (Inr None, w)
      | Inr _ \<Rightarrow> Returns (Inr None, w))"

definition on_shares :: "jd_env \<Rightarrow> SubmitSharesJd \<Rightarrow> jd_world \<Rightarrow> dispatch_result" where
  "on_shares env msg w =
     (case handle_submit_shares_jd (je_equihash env) (je_sha256 env) (je_clk env) (je_shares env) msg w of
        Panics \<Rightarrow> Panics
      | Returns (response, w) \<Rightarrow> send_reply (encode_submit_shares_jd_response response) w)"

definition on_full_template :: "jd_env \<Rightarrow> u64 \<Rightarrow> SetFullTemplateJob \<Rightarrow> jd_world \<Rightarrow> dispatch_result" where
  "on_full_template env session_id request w =
     (let (self, tracker) = w in
      case handle_set_full_template_job_for_session (je_sha256 env) (je_heap env) (je_clk env) request (Some session_id) self of
        Panics \<Rightarrow> Panics
      | Returns (Inr response, self) \<Rightarrow> send_reply (encode_set_full_template_job_success response) (self, tracker)
      | Returns (Inl (FullError err), self) \<Rightarrow> send_reply (encode_set_full_template_job_error err) (self, tracker)
      | Returns (Inl (FullNeedTransactions request), self) \<Rightarrow>
          send_reply (encode_get_missing_transactions request) (self, tracker))"

definition on_provide :: "jd_env \<Rightarrow> u64 \<Rightarrow> ProvideMissingTransactions \<Rightarrow> jd_world \<Rightarrow> dispatch_result" where
  "on_provide env session_id msg w =
     (let (self, tracker) = w;
          (_, self) = handle_provide_missing_transactions_for_owner (je_sha256 env) (je_iter env) (je_clk env) msg
            (SessionOwner session_id) self
      in Returns (Inr None, self, tracker))"

definition dispatch :: "jd_env \<Rightarrow> u64 \<Rightarrow> bytes \<Rightarrow> jd_world \<Rightarrow> dispatch_result" where
  "dispatch env session_id full_message w =
     with_decoded (map_err (\<lambda>e. JdProtocol (show_protocol_error e)) (MessageFrame_decode full_message)) w (\<lambda>frame.
     if msg_type frame = ALLOCATE_MINING_JOB_TOKEN then
       with_decoded (decode_allocate_token full_message) w (\<lambda>m. on_allocate env m w)
     else if msg_type frame = SET_CUSTOM_MINING_JOB then
       with_decoded (decode_set_custom_job full_message) w (\<lambda>m. on_declare env m w)
     else if msg_type frame = PUSH_SOLUTION then
       with_decoded (decode_push_solution full_message) w (\<lambda>m. on_push env m w)
     else if msg_type frame = SUBMIT_SHARES_JD then
       with_decoded (decode_submit_shares_jd full_message) w (\<lambda>m. on_shares env m w)
     else if msg_type frame = SET_FULL_TEMPLATE_JOB then
       with_decoded (decode_set_full_template_job full_message) w (\<lambda>m. on_full_template env session_id m w)
     else if msg_type frame = PROVIDE_MISSING_TRANSACTIONS then
       with_decoded (decode_provide_missing_transactions full_message) w (\<lambda>m. on_provide env session_id m w)
     else Returns (Inr None, w))"

section \<open>The loop of a session\<close>

definition cleanup_ticks :: "instant list \<Rightarrow> jd_world \<Rightarrow> jd_world" where
  "cleanup_ticks ticks w =
     ((fst w)\<lparr>js_pending_missing := fold pending_expire ticks (js_pending_missing (fst w))\<rparr>, snd w)"

lemma read_full_message_shorter:
  "read_full_message stream = (Inr (Some m), rest) \<Longrightarrow> length rest < length stream"
  by (auto simp: read_full_message_def Let_def HEADER_SIZE_def split: if_splits sum.splits)

text \<open>The bytes written, how the connection ended, and the state left behind.\<close>

type_synonym session_result = "(bytes list \<times> (JdServerError + unit) \<times> jd_world) outcome"

function session_loop :: "(nat \<Rightarrow> jd_env) \<Rightarrow> u64 \<Rightarrow> bytes \<Rightarrow> jd_world \<Rightarrow> session_result" where
  "session_loop envs session_id stream w =
     (let w = cleanup_ticks (je_ticks (envs 0)) w in
      case read_full_message stream of
        (Inl e, _) \<Rightarrow> Returns ([], Inl e, w)
      | (Inr None, _) \<Rightarrow> Returns ([], Inr (), w)
      | (Inr (Some full_message), rest) \<Rightarrow>
          (case dispatch (envs 0) session_id full_message w of
             Panics \<Rightarrow> Panics
           | Returns (Inl e, w) \<Rightarrow> Returns ([], Inl e, w)
           | Returns (Inr answer, w) \<Rightarrow>
               (case session_loop (\<lambda>i. envs (Suc i)) session_id rest w of
                  Panics \<Rightarrow> Panics
                | Returns (out, res, w) \<Rightarrow> Returns ((case answer of None \<Rightarrow> out | Some data \<Rightarrow> data # out), res, w))))"
  by pat_completeness auto
termination
  by (relation "measure (\<lambda>(_, _, stream, _). length stream)") (auto dest: read_full_message_shorter [OF sym])

declare session_loop.simps [simp del]

definition handle_jd_client_with_transport :: "(nat \<Rightarrow> jd_env) \<Rightarrow> bytes \<Rightarrow> jd_world \<Rightarrow> session_result" where
  "handle_jd_client_with_transport envs stream w =
     (let (self, tracker) = w; (res, self) = open_session self in
      case res of
        Inl e \<Rightarrow> Returns ([], Inl e, self, tracker)
      | Inr session_id \<Rightarrow>
          (case session_loop envs session_id stream (self, tracker) of
             Panics \<Rightarrow> Panics
           | Returns (out, res, self, tracker) \<Rightarrow> Returns (out, res,
               self\<lparr>js_pending_missing := drop_jd_session session_id (js_pending_missing self)\<rparr>, tracker)))"

section \<open>The stream splits into the frames that were sent\<close>

lemma read_full_message_frame:
  assumes "length payload \<le> 1048576"
  shows "read_full_message (frame_message ty payload @ rest) = (Inr (Some (frame_message ty payload)), rest)"
proof -
  define f where "f = \<lparr>extension_type = 0, msg_type = ty, frame_length = of_nat (length payload)\<rparr>"
  have f: "frame_message ty payload = MessageFrame_encode f @ payload" by (simp add: frame_message_def f_def)
  have len: "unat (frame_length f) = length payload" using assms by (simp add: f_def unat_of_nat)
  have h: "length (MessageFrame_encode f) = 6" by (simp add: MessageFrame_encode_def)
  have "MessageFrame_decode (MessageFrame_encode f) = Inr f"
    using MessageFrame_decode_encode [of f "[]"] assms len by simp
  moreover have "\<not> MAX_FRAME_SIZE < frame_length f"
    using assms len by (simp add: MAX_FRAME_SIZE_def word_less_nat_alt)
  ultimately show ?thesis
    using len h by (simp add: f read_full_message_def HEADER_SIZE_def Let_def)
qed

text \<open>The messages of a session handled one after the other, until one of them ends the connection.\<close>

fun run_frames :: "(nat \<Rightarrow> jd_env) \<Rightarrow> u64 \<Rightarrow> bytes list \<Rightarrow> jd_world \<Rightarrow> session_result" where
  "run_frames envs session_id [] w = Returns ([], Inr (), cleanup_ticks (je_ticks (envs 0)) w)"
| "run_frames envs session_id (f # fs) w =
     (case dispatch (envs 0) session_id f (cleanup_ticks (je_ticks (envs 0)) w) of
        Panics \<Rightarrow> Panics
      | Returns (Inl e, w) \<Rightarrow> Returns ([], Inl e, w)
      | Returns (Inr answer, w) \<Rightarrow>
          (case run_frames (\<lambda>i. envs (Suc i)) session_id fs w of
             Panics \<Rightarrow> Panics
           | Returns (out, res, w) \<Rightarrow> Returns ((case answer of None \<Rightarrow> out | Some data \<Rightarrow> data # out), res, w)))"

text \<open>
  C34.  A session reads back exactly the frames the client wrote, whatever their contents, and hands them to
  their handlers in order; it always ends, and a header cut off by the end of the stream ends it
  without an error.
\<close>

theorem session_splits_stream:
  assumes "\<forall>(ty, payload) \<in> set ms. length payload \<le> 1048576" "length tail < HEADER_SIZE"
  shows "session_loop envs session_id (concat (map (\<lambda>(ty, payload). frame_message ty payload) ms) @ tail) w =
    run_frames envs session_id (map (\<lambda>(ty, payload). frame_message ty payload) ms) w"
  using assms(1)
proof (induction ms arbitrary: envs w)
  case Nil
  then show ?case
    using assms(2) by (simp add: session_loop.simps [of envs] read_full_message_def)
next
  case (Cons m ms)
  obtain ty payload where m: "m = (ty, payload)" by fastforce
  have "length payload \<le> 1048576" using Cons.prems m by simp
  note read = read_full_message_frame [OF this, of ty]
  have IH: "session_loop e session_id (concat (map (\<lambda>(ty, payload). frame_message ty payload) ms) @ tail) w =
      run_frames e session_id (map (\<lambda>(ty, payload). frame_message ty payload) ms) w" for e w
    using Cons by simp
  show ?case
    by (subst session_loop.simps) (simp add: m read IH Let_def split: outcome.splits prod.splits sum.splits)
qed

lemma decode_frame_message:
  assumes "length payload \<le> 1048576"
  shows "MessageFrame_decode (frame_message ty payload) =
    Inr \<lparr>extension_type = 0, msg_type = ty, frame_length = of_nat (length payload)\<rparr>"
  unfolding frame_message_def using assms by (subst MessageFrame_decode_encode) (simp_all add: unat_of_nat)

definition quiet_env :: jd_env where
  "quiet_env = \<lparr>je_equihash = (\<lambda>_ _ _ _ _. Inr ()), je_sha256 = (\<lambda>x. x), je_blake2b = (\<lambda>_ x. x), je_heap = 1000000,
     je_iter = (\<lambda>_. []), je_clk = (\<lambda>_. 0), je_random = replicate 16 0,
     je_shares = (\<lambda>_. \<lparr>se_now = 0, se_sys_now = 0, se_tip = None\<rparr>), je_ticks = []\<rparr>"

text \<open>Messages of unknown types are skipped.\<close>

theorem session_splits_stream_witness:
  "session_loop (\<lambda>_. quiet_env) 1 (frame_message 0x7f [1, 2, 3] @ frame_message 0x7e [] @ [0, 0, 0x50])
      (jd_server_1, PayoutTracker_new 0) = Returns ([], Inr (), jd_server_1, PayoutTracker_new 0)"
proof -
  have ticks: "cleanup_ticks (je_ticks quiet_env) w = w" for w
    by (simp add: cleanup_ticks_def quiet_env_def)
  have skip: "dispatch quiet_env 1 (frame_message ty payload) w = Returns (Inr None, w)"
    if "length payload \<le> 1048576" "ty = 0x7f \<or> ty = 0x7e" for ty payload w
    using that by (auto simp: dispatch_def with_decoded_def decode_frame_message ALLOCATE_MINING_JOB_TOKEN_def
        SET_CUSTOM_MINING_JOB_def PUSH_SOLUTION_def SUBMIT_SHARES_JD_def SET_FULL_TEMPLATE_JOB_def
        PROVIDE_MISSING_TRANSACTIONS_def)
  show ?thesis
    using session_splits_stream [of "[(0x7f, [1, 2, 3]), (0x7e, [])]" "[0, 0, 0x50]" "\<lambda>_. quiet_env" 1
        "(jd_server_1, PayoutTracker_new 0)"]
    by (simp add: HEADER_SIZE_def ticks skip)
qed

end
