(* ===== verification/Jd_Run.thy ===== *)
theory Jd_Run
  imports Jd_Session
begin

text \<open>
  Runs of the job declaration server: any interleaving of the messages of any number of clients, of
  connections opened and closed, of cleanup ticks and of the calls the pool server makes.  A handler is
  one step, except that the tip may move while a batch of shares is processed; the payout tracker is
  shared with the pool and may change between steps in any way.
\<close>

section \<open>Steps\<close>

inductive jd_step :: "jd_world \<Rightarrow> jd_world \<Rightarrow> bool" where
  jd_allocate: "on_allocate env request w = Returns (r, w') \<Longrightarrow> jd_step w w'"
| jd_declare: "on_declare env decl w = Returns (r, w') \<Longrightarrow> jd_step w w'"
| jd_push: "on_push env solution w = Returns (r, w') \<Longrightarrow> jd_step w w'"
| jd_shares: "on_shares env batch w = Returns (r, w') \<Longrightarrow> jd_step w w'"
| jd_full: "on_full_template env session_id template w = Returns (r, w') \<Longrightarrow> jd_step w w'"
| jd_provide: "on_provide env session_id transactions w = Returns (r, w') \<Longrightarrow> jd_step w w'"
| jd_ticks: "jd_step w (cleanup_ticks ticks w)"
| jd_connect: "open_session self = (res, self') \<Longrightarrow> jd_step (self, tracker) (self', tracker)"
| jd_disconnect: "jd_step (self, tracker)
    (self\<lparr>js_pending_missing := drop_jd_session session_id (js_pending_missing self)\<rparr>, tracker)"
| jd_tip: "jd_step (self, tracker) (set_current_prev_hash prev_hash self, tracker)"
| jd_template: "jd_step (self, tracker) (set_current_template ctx self, tracker)"
| jd_known: "jd_step (self, tracker) (server_update_known_txids iter txids self, tracker)"
| jd_pool: "jd_step (self, tracker) (self, tracker')"

text \<open>A dispatched message is one of these steps or leaves everything as it was.\<close>

lemma dispatch_step:
  assumes "dispatch env session_id m w = Returns (r, w')"
  shows "jd_step\<^sup>*\<^sup>* w w'"
proof -
  have "w' = w \<or> jd_step w w'"
    using assms unfolding dispatch_def with_decoded_def
    by (auto split: sum.splits if_splits intro: jd_step.intros)
  then show ?thesis by auto
qed

lemma session_loop_steps:
  "session_loop envs session_id stream w = Returns (out, res, w') \<Longrightarrow> jd_step\<^sup>*\<^sup>* w w'"
proof (induction envs session_id stream w arbitrary: out res w' rule: session_loop.induct)
  case (1 envs session_id stream w)
  let ?w = "cleanup_ticks (je_ticks (envs 0)) w"
  have tick: "jd_step\<^sup>*\<^sup>* w ?w" by (rule r_into_rtranclp) (rule jd_ticks)
  show ?case
  proof (cases "read_full_message stream")
    case (Pair msg rest)
    show ?thesis
    proof (cases "\<exists>m. msg = Inr (Some m)")
      case False
      then have "w' = ?w"
        using "1.prems" Pair by (subst (asm) session_loop.simps) (auto simp: Let_def split: sum.splits option.splits)
      with tick show ?thesis by simp
    next
      case True
      then obtain m where m: "msg = Inr (Some m)" by blast
      note run = "1.prems" [unfolded session_loop.simps [of envs] Pair m, simplified Let_def, simplified]
      obtain r w1 where d: "dispatch (envs 0) session_id m ?w = Returns (r, w1)"
        using run by (auto split: outcome.splits)
      note steps = rtranclp_trans [OF tick dispatch_step [OF d]]
      show ?thesis
      proof (cases r)
        case (Inl e)
        with run d steps show ?thesis by simp
      next
        case (Inr answer)
        then obtain out1 res1 where "session_loop (\<lambda>i. envs (Suc i)) session_id rest w1 = Returns (out1, res1, w')"
          using run d by (auto split: outcome.splits)
        then have "jd_step\<^sup>*\<^sup>* w1 w'"
          using "1.IH" [OF refl Pair [symmetric] m refl d refl Inr] by blast
        with steps show ?thesis by (rule rtranclp_trans)
      qed
    qed
  qed
qed

section \<open>What every declared job has\<close>

definition pays_pool :: "JdServerConfig \<Rightarrow> bytes \<Rightarrow> bool" where
  "pays_pool config coinbase \<longleftrightarrow> (\<exists>heap p out. parse_transaction heap coinbase = Returns (Inr p) \<and>
     out \<in> set (px_outputs p) \<and> to_script_pubkey out = jc_pool_payout_script config \<and>
     jc_min_pool_payout config \<le> to_value out)"

definition job_ok :: "JdServerConfig \<Rightarrow> string \<Rightarrow> DeclaredJobInfo \<Rightarrow> bool" where
  "job_ok config client job \<longleftrightarrow> dj_mode job = CoinbaseOnly \<and> dj_client_id job = client \<and>
     dj_share_target job = jc_share_target config \<and> dj_job_id job \<noteq> 0 \<and>
     (jc_pool_payout_script config \<noteq> [] \<longrightarrow> pays_pool config (dj_coinbase_tx job))"

definition token_ok :: "JdServerConfig \<Rightarrow> MiningJobToken \<Rightarrow> bool" where
  "token_ok config t \<longleftrightarrow> mt_granted_mode t = CoinbaseOnly \<and>
     (\<forall>job. mt_job_info t = Some job \<longrightarrow> job_ok config (mt_client_id t) job)"

definition tokens_ok :: "JdServerConfig \<Rightarrow> TokenManager \<Rightarrow> bool" where
  "tokens_ok config tm \<longleftrightarrow> (\<forall>x \<in> set (tm_tokens tm). token_ok config (snd x))"

definition validator_ok :: "JdServerConfig \<Rightarrow> TemplateValidator \<Rightarrow> bool" where
  "validator_ok config v \<longleftrightarrow> tv_pool_payout_script v = jc_pool_payout_script config \<and>
     tv_min_pool_payout v = jc_min_pool_payout config"

definition jd_inv :: "JdServerConfig \<Rightarrow> JdServer \<Rightarrow> bool" where
  "jd_inv config self \<longleftrightarrow> js_config self = config \<and> validator_ok config (js_validator self) \<and>
     tokens_ok config (js_token_manager self) \<and> pending_ok (js_pending_missing self)"

lemma jd_inv_new: "jd_inv config (JdServer_new config)"
  by (simp add: jd_inv_def JdServer_new_def validator_ok_def TemplateValidator_new_def tokens_ok_def
      TokenManager_new_def pending_default_ok)

lemma tokens_ok_insert:
  assumes "tokens_ok config tm" "token_ok config t"
  shows "tokens_ok config (tm\<lparr>tm_tokens := hm_insert k t (tm_tokens tm)\<rparr>)"
  using assms set_hm_insert_subset [of k t "tm_tokens tm"] unfolding tokens_ok_def by auto

lemma tokens_ok_cleanup: "tokens_ok config tm \<Longrightarrow> tokens_ok config (cleanup_expired now tm)"
  by (auto simp: tokens_ok_def cleanup_expired_def hm_retain_def)

lemma tokens_ok_allocate:
  assumes "tokens_ok config tm"
  shows "tokens_ok config (snd (allocate_token_with_mode clk r client CoinbaseOnly tm))"
proof -
  define tm1 where "tm1 = cleanup_expired (clk 0) tm"
  have "tokens_ok config tm1" using assms by (simp add: tm1_def tokens_ok_cleanup)
  then have "tokens_ok config (snd (draw_token r tm1))" by (simp add: draw_token_def tokens_ok_def)
  then have "tokens_ok config (snd (store_token (clk 2) client CoinbaseOnly tok (snd (draw_token r tm1))))" for tok
    unfolding store_token_def Let_def snd_conv by (rule tokens_ok_insert) (simp add: token_ok_def)
  with \<open>tokens_ok config tm1\<close> show ?thesis
    by (simp add: allocate_token_with_mode_def tm1_def Let_def split_beta split: sum.split)
qed

lemma tokens_ok_set_job_info:
  assumes "tokens_ok config tm" and "\<And>t. hm_get (tm_tokens tm) token = Some t \<Longrightarrow> job_ok config (mt_client_id t) job"
  shows "tokens_ok config (snd (set_job_info now token job tm))"
proof (cases "hm_get (tm_tokens tm) token")
  case (Some t)
  have "token_ok config t" using assms(1) hm_get_SomeD [OF Some] by (auto simp: tokens_ok_def)
  then have "token_ok config (t\<lparr>mt_job_info := Some job\<rparr>)" using assms(2) [OF Some] by (simp add: token_ok_def)
  with assms(1) show ?thesis
    using tokens_ok_insert [of config tm "t\<lparr>mt_job_info := Some job\<rparr>" token] Some by (simp add: set_job_info_def)
qed (use assms(1) in \<open>simp add: set_job_info_def\<close>)

section \<open>Each step keeps it\<close>

lemma jd_inv_fields:
  assumes "jd_inv config self" "js_config self' = js_config self"
    "validator_ok config (js_validator self')" "tokens_ok config (js_token_manager self')"
    "pending_ok (js_pending_missing self')"
  shows "jd_inv config self'"
  using assms by (simp add: jd_inv_def)

lemma allocate_inv:
  assumes "jd_inv config self"
  shows "jd_inv config (snd (handle_allocate_token clk r tracker rid user mode self))"
  using assms tokens_ok_allocate [of config "js_token_manager self" clk r user]
  by (auto simp: handle_allocate_token_def jd_inv_def Let_def split_beta split: sum.split)

lemma declare_inv:
  assumes "jd_inv config self" "handle_declare_job sha256 blake2b heap clk request self = Returns (r, self')"
  shows "jd_inv config self'"
proof (cases "check_declaration (clk 0) request self")
  case (Inl e)
  with assms show ?thesis by (simp add: handle_declare_job_def)
next
  case (Inr t)
  show ?thesis
  proof (cases "validate_custom_job_request sha256 blake2b heap request self = Returns (Inr ())")
    case False
    then have "self' = self"
      using assms(2) Inr by (auto simp: handle_declare_job_def split: outcome.splits sum.splits)
    with assms(1) show ?thesis by simp
  next
    case True
    obtain job_id n where id: "next_positive_job_id (js_next_job_id self) = (job_id, n)" by fastforce
    let ?self = "self\<lparr>js_next_job_id := n\<rparr>"
    let ?job = "declared_job job_id t request ?self"
    have self': "self' = ?self\<lparr>js_token_manager :=
        snd (set_job_info (clk 1) (scj_mining_job_token request) ?job (js_token_manager self))\<rparr>"
      using assms(2) Inr True id by (auto simp: handle_declare_job_def Let_def split_beta split: sum.splits)
    have pays: "jc_pool_payout_script config \<noteq> [] \<longrightarrow> pays_pool config (scj_coinbase_tx request)"
      using validate_coinbase_pays [OF validate_custom_job_request_ok [OF True]] assms(1)
      by (auto simp: pays_pool_def jd_inv_def validator_ok_def)
    have "job_ok config (mt_client_id t) ?job"
      using check_declaration_token [OF Inr] next_positive_job_id_range [OF id] assms(1) pays
      by (simp add: job_ok_def declared_job_def jd_inv_def)
    then have "tokens_ok config (snd (set_job_info (clk 1) (scj_mining_job_token request) ?job (js_token_manager self)))"
      using check_declaration_token [OF Inr] assms(1)
      by (intro tokens_ok_set_job_info) (auto simp: jd_inv_def)
    with assms(1) show ?thesis by (simp add: self' jd_inv_def)
  qed
qed

text \<open>A full template is always refused and changes nothing.\<close>

lemma full_template_refused:
  "\<exists>e. handle_set_full_template_job_for_session sha256 heap clk request session_id self = Returns (Inl (FullError e), self)"
proof -
  obtain e where "check_full_declaration (clk 0) request self = Inl e"
    by (cases "check_full_declaration (clk 0) request self")
      (auto simp: check_full_declaration_def bindR_eq_Inr FULL_TEMPLATE_PAYOUT_AUTHORIZATION_SUPPORTED_def Let_def
        split: if_splits)
  then show ?thesis by (simp add: handle_set_full_template_job_for_session_def)
qed

lemma add_known_txids_ok: "validator_ok config v \<Longrightarrow> validator_ok config (fold (add_known_txid iter) txids v)"
  by (induction txids arbitrary: v) (simp_all add: validator_ok_def add_known_txid_def evict_half_def)

lemma provide_inv:
  assumes "jd_inv config self"
  shows "jd_inv config (snd (handle_provide_missing_transactions_for_owner sha256 iter clk msg owner self))"
  using assms
  by (auto simp: handle_provide_missing_transactions_for_owner_def jd_inv_def Let_def pending_expire_ok
      pending_remove_ok add_known_txids_ok split: option.split sum.split)

lemma process_share_only_seen:
  "process_share eq sha256 msg job tip env share (self, tracker) = Returns (v, self', tracker') \<Longrightarrow>
    \<exists>s. self' = self\<lparr>js_seen_shares := s\<rparr>"
  by (auto simp: process_share_def record_key_def Let_def split: sum.splits if_splits outcome.splits
      intro: exI [of _ "js_seen_shares self'"])

lemma process_shares_only_seen:
  "process_shares eq sha256 msg job tip env shares c (self, tracker) = Returns (c', self', tracker') \<Longrightarrow>
    \<exists>s. self' = self\<lparr>js_seen_shares := s\<rparr>"
proof (induction shares arbitrary: env c self tracker)
  case Nil
  then show ?case by (auto intro: exI [of _ "js_seen_shares self"])
next
  case (Cons share shares)
  then obtain v self1 tracker1 where
    step: "process_share eq sha256 msg job tip (env 0) share (self, tracker) = Returns (v, self1, tracker1)"
    by (auto split: outcome.splits)
  from process_share_only_seen [OF step] Cons.IH [of "\<lambda>i. env (Suc i)" "count_verdict v c" self1 tracker1] Cons.prems step
  show ?case by auto
qed

lemma shares_only_seen:
  assumes "handle_submit_shares_jd eq sha256 clk env msg (self, tracker) = Returns (r, self', tracker')"
  shows "\<exists>s. self' = self\<lparr>js_seen_shares := s\<rparr>"
proof -
  have "\<exists>s. self' = (evict_unresolved (clk 0) self)\<lparr>js_seen_shares := s\<rparr>"
    using assms
    by (auto simp: handle_submit_shares_jd_def Let_def split: sum.splits if_splits outcome.splits
        dest: process_shares_only_seen intro: exI [of _ "js_seen_shares (evict_unresolved (clk 0) self)"])
  then show ?thesis by (auto simp: evict_unresolved_def)
qed

lemma pending_ticks_ok: "pending_ok ps \<Longrightarrow> pending_ok (fold pending_expire ticks ps)"
  by (induction ticks arbitrary: ps) (simp_all add: pending_expire_ok)

lemma jd_step_inv: "jd_step w w' \<Longrightarrow> jd_inv config (fst w) \<Longrightarrow> jd_inv config (fst w')"
proof (induction rule: jd_step.induct)
  case (jd_allocate env request w r w')
  then show ?case
    using allocate_inv [of config "fst w"]
    by (auto simp: on_allocate_def send_reply_def Let_def split_beta split: sum.splits)
next
  case (jd_declare env decl w r w')
  then show ?case
    using declare_inv [of config "fst w"]
    by (auto simp: on_declare_def send_reply_def Let_def split_beta split: outcome.splits sum.splits prod.splits)
next
  case (jd_push env solution w r w')
  then show ?case by (auto simp: on_push_def split: sum.splits)
next
  case (jd_shares env batch w r w')
  then obtain resp where "handle_submit_shares_jd (je_equihash env) (je_sha256 env) (je_clk env) (je_shares env) batch
      (fst w, snd w) = Returns (resp, fst w', snd w')"
    by (auto simp: on_shares_def send_reply_def split: outcome.splits prod.splits)
  from shares_only_seen [OF this] jd_shares.prems show ?case by (auto simp: jd_inv_def)
next
  case (jd_full env session_id template w r w')
  then show ?case
    using full_template_refused [of "je_sha256 env" "je_heap env" "je_clk env" template "Some session_id" "fst w"]
    by (auto simp: on_full_template_def send_reply_def split_beta)
next
  case (jd_provide env session_id transactions w r w')
  then show ?case
    using provide_inv [of config "fst w"] by (auto simp: on_provide_def Let_def split_beta)
next
  case (jd_ticks w ticks)
  then show ?case by (simp add: cleanup_ticks_def jd_inv_def pending_ticks_ok)
next
  case (jd_connect self res self' tracker)
  then show ?case by (auto simp: open_session_def jd_inv_def Let_def split: if_splits)
next
  case (jd_disconnect self tracker session_id)
  then show ?case by (simp add: jd_inv_def drop_jd_session_ok)
next
  case (jd_tip self tracker prev_hash)
  then show ?case by (simp add: jd_inv_def set_current_prev_hash_def invalidate_template_ok Let_def)
next
  case (jd_template self tracker ctx)
  then show ?case by (simp add: jd_inv_def set_current_template_def invalidate_template_ok)
next
  case (jd_known self tracker iter txids)
  then show ?case
    by (simp add: jd_inv_def server_update_known_txids_def validator_ok_def update_known_txids_def evict_half_def Let_def)
qed simp

lemma jd_reachable_inv: "jd_step\<^sup>*\<^sup>* (JdServer_new config, tracker) w \<Longrightarrow> jd_inv config (fst w)"
  by (induction rule: rtranclp_induct) (auto simp: jd_inv_new dest: jd_step_inv)

lemma find_job_by_id_InrD:
  "find_job_by_id now job_id tm = Inr job \<Longrightarrow>
    \<exists>k t. (k, t) \<in> set (tm_tokens tm) \<and> mt_job_info t = Some job \<and> dj_job_id job = job_id"
  by (auto simp: find_job_by_id_def ok_or_eq_Inr List.map_filter_def dest!: find_SomeD) blast

text \<open>
  C7.  In any run of the server, every job that shares can be credited for was declared for its coinbase only,
  carries the share target of the pool and a positive identifier, and, when a payout script is
  configured, has a coinbase transaction that parses and pays at least the minimum to that script.
\<close>

theorem declared_jobs_pay_pool:
  assumes "jd_step\<^sup>*\<^sup>* (JdServer_new config, tracker) (self, tracker')"
    and "find_job_by_id now job_id (js_token_manager self) = Inr job"
  shows "dj_mode job = CoinbaseOnly \<and> dj_job_id job = job_id \<and> job_id \<noteq> 0 \<and>
    dj_share_target job = jc_share_target config \<and>
    (jc_pool_payout_script config \<noteq> [] \<longrightarrow> (\<exists>heap p out. parse_transaction heap (dj_coinbase_tx job) = Returns (Inr p) \<and>
       out \<in> set (px_outputs p) \<and> to_script_pubkey out = jc_pool_payout_script config \<and>
       jc_min_pool_payout config \<le> to_value out))"
proof -
  have "tokens_ok config (js_token_manager self)"
    using jd_reachable_inv [OF assms(1)] by (simp add: jd_inv_def)
  with find_job_by_id_InrD [OF assms(2)] show ?thesis
    by (force simp: tokens_ok_def token_ok_def job_ok_def pays_pool_def)
qed

section \<open>A sample run\<close>

definition pool_config_jd :: JdServerConfig where
  "pool_config_jd = JdServerConfig_default\<lparr>jc_pool_payout_script := [81, 82], jc_min_pool_payout := 5000\<rparr>"

definition sample_declaration :: SetCustomMiningJob where
  "sample_declaration = short_declaration\<lparr>scj_mining_job_token := u64_to_le_bytes 1 @ replicate 16 0,
     scj_coinbase_tx := sample_coinbase\<rparr>"

definition sample_token :: MiningJobToken where
  "sample_token = \<lparr>mt_token = u64_to_le_bytes 1 @ replicate 16 0, mt_issued_at = 0, mt_lifetime = from_secs 300,
     mt_client_id = ''alice'', mt_granted_mode = CoinbaseOnly, mt_job_info = None\<rparr>"

definition server_with_token :: JdServer where
  "server_with_token = (JdServer_new pool_config_jd)\<lparr>js_token_manager :=
     \<lparr>tm_config = pool_config_jd, tm_tokens = [(mt_token sample_token, sample_token)], tm_token_counter = 2\<rparr>\<rparr>"

lemma sample_allocation:
  "handle_allocate_token (\<lambda>_. 0) (replicate 16 0) (PayoutTracker_new 0) 1 ''alice'' CoinbaseOnly (JdServer_new pool_config_jd) =
    (Inr \<lparr>ats_request_id = 1, ats_mining_job_token = mt_token sample_token, ats_coinbase_output = [81, 82],
       ats_coinbase_output_max_additional_size = jc_coinbase_output_max_additional_size JdServerConfig_default,
       ats_async_mining_allowed = jc_async_mining_allowed JdServerConfig_default, ats_granted_mode = CoinbaseOnly\<rparr>,
     server_with_token)"
  by (simp add: handle_allocate_token_def JdServer_new_def TokenManager_new_def allocate_token_with_mode_def
      cleanup_expired_def token_limits_def draw_token_def store_token_def hm_insert_def hm_retain_def
      server_with_token_def sample_token_def pool_config_jd_def MAX_TOTAL_TOKENS_def JdServerConfig_default_def
      is_ephemeral_miner_id_def knows_worker_def named_worker_count_def PayoutTracker_new_def MAX_PERSISTED_WORKERS_def
      EPHEMERAL_MINER_PREFIX_def Let_def)

definition server_at_tip :: JdServer where
  "server_at_tip = set_current_prev_hash (replicate 32 1) server_with_token"

definition sample_declared :: DeclaredJobInfo where
  "sample_declared = declared_job 1 sample_token sample_declaration server_at_tip"

definition server_with_job :: JdServer where
  "server_with_job = server_at_tip\<lparr>js_next_job_id := 2, js_token_manager :=
     \<lparr>tm_config = pool_config_jd,
       tm_tokens = [(mt_token sample_token, sample_token\<lparr>mt_job_info := Some sample_declared\<rparr>)], tm_token_counter = 2\<rparr>\<rparr>"

lemma sample_coinbase_accepted: "validate_coinbase 1000000 (js_validator server_at_tip) sample_coinbase = Returns (Inr ())"
proof -
  have same: "set_script [3, 1, 2, 3, 9] sample_tx = sample_tx"
    by (simp add: set_script_def sample_tx_def)
  have "length sample_coinbase \<le> ISIZE_MAX"
    using length_sample_tx [of "[3, 1, 2, 3, 9]"] unfolding same by (simp add: sample_coinbase_def ISIZE_MAX_def)
  moreover have "js_validator server_at_tip = TemplateValidator_new LevelStandard [81, 82] 5000"
    by (simp add: server_at_tip_def set_current_prev_hash_def server_with_token_def JdServer_new_def pool_config_jd_def
        JdServerConfig_default_def Let_def)
  ultimately show ?thesis
    using parse_sample_coinbase coinbase_accepted_iff [of "TemplateValidator_new LevelStandard [81, 82] 5000" sample_coinbase 1000000]
    by (auto simp: TemplateValidator_new_def sample_tx_def)
qed

lemma sample_declare:
  "\<exists>r. handle_declare_job (\<lambda>x. x) (\<lambda>_ x. x) 1000000 (\<lambda>_. 0) sample_declaration server_at_tip = Returns (Inr r, server_with_job)"
proof -
  have tokens: "tm_tokens (js_token_manager server_at_tip) = [(mt_token sample_token, sample_token)]"
    "tm_config (js_token_manager server_at_tip) = pool_config_jd" "tm_token_counter (js_token_manager server_at_tip) = 2"
    "js_current_prev_hash server_at_tip = Some (replicate 32 1)" "js_current_template server_at_tip = None"
    "js_next_job_id server_at_tip = 1" "js_config server_at_tip = pool_config_jd"
    by (simp_all add: server_at_tip_def set_current_prev_hash_def server_with_token_def JdServer_new_def Let_def)
  have live: "\<not> is_expired 0 sample_token"
    by (simp add: is_expired_def sample_token_def duration_since_def)
  have req: "scj_mining_job_token sample_declaration = mt_token sample_token" "scj_coinbase_tx sample_declaration = sample_coinbase"
    "scj_prev_hash sample_declaration = replicate 32 1"
    by (simp_all add: sample_declaration_def sample_token_def short_declaration_def)
  have "mt_token sample_token \<noteq> []" "sample_coinbase \<noteq> []" "mt_granted_mode sample_token = CoinbaseOnly"
    by (simp_all add: sample_token_def sample_coinbase_def tx_bytes_def)
  then have check: "check_declaration 0 sample_declaration server_at_tip = Inr sample_token"
    by (simp add: check_declaration_def custom_validate_def validate_token_def tokens live req hm_get_def Let_def)
  have valid: "validate_custom_job_request (\<lambda>x. x) (\<lambda>_ x. x) 1000000 sample_declaration server_at_tip = Returns (Inr ())"
    using sample_coinbase_accepted
    by (simp add: validate_custom_job_request_def validate_header_fields_def tokens req map_errP_def bindP_def Let_def)
  have id: "next_positive_job_id 1 = (1, 2)" by code_simp
  have set: "set_job_info 0 (mt_token sample_token) job (js_token_manager server_at_tip) =
      (Inr (), \<lparr>tm_config = pool_config_jd, tm_tokens = [(mt_token sample_token, sample_token\<lparr>mt_job_info := Some job\<rparr>)],
         tm_token_counter = 2\<rparr>)" for job
    using tokens live by (cases "js_token_manager server_at_tip") (simp add: set_job_info_def hm_get_def hm_insert_def)
  have "declared_job 1 sample_token sample_declaration (server_at_tip\<lparr>js_next_job_id := 2\<rparr>) = sample_declared"
    by (simp add: sample_declared_def declared_job_def)
  then show ?thesis
    by (simp add: handle_declare_job_def check valid id set tokens req server_with_job_def Let_def)
qed

theorem declared_jobs_pay_pool_witness:
  "\<exists>job. find_job_by_id 0 1 (js_token_manager server_with_job) = Inr job \<and> dj_share_target job = jc_share_target pool_config_jd \<and>
    (\<exists>heap p out. parse_transaction heap (dj_coinbase_tx job) = Returns (Inr p) \<and>
       out \<in> set (px_outputs p) \<and> to_script_pubkey out = [81, 82] \<and> 5000 \<le> to_value out)"
proof -
  let ?t = "PayoutTracker_new 0"
  have "\<exists>r. on_allocate quiet_env \<lparr>amt_request_id = 1, amt_user_identifier = ''alice'', amt_requested_mode = CoinbaseOnly\<rparr>
      (JdServer_new pool_config_jd, ?t) = Returns (r, server_with_token, ?t)"
    using sample_allocation by (simp add: on_allocate_def send_reply_def quiet_env_def)
  then have "jd_step (JdServer_new pool_config_jd, ?t) (server_with_token, ?t)" by (auto intro: jd_allocate)
  moreover have "jd_step (server_with_token, ?t) (server_at_tip, ?t)"
    unfolding server_at_tip_def by (rule jd_tip)
  moreover have "\<exists>r. on_declare quiet_env sample_declaration (server_at_tip, ?t) = Returns (r, server_with_job, ?t)"
    using sample_declare by (auto simp: on_declare_def send_reply_def quiet_env_def)
  then have "jd_step (server_at_tip, ?t) (server_with_job, ?t)" by (auto intro: jd_declare)
  ultimately have run: "jd_step\<^sup>*\<^sup>* (JdServer_new pool_config_jd, ?t) (server_with_job, ?t)"
    by (meson r_into_rtranclp rtranclp.rtrancl_into_rtrancl)
  have "find_job_by_id 0 1 (js_token_manager server_with_job) = Inr sample_declared"
    by (simp add: find_job_by_id_def server_with_job_def is_expired_def sample_token_def duration_since_def
        List.map_filter_def sample_declared_def declared_job_def)
  with declared_jobs_pay_pool [OF run this] show ?thesis
    by (auto simp: pool_config_jd_def)
qed

end
