(* ===== verification/Recent_Ring.thy ===== *)
theory Recent_Ring
  imports Prelude
begin

text \<open>
  The two bounded rings of recent block hashes in the relay sidecar: \<open>DedupRing\<close> of
  \<open>submit_gate.rs\<close>, which the submission gate uses twice, and \<open>HashDedupRing\<close> of \<open>main.rs\<close>,
  which the receive task uses.  A ring stores hashes with the time they were recorded, drops
  entries from the front when they are older than its window, and drops the oldest one when it
  is full.

  The locale \<open>recent_hashes\<close> is the contract of a ring: it represents the log of everything
  recorded, cut down to the live entries of that log.  Its lemmas say how long a recorded hash is
  remembered.  Both rings interpret it; they differ in what a capacity of zero means.
\<close>

type_synonym hash_log = "(string \<times> instant) list"

section \<open>Rings\<close>

record DedupRing =
  dr_capacity :: nat
  dr_window :: duration
  dr_entries :: hash_log

fun drop_expired :: "duration \<Rightarrow> instant \<Rightarrow> hash_log \<Rightarrow> hash_log" where
  "drop_expired window now [] = []"
| "drop_expired window now ((hash, ts) # entries) =
     (if duration_since now ts > window then drop_expired window now entries else (hash, ts) # entries)"

definition DedupRing_new :: "nat \<Rightarrow> duration \<Rightarrow> DedupRing" where
  "DedupRing_new capacity window = \<lparr>dr_capacity = capacity, dr_window = window, dr_entries = []\<rparr>"

definition evict_expired :: "instant \<Rightarrow> DedupRing \<Rightarrow> DedupRing" where
  "evict_expired now self = self\<lparr>dr_entries := drop_expired (dr_window self) now (dr_entries self)\<rparr>"

definition ring_contains :: "string \<Rightarrow> instant \<Rightarrow> DedupRing \<Rightarrow> bool \<times> DedupRing" where
  "ring_contains hash now self =
     (let self = evict_expired now self in (\<exists>e \<in> set (dr_entries self). fst e = hash, self))"

definition ring_count :: "string \<Rightarrow> instant \<Rightarrow> DedupRing \<Rightarrow> nat \<times> DedupRing" where
  "ring_count hash now self =
     (let self = evict_expired now self in (length (filter (\<lambda>e. fst e = hash) (dr_entries self)), self))"

definition ring_record :: "string \<Rightarrow> instant \<Rightarrow> DedupRing \<Rightarrow> DedupRing" where
  "ring_record hash now self =
     (let self = evict_expired now self;
          entries = (if length (dr_entries self) = dr_capacity self then tl (dr_entries self) else dr_entries self)
      in self\<lparr>dr_entries := entries @ [(hash, now)]\<rparr>)"

record HashDedupRing =
  hr_capacity :: nat
  hr_window :: duration
  hr_entries :: hash_log

definition HashDedupRing_new :: "nat \<Rightarrow> duration \<Rightarrow> HashDedupRing" where
  "HashDedupRing_new capacity window = \<lparr>hr_capacity = capacity, hr_window = window, hr_entries = []\<rparr>"

definition hash_evict_expired :: "instant \<Rightarrow> HashDedupRing \<Rightarrow> HashDedupRing" where
  "hash_evict_expired now self = self\<lparr>hr_entries := drop_expired (hr_window self) now (hr_entries self)\<rparr>"

definition hash_contains :: "string \<Rightarrow> instant \<Rightarrow> HashDedupRing \<Rightarrow> bool \<times> HashDedupRing" where
  "hash_contains hash now self =
     (let self = hash_evict_expired now self in (\<exists>e \<in> set (hr_entries self). fst e = hash, self))"

definition hash_record :: "string \<Rightarrow> instant \<Rightarrow> HashDedupRing \<Rightarrow> HashDedupRing" where
  "hash_record hash now self =
     (let self = hash_evict_expired now self in
      if hr_capacity self = 0 then self
      else let entries = (if length (hr_entries self) = hr_capacity self then tl (hr_entries self) else hr_entries self)
           in self\<lparr>hr_entries := entries @ [(hash, now)]\<rparr>)"

section \<open>The log a ring represents\<close>

definition fresh :: "duration \<Rightarrow> instant \<Rightarrow> string \<times> instant \<Rightarrow> bool" where
  "fresh window now e \<longleftrightarrow> duration_since now (snd e) \<le> window"

definition last_n :: "nat \<Rightarrow> 'a list \<Rightarrow> 'a list" where
  "last_n n xs = drop (length xs - n) xs"

definition logged :: "hash_log \<Rightarrow> instant \<Rightarrow> bool" where
  "logged log now \<longleftrightarrow> sorted (map snd log) \<and> (\<forall>e \<in> set log. snd e \<le> now)"

lemma loggedI_record: "logged log t \<Longrightarrow> t \<le> now \<Longrightarrow> logged (log @ [(hash, now)]) now"
  by (auto simp: logged_def sorted_append)

lemma logged_mono: "logged log t \<Longrightarrow> t \<le> now \<Longrightarrow> logged log now"
  by (auto simp: logged_def)

lemma fresh_self [simp]: "fresh window now (hash, now)"
  by (simp add: fresh_def)

lemma fresh_antimono: "t \<le> now \<Longrightarrow> fresh window now e \<Longrightarrow> fresh window t e"
  by (auto simp: fresh_def duration_since_def)

lemma fresh_later_entry: "snd d \<le> snd e \<Longrightarrow> fresh window now d \<Longrightarrow> fresh window now e"
  by (auto simp: fresh_def duration_since_def)

lemma drop_expired_sorted:
  "sorted (map snd log) \<Longrightarrow> drop_expired window now log = filter (fresh window now) log"
proof (induction window now log rule: drop_expired.induct)
  case (2 window now hash ts entries)
  show ?case
  proof (cases "duration_since now ts > window")
    case False
    then have "\<forall>e \<in> set entries. fresh window now e"
      using 2 fresh_later_entry [of "(hash, ts)"] by (auto simp: fresh_def)
    then have "filter (fresh window now) entries = entries" by simp
    moreover have "fresh window now (hash, ts)" using False by (simp add: fresh_def)
    ultimately show ?thesis using False by simp
  qed (use 2 in \<open>auto simp: fresh_def\<close>)
qed simp

lemma length_last_n [simp]: "length (last_n n xs) = min n (length xs)"
  by (simp add: last_n_def)

lemma last_n_snoc: "0 < n \<Longrightarrow> last_n n (xs @ [x]) = (if n \<le> length xs then tl (last_n n xs) else last_n n xs) @ [x]"
  by (simp add: last_n_def drop_Suc [symmetric] tl_drop Suc_diff_le)

lemma last_n_append: "length ys \<le> n \<Longrightarrow> last_n n (xs @ ys) = last_n (n - length ys) xs @ ys"
  by (simp add: last_n_def)

lemma sorted_last_n: "sorted (map snd log) \<Longrightarrow> sorted (map snd (last_n n log))"
  by (simp add: last_n_def drop_map [symmetric] sorted_wrt_drop)

text \<open>On a log in order of time the live entries are at the end, so that cutting and dropping commute.\<close>

lemma filter_fresh_suffix:
  assumes "sorted (map snd log)"
  obtains old where "log = old @ filter (fresh window now) log" "\<forall>e \<in> set old. \<not> fresh window now e"
proof
  have d: "filter (fresh window now) log = dropWhile (\<lambda>e. \<not> fresh window now e) log"
    using assms
  proof (induction log)
    case (Cons e log)
    show ?case
    proof (cases "fresh window now e")
      case True
      then have "\<forall>d \<in> set log. fresh window now d" using Cons.prems fresh_later_entry [of e] by auto
      then show ?thesis using True by simp
    qed (use Cons in auto)
  qed simp
  show "log = takeWhile (\<lambda>e. \<not> fresh window now e) log @ filter (fresh window now) log"
    using d by simp
  show "\<forall>e \<in> set (takeWhile (\<lambda>e. \<not> fresh window now e) log). \<not> fresh window now e"
    by (auto dest: set_takeWhileD)
qed

lemma filter_fresh_last_n:
  assumes "sorted (map snd log)"
  shows "filter (fresh window now) (last_n n log) = last_n n (filter (fresh window now) log)"
proof -
  obtain old where log: "log = old @ filter (fresh window now) log" and old: "\<forall>e \<in> set old. \<not> fresh window now e"
    using filter_fresh_suffix [OF assms] by blast
  define live where "live = filter (fresh window now) log"
  have eq: "last_n n log = last_n (n - length live) old @ last_n n live"
    unfolding log [folded live_def] by (cases "n \<le> length live") (simp_all add: last_n_def)
  have "filter (fresh window now) (last_n (n - length live) old) = []"
    using old by (auto simp: filter_empty_conv last_n_def dest: in_set_dropD)
  moreover have "filter (fresh window now) (last_n n live) = last_n n live"
    by (rule filter_True) (auto simp: live_def last_n_def dest: in_set_dropD)
  ultimately show ?thesis using eq by (simp add: live_def)
qed

lemma filter_fresh_twice:
  "u \<le> now \<Longrightarrow> filter (fresh window now) (filter (fresh window u) log) = filter (fresh window now) log"
  by (auto intro!: filter_cong dest: fresh_antimono)

section \<open>The contract of a ring\<close>

text \<open>
  A ring of some capacity and window represents a log at a time when every later question is
  answered from the live part of the log.
\<close>

locale recent_hashes =
  fixes contains :: "string \<Rightarrow> instant \<Rightarrow> 'r \<Rightarrow> bool \<times> 'r"
    and record_hash :: "string \<Rightarrow> instant \<Rightarrow> 'r \<Rightarrow> 'r"
    and rep :: "'r \<Rightarrow> hash_log \<Rightarrow> instant \<Rightarrow> bool"
    and capacity_of :: "'r \<Rightarrow> nat"
    and window_of :: "'r \<Rightarrow> duration"
    and keep :: "nat \<Rightarrow> hash_log \<Rightarrow> hash_log"
  assumes rep_logged: "rep r log t \<Longrightarrow> logged log t"
    and rep_contains: "rep r log t \<Longrightarrow> t \<le> now \<Longrightarrow> rep (snd (contains hash now r)) log now"
    and contains_iff: "rep r log t \<Longrightarrow> t \<le> now \<Longrightarrow>
      fst (contains hash now r) \<longleftrightarrow>
        (\<exists>e \<in> set (keep (capacity_of r) (filter (fresh (window_of r) now) log)). fst e = hash)"
    and rep_record: "rep r log t \<Longrightarrow> t \<le> now \<Longrightarrow> rep (record_hash hash now r) (log @ [(hash, now)]) now"
    and keep_recent: "0 < capacity_of r \<Longrightarrow> length ys < capacity_of r \<Longrightarrow> x \<in> set (keep (capacity_of r) (xs @ x # ys))"
begin

text \<open>
  A hash is still found as long as its record is inside the window and fewer records than the
  capacity have followed.
\<close>

lemma remembered:
  assumes "rep r (log @ (hash, ts) # later) t" and "t \<le> now"
    and "duration_since now ts \<le> window_of r" and "length later < capacity_of r"
  shows "fst (contains hash now r)"
proof -
  let ?live = "filter (fresh (window_of r) now)"
  have "?live (log @ (hash, ts) # later) = ?live log @ (hash, ts) # ?live later"
    using assms(3) by (simp add: fresh_def)
  moreover have "length (?live later) < capacity_of r"
    using assms(4) length_filter_le [of "fresh (window_of r) now" later] by linarith
  ultimately have "(hash, ts) \<in> set (keep (capacity_of r) (?live (log @ (hash, ts) # later)))"
    using keep_recent [of r "?live later" "(hash, ts)" "?live log"] by simp
  then show ?thesis using contains_iff [OF assms(1,2)] by force
qed

lemma forgotten_unless_recorded:
  assumes "rep r log t" and "t \<le> now" and "\<And>xs. set (keep (capacity_of r) xs) \<subseteq> set xs"
    and "\<forall>e \<in> set log. fst e = hash \<longrightarrow> window_of r < duration_since now (snd e)"
  shows "\<not> fst (contains hash now r)"
proof -
  have "\<not> (\<exists>e \<in> set (filter (fresh (window_of r) now) log). fst e = hash)"
    using assms(4) by (auto simp: fresh_def)
  then show ?thesis using contains_iff [OF assms(1,2), of hash] assms(3) by blast
qed

end

section \<open>Both rings keep the contract\<close>

lemma last_n_recent: "length ys < n \<Longrightarrow> x \<in> set (last_n n (xs @ x # ys))"
  using last_n_append [of "x # ys" n xs] by simp

lemma set_last_n: "set (last_n n xs) \<subseteq> set xs"
  by (auto simp: last_n_def dest: in_set_dropD)

text \<open>A \<open>DedupRing\<close> of capacity zero never drops an entry that is inside the window.\<close>

definition ring_keep :: "nat \<Rightarrow> hash_log \<Rightarrow> hash_log" where
  "ring_keep capacity xs = (if capacity = 0 then xs else last_n capacity xs)"

definition ring_rep :: "DedupRing \<Rightarrow> hash_log \<Rightarrow> instant \<Rightarrow> bool" where
  "ring_rep r log t \<longleftrightarrow> logged log t \<and>
     (\<exists>u \<le> t. dr_entries r = ring_keep (dr_capacity r) (filter (fresh (dr_window r) u) log))"

lemma sorted_ring_keep: "sorted (map snd log) \<Longrightarrow> sorted (map snd (ring_keep c (filter P log)))"
  by (auto simp: ring_keep_def sorted_filter intro: sorted_last_n)

lemma evict_expired_live:
  assumes "ring_rep r log t" and "t \<le> now"
  shows "dr_entries (evict_expired now r) = ring_keep (dr_capacity r) (filter (fresh (dr_window r) now) log)"
    and "ring_rep (evict_expired now r) log now"
proof -
  obtain u where s: "sorted (map snd log)" and u: "u \<le> now"
    and e: "dr_entries r = ring_keep (dr_capacity r) (filter (fresh (dr_window r) u) log)"
    using assms unfolding ring_rep_def logged_def by (meson order_trans)
  have "drop_expired (dr_window r) now (dr_entries r) = filter (fresh (dr_window r) now) (dr_entries r)"
    unfolding e using drop_expired_sorted [OF sorted_ring_keep [OF s]] by simp
  also have "\<dots> = ring_keep (dr_capacity r) (filter (fresh (dr_window r) now) log)"
    unfolding e using filter_fresh_last_n [OF sorted_filter [OF s]] filter_fresh_twice [OF u]
    by (simp add: ring_keep_def)
  finally show "dr_entries (evict_expired now r) = ring_keep (dr_capacity r) (filter (fresh (dr_window r) now) log)"
    by (simp add: evict_expired_def)
  then show "ring_rep (evict_expired now r) log now"
    using logged_mono assms by (auto simp: ring_rep_def evict_expired_def)
qed

lemma evict_expired_fields [simp]:
  "dr_capacity (evict_expired now r) = dr_capacity r" "dr_window (evict_expired now r) = dr_window r"
  by (simp_all add: evict_expired_def)

lemma ring_record_fields [simp]:
  "dr_capacity (ring_record hash now r) = dr_capacity r" "dr_window (ring_record hash now r) = dr_window r"
  by (simp_all add: ring_record_def Let_def)

lemma ring_contains_fields [simp]:
  "dr_capacity (snd (ring_contains hash now r)) = dr_capacity r" "dr_window (snd (ring_contains hash now r)) = dr_window r"
  by (simp_all add: ring_contains_def Let_def)

lemma ring_rep_new: "ring_rep (DedupRing_new capacity window) [] t"
  by (auto simp: ring_rep_def DedupRing_new_def logged_def ring_keep_def last_n_def)

lemma ring_keep_snoc:
  "ring_keep c (xs @ [x]) =
     (if length (ring_keep c xs) = c then tl (ring_keep c xs) else ring_keep c xs) @ [x]"
  by (auto simp: ring_keep_def last_n_snoc)

lemma ring_rep_record:
  assumes "ring_rep r log t" and "t \<le> now"
  shows "ring_rep (ring_record hash now r) (log @ [(hash, now)]) now"
proof -
  have "dr_entries (ring_record hash now r) =
      ring_keep (dr_capacity r) (filter (fresh (dr_window r) now) (log @ [(hash, now)]))"
    using ring_keep_snoc [of "dr_capacity r" "filter (fresh (dr_window r) now) log" "(hash, now)"]
    by (simp add: ring_record_def Let_def evict_expired_live [OF assms])
  then show ?thesis using assms loggedI_record by (auto simp: ring_rep_def)
qed

lemma ring_count_live:
  assumes "ring_rep r log t" and "t \<le> now"
  shows "fst (ring_count hash now r) =
           length (filter (\<lambda>e. fst e = hash) (ring_keep (dr_capacity r) (filter (fresh (dr_window r) now) log)))"
    and "ring_rep (snd (ring_count hash now r)) log now"
  using evict_expired_live [OF assms] by (simp_all add: ring_count_def Let_def)

interpretation dedup: recent_hashes ring_contains ring_record ring_rep dr_capacity dr_window ring_keep
proof
  fix r log t now hash
  assume rep: "ring_rep r log t"
  then show "logged log t" by (simp add: ring_rep_def)
  assume now: "t \<le> now"
  show "ring_rep (snd (ring_contains hash now r)) log now"
    using evict_expired_live [OF rep now] by (simp add: ring_contains_def Let_def)
  show "fst (ring_contains hash now r) \<longleftrightarrow>
      (\<exists>e \<in> set (ring_keep (dr_capacity r) (filter (fresh (dr_window r) now) log)). fst e = hash)"
    using evict_expired_live [OF rep now] by (simp add: ring_contains_def Let_def)
  show "ring_rep (ring_record hash now r) (log @ [(hash, now)]) now"
    by (rule ring_rep_record [OF rep now])
next
  fix r :: DedupRing and ys xs :: hash_log and x
  assume "0 < dr_capacity r" and "length ys < dr_capacity r"
  then show "x \<in> set (ring_keep (dr_capacity r) (xs @ x # ys))"
    by (simp add: ring_keep_def last_n_recent)
qed

definition hash_rep :: "HashDedupRing \<Rightarrow> hash_log \<Rightarrow> instant \<Rightarrow> bool" where
  "hash_rep r log t \<longleftrightarrow> logged log t \<and>
     (\<exists>u \<le> t. hr_entries r = last_n (hr_capacity r) (filter (fresh (hr_window r) u) log))"

lemma hash_evict_live:
  assumes "hash_rep r log t" and "t \<le> now"
  shows "hr_entries (hash_evict_expired now r) = last_n (hr_capacity r) (filter (fresh (hr_window r) now) log)"
    and "hash_rep (hash_evict_expired now r) log now"
proof -
  obtain u where s: "sorted (map snd log)" and u: "u \<le> now"
    and e: "hr_entries r = last_n (hr_capacity r) (filter (fresh (hr_window r) u) log)"
    using assms unfolding hash_rep_def logged_def by (meson order_trans)
  have "drop_expired (hr_window r) now (hr_entries r) = filter (fresh (hr_window r) now) (hr_entries r)"
    unfolding e using drop_expired_sorted [OF sorted_last_n [OF sorted_filter [OF s]]] by simp
  also have "\<dots> = last_n (hr_capacity r) (filter (fresh (hr_window r) now) log)"
    unfolding e using filter_fresh_last_n [OF sorted_filter [OF s]] filter_fresh_twice [OF u] by simp
  finally show "hr_entries (hash_evict_expired now r) = last_n (hr_capacity r) (filter (fresh (hr_window r) now) log)"
    by (simp add: hash_evict_expired_def)
  then show "hash_rep (hash_evict_expired now r) log now"
    using logged_mono assms by (auto simp: hash_rep_def hash_evict_expired_def)
qed

lemma hash_rep_new: "hash_rep (HashDedupRing_new capacity window) [] t"
  by (auto simp: hash_rep_def HashDedupRing_new_def logged_def last_n_def)

lemma hash_rep_record:
  assumes "hash_rep r log t" and "t \<le> now"
  shows "hash_rep (hash_record hash now r) (log @ [(hash, now)]) now"
proof (cases "hr_capacity r = 0")
  case True
  then have "hash_record hash now r = hash_evict_expired now r"
    by (simp add: hash_record_def Let_def hash_evict_expired_def)
  then show ?thesis
    using True hash_evict_live [OF assms] loggedI_record assms
    by (auto simp: hash_rep_def last_n_def hash_evict_expired_def)
next
  case False
  have "hr_entries (hash_record hash now r) =
      last_n (hr_capacity r) (filter (fresh (hr_window r) now) (log @ [(hash, now)]))"
    using False hash_evict_live(1) [OF assms]
    by (simp add: hash_record_def Let_def last_n_snoc hash_evict_expired_def min_def)
  moreover have "hr_capacity (hash_record hash now r) = hr_capacity r" "hr_window (hash_record hash now r) = hr_window r"
    by (simp_all add: hash_record_def Let_def hash_evict_expired_def)
  ultimately show ?thesis using assms loggedI_record by (auto simp: hash_rep_def)
qed

interpretation fast_path: recent_hashes hash_contains hash_record hash_rep hr_capacity hr_window last_n
proof
  fix r log t now hash
  assume rep: "hash_rep r log t"
  then show "logged log t" by (simp add: hash_rep_def)
  assume now: "t \<le> now"
  show "hash_rep (snd (hash_contains hash now r)) log now"
    using hash_evict_live [OF rep now] by (simp add: hash_contains_def Let_def)
  show "fst (hash_contains hash now r) \<longleftrightarrow>
      (\<exists>e \<in> set (last_n (hr_capacity r) (filter (fresh (hr_window r) now) log)). fst e = hash)"
    using hash_evict_live [OF rep now] by (simp add: hash_contains_def Let_def)
  show "hash_rep (hash_record hash now r) (log @ [(hash, now)]) now"
    by (rule hash_rep_record [OF rep now])
next
  fix r :: HashDedupRing and ys xs :: hash_log and x
  assume "length ys < hr_capacity r"
  then show "x \<in> set (last_n (hr_capacity r) (xs @ x # ys))" by (rule last_n_recent)
qed

text \<open>The memory of both rings: a ring of positive capacity never holds more entries than that.\<close>

lemma ring_bounded:
  assumes "ring_rep r log t" and "0 < dr_capacity r"
  shows "length (dr_entries r) \<le> dr_capacity r"
  using assms by (auto simp: ring_rep_def ring_keep_def)

lemma hash_ring_bounded: "hash_rep r log t \<Longrightarrow> length (hr_entries r) \<le> hr_capacity r"
  by (auto simp: hash_rep_def)

end
