(* ===== verification/Block_Body.thy ===== *)
theory Block_Body
  imports Equihash_Validator Compact_Size
begin

text \<open>
  The body of a relayed block, \<open>crates/sovright-relay/src/merkle.rs\<close>: transaction identifiers,
  the merkle root a header commits to, and the strict checks a body passes before it is sent to
  a node, once for a serialized block and once for separate transactions.

  The transaction reader and the compact size reader are third-party crates and a parameter,
  \<open>tx_reader\<close>.  What the proofs rely on is \<open>reader_ok\<close>: a reader stops inside its input and
  does not look beyond what it consumes, and the count it reads is the one the workspace writes.

  The main facts: what is accepted as separate transactions is accepted as the joined block; and
  a header has at most one list of transaction identifiers among accepted bodies of trees of the
  same height, unless two of the hashed pairs collide.
\<close>

section \<open>Transaction identifiers and the merkle root\<close>

record 'tx tx_reader =
  tr_read :: "bytes \<Rightarrow> ('tx \<times> nat) option"
  tr_txid :: "'tx \<Rightarrow> bytes"
  tr_zip244 :: "'tx \<Rightarrow> bool"
  tr_compact_read :: "bytes \<Rightarrow> (u64 \<times> nat) option"
  tr_compact_len :: "nat \<Rightarrow> nat"

definition relay_sha256d :: "sha256_fn \<Rightarrow> bytes \<Rightarrow> bytes" where
  "relay_sha256d sha256 bs = sha256 (sha256 bs)"

definition txid_from_tx_bytes :: "sha256_fn \<Rightarrow> 'tx tx_reader \<Rightarrow> bytes \<Rightarrow> bytes" where
  "txid_from_tx_bytes sha256 R tx_bytes =
     (case tr_read R tx_bytes of
        Some (tx, position) \<Rightarrow>
          if position = length tx_bytes \<and> tr_zip244 R tx then tr_txid R tx else relay_sha256d sha256 tx_bytes
      | None \<Rightarrow> relay_sha256d sha256 tx_bytes)"

text \<open>One pass of the loop: an odd level repeats its last node, then neighbours are hashed.\<close>

definition even_level :: "bytes list \<Rightarrow> bytes list" where
  "even_level level = (if length level mod 2 = 1 then level @ [level ! (length level - 1)] else level)"

fun hash_pairs :: "sha256_fn \<Rightarrow> bytes list \<Rightarrow> bytes list" where
  "hash_pairs sha256 (l # r # rest) = relay_sha256d sha256 (l @ r) # hash_pairs sha256 rest"
| "hash_pairs sha256 _ = []"

definition next_level :: "sha256_fn \<Rightarrow> bytes list \<Rightarrow> bytes list" where
  "next_level sha256 level = hash_pairs sha256 (even_level level)"

lemma length_hash_pairs: "length (hash_pairs sha256 xs) = length xs div 2"
  by (induction sha256 xs rule: hash_pairs.induct) auto

lemma length_next_level: "length (next_level sha256 level) = (length level + 1) div 2"
  by (simp add: next_level_def even_level_def length_hash_pairs) presburger

function merkle_levels :: "sha256_fn \<Rightarrow> bytes list \<Rightarrow> bytes" where
  "merkle_levels sha256 level =
     (if length level > 1 then merkle_levels sha256 (next_level sha256 level) else level ! 0)"
  by auto
termination
  by (relation "measure (\<lambda>(_, level). length level)") (auto simp: length_next_level)

declare merkle_levels.simps [simp del]

definition merkle_root :: "sha256_fn \<Rightarrow> bytes list \<Rightarrow> bytes option" where
  "merkle_root sha256 txids = (if txids = [] then None else Some (merkle_levels sha256 txids))"

definition header_merkle_root :: "bytes \<Rightarrow> bytes option" where
  "header_merkle_root header = (if length header < 68 then None else Some (take 32 (drop 36 header)))"

fun repeated_from :: "bytes list \<Rightarrow> nat \<Rightarrow> bytes list \<Rightarrow> nat option" where
  "repeated_from seen index [] = None"
| "repeated_from seen index (txid # txids) =
     (if txid \<in> set seen then Some index else repeated_from (txid # seen) (index + 1) txids)"

definition first_repeated_txid :: "bytes list \<Rightarrow> nat option" where
  "first_repeated_txid txids = repeated_from [] 0 txids"

definition transactions_match_merkle_root :: "sha256_fn \<Rightarrow> 'tx tx_reader \<Rightarrow> bytes \<Rightarrow> bytes list \<Rightarrow> bool" where
  "transactions_match_merkle_root sha256 R header transactions =
     (case header_merkle_root header of
        None \<Rightarrow> False
      | Some stated \<Rightarrow>
          let txids = map (txid_from_tx_bytes sha256 R) transactions in
          if first_repeated_txid txids \<noteq> None then False
          else (case merkle_root sha256 txids of Some actual \<Rightarrow> actual = stated | None \<Rightarrow> False))"

section \<open>Checked bodies\<close>

definition MAX_BLOCK_BYTES :: nat where "MAX_BLOCK_BYTES = 2000000"

datatype BlockBodyError =
    TooLarge nat
  | InvalidHeaderLength
  | HeaderTarget
  | InvalidCount
  | EmptyTransactions
  | TransactionUnreadable nat
  | TransactionBoundary nat
  | TrailingBytes nat
  | DuplicateTxid nat
  | MerkleMismatch

fun label :: "BlockBodyError \<Rightarrow> string" where
  "label (TooLarge _) = ''too_large''"
| "label InvalidHeaderLength = ''invalid_header_length''"
| "label HeaderTarget = ''header_target''"
| "label InvalidCount = ''invalid_count''"
| "label EmptyTransactions = ''empty_transactions''"
| "label (TransactionUnreadable _) = ''transaction''"
| "label (TransactionBoundary _) = ''transaction_boundary''"
| "label (TrailingBytes _) = ''trailing_bytes''"
| "label (DuplicateTxid _) = ''duplicate_txid''"
| "label MerkleMismatch = ''merkle_mismatch''"

definition BODY_ERROR_ALL :: "BlockBodyError list" where
  "BODY_ERROR_ALL = [TooLarge 0, InvalidHeaderLength, HeaderTarget, InvalidCount, EmptyTransactions,
     TransactionUnreadable 0, TransactionBoundary 0, TrailingBytes 0, DuplicateTxid 0, MerkleMismatch]"

fun position_of :: "('a \<Rightarrow> bool) \<Rightarrow> 'a list \<Rightarrow> nat option" where
  "position_of P [] = None"
| "position_of P (x # xs) = (if P x then Some 0 else map_option Suc (position_of P xs))"

definition kind_index :: "BlockBodyError \<Rightarrow> nat outcome" where
  "kind_index self = (case position_of (\<lambda>kind. label kind = label self) BODY_ERROR_ALL of
     None \<Rightarrow> Panics | Some i \<Rightarrow> Returns i)"

definition check_txids :: "sha256_fn \<Rightarrow> bytes \<Rightarrow> bytes list \<Rightarrow> BlockBodyError + unit" where
  "check_txids sha256 header txids =
     (case first_repeated_txid txids of
        Some index \<Rightarrow> Inl (DuplicateTxid index)
      | None \<Rightarrow>
          let computed = merkle_root sha256 txids in
          if computed = None \<or> computed \<noteq> header_merkle_root header then Inl MerkleMismatch else Inr ())"

text \<open>The loop of \<open>read_checked\<close>: \<open>position\<close> is the cursor in the body, after the header.\<close>

fun read_transactions ::
  "'tx tx_reader \<Rightarrow> nat \<Rightarrow> nat \<Rightarrow> bytes \<Rightarrow> nat \<Rightarrow> (nat \<times> nat) list \<Rightarrow> 'tx list \<Rightarrow>
   BlockBodyError + ((nat \<times> nat) list \<times> 'tx list \<times> nat)" where
  "read_transactions R 0 index body position boundaries txs = Inr (boundaries, txs, position)"
| "read_transactions R (Suc left) index body position boundaries txs =
     (let start = ZCASH_FULL_HEADER_SIZE + position in
      case tr_read R (drop position body) of
        None \<Rightarrow> Inl (case first_repeated_txid (map (tr_txid R) txs) of
                   Some i \<Rightarrow> DuplicateTxid i
                 | None \<Rightarrow> TransactionUnreadable index)
      | Some (tx, consumed) \<Rightarrow>
          read_transactions R left (index + 1) body (position + consumed)
            (boundaries @ [(start, ZCASH_FULL_HEADER_SIZE + (position + consumed))]) (txs @ [tx]))"

definition read_checked ::
  "sha256_fn \<Rightarrow> 'tx tx_reader \<Rightarrow> bytes \<Rightarrow> BlockBodyError + ((nat \<times> nat) list \<times> 'tx)" where
  "read_checked sha256 R raw_block =
     (if length raw_block > MAX_BLOCK_BYTES then Inl (TooLarge (length raw_block))
      else if length raw_block < ZCASH_FULL_HEADER_SIZE then Inl InvalidHeaderLength
      else let header = take ZCASH_FULL_HEADER_SIZE raw_block; body = drop ZCASH_FULL_HEADER_SIZE raw_block in
        bindR (ok_or InvalidCount (tr_compact_read R body)) (\<lambda>(count, position).
        if count = 0 then Inl EmptyTransactions
        else bindR (read_transactions R (unat count) 0 body position [] []) (\<lambda>(boundaries, txs, position).
        bindR (check_txids sha256 header (map (tr_txid R) txs)) (\<lambda>_.
        let trailing = length body - position in
        if trailing \<noteq> 0 then Inl (TrailingBytes trailing)
        else case txs of [] \<Rightarrow> Inl EmptyTransactions | coinbase # _ \<Rightarrow> Inr (boundaries, coinbase)))))"

record 'tx ParsedBlockBody =
  pb_raw :: bytes
  pb_boundaries :: "(nat \<times> nat) list"
  pb_coinbase :: 'tx

definition parse_block_body :: "sha256_fn \<Rightarrow> 'tx tx_reader \<Rightarrow> bytes \<Rightarrow> BlockBodyError + 'tx ParsedBlockBody" where
  "parse_block_body sha256 R raw_block =
     bindR (read_checked sha256 R raw_block) (\<lambda>(boundaries, coinbase).
     Inr \<lparr>pb_raw = raw_block, pb_boundaries = boundaries, pb_coinbase = coinbase\<rparr>)"

definition body_header :: "'tx ParsedBlockBody \<Rightarrow> bytes" where
  "body_header self = take ZCASH_FULL_HEADER_SIZE (pb_raw self)"

definition body_transactions :: "'tx ParsedBlockBody \<Rightarrow> bytes list" where
  "body_transactions self = map (\<lambda>(first, past). take (past - first) (drop first (pb_raw self))) (pb_boundaries self)"

definition validate_block_body :: "sha256_fn \<Rightarrow> 'tx tx_reader \<Rightarrow> bytes \<Rightarrow> BlockBodyError + nat" where
  "validate_block_body sha256 R raw_block =
     bindR (read_checked sha256 R raw_block) (\<lambda>(boundaries, _). Inr (length boundaries))"

fun check_slices :: "'tx tx_reader \<Rightarrow> nat \<Rightarrow> nat \<Rightarrow> bytes list \<Rightarrow> bytes list \<Rightarrow> BlockBodyError + bytes list" where
  "check_slices R index total_bytes txids [] = Inr txids"
| "check_slices R index total_bytes txids (tx_bytes # slices) =
     (let total_bytes = total_bytes + length tx_bytes in
      if total_bytes > MAX_BLOCK_BYTES then Inl (TooLarge total_bytes)
      else case tr_read R tx_bytes of
        None \<Rightarrow> Inl (TransactionUnreadable index)
      | Some (tx, position) \<Rightarrow>
          if position \<noteq> length tx_bytes then Inl (TransactionBoundary index)
          else check_slices R (index + 1) total_bytes (txids @ [tr_txid R tx]) slices)"

definition validate_block_transactions ::
  "sha256_fn \<Rightarrow> 'tx tx_reader \<Rightarrow> bytes \<Rightarrow> bytes list \<Rightarrow> BlockBodyError + nat" where
  "validate_block_transactions sha256 R header transactions =
     (if length header \<noteq> ZCASH_FULL_HEADER_SIZE then Inl InvalidHeaderLength
      else if length transactions = 0 then Inl EmptyTransactions
      else bindR (check_slices R 0 (length header + tr_compact_len R (length transactions)) [] transactions) (\<lambda>txids.
        bindR (check_txids sha256 header txids) (\<lambda>_. Inr (length txids))))"

section \<open>What the reader promises\<close>

text \<open>The largest count the compact size reader accepts.\<close>

definition MAX_COMPACT_COUNT :: nat where "MAX_COMPACT_COUNT = 33554432"

definition reader_ok :: "'tx tx_reader \<Rightarrow> bool" where
  "reader_ok R \<longleftrightarrow>
     (\<forall>bs tx n. tr_read R bs = Some (tx, n) \<longrightarrow>
        0 < n \<and> n \<le> length bs \<and> (\<forall>rest. tr_read R (take n bs @ rest) = Some (tx, n))) \<and>
     (\<forall>n rest. n \<le> MAX_COMPACT_COUNT \<longrightarrow>
        tr_compact_read R (compact_bytes (of_nat n) @ rest) = Some (of_nat n, length (compact_bytes (of_nat n)))) \<and>
     (\<forall>n. tr_compact_len R n = length (compact_bytes (of_nat n)))"

text \<open>The transactions of slices that are one transaction each.\<close>

definition slice_tx :: "'tx tx_reader \<Rightarrow> bytes \<Rightarrow> 'tx" where
  "slice_tx R tx_bytes = fst (the (tr_read R tx_bytes))"

definition exact_slice :: "'tx tx_reader \<Rightarrow> bytes \<Rightarrow> bool" where
  "exact_slice R tx_bytes \<longleftrightarrow> tr_read R tx_bytes = Some (slice_tx R tx_bytes, length tx_bytes)"

definition body_txids :: "'tx tx_reader \<Rightarrow> bytes list \<Rightarrow> bytes list" where
  "body_txids R slices = map (\<lambda>s. tr_txid R (slice_tx R s)) slices"

lemma exact_slice_append: "reader_ok R \<Longrightarrow> exact_slice R s \<Longrightarrow> tr_read R (s @ rest) = Some (slice_tx R s, length s)"
  unfolding reader_ok_def exact_slice_def by (metis take_all order_refl)

lemma exact_slice_nonempty: "reader_ok R \<Longrightarrow> exact_slice R s \<Longrightarrow> 0 < length s"
  unfolding reader_ok_def exact_slice_def by blast

lemma check_slices_ok:
  assumes "check_slices R index b acc slices = Inr txids" and "b \<le> MAX_BLOCK_BYTES"
  shows "(\<forall>s \<in> set slices. exact_slice R s) \<and> txids = acc @ body_txids R slices \<and>
         b + length (concat slices) \<le> MAX_BLOCK_BYTES"
  using assms
proof (induction slices arbitrary: index b acc)
  case (Cons s slices)
  then obtain tx where r: "tr_read R s = Some (tx, length s)" and le: "b + length s \<le> MAX_BLOCK_BYTES"
    and c: "check_slices R (index + 1) (b + length s) (acc @ [tr_txid R tx]) slices = Inr txids"
    by (auto simp: Let_def split: if_splits option.splits prod.splits)
  from Cons.IH [OF c le] r show ?case
    by (simp add: body_txids_def exact_slice_def slice_tx_def)
qed (simp add: body_txids_def)

fun bounds_from :: "nat \<Rightarrow> bytes list \<Rightarrow> (nat \<times> nat) list" where
  "bounds_from p [] = []"
| "bounds_from p (s # ss) =
     (ZCASH_FULL_HEADER_SIZE + p, ZCASH_FULL_HEADER_SIZE + (p + length s)) # bounds_from (p + length s) ss"

lemma length_bounds_from [simp]: "length (bounds_from p slices) = length slices"
  by (induction p slices rule: bounds_from.induct) auto

lemma read_transactions_slices:
  assumes "reader_ok R" and "\<forall>s \<in> set slices. exact_slice R s"
  shows "read_transactions R (length slices) index (pre @ concat slices) (length pre) bs txs =
     Inr (bs @ bounds_from (length pre) slices, txs @ map (slice_tx R) slices, length pre + length (concat slices))"
  using assms(2)
proof (induction slices arbitrary: index pre bs txs)
  case (Cons s slices)
  have "tr_read R (s @ concat slices) = Some (slice_tx R s, length s)"
    using exact_slice_append [OF assms(1)] Cons.prems by simp
  then show ?case
    using Cons.IH [of "index + 1" "pre @ s"] Cons.prems by (simp add: Let_def)
qed simp

lemma bounds_from_slices:
  assumes "length header = ZCASH_FULL_HEADER_SIZE"
  shows "map (\<lambda>(first, past). take (past - first) (drop first (header @ pre @ concat slices))) (bounds_from (length pre) slices) = slices"
proof (induction slices arbitrary: pre)
  case (Cons s slices)
  then show ?case using assms Cons.IH [of "pre @ s"] by simp
qed simp

lemma count_slices: "(\<And>s. s \<in> set slices \<Longrightarrow> 0 < length s) \<Longrightarrow> length slices \<le> length (concat slices)"
proof (induction slices)
  case (Cons s slices)
  then have "0 < length s" "length slices \<le> length (concat slices)" by auto
  then show ?case by (cases s) auto
qed simp

section \<open>Separate transactions and the joined block\<close>

lemma validate_block_transactions_ok:
  assumes "validate_block_transactions sha256 R header txs = Inr n" and "reader_ok R"
  shows "length header = ZCASH_FULL_HEADER_SIZE" and "\<forall>s \<in> set txs. exact_slice R s" and "n = length txs"
    and "txs \<noteq> []" and "check_txids sha256 header (body_txids R txs) = Inr ()"
    and "length header + length (compact_bytes (of_nat (length txs))) + length (concat txs) \<le> MAX_BLOCK_BYTES"
proof -
  let ?b = "length header + tr_compact_len R (length txs)"
  obtain txids where h: "length header = ZCASH_FULL_HEADER_SIZE" and ne: "txs \<noteq> []"
    and c: "check_slices R 0 ?b [] txs = Inr txids" and k: "check_txids sha256 header txids = Inr ()" and n: "n = length txids"
    using assms(1) by (auto simp: validate_block_transactions_def bindR_def split: if_splits sum.splits)
  have "tr_compact_len R (length txs) \<le> 9"
    using assms(2) compact_bytes_length [of "of_nat (length txs)"] by (auto simp: reader_ok_def)
  then have "?b \<le> MAX_BLOCK_BYTES" using h by (simp add: MAX_BLOCK_BYTES_def ZCASH_FULL_HEADER_SIZE_def
        BASE_HEADER_BYTES_def SOLUTION_PREFIX_BYTES_def SOLUTION_BYTES_def)
  note ok = check_slices_ok [OF c this]
  show "length header = ZCASH_FULL_HEADER_SIZE" "txs \<noteq> []" by fact+
  show "\<forall>s \<in> set txs. exact_slice R s" "n = length txs" "check_txids sha256 header (body_txids R txs) = Inr ()"
    using ok k n by (auto simp: body_txids_def)
  show "length header + length (compact_bytes (of_nat (length txs))) + length (concat txs) \<le> MAX_BLOCK_BYTES"
    using ok assms(2) by (simp add: reader_ok_def)
qed

lemma joined_block_parses:
  assumes v: "validate_block_transactions sha256 R header txs = Inr n" and R: "reader_ok R"
  defines "block \<equiv> write_compact_size (of_nat (length txs)) header @ concat txs"
  shows "read_checked sha256 R block =
      Inr (bounds_from (length (compact_bytes (of_nat (length txs)))) txs, slice_tx R (hd txs))"
proof -
  note ok = validate_block_transactions_ok [OF v R]
  define count where "count = compact_bytes (of_nat (length txs) :: u64)"
  have block: "block = header @ count @ concat txs" by (simp add: block_def write_compact_size_eq count_def)
  have "length txs \<le> length (concat txs)"
    by (rule count_slices) (use ok(2) exact_slice_nonempty [OF R] in blast)
  then have max: "length txs \<le> MAX_COMPACT_COUNT" using ok(6) by (simp add: MAX_BLOCK_BYTES_def MAX_COMPACT_COUNT_def)
  then have u: "unat (of_nat (length txs) :: u64) = length txs"
    by (simp add: unat_of_nat MAX_COMPACT_COUNT_def)
  have nz: "(of_nat (length txs) :: u64) \<noteq> 0" using u ok(4) by (metis length_0_conv unat_0)
  have read: "tr_compact_read R (count @ concat txs) = Some (of_nat (length txs), length count)"
    using R max by (simp add: reader_ok_def count_def)
  have loop: "read_transactions R (length txs) 0 (count @ concat txs) (length count) [] [] =
      Inr (bounds_from (length count) txs, map (slice_tx R) txs, length count + length (concat txs))"
    using read_transactions_slices [OF R ok(2), of 0 count "[]" "[]"] by simp
  have txids: "map (tr_txid R) (map (slice_tx R) txs) = body_txids R txs" by (simp add: body_txids_def)
  have len: "\<not> MAX_BLOCK_BYTES < length block" "\<not> length block < ZCASH_FULL_HEADER_SIZE"
    using ok(1,6) by (simp_all add: block count_def)
  have parts: "take ZCASH_FULL_HEADER_SIZE block = header" "drop ZCASH_FULL_HEADER_SIZE block = count @ concat txs"
    using ok(1) by (simp_all add: block)
  have first: "(case map (slice_tx R) txs of [] \<Rightarrow> Inl EmptyTransactions | coinbase # _ \<Rightarrow> Inr (bs, coinbase)) =
      Inr (bs, slice_tx R (hd txs))" for bs :: "(nat \<times> nat) list"
    using ok(4) by (cases txs) auto
  show ?thesis
    unfolding read_checked_def Let_def parts
    using len read loop u nz ok(5) txids by (simp add: count_def [symmetric] first del: list.case_distrib map_map)
qed

section \<open>What a merkle root commits to\<close>

text \<open>
  Reading the tree from its root: position \<open>i\<close> of the lowest level of the perfect tree of height
  \<open>h\<close> holds the identifier \<open>leaf_index h n i\<close> of a list of \<open>n\<close>.  The first \<open>n\<close> positions are the
  list itself, the others repeat some of it.
\<close>

fun tree_height :: "nat \<Rightarrow> nat" where
  "tree_height n = (if n \<le> 1 then 0 else Suc (tree_height ((n + 1) div 2)))"

declare tree_height.simps [simp del]

fun leaf_index :: "nat \<Rightarrow> nat \<Rightarrow> nat \<Rightarrow> nat" where
  "leaf_index 0 n i = i"
| "leaf_index (Suc h) n i = min (n - 1) (2 * leaf_index h ((n + 1) div 2) (i div 2) + i mod 2)"

fun pair_inputs :: "bytes list \<Rightarrow> bytes set" where
  "pair_inputs (l # r # rest) = insert (l @ r) (pair_inputs rest)"
| "pair_inputs _ = {}"

text \<open>Everything the computation of a root hashes.\<close>

function merkle_inputs :: "sha256_fn \<Rightarrow> bytes list \<Rightarrow> bytes set" where
  "merkle_inputs sha256 level =
     (if length level > 1 then pair_inputs (even_level level) \<union> merkle_inputs sha256 (next_level sha256 level) else {})"
  by auto
termination
  by (relation "measure (\<lambda>(_, level). length level)") (auto simp: length_next_level)

declare merkle_inputs.simps [simp del]

lemma nth_hash_pairs:
  "2 * k + 1 < length xs \<Longrightarrow> hash_pairs sha256 xs ! k = relay_sha256d sha256 (xs ! (2 * k) @ xs ! (2 * k + 1))"
proof (induction sha256 xs arbitrary: k rule: hash_pairs.induct)
  case (1 sha256 l r rest)
  then show ?case by (cases k) auto
qed auto

lemma nth_pair_inputs: "2 * k + 1 < length xs \<Longrightarrow> xs ! (2 * k) @ xs ! (2 * k + 1) \<in> pair_inputs xs"
proof (induction xs arbitrary: k rule: pair_inputs.induct)
  case (1 l r rest)
  then show ?case by (cases k) auto
qed auto

lemma length_even_level: "length (even_level level) = 2 * ((length level + 1) div 2)"
  by (simp add: even_level_def) presburger

lemma nth_even_level:
  "j < length (even_level level) \<Longrightarrow> even_level level ! j = level ! min (length level - 1) j"
proof -
  assume j: "j < length (even_level level)"
  show ?thesis
  proof (cases "j < length level")
    case True
    then have "min (length level - 1) j = j" by linarith
    then show ?thesis using True by (simp add: even_level_def nth_append)
  next
    case False
    then have "length level mod 2 = 1" "j = length level" using j by (auto simp: even_level_def split: if_splits)
    then show ?thesis by (simp add: even_level_def min_def)
  qed
qed

definition left_child :: "bytes list \<Rightarrow> nat \<Rightarrow> bytes" where
  "left_child level k = level ! min (length level - 1) (2 * k)"

definition right_child :: "bytes list \<Rightarrow> nat \<Rightarrow> bytes" where
  "right_child level k = level ! min (length level - 1) (2 * k + 1)"

lemma left_child_in: "level \<noteq> [] \<Longrightarrow> left_child level k \<in> set level"
  unfolding left_child_def by (rule nth_mem) (simp add: min_less_iff_disj)

lemma nth_next_level:
  assumes "k < (length level + 1) div 2"
  shows "next_level sha256 level ! k = relay_sha256d sha256 (left_child level k @ right_child level k)"
    and "left_child level k @ right_child level k \<in> pair_inputs (even_level level)"
proof -
  have j: "2 * k < length (even_level level)" "2 * k + 1 < length (even_level level)"
    using assms by (simp_all add: length_even_level)
  then show "next_level sha256 level ! k = relay_sha256d sha256 (left_child level k @ right_child level k)"
    using nth_hash_pairs [OF j(2)] by (simp add: next_level_def nth_even_level left_child_def right_child_def)
  show "left_child level k @ right_child level k \<in> pair_inputs (even_level level)"
    using nth_pair_inputs [OF j(2)] j by (simp add: nth_even_level left_child_def right_child_def)
qed

lemma tree_height_Suc:
  assumes "tree_height n = Suc h"
  shows "1 < n" and "tree_height ((n + 1) div 2) = h"
  using assms by (simp_all add: tree_height.simps [of n] split: if_splits)

lemma tree_height_zero: "tree_height n = 0 \<Longrightarrow> n \<le> 1"
  by (simp add: tree_height.simps [of n] split: if_splits)

lemma le_tree_size: "tree_height n = h \<Longrightarrow> n \<le> 2 ^ h"
proof (induction h arbitrary: n)
  case (Suc h)
  have "(n + 1) div 2 \<le> 2 ^ h" using Suc.IH tree_height_Suc(2) [OF Suc.prems] by blast
  then show ?case by simp
qed (use tree_height_zero in simp)

lemma leaf_index_less: "0 < n \<Longrightarrow> tree_height n = h \<Longrightarrow> i < 2 ^ h \<Longrightarrow> leaf_index h n i < n"
  by (cases h) (auto simp: min_def)

lemma leaf_index_same: "i < n \<Longrightarrow> tree_height n = h \<Longrightarrow> leaf_index h n i = i"
proof (induction h arbitrary: n i)
  case (Suc h)
  have "i div 2 < (n + 1) div 2" using Suc.prems(1) by linarith
  then have "leaf_index h ((n + 1) div 2) (i div 2) = i div 2"
    using Suc.IH tree_height_Suc(2) [OF Suc.prems(2)] by blast
  then show ?case using Suc.prems(1) by simp
qed simp

lemma leaf_index_children:
  "level ! leaf_index (Suc h) (length level) i =
    (if i mod 2 = 0 then left_child level (leaf_index h ((length level + 1) div 2) (i div 2))
     else right_child level (leaf_index h ((length level + 1) div 2) (i div 2)))"
  by (auto simp: left_child_def right_child_def)

text \<open>Equal roots of trees of equal height give equal leaves, if the hashed pairs do not collide.\<close>

lemma equal_roots_equal_leaves:
  assumes "\<And>bs. length (sha256 bs) = 32"
    and "tree_height (length xs) = h" "tree_height (length ys) = h" and "xs \<noteq> []" "ys \<noteq> []"
    and "\<forall>x \<in> set xs \<union> set ys. length x = 32"
    and "inj_on (relay_sha256d sha256) (merkle_inputs sha256 xs \<union> merkle_inputs sha256 ys)"
    and "merkle_levels sha256 xs = merkle_levels sha256 ys" and "i < 2 ^ h"
  shows "xs ! leaf_index h (length xs) i = ys ! leaf_index h (length ys) i"
  using assms(2-)
proof (induction h arbitrary: xs ys i)
  case 0
  then have "\<not> 1 < length xs" "\<not> 1 < length ys" by (auto dest!: tree_height_zero)
  then show ?case using 0 by (simp add: merkle_levels.simps [of sha256 xs] merkle_levels.simps [of sha256 ys])
next
  case (Suc h)
  let ?x = "next_level sha256 xs" and ?y = "next_level sha256 ys" and ?k = "i div 2"
  let ?j = "leaf_index h ((length xs + 1) div 2) ?k" and ?l = "leaf_index h ((length ys + 1) div 2) ?k"
  have n: "1 < length xs" "1 < length ys" using tree_height_Suc(1) Suc.prems(1,2) by blast+
  have h: "tree_height ((length xs + 1) div 2) = h" "tree_height ((length ys + 1) div 2) = h"
    using tree_height_Suc(2) Suc.prems(1,2) by blast+
  have k: "?k < 2 ^ h" using Suc.prems(8) by simp
  have j: "?j < (length xs + 1) div 2" and l: "?l < (length ys + 1) div 2"
    using leaf_index_less [OF _ h(1) k] leaf_index_less [OF _ h(2) k] n by simp_all
  have inp: "merkle_inputs sha256 zs = pair_inputs (even_level zs) \<union> merkle_inputs sha256 (next_level sha256 zs)"
    if "1 < length zs" for zs using that by (subst merkle_inputs.simps) simp
  have node: "z \<in> set (next_level sha256 zs) \<Longrightarrow> length z = 32" for z zs
    unfolding in_set_conv_nth length_next_level using nth_next_level(1) assms(1) by (auto simp: relay_sha256d_def)
  have "?x ! ?j = ?y ! ?l"
    using Suc.IH [of ?x ?y ?k] h k n Suc.prems(6,7) node
    by (auto simp: length_next_level inp merkle_levels.simps [of sha256 xs] merkle_levels.simps [of sha256 ys]
        simp flip: length_0_conv intro: inj_on_subset)
  then have "relay_sha256d sha256 (left_child xs ?j @ right_child xs ?j) =
      relay_sha256d sha256 (left_child ys ?l @ right_child ys ?l)"
    using nth_next_level(1) j l by simp
  moreover have "left_child xs ?j @ right_child xs ?j \<in> merkle_inputs sha256 xs"
      "left_child ys ?l @ right_child ys ?l \<in> merkle_inputs sha256 ys"
    using nth_next_level(2) j l inp n by blast+
  ultimately have "left_child xs ?j @ right_child xs ?j = left_child ys ?l @ right_child ys ?l"
    using Suc.prems(6) by (auto dest: inj_onD)
  moreover have "length (left_child xs ?j) = length (left_child ys ?l)"
    using Suc.prems(5) left_child_in [OF Suc.prems(3)] left_child_in [OF Suc.prems(4)] by simp
  ultimately show ?case unfolding leaf_index_children by simp
qed

text \<open>Lists without repetition are then equal: the longer one would repeat a leaf of the shorter.\<close>

lemma equal_leaves_shorter:
  assumes "tree_height (length xs) = h" "tree_height (length ys) = h" and "xs \<noteq> []" and "distinct ys"
    and "\<forall>i < 2 ^ h. xs ! leaf_index h (length xs) i = ys ! leaf_index h (length ys) i"
  shows "length ys \<le> length xs"
proof (rule ccontr)
  define n where "n = length xs"
  assume "\<not> length ys \<le> length xs"
  then have n: "n < length ys" by (simp add: n_def)
  then have i: "n < 2 ^ h" using le_tree_size [OF assms(2)] by linarith
  let ?i = "leaf_index h n n"
  have less: "?i < n" using leaf_index_less assms(1,3) i by (simp add: n_def)
  have "ys ! n = xs ! ?i" using assms(5) i leaf_index_same [OF n assms(2)] by (simp add: n_def)
  also have "\<dots> = ys ! ?i"
    using assms(5) [rule_format, of ?i] less i n leaf_index_same [of ?i n h] leaf_index_same [of ?i "length ys" h] assms(1,2)
    by (simp add: n_def [symmetric])
  finally show False using assms(4) n less by (simp add: nth_eq_iff_index_eq)
qed

lemma merkle_root_binding:
  assumes "\<And>bs. length (sha256 bs) = 32" and "tree_height (length xs) = tree_height (length ys)"
    and "xs \<noteq> []" "ys \<noteq> []" and "distinct xs" "distinct ys" and "\<forall>x \<in> set xs \<union> set ys. length x = 32"
    and "inj_on (relay_sha256d sha256) (merkle_inputs sha256 xs \<union> merkle_inputs sha256 ys)"
    and "merkle_root sha256 xs = merkle_root sha256 ys"
  shows "xs = ys"
proof -
  obtain h where h: "tree_height (length xs) = h" "tree_height (length ys) = h" using assms(2) by auto
  have "merkle_levels sha256 xs = merkle_levels sha256 ys" using assms(3,4,9) by (simp add: merkle_root_def)
  note leaves = equal_roots_equal_leaves [OF assms(1) h assms(3,4,7,8) this]
  have "length xs = length ys"
    using equal_leaves_shorter [OF h assms(3,6)] equal_leaves_shorter [OF h(2,1) assms(4,5)] leaves by force
  moreover have "xs ! i = ys ! i" if "i < length xs" for i
    using leaves [of i] that leaf_index_same [OF _ h(1), of i] leaf_index_same [OF _ h(2), of i] calculation
      le_tree_size [OF h(1)] by simp
  ultimately show ?thesis by (simp add: nth_equalityI)
qed

section \<open>Accepted bodies\<close>

lemma repeated_from_None:
  "repeated_from seen index txids = None \<longleftrightarrow> distinct txids \<and> set seen \<inter> set txids = {}"
  by (induction seen index txids rule: repeated_from.induct) auto

lemma first_repeated_txid_None [simp]: "first_repeated_txid txids = None \<longleftrightarrow> distinct txids"
  by (simp add: first_repeated_txid_def repeated_from_None)

lemma check_txids_ok:
  "check_txids sha256 header txids = Inr () \<longleftrightarrow>
     distinct txids \<and> txids \<noteq> [] \<and> merkle_root sha256 txids = header_merkle_root header"
  by (auto simp: check_txids_def Let_def merkle_root_def split: option.splits if_splits
      simp flip: first_repeated_txid_None)

text \<open>
  C30.  Transactions that pass the checks one by one form a block that passes them as a whole: the
  strict reader accepts the header, the count and the transactions written one after the other,
  and finds the same header and the same transactions in it.
\<close>

theorem joined_block_is_accepted:
  assumes "reader_ok R" and "validate_block_transactions sha256 R header txs = Inr n"
  shows "\<exists>body. parse_block_body sha256 R (write_compact_size (of_nat n) header @ concat txs) = Inr body \<and>
           body_header body = header \<and> body_transactions body = txs"
proof -
  note ok = validate_block_transactions_ok [OF assms(2,1)]
  have block: "write_compact_size (of_nat (length txs)) header @ concat txs =
      header @ compact_bytes (of_nat (length txs)) @ concat txs" by (simp add: write_compact_size_eq)
  show ?thesis
    using joined_block_parses [OF assms(2,1)] ok(1) bounds_from_slices [OF ok(1)]
    by (simp add: parse_block_body_def body_header_def body_transactions_def ok(3) block)
qed

text \<open>
  C29.  A header commits to one list of transaction identifiers: two lists of transactions that are
  accepted for the same header have the same identifiers in the same order, provided that their
  trees have the same height and that no two of the pairs hashed for them collide.
\<close>

theorem accepted_txids_unique:
  assumes "reader_ok R" and "\<And>bs. length (sha256 bs) = 32" and "\<And>tx. length (tr_txid R tx) = 32"
    and "validate_block_transactions sha256 R header txs = Inr n"
    and "validate_block_transactions sha256 R header txs' = Inr n'"
    and "tree_height n = tree_height n'"
    and "inj_on (relay_sha256d sha256)
           (merkle_inputs sha256 (body_txids R txs) \<union> merkle_inputs sha256 (body_txids R txs'))"
  shows "body_txids R txs = body_txids R txs'"
proof -
  note a = validate_block_transactions_ok [OF assms(4,1)] and b = validate_block_transactions_ok [OF assms(5,1)]
  have len: "\<forall>x \<in> set (body_txids R txs) \<union> set (body_txids R txs'). length x = 32"
    using assms(3) by (auto simp: body_txids_def)
  show ?thesis
    using a(5) b(5) a(3) b(3) assms(6)
    by (intro merkle_root_binding [OF assms(2) _ _ _ _ _ len assms(7)]) (simp_all add: check_txids_ok body_txids_def)
qed

text \<open>A toy reader: a transaction is a byte below 128, its identifier 32 times the low six
  bits, so that the top bit stands for data the identifier does not cover.\<close>

definition toy_reader :: "u8 tx_reader" where
  "toy_reader =
     \<lparr>tr_read = (\<lambda>bs. case bs of [] \<Rightarrow> None | b # _ \<Rightarrow> if b < 128 then Some (b, 1) else None),
      tr_txid = (\<lambda>b. replicate 32 (b AND 63)), tr_zip244 = (\<lambda>_. True),
      tr_compact_read = (\<lambda>bs. case read_compact_size bs 0 of Inl _ \<Rightarrow> None | Inr (v, p) \<Rightarrow> Some (v, p)),
      tr_compact_len = (\<lambda>n. length (compact_bytes (of_nat n)))\<rparr>"

definition toy_sha256 :: sha256_fn where
  "toy_sha256 bs = take 32 (bs @ replicate 32 0)"

definition toy_header :: bytes where
  "toy_header = replicate 36 0 @ replicate 32 5 @ replicate 1419 0"

lemma toy_reader_ok: "reader_ok toy_reader"
proof -
  have "tr_read toy_reader bs = Some (tx, n) \<Longrightarrow>
      0 < n \<and> n \<le> length bs \<and> (\<forall>rest. tr_read toy_reader (take n bs @ rest) = Some (tx, n))" for bs tx n
    by (cases bs) (auto simp: toy_reader_def split: if_splits)
  moreover have "tr_compact_read toy_reader (compact_bytes v @ rest) = Some (v, length (compact_bytes v))" for v rest
    using read_compact_bytes [of "[]" v rest] by (simp add: toy_reader_def)
  ultimately show ?thesis by (auto simp: reader_ok_def toy_reader_def)
qed

lemma toy_validates:
  "validate_block_transactions toy_sha256 toy_reader toy_header [[5]] = Inr 1"
  "validate_block_transactions toy_sha256 toy_reader toy_header [[69]] = Inr 1"
  by (simp_all add: validate_block_transactions_def toy_header_def toy_reader_def check_txids_def merkle_root_def
      merkle_levels.simps header_merkle_root_def first_repeated_txid_def compact_bytes_def MAX_BLOCK_BYTES_def
      ZCASH_FULL_HEADER_SIZE_def BASE_HEADER_BYTES_def SOLUTION_PREFIX_BYTES_def SOLUTION_BYTES_def Let_def)

theorem joined_block_is_accepted_witness:
  "\<exists>body. parse_block_body toy_sha256 toy_reader (write_compact_size (of_nat 1) toy_header @ concat [[5]]) = Inr body \<and>
     body_header body = toy_header \<and> body_transactions body = [[5]]"
  by (rule joined_block_is_accepted [OF toy_reader_ok toy_validates(1)])

theorem accepted_txids_unique_witness: "body_txids toy_reader [[5]] = body_txids toy_reader [[69]]"
  by (rule accepted_txids_unique [OF toy_reader_ok _ _ toy_validates])
    (simp_all add: toy_sha256_def toy_reader_def merkle_inputs.simps body_txids_def)

end
