(* ===== verification/Submit_Gate.thy ===== *)
theory Submit_Gate
  imports Recent_Ring Block_Body
begin

text \<open>
  The safety gate of the relay sidecar, \<open>crates/sovright-relay-sidecar/src/submit_gate.rs\<close>, with
  the candidate type of \<open>submit.rs\<close>: candidate metadata, the checks against the chain, the ring of
  submitted hashes, and the attempts granted to blocks whose body could not be read.

  The gate sees the chain through the trait \<open>ChainView\<close>, here the record of its two methods and
  the locale \<open>chain_view\<close>.  The gate lock and the set of bodies in flight are taken for one
  operation at a time, so a run of the gate is a sequence of operations in the order of time.
  A run is related to a specification that keeps the whole log of what was recorded.
\<close>

section \<open>Configuration, decisions and candidates\<close>

record GateConfig =
  gc_enabled :: bool
  gc_allowed_below :: u64
  gc_dedup_window :: duration
  gc_dedup_capacity :: nat
  gc_unreadable_attempts_per_block :: nat

definition DEFAULT_UNREADABLE_ATTEMPTS_PER_BLOCK :: nat where
  "DEFAULT_UNREADABLE_ATTEMPTS_PER_BLOCK = 4"

definition GateConfig_default :: GateConfig where
  "GateConfig_default =
     \<lparr>gc_enabled = False, gc_allowed_below = 3, gc_dedup_window = from_secs 300, gc_dedup_capacity = 256,
      gc_unreadable_attempts_per_block = DEFAULT_UNREADABLE_ATTEMPTS_PER_BLOCK\<rparr>"

datatype GateRejectReason =
    HeaderMutated
  | UnknownParent
  | OutOfHeightWindow
  | DuplicateSubmit
  | UnverifiedLimit

fun gate_reason_as_str :: "GateRejectReason \<Rightarrow> string" where
  "gate_reason_as_str HeaderMutated = ''header_mutated''"
| "gate_reason_as_str UnknownParent = ''unknown_parent''"
| "gate_reason_as_str OutOfHeightWindow = ''out_of_height_window''"
| "gate_reason_as_str DuplicateSubmit = ''duplicate_submit''"
| "gate_reason_as_str UnverifiedLimit = ''unverified_limit''"

datatype GateDecision = GateAccept | GateReject GateRejectReason

record SubmissionCandidate =
  sc_block_hash :: string
  sc_consensus_block_hash :: string
  sc_block_hex :: string
  sc_tx_count :: nat
  sc_block_bytes :: nat
  sc_unverified :: "BlockBodyError option"

text \<open>Confirmations are an \<open>i64\<close>: a 64 bit word read with its sign.\<close>

record CandidateMeta =
  cm_height :: u64
  cm_parent_hash :: bytes
  cm_block_hash_hex :: string
  cm_observed_tip :: "u64 option"
  cm_parent_confirmations :: "u64 option"

record ParentObservation =
  po_parent_hash :: bytes
  po_height :: u64
  po_confirmations :: "u64 option"

datatype CandidateMetaError =
    HeaderTooShort
  | ParentHeightOverflow
  | ObservationForOtherParent
  | ObservedTipOverflow

fun meta_error_as_str :: "CandidateMetaError \<Rightarrow> string" where
  "meta_error_as_str HeaderTooShort = ''header too short''"
| "meta_error_as_str ParentHeightOverflow = ''parent height overflow''"
| "meta_error_as_str ObservationForOtherParent = ''parent observation is for a different parent''"
| "meta_error_as_str ObservedTipOverflow = ''observed tip overflow''"

definition header_hash_matches :: "CandidateMeta \<Rightarrow> string \<Rightarrow> bool" where
  "header_hash_matches self candidate_hash \<longleftrightarrow> cm_block_hash_hex self = candidate_hash"

definition parent_hash_from_header :: "bytes \<Rightarrow> bytes option" where
  "parent_hash_from_header header = (if length header < 36 then None else Some (take 32 (drop 4 header)))"

definition checked_add_u64 :: "u64 \<Rightarrow> u64 \<Rightarrow> u64 option" where
  "checked_add_u64 a b = (if unat a + unat b < 2 ^ 64 then Some (a + b) else None)"

definition u64_from_i64 :: "u64 \<Rightarrow> u64 option" where
  "u64_from_i64 w = (if 0 \<le> sint w then Some w else None)"

definition observed_tip_of :: "u64 \<Rightarrow> u64 option \<Rightarrow> CandidateMetaError + u64 option" where
  "observed_tip_of parent_height parent_confirmations =
     (case parent_confirmations of
        Some confirmations \<Rightarrow>
          if 1 \<le> sint confirmations
          then bindR (ok_or ObservedTipOverflow
                 (case u64_from_i64 (confirmations - 1) of
                    None \<Rightarrow> None | Some depth \<Rightarrow> checked_add_u64 parent_height depth)) (\<lambda>tip. Inr (Some tip))
          else Inr None
      | None \<Rightarrow> Inr None)"

definition from_header_bytes ::
  "bytes \<Rightarrow> string \<Rightarrow> ParentObservation option \<Rightarrow> CandidateMetaError + CandidateMeta" where
  "from_header_bytes header block_hash_hex parent =
     bindR (ok_or HeaderTooShort (parent_hash_from_header header)) (\<lambda>parent_hash.
     bindR (case parent of
              Some observed \<Rightarrow>
                if po_parent_hash observed \<noteq> parent_hash then Inl ObservationForOtherParent
                else Inr (po_height observed, po_confirmations observed)
            | None \<Rightarrow> Inr (0, None)) (\<lambda>(parent_height, parent_confirmations).
     bindR (ok_or ParentHeightOverflow (checked_add_u64 parent_height 1)) (\<lambda>height.
     bindR (observed_tip_of parent_height parent_confirmations) (\<lambda>observed_tip.
     Inr \<lparr>cm_height = height, cm_parent_hash = parent_hash, cm_block_hash_hex = block_hash_hex,
          cm_observed_tip = observed_tip, cm_parent_confirmations = parent_confirmations\<rparr>))))"

section \<open>The gate\<close>

record 'v ChainView =
  cv_tip_height :: "'v \<Rightarrow> u64"
  cv_parent_known :: "'v \<Rightarrow> bytes \<Rightarrow> bool"

record 'v SubmitGate =
  sg_config :: GateConfig
  sg_chain :: 'v
  sg_dedup :: DedupRing
  sg_unverified_attempts :: DedupRing
  sg_unverified_in_flight :: "bytes set"

definition SubmitGate_new :: "GateConfig \<Rightarrow> 'v \<Rightarrow> 'v SubmitGate" where
  "SubmitGate_new config chain =
     \<lparr>sg_config = config, sg_chain = chain,
      sg_dedup = DedupRing_new (gc_dedup_capacity config) (gc_dedup_window config),
      sg_unverified_attempts = DedupRing_new (gc_dedup_capacity config) (gc_dedup_window config),
      sg_unverified_in_flight = {}\<rparr>"

definition chain_rejection ::
  "'v ChainView \<Rightarrow> 'v SubmitGate \<Rightarrow> SubmissionCandidate \<Rightarrow> CandidateMeta \<Rightarrow> GateRejectReason option" where
  "chain_rejection V self candidate meta =
     (if \<not> header_hash_matches meta (sc_block_hash candidate) then Some HeaderMutated
      else if \<not> cv_parent_known V (sg_chain self) (cm_parent_hash meta) then Some UnknownParent
      else let polled_tip = cv_tip_height V (sg_chain self);
               tip = (case cm_observed_tip meta of None \<Rightarrow> polled_tip | Some observed \<Rightarrow> max observed polled_tip);
               lower = saturating_sub tip (gc_allowed_below (sg_config self));
               upper = saturating_add tip 1
           in if cm_height meta < lower \<or> cm_height meta > upper then Some OutOfHeightWindow else None)"

definition apply_at ::
  "'v ChainView \<Rightarrow> instant \<Rightarrow> 'v SubmitGate \<Rightarrow> SubmissionCandidate \<Rightarrow> CandidateMeta \<Rightarrow> GateDecision \<times> 'v SubmitGate" where
  "apply_at V now self candidate meta =
     (if \<not> gc_enabled (sg_config self) then (GateAccept, self)
      else case chain_rejection V self candidate meta of
        Some reason \<Rightarrow> (GateReject reason, self)
      | None \<Rightarrow>
          let (found, dedup) = ring_contains (sc_block_hash candidate) now (sg_dedup self) in
          if found then (GateReject DuplicateSubmit, self\<lparr>sg_dedup := dedup\<rparr>)
          else (GateAccept, self\<lparr>sg_dedup := ring_record (sc_block_hash candidate) now dedup\<rparr>))"

text \<open>A granted slot is the digest of the body it stands for.\<close>

definition reserve_slot ::
  "sha256_fn \<Rightarrow> instant \<Rightarrow> 'v SubmitGate \<Rightarrow> SubmissionCandidate \<Rightarrow> (GateRejectReason + bytes) \<times> 'v SubmitGate" where
  "reserve_slot sha256 now self candidate =
     (let body = sha256 (as_bytes (sc_block_hex candidate)) in
      if body \<in> sg_unverified_in_flight self then (Inl DuplicateSubmit, self)
      else if gc_enabled (sg_config self)
      then let (attempts, ring) = ring_count (sc_block_hash candidate) now (sg_unverified_attempts self) in
           if attempts \<ge> gc_unreadable_attempts_per_block (sg_config self)
           then (Inl UnverifiedLimit, self\<lparr>sg_unverified_attempts := ring\<rparr>)
           else (Inr body, self\<lparr>sg_unverified_attempts := ring_record (sc_block_hash candidate) now ring,
                               sg_unverified_in_flight := insert body (sg_unverified_in_flight self)\<rparr>)
      else (Inr body, self\<lparr>sg_unverified_in_flight := insert body (sg_unverified_in_flight self)\<rparr>))"

definition reserve_unverified_at ::
  "sha256_fn \<Rightarrow> 'v ChainView \<Rightarrow> instant \<Rightarrow> 'v SubmitGate \<Rightarrow> SubmissionCandidate \<Rightarrow> CandidateMeta \<Rightarrow>
   (GateRejectReason + bytes) \<times> 'v SubmitGate" where
  "reserve_unverified_at sha256 V now self candidate meta =
     (if gc_enabled (sg_config self)
      then case chain_rejection V self candidate meta of
             Some reason \<Rightarrow> (Inl reason, self)
           | None \<Rightarrow>
               let (found, dedup) = ring_contains (sc_block_hash candidate) now (sg_dedup self);
                   self = self\<lparr>sg_dedup := dedup\<rparr> in
               if found then (Inl DuplicateSubmit, self) else reserve_slot sha256 now self candidate
      else reserve_slot sha256 now self candidate)"

definition record_submitted :: "instant \<Rightarrow> 'v SubmitGate \<Rightarrow> SubmissionCandidate \<Rightarrow> 'v SubmitGate" where
  "record_submitted now self candidate =
     self\<lparr>sg_dedup := ring_record (sc_block_hash candidate) now (sg_dedup self)\<rparr>"

definition drop_slot :: "bytes \<Rightarrow> 'v SubmitGate \<Rightarrow> 'v SubmitGate" where
  "drop_slot body self = self\<lparr>sg_unverified_in_flight := sg_unverified_in_flight self - {body}\<rparr>"

section \<open>Runs of the gate\<close>

datatype 'v gate_op =
    Apply SubmissionCandidate CandidateMeta
  | Reserve SubmissionCandidate CandidateMeta
  | Submitted SubmissionCandidate
  | DropSlot bytes
  | ViewChanges 'v

datatype gate_answer = Decided GateDecision | Granted "GateRejectReason + bytes" | Silent

fun gate_step :: "sha256_fn \<Rightarrow> 'v ChainView \<Rightarrow> instant \<Rightarrow> 'v gate_op \<Rightarrow> 'v SubmitGate \<Rightarrow> gate_answer \<times> 'v SubmitGate" where
  "gate_step sha256 V now (Apply c m) g = (let (d, g) = apply_at V now g c m in (Decided d, g))"
| "gate_step sha256 V now (Reserve c m) g = (let (r, g) = reserve_unverified_at sha256 V now g c m in (Granted r, g))"
| "gate_step sha256 V now (Submitted c) g = (Silent, record_submitted now g c)"
| "gate_step sha256 V now (DropSlot body) g = (Silent, drop_slot body g)"
| "gate_step sha256 V now (ViewChanges v) g = (Silent, g\<lparr>sg_chain := v\<rparr>)"

text \<open>Every operation comes with the time since the one before it.\<close>

fun gate_run ::
  "sha256_fn \<Rightarrow> 'v ChainView \<Rightarrow> instant \<Rightarrow> (duration \<times> 'v gate_op) list \<Rightarrow> 'v SubmitGate \<Rightarrow> gate_answer list" where
  "gate_run sha256 V t [] g = []"
| "gate_run sha256 V t ((delay, op) # ops) g =
     (let now = t + int delay; (answer, g) = gate_step sha256 V now op g in answer # gate_run sha256 V now ops g)"

section \<open>The specification: a gate that keeps its whole log\<close>

record 'v log_gate =
  lg_config :: GateConfig
  lg_chain :: 'v
  lg_submitted :: hash_log
  lg_attempts :: hash_log
  lg_in_flight :: "bytes set"

definition log_gate_new :: "GateConfig \<Rightarrow> 'v \<Rightarrow> 'v log_gate" where
  "log_gate_new config chain =
     \<lparr>lg_config = config, lg_chain = chain, lg_submitted = [], lg_attempts = [], lg_in_flight = {}\<rparr>"

definition live :: "GateConfig \<Rightarrow> instant \<Rightarrow> hash_log \<Rightarrow> hash_log" where
  "live config now entries = ring_keep (gc_dedup_capacity config) (filter (fresh (gc_dedup_window config) now) entries)"

definition seen :: "GateConfig \<Rightarrow> instant \<Rightarrow> hash_log \<Rightarrow> string \<Rightarrow> bool" where
  "seen config now entries hash \<longleftrightarrow> (\<exists>e \<in> set (live config now entries). fst e = hash)"

definition tip_of :: "'v ChainView \<Rightarrow> 'v \<Rightarrow> CandidateMeta \<Rightarrow> nat" where
  "tip_of V v meta = (case cm_observed_tip meta of
     None \<Rightarrow> unat (cv_tip_height V v) | Some tip \<Rightarrow> max (unat tip) (unat (cv_tip_height V v)))"

text \<open>The height is at most \<open>2 ^ 64 - 1\<close> anyway, so that the saturation of the upper bound does not show.\<close>

definition height_in_window :: "GateConfig \<Rightarrow> nat \<Rightarrow> u64 \<Rightarrow> bool" where
  "height_in_window config tip height \<longleftrightarrow>
     tip \<le> unat height + unat (gc_allowed_below config) \<and> unat height \<le> tip + 1"

definition chain_fault ::
  "'v ChainView \<Rightarrow> GateConfig \<Rightarrow> 'v \<Rightarrow> SubmissionCandidate \<Rightarrow> CandidateMeta \<Rightarrow> GateRejectReason option" where
  "chain_fault V config v c m =
     (if cm_block_hash_hex m \<noteq> sc_block_hash c then Some HeaderMutated
      else if \<not> cv_parent_known V v (cm_parent_hash m) then Some UnknownParent
      else if \<not> height_in_window config (tip_of V v m) (cm_height m) then Some OutOfHeightWindow
      else None)"

definition gate_fault ::
  "'v ChainView \<Rightarrow> instant \<Rightarrow> 'v log_gate \<Rightarrow> SubmissionCandidate \<Rightarrow> CandidateMeta \<Rightarrow> GateRejectReason option" where
  "gate_fault V now s c m =
     (if \<not> gc_enabled (lg_config s) then None
      else case chain_fault V (lg_config s) (lg_chain s) c m of
        Some reason \<Rightarrow> Some reason
      | None \<Rightarrow> if seen (lg_config s) now (lg_submitted s) (sc_block_hash c) then Some DuplicateSubmit else None)"

definition attempt_fault :: "sha256_fn \<Rightarrow> instant \<Rightarrow> 'v log_gate \<Rightarrow> SubmissionCandidate \<Rightarrow> GateRejectReason option" where
  "attempt_fault sha256 now s c =
     (if sha256 (as_bytes (sc_block_hex c)) \<in> lg_in_flight s then Some DuplicateSubmit
      else if gc_enabled (lg_config s) \<and>
              gc_unreadable_attempts_per_block (lg_config s)
                \<le> length (filter (\<lambda>e. fst e = sc_block_hash c) (live (lg_config s) now (lg_attempts s)))
      then Some UnverifiedLimit else None)"

fun log_step :: "sha256_fn \<Rightarrow> 'v ChainView \<Rightarrow> instant \<Rightarrow> 'v gate_op \<Rightarrow> 'v log_gate \<Rightarrow> gate_answer \<times> 'v log_gate" where
  "log_step sha256 V now (Apply c m) s =
     (case gate_fault V now s c m of
        Some reason \<Rightarrow> (Decided (GateReject reason), s)
      | None \<Rightarrow> (Decided GateAccept,
          if gc_enabled (lg_config s) then s\<lparr>lg_submitted := lg_submitted s @ [(sc_block_hash c, now)]\<rparr> else s))"
| "log_step sha256 V now (Reserve c m) s =
     (case gate_fault V now s c m of
        Some reason \<Rightarrow> (Granted (Inl reason), s)
      | None \<Rightarrow> case attempt_fault sha256 now s c of
          Some reason \<Rightarrow> (Granted (Inl reason), s)
        | None \<Rightarrow>
            let body = sha256 (as_bytes (sc_block_hex c)); s = s\<lparr>lg_in_flight := insert body (lg_in_flight s)\<rparr> in
            (Granted (Inr body),
             if gc_enabled (lg_config s) then s\<lparr>lg_attempts := lg_attempts s @ [(sc_block_hash c, now)]\<rparr> else s))"
| "log_step sha256 V now (Submitted c) s = (Silent, s\<lparr>lg_submitted := lg_submitted s @ [(sc_block_hash c, now)]\<rparr>)"
| "log_step sha256 V now (DropSlot body) s = (Silent, s\<lparr>lg_in_flight := lg_in_flight s - {body}\<rparr>)"
| "log_step sha256 V now (ViewChanges v) s = (Silent, s\<lparr>lg_chain := v\<rparr>)"

fun log_run ::
  "sha256_fn \<Rightarrow> 'v ChainView \<Rightarrow> instant \<Rightarrow> (duration \<times> 'v gate_op) list \<Rightarrow> 'v log_gate \<Rightarrow> gate_answer list" where
  "log_run sha256 V t [] s = []"
| "log_run sha256 V t ((delay, op) # ops) s =
     (let now = t + int delay; (answer, s) = log_step sha256 V now op s in answer # log_run sha256 V now ops s)"

section \<open>The gate implements the specification\<close>

definition gate_rep :: "'v SubmitGate \<Rightarrow> 'v log_gate \<Rightarrow> instant \<Rightarrow> bool" where
  "gate_rep g s t \<longleftrightarrow>
     sg_config g = lg_config s \<and> sg_chain g = lg_chain s \<and> sg_unverified_in_flight g = lg_in_flight s \<and>
     ring_rep (sg_dedup g) (lg_submitted s) t \<and> ring_rep (sg_unverified_attempts g) (lg_attempts s) t \<and>
     (\<forall>r \<in> {sg_dedup g, sg_unverified_attempts g}.
        dr_capacity r = gc_dedup_capacity (lg_config s) \<and> dr_window r = gc_dedup_window (lg_config s))"

lemma gate_rep_new: "gate_rep (SubmitGate_new config chain) (log_gate_new config chain) t"
  unfolding gate_rep_def SubmitGate_new_def log_gate_new_def
  using ring_rep_new by (auto simp: DedupRing_new_def)

lemma ring_rep_mono: "ring_rep r entries t \<Longrightarrow> t \<le> now \<Longrightarrow> ring_rep r entries now"
  unfolding ring_rep_def using logged_mono order_trans by blast

lemma gate_rep_mono: "gate_rep g s t \<Longrightarrow> t \<le> now \<Longrightarrow> gate_rep g s now"
  unfolding gate_rep_def using ring_rep_mono by blast

lemma chain_rejection_eq:
  "chain_rejection V g c m = chain_fault V (sg_config g) (sg_chain g) c m"
proof -
  have tip: "unat (case cm_observed_tip m of None \<Rightarrow> p | Some observed \<Rightarrow> max observed p) =
      (case cm_observed_tip m of None \<Rightarrow> unat p | Some tip \<Rightarrow> max (unat tip) (unat p))" for p
    by (cases "cm_observed_tip m") (auto simp: max_def word_le_nat_alt)
  have "unat (cm_height m) < 2 ^ 64" using unat_less_pow [of "cm_height m"] by simp
  then have upper: "saturating_add w 1 < cm_height m \<longleftrightarrow> unat w + 1 < unat (cm_height m)" for w :: u64
    by (auto simp: word_less_nat_alt unat_saturating_add)
  have lower: "cm_height m < saturating_sub w b \<longleftrightarrow> \<not> unat w \<le> unat (cm_height m) + unat b" for w b :: u64
    by (auto simp: word_less_nat_alt)
  show ?thesis
    unfolding chain_rejection_def chain_fault_def Let_def header_hash_matches_def height_in_window_def tip_of_def
      upper lower tip by (simp add: not_le)
qed

lemma ring_contains_seen:
  assumes "gate_rep g s t" and "t \<le> now"
  shows "fst (ring_contains hash now (sg_dedup g)) \<longleftrightarrow> seen (lg_config s) now (lg_submitted s) hash"
  using assms dedup.contains_iff [of "sg_dedup g" "lg_submitted s" t now hash]
  by (simp add: gate_rep_def seen_def live_def)

lemma ring_contains_split: "ring_contains hash now r = (fst (ring_contains hash now r), snd (ring_contains hash now r))"
  by simp

lemma gate_rep_dedup:
  assumes "gate_rep g s t" and "t \<le> now"
  shows "gate_rep (g\<lparr>sg_dedup := snd (ring_contains hash now (sg_dedup g))\<rparr>) s now"
    and "gate_rep (g\<lparr>sg_dedup := ring_record hash now (snd (ring_contains hash' now (sg_dedup g)))\<rparr>)
           (s\<lparr>lg_submitted := lg_submitted s @ [(hash, now)]\<rparr>) now"
    and "gate_rep (g\<lparr>sg_dedup := ring_record hash now (sg_dedup g)\<rparr>)
           (s\<lparr>lg_submitted := lg_submitted s @ [(hash, now)]\<rparr>) now"
proof -
  have d: "ring_rep (sg_dedup g) (lg_submitted s) t" and g: "gate_rep g s now"
    using assms gate_rep_mono by (auto simp: gate_rep_def)
  note c = dedup.rep_contains [OF d assms(2)]
  show "gate_rep (g\<lparr>sg_dedup := snd (ring_contains hash now (sg_dedup g))\<rparr>) s now"
    using g c by (simp add: gate_rep_def)
  show "gate_rep (g\<lparr>sg_dedup := ring_record hash now (snd (ring_contains hash' now (sg_dedup g)))\<rparr>)
      (s\<lparr>lg_submitted := lg_submitted s @ [(hash, now)]\<rparr>) now"
    using g ring_rep_record [OF c order_refl] by (simp add: gate_rep_def)
  show "gate_rep (g\<lparr>sg_dedup := ring_record hash now (sg_dedup g)\<rparr>)
      (s\<lparr>lg_submitted := lg_submitted s @ [(hash, now)]\<rparr>) now"
    using g ring_rep_record [OF d assms(2)] by (simp add: gate_rep_def)
qed

lemma ring_count_fields [simp]:
  "dr_capacity (snd (ring_count hash now r)) = dr_capacity r" "dr_window (snd (ring_count hash now r)) = dr_window r"
  by (simp_all add: ring_count_def Let_def)

lemma gate_rep_attempts:
  assumes "gate_rep g s t" and "t \<le> now"
  shows "fst (ring_count hash now (sg_unverified_attempts g)) =
           length (filter (\<lambda>e. fst e = hash) (live (lg_config s) now (lg_attempts s)))"
    and "gate_rep (g\<lparr>sg_unverified_attempts := snd (ring_count hash now (sg_unverified_attempts g))\<rparr>) s now"
    and "gate_rep (g\<lparr>sg_unverified_attempts := ring_record hash now (snd (ring_count hash now (sg_unverified_attempts g)))\<rparr>)
           (s\<lparr>lg_attempts := lg_attempts s @ [(hash, now)]\<rparr>) now"
proof -
  have a: "ring_rep (sg_unverified_attempts g) (lg_attempts s) t" and g: "gate_rep g s now"
    using assms gate_rep_mono by (auto simp: gate_rep_def)
  note c = ring_count_live [OF a assms(2)]
  show "fst (ring_count hash now (sg_unverified_attempts g)) =
      length (filter (\<lambda>e. fst e = hash) (live (lg_config s) now (lg_attempts s)))"
    using g c by (simp add: gate_rep_def live_def)
  show "gate_rep (g\<lparr>sg_unverified_attempts := snd (ring_count hash now (sg_unverified_attempts g))\<rparr>) s now"
    using g c by (simp add: gate_rep_def)
  show "gate_rep (g\<lparr>sg_unverified_attempts := ring_record hash now (snd (ring_count hash now (sg_unverified_attempts g)))\<rparr>)
      (s\<lparr>lg_attempts := lg_attempts s @ [(hash, now)]\<rparr>) now"
    using g ring_rep_record [OF c(2) order_refl] by (simp add: gate_rep_def)
qed

lemma gate_rep_in_flight:
  "gate_rep g s t \<Longrightarrow> gate_rep (g\<lparr>sg_unverified_in_flight := B\<rparr>) (s\<lparr>lg_in_flight := B\<rparr>) t"
  by (simp add: gate_rep_def)

definition refines :: "'a \<times> 'v SubmitGate \<Rightarrow> 'a \<times> 'v log_gate \<Rightarrow> instant \<Rightarrow> bool" where
  "refines p q now \<longleftrightarrow> fst p = fst q \<and> gate_rep (snd p) (snd q) now"

lemma apply_at_refines:
  assumes "gate_rep g s t" and "t \<le> now"
  shows "refines (gate_step sha256 V now (Apply c m) g) (log_step sha256 V now (Apply c m) s) now"
proof -
  have cfg: "sg_config g = lg_config s" "sg_chain g = lg_chain s" using assms by (simp_all add: gate_rep_def)
  note seen = ring_contains_seen [OF assms, of "sc_block_hash c"]
  show ?thesis
    using gate_rep_dedup [OF assms] gate_rep_mono [OF assms]
    by (auto simp: refines_def apply_at_def Let_def case_prod_unfold gate_fault_def chain_rejection_eq cfg seen
        split: option.splits)
qed

lemma reserve_slot_refines:
  assumes "gate_rep g s t" and "t \<le> now"
  shows "refines (reserve_slot sha256 now g c)
    (case attempt_fault sha256 now s c of
       Some reason \<Rightarrow> (Inl reason, s)
     | None \<Rightarrow> (Inr (sha256 (as_bytes (sc_block_hex c))),
         let s = s\<lparr>lg_in_flight := insert (sha256 (as_bytes (sc_block_hex c))) (lg_in_flight s)\<rparr> in
         if gc_enabled (lg_config s) then s\<lparr>lg_attempts := lg_attempts s @ [(sc_block_hash c, now)]\<rparr> else s)) now"
proof -
  have cfg: "sg_config g = lg_config s" "sg_unverified_in_flight g = lg_in_flight s"
    using assms by (simp_all add: gate_rep_def)
  let ?body = "insert (sha256 (as_bytes (sc_block_hex c))) (lg_in_flight s)"
  note n = gate_rep_attempts [OF assms, of "sc_block_hash c"]
  have taken: "gate_rep (g\<lparr>sg_unverified_in_flight := ?body\<rparr>) (s\<lparr>lg_in_flight := ?body\<rparr>) now"
    by (rule gate_rep_in_flight [OF gate_rep_mono [OF assms]])
  have counted: "gate_rep
      (g\<lparr>sg_unverified_attempts := ring_record (sc_block_hash c) now (snd (ring_count (sc_block_hash c) now (sg_unverified_attempts g))),
         sg_unverified_in_flight := ?body\<rparr>)
      (s\<lparr>lg_in_flight := ?body, lg_attempts := lg_attempts s @ [(sc_block_hash c, now)]\<rparr>) now"
    using gate_rep_in_flight [OF n(3), of ?body] by (simp add: gate_rep_def)
  show ?thesis
    using n(2) gate_rep_mono [OF assms] taken counted
    by (simp add: refines_def reserve_slot_def Let_def case_prod_unfold attempt_fault_def cfg n(1))
qed

lemma reserve_refines:
  assumes "gate_rep g s t" and "t \<le> now"
  shows "refines (gate_step sha256 V now (Reserve c m) g) (log_step sha256 V now (Reserve c m) s) now"
proof -
  have cfg: "sg_config g = lg_config s" "sg_chain g = lg_chain s" using assms by (simp_all add: gate_rep_def)
  note seen = ring_contains_seen [OF assms, of "sc_block_hash c"]
  let ?g = "g\<lparr>sg_dedup := snd (ring_contains (sc_block_hash c) now (sg_dedup g))\<rparr>"
  note slot = reserve_slot_refines [of _ s, unfolded refines_def, of _ _ now sha256 c]
  show ?thesis
    using slot [OF gate_rep_dedup(1) [OF assms] order_refl] slot [OF assms] gate_rep_dedup(1) [OF assms] gate_rep_mono [OF assms]
    by (auto simp: refines_def reserve_unverified_at_def Let_def case_prod_unfold gate_fault_def chain_rejection_eq cfg seen
        split: option.splits if_splits)
qed

lemma gate_step_refines:
  assumes "gate_rep g s t" and "t \<le> now"
  shows "refines (gate_step sha256 V now op g) (log_step sha256 V now op s) now"
proof (cases op)
  case (Submitted c)
  then show ?thesis using gate_rep_dedup(3) [OF assms] by (simp add: refines_def record_submitted_def)
next
  case (DropSlot body)
  have "sg_unverified_in_flight g = lg_in_flight s" using assms(1) by (simp add: gate_rep_def)
  then show ?thesis
    using DropSlot gate_rep_in_flight [OF gate_rep_mono [OF assms]] by (simp add: refines_def drop_slot_def)
next
  case (ViewChanges v)
  then show ?thesis using gate_rep_mono [OF assms] by (simp add: refines_def gate_rep_def)
qed (use apply_at_refines [OF assms] reserve_refines [OF assms] in simp_all)

lemma gate_run_refines: "gate_rep g s t \<Longrightarrow> gate_run sha256 V t ops g = log_run sha256 V t ops s"
proof (induction ops arbitrary: g s t)
  case (Cons dop ops)
  obtain delay op where op: "dop = (delay, op)" by (cases dop)
  have "refines (gate_step sha256 V (t + int delay) op g) (log_step sha256 V (t + int delay) op s) (t + int delay)"
    by (rule gate_step_refines [OF Cons.prems]) simp
  then show ?case using Cons.IH by (simp add: op refines_def Let_def case_prod_unfold)
qed simp

text \<open>
  C9.  The gate, with its two rings that forget, answers every sequence of operations the way a gate
  does that keeps the log of everything recorded and decides by the checks alone: the header hash,
  the known parent, the height window around the higher of the polled and the observed tip, and
  the hashes recorded inside the window and among the last of the capacity.
\<close>

theorem gate_refines_log:
  "gate_run sha256 V t ops (SubmitGate_new config chain) = log_run sha256 V t ops (log_gate_new config chain)"
  by (rule gate_run_refines [OF gate_rep_new])

section \<open>A block is not sent twice\<close>

fun log_after :: "sha256_fn \<Rightarrow> 'v ChainView \<Rightarrow> instant \<Rightarrow> (duration \<times> 'v gate_op) list \<Rightarrow> 'v log_gate \<Rightarrow> 'v log_gate" where
  "log_after sha256 V t [] s = s"
| "log_after sha256 V t ((delay, op) # ops) s =
     log_after sha256 V (t + int delay) ops (snd (log_step sha256 V (t + int delay) op s))"

definition elapsed :: "(duration \<times> 'v gate_op) list \<Rightarrow> duration" where
  "elapsed ops = sum_list (map fst ops)"

lemma log_run_append:
  "log_run sha256 V t (xs @ ys) s =
     log_run sha256 V t xs s @ log_run sha256 V (t + int (elapsed xs)) ys (log_after sha256 V t xs s)"
  by (induction sha256 V t xs s rule: log_after.induct)
    (auto simp: elapsed_def Let_def case_prod_unfold algebra_simps)

lemma length_log_run [simp]: "length (log_run sha256 V t ops s) = length ops"
  by (induction sha256 V t ops s rule: log_after.induct) (auto simp: Let_def case_prod_unfold)

lemma log_step_config [simp]: "lg_config (snd (log_step sha256 V now op s)) = lg_config s"
  by (cases op) (auto simp: Let_def split: option.splits)

lemma log_after_config [simp]: "lg_config (log_after sha256 V t ops s) = lg_config s"
  by (induction sha256 V t ops s rule: log_after.induct) auto

lemma log_step_grows:
  "\<exists>more. lg_submitted (snd (log_step sha256 V now op s)) = lg_submitted s @ more \<and> length more \<le> 1"
proof (cases op)
  case (Apply c m)
  then show ?thesis by (cases "gate_fault V now s c m") auto
qed (auto simp: Let_def split: option.splits)

lemma log_after_grows:
  "\<exists>more. lg_submitted (log_after sha256 V t ops s) = lg_submitted s @ more \<and> length more \<le> length ops"
proof (induction sha256 V t ops s rule: log_after.induct)
  case (2 sha256 V t delay op ops s)
  obtain more where "lg_submitted (snd (log_step sha256 V (t + int delay) op s)) = lg_submitted s @ more" "length more \<le> 1"
    using log_step_grows by blast
  moreover obtain more' where "lg_submitted (log_after sha256 V (t + int delay) ops (snd (log_step sha256 V (t + int delay) op s))) =
      lg_submitted (snd (log_step sha256 V (t + int delay) op s)) @ more'" "length more' \<le> length ops"
    using 2 by blast
  ultimately show ?case by (intro exI [of _ "more @ more'"]) simp
qed simp

lemma seen_recent:
  assumes "duration_since now t \<le> gc_dedup_window config" and "length later < gc_dedup_capacity config"
  shows "seen config now (before @ (hash, t) # later) hash"
proof -
  let ?live = "filter (fresh (gc_dedup_window config) now)"
  have "length (?live later) < gc_dedup_capacity config"
    using assms(2) length_filter_le [of "fresh (gc_dedup_window config) now" later] by linarith
  then have "(hash, t) \<in> set (last_n (gc_dedup_capacity config) (?live before @ (hash, t) # ?live later))"
    by (rule last_n_recent)
  then show ?thesis
    using assms(1) unfolding seen_def live_def ring_keep_def by (intro bexI [of _ "(hash, t)"]) (auto simp: fresh_def)
qed

fun refused :: "gate_answer \<Rightarrow> bool" where
  "refused (Decided d) = (d \<noteq> GateAccept)"
| "refused (Granted r) = isl r"
| "refused Silent = False"

lemma seen_refused:
  assumes "gc_enabled (lg_config s)" and "seen (lg_config s) now (lg_submitted s) (sc_block_hash c)"
    and "op = Apply c m \<or> op = Reserve c m"
  shows "refused (fst (log_step sha256 V now op s))"
  using assms by (auto simp: gate_fault_def split: option.splits)

text \<open>
  C10.  Once the enabled gate has accepted a block, it refuses every further candidate with the same
  hash, read or unread, as long as the window has not passed and fewer operations than the
  capacity of the ring came in between.
\<close>

theorem accepted_block_not_sent_again:
  assumes "gc_enabled config" and "sc_block_hash c' = sc_block_hash c"
    and "length between < gc_dedup_capacity config" and "elapsed between + delay' \<le> gc_dedup_window config"
    and "op' = Apply c' m' \<or> op' = Reserve c' m'"
    and "answers = gate_run sha256 V t (before @ (delay, Apply c m) # between @ [(delay', op')]) (SubmitGate_new config chain)"
    and "answers ! length before = Decided GateAccept"
  shows "refused (answers ! (length before + 1 + length between))"
proof -
  let ?s = "log_after sha256 V t before (log_gate_new config chain)" and ?t = "t + int (elapsed before) + int delay"
  let ?s1 = "snd (log_step sha256 V ?t (Apply c m) ?s)"
  let ?s2 = "log_after sha256 V ?t between ?s1" and ?t2 = "?t + int (elapsed between) + int delay'"
  have answers: "answers = log_run sha256 V t before (log_gate_new config chain) @
      fst (log_step sha256 V ?t (Apply c m) ?s) # log_run sha256 V ?t between ?s1 @ [fst (log_step sha256 V ?t2 op' ?s2)]"
    unfolding assms(6) gate_refines_log log_run_append by (simp add: Let_def case_prod_unfold log_run_append)
  have cfg: "lg_config ?s = config" "lg_config ?s2 = config"
    by (simp_all add: log_gate_new_def del: log_step.simps)
  have "fst (log_step sha256 V ?t (Apply c m) ?s) = Decided GateAccept"
    using assms(7) unfolding answers by (simp add: nth_append)
  then have "lg_submitted ?s1 = lg_submitted ?s @ [(sc_block_hash c, ?t)]"
    using assms(1) cfg by (auto split: option.splits)
  moreover obtain more where "lg_submitted ?s2 = lg_submitted ?s1 @ more" "length more \<le> length between"
    using log_after_grows by blast
  ultimately have "lg_submitted ?s2 = lg_submitted ?s @ (sc_block_hash c, ?t) # more" "length more < gc_dedup_capacity config"
    using assms(3) by auto
  moreover have "duration_since ?t2 ?t \<le> gc_dedup_window config"
    using assms(4) by (simp add: duration_since_def)
  ultimately have "seen config ?t2 (lg_submitted ?s2) (sc_block_hash c')"
    using seen_recent assms(2) by simp
  then have "refused (fst (log_step sha256 V ?t2 op' ?s2))"
    using seen_refused [of ?s2 ?t2 c' op' m'] assms(1,5) cfg by simp
  then show ?thesis unfolding answers by (simp add: nth_append)
qed

definition sample_candidate :: SubmissionCandidate where
  "sample_candidate = \<lparr>sc_block_hash = ''aa'', sc_consensus_block_hash = ''bb'', sc_block_hex = ''00'',
     sc_tx_count = 1, sc_block_bytes = 1, sc_unverified = None\<rparr>"

definition sample_meta :: CandidateMeta where
  "sample_meta = \<lparr>cm_height = 101, cm_parent_hash = replicate 32 7, cm_block_hash_hex = ''aa'',
     cm_observed_tip = None, cm_parent_confirmations = None\<rparr>"

definition sample_view :: "unit ChainView" where
  "sample_view = \<lparr>cv_tip_height = (\<lambda>_. 100), cv_parent_known = (\<lambda>_ h. h = replicate 32 7)\<rparr>"

theorem accepted_block_not_sent_again_witness:
  "refused (gate_run (\<lambda>bs. bs) sample_view 0
     [(1, Apply sample_candidate sample_meta), (2, DropSlot []), (3, Reserve sample_candidate sample_meta)]
     (SubmitGate_new (GateConfig_default\<lparr>gc_enabled := True\<rparr>) ()) ! 2)"
proof -
  let ?config = "GateConfig_default\<lparr>gc_enabled := True\<rparr>"
  let ?ops = "[(1, Apply sample_candidate sample_meta), (2, DropSlot []), (3, Reserve sample_candidate sample_meta)]"
  have "gate_run (\<lambda>bs. bs) sample_view 0 ?ops (SubmitGate_new ?config ()) ! 0 = Decided GateAccept"
    by (simp add: gate_refines_log log_gate_new_def Let_def gate_fault_def chain_fault_def height_in_window_def tip_of_def
        seen_def live_def ring_keep_def last_n_def sample_candidate_def sample_meta_def sample_view_def GateConfig_default_def)
  then show ?thesis
    using accepted_block_not_sent_again [of ?config sample_candidate sample_candidate "[(2, DropSlot [])]" 3
        "Reserve sample_candidate sample_meta" sample_meta _ "\<lambda>bs. bs" sample_view 0 "[]" 1 sample_meta "()"]
    by (simp add: GateConfig_default_def elapsed_def from_secs_def NANOS_PER_SEC_def numeral_2_eq_2 [symmetric])
qed

section \<open>The view of the chain\<close>

text \<open>
  What the gate needs from the view: a hash it calls known is one of those the node confirmed.
  \<open>good C v\<close> says that \<open>v\<close> has confirmations for \<open>C\<close> at most.
\<close>

locale chain_view =
  fixes V :: "'v ChainView" and good :: "bytes set \<Rightarrow> 'v \<Rightarrow> bool"
  assumes known_confirmed: "good C v \<Longrightarrow> cv_parent_known V v hash \<Longrightarrow> hash \<in> C"
begin

text \<open>Whatever the enabled gate lets through extends a block the node has, near its tip.\<close>

lemma accepted_extends_chain:
  assumes "gc_enabled (sg_config g)" and "good C (sg_chain g)" and "fst (apply_at V now g c m) = GateAccept"
  shows "cm_parent_hash m \<in> C" and "height_in_window (sg_config g) (tip_of V (sg_chain g) m) (cm_height m)"
  using assms known_confirmed
  by (auto simp: apply_at_def chain_rejection_eq chain_fault_def Let_def case_prod_unfold split: if_splits)

lemma granted_extends_chain:
  assumes "gc_enabled (sg_config g)" and "good C (sg_chain g)" and "fst (reserve_unverified_at sha256 V now g c m) = Inr body"
  shows "cm_parent_hash m \<in> C" and "height_in_window (sg_config g) (tip_of V (sg_chain g) m) (cm_height m)"
  using assms known_confirmed
  by (auto simp: reserve_unverified_at_def chain_rejection_eq chain_fault_def Let_def case_prod_unfold split: if_splits)

end

section \<open>Metadata\<close>

text \<open>
  What a candidate's metadata says, on every branch: the height is one above the observed parent,
  and an observed tip is as far above the parent as its confirmations say.
\<close>

lemma sint_minus_one:
  assumes "1 \<le> sint (w :: u64)"
  shows "0 \<le> sint (w - 1)" and "unat (w - 1) = nat (sint w) - 1"
proof -
  have less: "sint w < 2 ^ 63" using sint_lt [of w] by simp
  have u: "uint w = sint w" using assms less by (simp add: uint_sint take_bit_int_eq_self)
  have "uint (w - 1) = sint w - 1"
    using assms less u by (simp add: uint_word_ariths)
  then show "0 \<le> sint (w - 1)" "unat (w - 1) = nat (sint w) - 1"
    using assms less by (simp_all add: sint_uint signed_take_bit_int_eq_self unat_eq_nat_uint nat_diff_distrib)
qed

lemma observed_tip_of_eq:
  "observed_tip_of h confirmations =
     (case confirmations of
        Some w \<Rightarrow> if 1 \<le> sint w
          then if unat h + nat (sint w) - 1 < 2 ^ 64 then Inr (Some (of_nat (unat h + nat (sint w) - 1))) else Inl ObservedTipOverflow
          else Inr None
      | None \<Rightarrow> Inr None)"
proof (cases confirmations)
  case (Some w)
  show ?thesis
  proof (cases "1 \<le> sint w")
    case True
    have "unat h + unat (w - 1) = unat h + nat (sint w) - 1" using sint_minus_one(2) [OF True] True by linarith
    moreover have "h + (w - 1) = of_nat (unat h + unat (w - 1))" by simp
    ultimately show ?thesis
      using Some True sint_minus_one(1) [OF True]
      by (simp add: observed_tip_of_def u64_from_i64_def checked_add_u64_def)
  qed (use Some in \<open>simp add: observed_tip_of_def\<close>)
qed (simp add: observed_tip_of_def)

end
