(* ===== verification/Chain_View.thy ===== *)
theory Chain_View
  imports Submit_Gate "HOL-Library.Sublist"
begin

text \<open>
  The cached view of the local node's chain, \<open>crates/sovright-relay-sidecar/src/chain_view.rs\<close>,
  and the header lookup of \<open>rpc.rs\<close> it uses: the polled tip, the bounded list of confirmed
  parents with the least recently confirmed at the front, lookups with bounded retries, and the
  observation of a candidate's parent.

  The node is a parameter: what each call answers and how long it takes.  A lock of the view is
  never poisoned, because no holder panics.  The theory interprets the contract \<open>chain_view\<close> of
  the gate, shows that a lookup ends within its budget, and that the gate only lets candidates
  through whose parent the node has confirmed by its hash.
\<close>

section \<open>Replies of the node\<close>

record BlockHeaderInfo =
  bh_hash :: string
  bh_height :: u64
  bh_confirmations :: "u64 option"

datatype io_error_kind = ConnectionRefused | ConnectionReset | TimedOut | OtherIoError

text \<open>An error is the chain of its sources, the error itself first.\<close>

record error_link =
  el_call :: bool
  el_io :: "io_error_kind option"
  el_text :: string

type_synonym rpc_error = "error_link list"

datatype header_reply = HeaderReply BlockHeaderInfo | CallError int string rpc_error | ClientError rpc_error

definition text_error :: "string \<Rightarrow> rpc_error" where
  "text_error text = [\<lparr>el_call = False, el_io = None, el_text = text\<rparr>]"

definition contains_text :: "string \<Rightarrow> string \<Rightarrow> bool" where
  "contains_text text needle = sublist needle text"

definition ascii_lower :: "char \<Rightarrow> char" where
  "ascii_lower c = (let n = of_char c :: nat in if 65 \<le> n \<and> n \<le> 90 then char_of (n + 32) else c)"

text \<open>Lower case changes no other character to one of the text that is looked for.\<close>

definition get_block_header :: "header_reply \<Rightarrow> rpc_error + BlockHeaderInfo option" where
  "get_block_header reply =
     (case reply of
        HeaderReply info \<Rightarrow> Inr (Some info)
      | CallError code message e \<Rightarrow>
          if code = - 5 \<or> contains_text (map ascii_lower message) ''not found'' then Inr None else Inl e
      | ClientError e \<Rightarrow> Inl e)"

section \<open>The cache\<close>

record CachedChainState =
  cs_tip_height :: u64
  cs_known_parents :: "bytes list"
  cs_parent_cache_capacity :: nat

definition CachedChainState_new :: "nat \<Rightarrow> CachedChainState" where
  "CachedChainState_new parent_cache_capacity =
     \<lparr>cs_tip_height = 0, cs_known_parents = [], cs_parent_cache_capacity = parent_cache_capacity\<rparr>"

definition contains_parent :: "CachedChainState \<Rightarrow> bytes \<Rightarrow> bool" where
  "contains_parent self hash \<longleftrightarrow> hash \<in> set (cs_known_parents self)"

definition admit_parent :: "bytes \<Rightarrow> CachedChainState \<Rightarrow> CachedChainState" where
  "admit_parent hash self =
     (let parents =
        (if contains_parent self hash then remove1 hash (cs_known_parents self)
         else if length (cs_known_parents self) = cs_parent_cache_capacity self then tl (cs_known_parents self)
         else cs_known_parents self)
      in self\<lparr>cs_known_parents := parents @ [hash]\<rparr>)"

record ZebraChainViewConfig =
  zc_tip_poll_interval :: duration
  zc_parent_cache_capacity :: nat

definition ZebraChainViewConfig_default :: ZebraChainViewConfig where
  "ZebraChainViewConfig_default = \<lparr>zc_tip_poll_interval = from_secs 5, zc_parent_cache_capacity = 256\<rparr>"

record ZebraChainView =
  zv_state :: CachedChainState
  zv_config :: ZebraChainViewConfig

definition ZebraChainView_new :: "ZebraChainViewConfig \<Rightarrow> ZebraChainView" where
  "ZebraChainView_new config =
     \<lparr>zv_state = CachedChainState_new (zc_parent_cache_capacity config), zv_config = config\<rparr>"

definition set_tip_height :: "u64 \<Rightarrow> ZebraChainView \<Rightarrow> ZebraChainView" where
  "set_tip_height height self = self\<lparr>zv_state := (zv_state self)\<lparr>cs_tip_height := height\<rparr>\<rparr>"

text \<open>One round of the polling task: a failed poll keeps the tip.\<close>

definition poll_tip :: "rpc_error + u64 \<Rightarrow> ZebraChainView \<Rightarrow> ZebraChainView" where
  "poll_tip reply self = (case reply of Inr blocks \<Rightarrow> set_tip_height blocks self | Inl _ \<Rightarrow> self)"

definition view_admit_parent :: "bytes \<Rightarrow> ZebraChainView \<Rightarrow> ZebraChainView" where
  "view_admit_parent hash self = self\<lparr>zv_state := admit_parent hash (zv_state self)\<rparr>"

definition zebra_chain_view :: "ZebraChainView ChainView" where
  "zebra_chain_view =
     \<lparr>cv_tip_height = (\<lambda>v. cs_tip_height (zv_state v)), cv_parent_known = (\<lambda>v. contains_parent (zv_state v))\<rparr>"

section \<open>Lookups with retries\<close>

definition RETRY_BACKOFFS_MS :: "nat list" where "RETRY_BACKOFFS_MS = [100, 500, 1500]"
definition RETRY_BUDGET :: duration where "RETRY_BUDGET = from_secs 3"

definition from_millis :: "nat \<Rightarrow> duration" where "from_millis ms = ms * 1000000"

definition names_transient_error :: "string \<Rightarrow> bool" where
  "names_transient_error text \<longleftrightarrow>
     contains_text text ''ConnectionRefused'' \<or> contains_text text ''connection refused'' \<or>
     contains_text text ''Connection reset'' \<or> contains_text text ''timed out'' \<or> contains_text text ''timeout'' \<or>
     contains_text text ''os error 111'' \<or> contains_text text ''os error 110''"

definition is_transient_transport_error :: "rpc_error \<Rightarrow> bool" where
  "is_transient_transport_error err \<longleftrightarrow>
     \<not> (\<exists>e \<in> set err. el_call e) \<and>
     (\<exists>e \<in> set err. el_io e \<in> {Some ConnectionRefused, Some ConnectionReset, Some TimedOut} \<or> names_transient_error (el_text e))"

text \<open>
  A call is its answer and the time until it comes; \<open>lag\<close> is how much later than asked a sleep
  ends.  A call that answers at once is seen even after the deadline, because the timer is looked
  at second.  The result comes with the time it is returned and the number of calls made.
\<close>

fun retry_attempts ::
  "duration \<Rightarrow> instant \<Rightarrow> (nat \<Rightarrow> duration \<times> (rpc_error + 'a)) \<Rightarrow> (nat \<Rightarrow> duration) \<Rightarrow> nat list \<Rightarrow> nat \<Rightarrow> instant \<Rightarrow>
   (rpc_error + 'a) \<times> instant \<times> nat" where
  "retry_attempts budget deadline op lag [] calls now = (Inl (text_error ''retry_transient: no error captured''), now, calls)"
| "retry_attempts budget deadline op lag (attempt # rest) calls now =
     (let (took, result) = op attempt in
      if took \<noteq> 0 \<and> now + int took > deadline
      then (Inl (text_error (''get_block_header: no answer within the '' @ show_nat (budget div 1000000) @ ''ms retry budget'')),
            max now deadline, calls + 1)
      else let now = now + int took in
        case result of
          Inr value \<Rightarrow> (Inr value, now, calls + 1)
        | Inl err \<Rightarrow>
            if attempt < length RETRY_BACKOFFS_MS \<and> is_transient_transport_error err \<and>
               now + int (from_millis (RETRY_BACKOFFS_MS ! attempt)) < deadline
            then retry_attempts budget deadline op lag rest (calls + 1)
                   (now + int (from_millis (RETRY_BACKOFFS_MS ! attempt)) + int (lag attempt))
            else (Inl err, now, calls + 1))"

definition retry_transient_within ::
  "duration \<Rightarrow> (nat \<Rightarrow> duration \<times> (rpc_error + 'a)) \<Rightarrow> (nat \<Rightarrow> duration) \<Rightarrow> instant \<Rightarrow> (rpc_error + 'a) \<times> instant \<times> nat" where
  "retry_transient_within budget op lag now =
     retry_attempts budget (now + int budget) op lag [0..<length RETRY_BACKOFFS_MS + 1] 0 now"

record lookup_env =
  le_reply :: "string \<Rightarrow> nat \<Rightarrow> duration \<times> header_reply"
  le_lag :: "nat \<Rightarrow> duration"

definition get_block_header_with_retry ::
  "lookup_env \<Rightarrow> instant \<Rightarrow> string \<Rightarrow> (rpc_error + BlockHeaderInfo option) \<times> instant" where
  "get_block_header_with_retry env now hex_hash =
     (let (result, later, _) = retry_transient_within RETRY_BUDGET
        (\<lambda>i. let (took, reply) = le_reply env hex_hash i in (took, get_block_header reply)) (le_lag env) now
      in (result, later))"

definition hex_char :: "nat \<Rightarrow> char" where
  "hex_char n = (if n < 10 then char_of (48 + n) else char_of (87 + n))"

definition hex_byte :: "u8 \<Rightarrow> string" where
  "hex_byte b = [hex_char (unat b div 16), hex_char (unat b mod 16)]"

definition display_hex_encode :: "bytes \<Rightarrow> string" where
  "display_hex_encode bs = concat (map hex_byte (rev bs))"

definition eq_ignore_ascii_case :: "string \<Rightarrow> string \<Rightarrow> bool" where
  "eq_ignore_ascii_case a b \<longleftrightarrow> map ascii_lower a = map ascii_lower b"

definition parent_known_async ::
  "lookup_env \<Rightarrow> instant \<Rightarrow> bytes \<Rightarrow> ZebraChainView \<Rightarrow> (rpc_error + bool) \<times> ZebraChainView" where
  "parent_known_async env now hash self =
     (if contains_parent (zv_state self) hash then (Inr True, self)
      else case fst (get_block_header_with_retry env now (display_hex_encode hash)) of
        Inl e \<Rightarrow> (Inl e, self)
      | Inr None \<Rightarrow> (Inr False, self)
      | Inr (Some _) \<Rightarrow> (Inr True, view_admit_parent hash self))"

datatype lookup_error = ParentHashMismatch string string | LookupFailed rpc_error

definition observe_parent ::
  "lookup_env \<Rightarrow> instant \<Rightarrow> bytes \<Rightarrow> ZebraChainView \<Rightarrow> (lookup_error + ParentObservation option) \<times> ZebraChainView" where
  "observe_parent env now hash self =
     (let hex_hash = display_hex_encode hash in
      case fst (get_block_header_with_retry env now hex_hash) of
        Inl e \<Rightarrow> (Inl (LookupFailed e), self)
      | Inr None \<Rightarrow> (Inr None, self)
      | Inr (Some info) \<Rightarrow>
          if \<not> eq_ignore_ascii_case (bh_hash info) hex_hash
          then (Inl (ParentHashMismatch hex_hash (bh_hash info)), self)
          else (Inr (Some \<lparr>po_parent_hash = hash, po_height = bh_height info, po_confirmations = bh_confirmations info\<rparr>),
                view_admit_parent hash self))"

definition observe_candidate_parent ::
  "lookup_env \<Rightarrow> instant \<Rightarrow> bytes \<Rightarrow> ZebraChainView \<Rightarrow> ParentObservation option \<times> ZebraChainView" where
  "observe_candidate_parent env now header self =
     (case parent_hash_from_header header of
        None \<Rightarrow> (None, self)
      | Some parent_hash \<Rightarrow>
          let (observation, self) = observe_parent env now parent_hash self in
          (case observation of Inr found \<Rightarrow> found | Inl _ \<Rightarrow> None, self))"

section \<open>A lookup ends within its budget\<close>

lemma retry_attempts_bound:
  assumes "now \<le> deadline + int slack" and "\<And>i. lag i \<le> slack" and "retry_attempts budget deadline op lag attempts calls now = (r, later, n)"
  shows "now \<le> later \<and> later \<le> deadline + int slack \<and> n \<le> calls + length attempts"
  using assms(1,3)
proof (induction attempts arbitrary: calls now)
  case (Cons attempt rest)
  obtain took result where op: "op attempt = (took, result)" by (cases "op attempt")
  define later' where "later' = now + int took + int (from_millis (RETRY_BACKOFFS_MS ! attempt)) + int (lag attempt)"
  show ?case
  proof (cases "took \<noteq> 0 \<and> now + int took > deadline")
    case True
    then show ?thesis using Cons.prems op by (auto simp: Let_def max_def)
  next
    case False
    then have now: "now + int took \<le> deadline + int slack" using Cons.prems(1) by auto
    show ?thesis
    proof (cases "\<exists>err. result = Inl err \<and> attempt < length RETRY_BACKOFFS_MS \<and> is_transient_transport_error err \<and>
        now + int took + int (from_millis (RETRY_BACKOFFS_MS ! attempt)) < deadline")
      case True
      then have "retry_attempts budget deadline op lag rest (calls + 1) later' = (r, later, n)"
        using Cons.prems(2) False op by (auto simp: Let_def later'_def)
      moreover have "later' \<le> deadline + int slack" using True assms(2) [of attempt] by (auto simp: later'_def)
      ultimately show ?thesis using Cons.IH [of later' "calls + 1"] by (auto simp: later'_def)
    next
      case no: False
      show ?thesis
        using Cons.prems(2) False op no now by (cases result) (auto simp: Let_def split: if_splits)
    qed
  qed
qed auto

text \<open>
  C31.  A lookup of a header always ends: after at most four calls, and not later than its budget plus
  the time by which the timer of a pause may be late.  Without such delays it ends within the
  budget even if the node never answers.
\<close>

theorem lookup_within_budget:
  assumes "\<And>i. lag i \<le> slack" and "retry_transient_within budget op lag now = (result, later, calls)"
  shows "now \<le> later \<and> later \<le> now + int budget + int slack \<and> calls \<le> 4"
  using retry_attempts_bound [OF _ assms(1) assms(2) [unfolded retry_transient_within_def]]
  by (simp add: RETRY_BACKOFFS_MS_def)

definition silent_call :: "nat \<Rightarrow> duration \<times> (rpc_error + unit)" where
  "silent_call i = (from_secs 30, Inr ())"

theorem lookup_within_budget_witness:
  "(\<lambda>(result, later, calls). later \<le> 0 + int (from_secs 3) + int 0)
     (retry_transient_within (from_secs 3) silent_call (\<lambda>_. 0) 0)"
proof -
  obtain result later calls where r: "retry_transient_within (from_secs 3) silent_call (\<lambda>_. 0) 0 = (result, later, calls)"
    by (cases "retry_transient_within (from_secs 3) silent_call (\<lambda>_. 0) 0")
  show ?thesis using lookup_within_budget [OF _ r, of 0] r by simp
qed

text \<open>A transient failure is masked: the first answer within the attempts and the budget is returned.\<close>

lemma retry_second_attempt:
  assumes "op 0 = (d0, Inl err)" and "op 1 = (d1, Inr value)" and "is_transient_transport_error err"
    and "d0 + from_millis 100 + lag 0 + d1 < budget"
  shows "retry_transient_within budget op lag now = (Inr value, now + int (d0 + from_millis 100 + lag 0 + d1), 2)"
  using assms by (simp add: retry_transient_within_def RETRY_BACKOFFS_MS_def upt_rec Let_def)

lemma retry_final_error:
  assumes "op 0 = (took, Inl err)" and "\<not> is_transient_transport_error err" and "took \<le> budget"
  shows "retry_transient_within budget op lag now = (Inl err, now + int took, 1)"
  using assms by (simp add: retry_transient_within_def RETRY_BACKOFFS_MS_def upt_rec Let_def)

section \<open>The cache of parents\<close>

definition cache_ok :: "CachedChainState \<Rightarrow> bool" where
  "cache_ok s \<longleftrightarrow> distinct (cs_known_parents s) \<and>
     (0 < cs_parent_cache_capacity s \<longrightarrow> length (cs_known_parents s) \<le> cs_parent_cache_capacity s)"

lemma set_tl: "x \<in> set (tl xs) \<Longrightarrow> x \<in> set xs"
  by (cases xs) auto

lemma admit_parent_ok:
  assumes "cache_ok s"
  shows "cache_ok (admit_parent hash s)"
proof (cases "contains_parent s hash")
  case True
  then show ?thesis
    using assms by (auto simp: cache_ok_def admit_parent_def contains_parent_def Let_def length_remove1 set_remove1_eq
        dest: length_pos_if_in_set)
next
  case False
  then show ?thesis
    using assms by (auto simp: cache_ok_def admit_parent_def contains_parent_def Let_def distinct_tl dest: set_tl)
qed

lemma set_admit_parent: "set (cs_known_parents (admit_parent hash s)) \<subseteq> insert hash (set (cs_known_parents s))"
  using set_remove1_subset [of hash "cs_known_parents s"]
  by (auto simp: admit_parent_def Let_def split: if_splits dest: set_tl)

lemma admitted_known: "contains_parent (admit_parent hash s) hash"
  by (simp add: contains_parent_def admit_parent_def Let_def)

section \<open>Submission through the gate\<close>

text \<open>
  The handlers of relayed blocks in \<open>submit.rs\<close> look up the parent of a candidate and then, holding the
  lock of the gate, make the metadata, ask the gate, and submit in live mode.  The outcome is given up
  to the call of the node, with the block it is called with.
\<close>

datatype SubmitBlockMode = DryRun | Live

datatype gate_outcome = MetaRefused CandidateMetaError | GateRejected GateRejectReason | DryRunOnly | SubmitCalled string

definition submit_through_gate ::
  "'v ChainView \<Rightarrow> instant \<Rightarrow> SubmissionCandidate \<Rightarrow> bytes \<Rightarrow> SubmitBlockMode \<Rightarrow> ParentObservation option \<Rightarrow> 'v SubmitGate \<Rightarrow>
   gate_outcome \<times> 'v SubmitGate" where
  "submit_through_gate V now candidate header mode parent gate =
     (case from_header_bytes header (sc_block_hash candidate) parent of
        Inl e \<Rightarrow> (MetaRefused e, gate)
      | Inr meta \<Rightarrow>
          (case apply_at V now gate candidate meta of
             (GateReject reason, gate) \<Rightarrow> (GateRejected reason, gate)
           | (GateAccept, gate) \<Rightarrow>
               (case mode of DryRun \<Rightarrow> (DryRunOnly, gate) | Live \<Rightarrow> (SubmitCalled (sc_block_hex candidate), gate))))"

section \<open>Known parents are confirmed\<close>

datatype view_op =
    PollTip "rpc_error + u64"
  | ObserveParent lookup_env instant bytes
  | ObserveCandidate lookup_env instant bytes
  | AskParent lookup_env instant bytes

fun view_step :: "view_op \<Rightarrow> ZebraChainView \<Rightarrow> ZebraChainView" where
  "view_step (PollTip reply) v = poll_tip reply v"
| "view_step (ObserveParent env now hash) v = snd (observe_parent env now hash v)"
| "view_step (ObserveCandidate env now header) v = snd (observe_candidate_parent env now header v)"
| "view_step (AskParent env now hash) v = snd (parent_known_async env now hash v)"

text \<open>
  The node answered a lookup of this hash with a header.  Bytes 4 to 35 of a candidate's header name its
  parent.  The answer has the hash that was asked for, except that \<open>parent_known_async\<close> does not look at
  it.
\<close>

definition node_returned :: "lookup_env \<Rightarrow> instant \<Rightarrow> bytes \<Rightarrow> BlockHeaderInfo \<Rightarrow> bool" where
  "node_returned env now hash info \<longleftrightarrow>
     fst (get_block_header_with_retry env now (display_hex_encode hash)) = Inr (Some info)"

definition named_parent :: "bytes \<Rightarrow> bytes" where
  "named_parent header = take 32 (drop 4 header)"

fun confirms :: "view_op \<Rightarrow> bytes \<Rightarrow> bool" where
  "confirms (PollTip reply) hash \<longleftrightarrow> False"
| "confirms (ObserveParent env now asked) hash \<longleftrightarrow> asked = hash \<and>
     (\<exists>info. node_returned env now hash info \<and> eq_ignore_ascii_case (bh_hash info) (display_hex_encode hash))"
| "confirms (ObserveCandidate env now header) hash \<longleftrightarrow> named_parent header = hash \<and>
     (\<exists>info. node_returned env now hash info \<and> eq_ignore_ascii_case (bh_hash info) (display_hex_encode hash))"
| "confirms (AskParent env now asked) hash \<longleftrightarrow> asked = hash \<and> (\<exists>info. node_returned env now hash info)"

definition view_good :: "bytes set \<Rightarrow> ZebraChainView \<Rightarrow> bool" where
  "view_good C v \<longleftrightarrow> set (cs_known_parents (zv_state v)) \<subseteq> C"

interpretation zebra: chain_view zebra_chain_view view_good
  by unfold_locales (auto simp: zebra_chain_view_def contains_parent_def view_good_def)

lemma view_good_new: "view_good C (ZebraChainView_new config)"
  by (simp add: view_good_def ZebraChainView_new_def CachedChainState_new_def)

lemma parent_hash_from_header_eq:
  "parent_hash_from_header header = (if length header < 36 then None else Some (named_parent header))"
  by (simp add: parent_hash_from_header_def named_parent_def)

lemma observe_parent_cases:
  "observe_parent env now hash v = (r, v') \<Longrightarrow>
     v' = v \<and> (\<forall>obs. r \<noteq> Inr (Some obs)) \<or>
     v' = view_admit_parent hash v \<and> (\<exists>info. node_returned env now hash info \<and>
       eq_ignore_ascii_case (bh_hash info) (display_hex_encode hash) \<and>
       r = Inr (Some \<lparr>po_parent_hash = hash, po_height = bh_height info, po_confirmations = bh_confirmations info\<rparr>))"
  by (auto simp: observe_parent_def node_returned_def Let_def split: sum.splits option.splits if_splits)

lemma observe_candidate_cases:
  assumes "observe_candidate_parent env now header v = (parent, v')"
  shows "v' = v \<and> parent = None \<or>
     v' = view_admit_parent (named_parent header) v \<and> (\<exists>info. node_returned env now (named_parent header) info \<and>
       eq_ignore_ascii_case (bh_hash info) (display_hex_encode (named_parent header)) \<and>
       parent = Some \<lparr>po_parent_hash = named_parent header, po_height = bh_height info, po_confirmations = bh_confirmations info\<rparr>)"
proof -
  obtain r v'' where o: "observe_parent env now (named_parent header) v = (r, v'')" by fastforce
  show ?thesis
    using assms observe_parent_cases [OF o]
    by (auto simp: observe_candidate_parent_def parent_hash_from_header_eq o split: if_splits sum.splits option.splits)
qed

lemma view_step_admits: "view_step op v = view_admit_parent hash v \<Longrightarrow> view_good C v \<Longrightarrow> confirms op hash \<Longrightarrow>
    view_good (C \<union> {h. confirms op h}) (view_step op v)"
  using set_admit_parent [of hash "zv_state v"] by (auto simp: view_good_def view_admit_parent_def)

lemma view_step_good:
  assumes "view_good C v"
  shows "view_good (C \<union> {h. confirms op h}) (view_step op v)"
proof -
  have "cs_known_parents (zv_state (view_step op v)) = cs_known_parents (zv_state v) \<or>
      (\<exists>hash. view_step op v = view_admit_parent hash v \<and> confirms op hash)"
  proof (cases op)
    case (PollTip reply)
    then show ?thesis by (cases reply) (auto simp: poll_tip_def set_tip_height_def)
  next
    case (ObserveParent env now hash)
    then show ?thesis using observe_parent_cases [of env now hash v] by (cases "observe_parent env now hash v") auto
  next
    case (ObserveCandidate env now header)
    then show ?thesis
      using observe_candidate_cases [of env now header v] by (cases "observe_candidate_parent env now header v") auto
  next
    case (AskParent env now hash)
    then show ?thesis by (auto simp: parent_known_async_def node_returned_def split: sum.splits option.splits)
  qed
  then show ?thesis
  proof
    assume "\<exists>hash. view_step op v = view_admit_parent hash v \<and> confirms op hash"
    then show ?thesis using view_step_admits [OF _ assms] by blast
  qed (use assms in \<open>auto simp: view_good_def\<close>)
qed

lemma view_run_good: "view_good C v \<Longrightarrow> view_good (C \<union> {h. \<exists>op \<in> set ops. confirms op h}) (fold view_step ops v)"
proof (induction ops arbitrary: C v)
  case (Cons op ops)
  show ?case using Cons.IH [OF view_step_good [OF Cons.prems, of op]] by (simp add: view_good_def) blast
qed (simp add: view_good_def)

lemma from_header_bytes_InrD:
  assumes "from_header_bytes header hash_hex parent = Inr m"
  shows "36 \<le> length header" "cm_parent_hash m = named_parent header"
    "unat (cm_height m) = (case parent of None \<Rightarrow> 0 | Some observed \<Rightarrow> unat (po_height observed)) + 1"
  using assms
  by (auto simp: from_header_bytes_def parent_hash_from_header_eq bindR_eq_Inr ok_or_def checked_add_u64_def unat_word_ariths
      split: if_splits option.splits)

text \<open>
  C8.  Whatever polls and lookups the view has seen before, a candidate for which the handler has
  looked up the parent, with other polls and lookups in between, and which then passes the enabled gate
  extends a known block: its header names a parent, in bytes 4 to 35, and the node answered a lookup of
  that hash with a header, of that same hash unless the lookup was \<open>parent_known_async\<close>.  Its height is
  one more than the height the node reported for the parent in the handler's own lookup, or one if that
  lookup failed, and is within the allowed distance of the higher of the polled and the observed tip.
\<close>

theorem accepted_extends_confirmed_block:
  assumes "gc_enabled (sg_config g)"
    and "observe_candidate_parent env asked header (fold view_step earlier (ZebraChainView_new config)) = (parent, v)"
    and "sg_chain g = fold view_step later v"
    and "submit_through_gate zebra_chain_view now c header mode parent g = (outcome, g')"
    and "outcome = DryRunOnly \<or> outcome = SubmitCalled block_hex"
  shows "36 \<le> length header \<and>
    (\<exists>op \<in> set (earlier @ ObserveCandidate env asked header # later). confirms op (take 32 (drop 4 header))) \<and>
    (\<exists>m. from_header_bytes header (sc_block_hash c) parent = Inr m \<and>
       height_in_window (sg_config g) (tip_of zebra_chain_view (sg_chain g) m) (cm_height m) \<and>
       (case parent of
          None \<Rightarrow> cm_height m = 1
        | Some _ \<Rightarrow> \<exists>info. node_returned env asked (take 32 (drop 4 header)) info \<and>
            unat (cm_height m) = unat (bh_height info) + 1))"
proof -
  let ?ops = "earlier @ ObserveCandidate env asked header # later"
  have "sg_chain g = fold view_step ?ops (ZebraChainView_new config)" using assms(2,3) by simp
  then have good: "view_good ({} \<union> {h. \<exists>op \<in> set ?ops. confirms op h}) (sg_chain g)"
    using view_run_good [OF view_good_new, of "{}" ?ops config] by simp
  obtain m where m: "from_header_bytes header (sc_block_hash c) parent = Inr m"
    and accept: "fst (apply_at zebra_chain_view now g c m) = GateAccept"
    using assms(4,5) by (auto simp: submit_through_gate_def split: sum.splits prod.splits GateDecision.splits SubmitBlockMode.splits)
  note meta = from_header_bytes_InrD [OF m]
  have height: "case parent of None \<Rightarrow> cm_height m = 1
      | Some _ \<Rightarrow> \<exists>info. node_returned env asked (named_parent header) info \<and> unat (cm_height m) = unat (bh_height info) + 1"
    using observe_candidate_cases [OF assms(2)] meta(3) by (auto simp: word_unat_eq_iff)
  show ?thesis
    using zebra.accepted_extends_chain [OF assms(1) good accept] meta(1,2) m height unfolding named_parent_def by auto
qed

definition sample_lookup :: lookup_env where
  "sample_lookup = \<lparr>le_reply = (\<lambda>hash _. (1, HeaderReply \<lparr>bh_hash = hash, bh_height = 100, bh_confirmations = Some 1\<rparr>)),
     le_lag = (\<lambda>_. 0)\<rparr>"

definition sample_header :: bytes where
  "sample_header = replicate 4 0 @ replicate 32 7 @ replicate 104 0"

definition sample_gate :: "ZebraChainView SubmitGate" where
  "sample_gate = SubmitGate_new (GateConfig_default\<lparr>gc_enabled := True\<rparr>)
     (view_admit_parent (replicate 32 7) (set_tip_height 99 (ZebraChainView_new ZebraChainViewConfig_default)))"

lemma sample_reply:
  "fst (get_block_header_with_retry sample_lookup 0 h) = Inr (Some \<lparr>bh_hash = h, bh_height = 100, bh_confirmations = Some 1\<rparr>)"
  by (simp add: get_block_header_with_retry_def retry_transient_within_def RETRY_BACKOFFS_MS_def upt_rec sample_lookup_def
      get_block_header_def RETRY_BUDGET_def from_secs_def NANOS_PER_SEC_def)

lemma sample_observed:
  "observe_candidate_parent sample_lookup 0 sample_header (fold view_step [PollTip (Inr 99)] v) =
     (Some \<lparr>po_parent_hash = replicate 32 7, po_height = 100, po_confirmations = Some 1\<rparr>,
      view_admit_parent (replicate 32 7) (set_tip_height 99 v))"
  by (simp add: observe_candidate_parent_def parent_hash_from_header_def sample_header_def observe_parent_def sample_reply
      eq_ignore_ascii_case_def poll_tip_def Let_def)

lemma sample_view:
  "contains_parent (zv_state (sg_chain sample_gate)) (replicate 32 7)" "cs_tip_height (zv_state (sg_chain sample_gate)) = 99"
  using admitted_known
  by (simp_all add: sample_gate_def SubmitGate_new_def view_admit_parent_def set_tip_height_def admit_parent_def Let_def)

lemma sample_submitted:
  "fst (submit_through_gate zebra_chain_view 5 sample_candidate sample_header Live
     (Some \<lparr>po_parent_hash = replicate 32 7, po_height = 100, po_confirmations = Some 1\<rparr>) sample_gate) = SubmitCalled ''00''"
proof -
  have config: "sg_config sample_gate = GateConfig_default\<lparr>gc_enabled := True\<rparr>" "dr_entries (sg_dedup sample_gate) = []"
    by (simp_all add: sample_gate_def SubmitGate_new_def DedupRing_new_def)
  then have "\<not> fst (ring_contains ''aa'' 5 (sg_dedup sample_gate))" by (simp add: ring_contains_def evict_expired_def)
  then show ?thesis
    using sample_view
    by (simp add: submit_through_gate_def from_header_bytes_def parent_hash_from_header_def sample_header_def
        checked_add_u64_def observed_tip_of_def u64_from_i64_def ok_or_def
        apply_at_def chain_rejection_def header_hash_matches_def zebra_chain_view_def
        sample_candidate_def config GateConfig_default_def Let_def saturating_sub_def saturating_add_def max_def split_beta)
qed

theorem accepted_extends_confirmed_block_witness:
  "fst (submit_through_gate zebra_chain_view 5 sample_candidate sample_header Live
     (Some \<lparr>po_parent_hash = replicate 32 7, po_height = 100, po_confirmations = Some 1\<rparr>) sample_gate) = SubmitCalled ''00'' \<and>
   (\<exists>op \<in> set [PollTip (Inr 99), ObserveCandidate sample_lookup 0 sample_header]. confirms op (replicate 32 7))"
proof -
  have gate: "gc_enabled (sg_config sample_gate)" "sg_chain sample_gate = fold view_step []
      (view_admit_parent (replicate 32 7) (set_tip_height 99 (ZebraChainView_new ZebraChainViewConfig_default)))"
    and parent: "take 32 (drop 4 sample_header) = replicate 32 7"
    by (simp_all add: sample_gate_def SubmitGate_new_def sample_header_def)
  obtain g' where run: "submit_through_gate zebra_chain_view 5 sample_candidate sample_header Live
     (Some \<lparr>po_parent_hash = replicate 32 7, po_height = 100, po_confirmations = Some 1\<rparr>) sample_gate = (SubmitCalled ''00'', g')"
    using sample_submitted by (metis prod.collapse)
  show ?thesis
    using accepted_extends_confirmed_block [OF gate(1) sample_observed gate(2) run, of "''00''"] sample_submitted parent
    by (simp del: confirms.simps)
qed

end
