(* ===== verification/Segmented_Block.thy ===== *)
theory Segmented_Block
  imports Bytes "HOL-Library.Multiset"
begin

text \<open>
  Raw blocks in segments, \<open>crates/sovright-relay/src/segmented_block.rs\<close>: the frame of a segment,
  splitting a block, putting the segments together again with every check on the way, and the
  identifiers of relayed objects.

  SHA-256 and the allocator are parameters; \<open>alloc\<close> tells for each of the two reservations of
  the reassembly whether it succeeds.  A block that is split comes back from its frames in
  whatever order they arrive, and a reassembled block has the length and digest its segments name.
\<close>

section \<open>Big-endian fields\<close>

type_synonym digest_fn = "bytes \<Rightarrow> bytes"

definition u16_to_be_bytes :: "u16 \<Rightarrow> bytes" where "u16_to_be_bytes w = rev (u16_to_le_bytes w)"
definition u16_from_be_bytes :: "bytes \<Rightarrow> u16" where "u16_from_be_bytes bs = u16_from_le_bytes (rev bs)"
definition u32_from_be_bytes :: "bytes \<Rightarrow> u32" where "u32_from_be_bytes bs = u32_from_le_bytes (rev bs)"
definition u64_from_be_bytes :: "bytes \<Rightarrow> u64" where "u64_from_be_bytes bs = u64_from_le_bytes (rev bs)"

lemma length_to_be_bytes [simp]:
  "length (u16_to_be_bytes a) = 2" "length (u32_to_be_bytes b) = 4" "length (u64_to_be_bytes c) = 8"
  by (simp_all add: u16_to_be_bytes_def u32_to_be_bytes_def u64_to_be_bytes_def)

lemma from_to_be [simp]:
  "u16_from_be_bytes (u16_to_be_bytes a) = a" "u32_from_be_bytes (u32_to_be_bytes b) = b"
  "u64_from_be_bytes (u64_to_be_bytes c) = c"
  by (simp_all add: u16_to_be_bytes_def u32_to_be_bytes_def u64_to_be_bytes_def
      u16_from_be_bytes_def u32_from_be_bytes_def u64_from_be_bytes_def)

lemma u16_to_from_be: "length bs = 2 \<Longrightarrow> u16_to_be_bytes (u16_from_be_bytes bs) = bs"
  by (simp add: u16_to_be_bytes_def u16_from_be_bytes_def u16_to_from_le)

definition byte_range :: "nat \<Rightarrow> nat \<Rightarrow> bytes \<Rightarrow> bytes" where
  "byte_range first past bs = take (past - first) (drop first bs)"

section \<open>Segments and their frames\<close>

definition SEGMENT_MAGIC :: u32 where "SEGMENT_MAGIC = 0x46525347"
definition SEGMENT_VERSION :: u8 where "SEGMENT_VERSION = 1"
definition SEGMENT_HEADER_LEN :: nat where "SEGMENT_HEADER_LEN = 4 + 1 + 1 + 2 + 2 + 4 + 8 + 32 + 32 + 32"

record RawBlockSegment =
  rs_block_hash :: bytes
  rs_segment_index :: u16
  rs_segment_count :: u16
  rs_raw_block_len :: u64
  rs_raw_block_digest :: bytes
  rs_payload_digest :: bytes
  rs_payload :: bytes

datatype SegmentedBlockError =
    SegmentPayloadTooSmall
  | TooManySegments nat
  | FrameTooShort
  | InvalidMagic
  | UnsupportedVersion u8
  | LengthMismatch
  | InvalidSegmentIndex u16 u16
  | DuplicateSegment u16
  | MissingSegment u16
  | InconsistentMetadata
  | DigestMismatch
  | AllocationFailed

fun show_segment_error :: "SegmentedBlockError \<Rightarrow> string" where
  "show_segment_error SegmentPayloadTooSmall = ''segment frame budget leaves no payload room''"
| "show_segment_error (TooManySegments n) = ''raw block requires too many segments: '' @ show_nat n"
| "show_segment_error FrameTooShort = ''segment frame too short''"
| "show_segment_error InvalidMagic = ''invalid segment magic''"
| "show_segment_error (UnsupportedVersion v) = ''unsupported segment version: '' @ show_nat (unat v)"
| "show_segment_error LengthMismatch = ''segment payload length does not match frame length''"
| "show_segment_error (InvalidSegmentIndex i n) =
     ''segment index '' @ show_nat (unat i) @ '' is outside segment count '' @ show_nat (unat n)"
| "show_segment_error (DuplicateSegment i) = ''duplicate segment index '' @ show_nat (unat i)"
| "show_segment_error (MissingSegment i) = ''missing segment index '' @ show_nat (unat i)"
| "show_segment_error InconsistentMetadata = ''segments do not describe the same raw block''"
| "show_segment_error DigestMismatch = ''segment digest mismatch''"
| "show_segment_error AllocationFailed = ''raw block allocation failed''"

definition encoded_len :: "RawBlockSegment \<Rightarrow> nat" where
  "encoded_len self = SEGMENT_HEADER_LEN + length (rs_payload self)"

definition encode_segment :: "RawBlockSegment \<Rightarrow> bytes" where
  "encode_segment self =
     u32_to_be_bytes SEGMENT_MAGIC @ [SEGMENT_VERSION] @ [0] @ u16_to_be_bytes (rs_segment_index self) @
     u16_to_be_bytes (rs_segment_count self) @ u32_to_be_bytes (of_nat (length (rs_payload self))) @
     u64_to_be_bytes (rs_raw_block_len self) @ rs_block_hash self @ rs_raw_block_digest self @
     rs_payload_digest self @ rs_payload self"

definition decode_segment :: "digest_fn \<Rightarrow> bytes \<Rightarrow> SegmentedBlockError + RawBlockSegment" where
  "decode_segment sha256 frame =
     (if length frame < SEGMENT_HEADER_LEN then Inl FrameTooShort
      else if u32_from_be_bytes (byte_range 0 4 frame) \<noteq> SEGMENT_MAGIC then Inl InvalidMagic
      else if frame ! 4 \<noteq> SEGMENT_VERSION then Inl (UnsupportedVersion (frame ! 4))
      else let segment_index = u16_from_be_bytes (byte_range 6 8 frame);
               segment_count = u16_from_be_bytes (byte_range 8 10 frame);
               payload_len = unat (u32_from_be_bytes (byte_range 10 14 frame));
               raw_block_len = u64_from_be_bytes (byte_range 14 22 frame);
               block_hash = byte_range 22 54 frame;
               raw_block_digest = byte_range 54 86 frame;
               payload_digest = byte_range 86 118 frame in
        if length frame \<noteq> SEGMENT_HEADER_LEN + payload_len then Inl LengthMismatch
        else if segment_count = 0 \<or> segment_index \<ge> segment_count then Inl (InvalidSegmentIndex segment_index segment_count)
        else let payload = drop SEGMENT_HEADER_LEN frame in
          if sha256 payload \<noteq> payload_digest then Inl DigestMismatch
          else Inr \<lparr>rs_block_hash = block_hash, rs_segment_index = segment_index, rs_segment_count = segment_count,
                    rs_raw_block_len = raw_block_len, rs_raw_block_digest = raw_block_digest,
                    rs_payload_digest = payload_digest, rs_payload = payload\<rparr>)"

section \<open>Splitting\<close>

definition div_ceil :: "nat \<Rightarrow> nat \<Rightarrow> nat" where
  "div_ceil a b = a div b + (if a mod b > 0 then 1 else 0)"

definition segment_at :: "digest_fn \<Rightarrow> bytes \<Rightarrow> bytes \<Rightarrow> nat \<Rightarrow> u16 \<Rightarrow> nat \<Rightarrow> RawBlockSegment" where
  "segment_at sha256 block_hash raw_block payload_budget segment_count i =
     (let start = i * payload_budget;
          past = min (start + payload_budget) (length raw_block);
          payload = byte_range start past raw_block
      in \<lparr>rs_block_hash = block_hash, rs_segment_index = of_nat i, rs_segment_count = segment_count,
          rs_raw_block_len = of_nat (length raw_block), rs_raw_block_digest = sha256 raw_block,
          rs_payload_digest = sha256 payload, rs_payload = payload\<rparr>)"

definition split_raw_block :: "digest_fn \<Rightarrow> bytes \<Rightarrow> bytes \<Rightarrow> nat \<Rightarrow> SegmentedBlockError + RawBlockSegment list" where
  "split_raw_block sha256 block_hash raw_block max_frame_len =
     (if max_frame_len \<le> SEGMENT_HEADER_LEN then Inl SegmentPayloadTooSmall
      else let payload_budget = max_frame_len - SEGMENT_HEADER_LEN;
               segment_count = max (div_ceil (length raw_block) payload_budget) 1 in
        if segment_count > 65535 then Inl (TooManySegments segment_count)
        else Inr (map (segment_at sha256 block_hash raw_block payload_budget (of_nat segment_count)) [0..<segment_count]))"

section \<open>Reassembly\<close>

definition USIZE_MAX :: nat where "USIZE_MAX = 2 ^ 64 - 1"

fun check_segments :: "digest_fn \<Rightarrow> RawBlockSegment \<Rightarrow> nat \<Rightarrow> RawBlockSegment list \<Rightarrow> SegmentedBlockError + nat" where
  "check_segments sha256 first payload_len [] = Inr payload_len"
| "check_segments sha256 first payload_len (segment # segments) =
     (if rs_block_hash segment \<noteq> rs_block_hash first \<or> rs_segment_count segment \<noteq> rs_segment_count first \<or>
         rs_raw_block_len segment \<noteq> rs_raw_block_len first \<or> rs_raw_block_digest segment \<noteq> rs_raw_block_digest first
      then Inl InconsistentMetadata
      else if unat (rs_segment_index segment) \<ge> unat (rs_segment_count first)
      then Inl (InvalidSegmentIndex (rs_segment_index segment) (rs_segment_count segment))
      else if sha256 (rs_payload segment) \<noteq> rs_payload_digest segment then Inl DigestMismatch
      else if payload_len + length (rs_payload segment) > USIZE_MAX then Inl LengthMismatch
      else check_segments sha256 first (payload_len + length (rs_payload segment)) segments)"

fun check_order :: "nat \<Rightarrow> u16 option \<Rightarrow> RawBlockSegment list \<Rightarrow> SegmentedBlockError + unit" where
  "check_order index previous [] = Inr ()"
| "check_order index previous (segment # segments) =
     (if previous = Some (rs_segment_index segment) then Inl (DuplicateSegment (rs_segment_index segment))
      else if unat (rs_segment_index segment) \<noteq> index then Inl (MissingSegment (of_nat index))
      else check_order (index + 1) (Some (rs_segment_index segment)) segments)"

text \<open>Equal indexes are refused below, so the order among them does not show.\<close>

definition segment_order :: "RawBlockSegment list \<Rightarrow> RawBlockSegment list" where
  "segment_order segments = sort_key (\<lambda>s. unat (rs_segment_index s)) segments"

definition reassemble_raw_block ::
  "(nat \<Rightarrow> nat \<Rightarrow> bool) \<Rightarrow> digest_fn \<Rightarrow> RawBlockSegment list \<Rightarrow> SegmentedBlockError + bytes" where
  "reassemble_raw_block alloc sha256 segments =
     (case segments of
        [] \<Rightarrow> Inl (MissingSegment 0)
      | first # _ \<Rightarrow>
          let segment_count = unat (rs_segment_count first) in
          if segment_count = 0 then Inl (InvalidSegmentIndex 0 0)
          else if length segments > segment_count then Inl InconsistentMetadata
          else if \<not> alloc 0 (length segments) then Inl AllocationFailed
          else bindR (check_segments sha256 first 0 segments) (\<lambda>payload_len.
            let ordered = segment_order segments in
            bindR (check_order 0 None ordered) (\<lambda>_.
            if length ordered < segment_count then Inl (MissingSegment (of_nat (length ordered)))
            else if payload_len \<noteq> unat (rs_raw_block_len first) then Inl LengthMismatch
            else if \<not> alloc 1 payload_len then Inl AllocationFailed
            else let raw_block = concat (map rs_payload ordered) in
              if sha256 raw_block \<noteq> rs_raw_block_digest first then Inl DigestMismatch
              else Inr raw_block)))"

definition segment_object_hash :: "digest_fn \<Rightarrow> bytes \<Rightarrow> u16 \<Rightarrow> bytes" where
  "segment_object_hash sha256 block_hash segment_index =
     sha256 (as_bytes ''FORGE raw block segment v1'' @ block_hash @ u16_to_be_bytes segment_index)"

definition skeleton_object_hash :: "digest_fn \<Rightarrow> bytes \<Rightarrow> bytes" where
  "skeleton_object_hash sha256 block_hash = sha256 (as_bytes ''FORGE compact skeleton v1'' @ block_hash)"

definition compact_v3_object_hash :: "digest_fn \<Rightarrow> bytes \<Rightarrow> bytes" where
  "compact_v3_object_hash sha256 block_hash = sha256 (as_bytes ''FORGE compact adaptive v3'' @ block_hash)"

section \<open>Frames come back\<close>

definition segment_ok :: "digest_fn \<Rightarrow> RawBlockSegment \<Rightarrow> bool" where
  "segment_ok sha256 s \<longleftrightarrow> length (rs_block_hash s) = 32 \<and> length (rs_raw_block_digest s) = 32 \<and>
     length (rs_payload_digest s) = 32 \<and> length (rs_payload s) < 2 ^ 32 \<and>
     rs_segment_index s < rs_segment_count s \<and> sha256 (rs_payload s) = rs_payload_digest s"

lemma byte_range_skip: "length xs = n \<Longrightarrow> n \<le> first \<Longrightarrow> byte_range first past (xs @ ys) = byte_range (first - n) (past - n) ys"
  by (simp add: byte_range_def)

lemma byte_range_field: "length xs = n \<Longrightarrow> byte_range 0 n (xs @ ys) = xs"
  by (simp add: byte_range_def)

lemma decode_encode_segment:
  assumes "segment_ok sha256 s"
  shows "decode_segment sha256 (encode_segment s) = Inr s"
proof -
  have p: "unat (of_nat (length (rs_payload s)) :: u32) = length (rs_payload s)"
    using assms by (simp add: segment_ok_def unat_of_nat)
  have fields: "byte_range 0 4 (encode_segment s) = u32_to_be_bytes SEGMENT_MAGIC"
      "encode_segment s ! 4 = SEGMENT_VERSION"
      "byte_range 6 8 (encode_segment s) = u16_to_be_bytes (rs_segment_index s)"
      "byte_range 8 10 (encode_segment s) = u16_to_be_bytes (rs_segment_count s)"
      "byte_range 10 14 (encode_segment s) = u32_to_be_bytes (of_nat (length (rs_payload s)))"
      "byte_range 14 22 (encode_segment s) = u64_to_be_bytes (rs_raw_block_len s)"
      "byte_range 22 54 (encode_segment s) = rs_block_hash s"
      "byte_range 54 86 (encode_segment s) = rs_raw_block_digest s"
      "byte_range 86 118 (encode_segment s) = rs_payload_digest s"
      "drop SEGMENT_HEADER_LEN (encode_segment s) = rs_payload s"
      "length (encode_segment s) = SEGMENT_HEADER_LEN + length (rs_payload s)"
    using assms by (simp_all add: segment_ok_def encode_segment_def byte_range_def SEGMENT_HEADER_LEN_def nth_append)
  have "rs_segment_count s \<noteq> 0" "\<not> rs_segment_count s \<le> rs_segment_index s"
    using assms by (auto simp: segment_ok_def not_le)
  then show ?thesis
    unfolding decode_segment_def fields Let_def from_to_be p
    using assms by (simp add: segment_ok_def)
qed

section \<open>Split blocks come back\<close>

lemma concat_ranges:
  "concat (map (\<lambda>i. byte_range (i * b) (min (i * b + b) (length xs)) xs) [0..<n]) = take (n * b) xs"
proof (induction n)
  case (Suc n)
  have "byte_range (n * b) (min (n * b + b) (length xs)) xs = take b (drop (n * b) xs)"
    by (auto simp: byte_range_def min_def take_all_iff not_le)
  moreover have "take (Suc n * b) xs = take (n * b) xs @ take b (drop (n * b) xs)"
    using take_add [of "n * b" b xs] by (simp add: add.commute)
  ultimately show ?case using Suc by (simp del: mult_Suc)
qed simp

lemma div_ceil_covers:
  assumes "0 < b"
  shows "a \<le> div_ceil a b * b"
  using dividend_less_div_times [OF assms, of a] by (auto simp: div_ceil_def less_imp_le)

lemma segment_at_simps [simp]:
  "rs_block_hash (segment_at sha256 h raw b n i) = h"
  "rs_segment_index (segment_at sha256 h raw b n i) = of_nat i"
  "rs_segment_count (segment_at sha256 h raw b n i) = n"
  "rs_raw_block_len (segment_at sha256 h raw b n i) = of_nat (length raw)"
  "rs_raw_block_digest (segment_at sha256 h raw b n i) = sha256 raw"
  "rs_payload (segment_at sha256 h raw b n i) = byte_range (i * b) (min (i * b + b) (length raw)) raw"
  "rs_payload_digest (segment_at sha256 h raw b n i) = sha256 (byte_range (i * b) (min (i * b + b) (length raw)) raw)"
  by (simp_all add: segment_at_def Let_def)

lemma split_raw_blockE:
  assumes "split_raw_block sha256 h raw max_frame_len = Inr segments"
  obtains b n where "b = max_frame_len - SEGMENT_HEADER_LEN" "0 < b" "0 < n" "n \<le> 65535" "length raw \<le> n * b"
    "segments = map (segment_at sha256 h raw b (of_nat n)) [0..<n]"
proof -
  let ?b = "max_frame_len - SEGMENT_HEADER_LEN" and ?n = "max (div_ceil (length raw) (max_frame_len - SEGMENT_HEADER_LEN)) 1"
  have b: "0 < ?b" and n: "?n \<le> 65535" and s: "segments = map (segment_at sha256 h raw ?b (of_nat ?n)) [0..<?n]"
    using assms by (auto simp: split_raw_block_def Let_def not_le split: if_splits)
  have "length raw \<le> ?n * ?b"
    using div_ceil_covers [OF b, of "length raw"] by (rule order_trans) (intro mult_le_mono1; simp)
  then show ?thesis using n by (intro that [OF refl b _ _ _ s]) simp_all
qed

definition belongs :: "digest_fn \<Rightarrow> RawBlockSegment \<Rightarrow> RawBlockSegment \<Rightarrow> bool" where
  "belongs sha256 first s \<longleftrightarrow> rs_block_hash s = rs_block_hash first \<and> rs_segment_count s = rs_segment_count first \<and>
     rs_raw_block_len s = rs_raw_block_len first \<and> rs_raw_block_digest s = rs_raw_block_digest first \<and>
     unat (rs_segment_index s) < unat (rs_segment_count first) \<and> sha256 (rs_payload s) = rs_payload_digest s"

lemma check_segments_Cons:
  "belongs sha256 first s \<Longrightarrow> p + length (rs_payload s) \<le> USIZE_MAX \<Longrightarrow>
   check_segments sha256 first p (s # segments) = check_segments sha256 first (p + length (rs_payload s)) segments"
  by (simp add: belongs_def)

lemma check_segments_all:
  "\<forall>s \<in> set segments. belongs sha256 first s \<Longrightarrow> p + sum_list (map (\<lambda>s. length (rs_payload s)) segments) \<le> USIZE_MAX \<Longrightarrow>
   check_segments sha256 first p segments = Inr (p + sum_list (map (\<lambda>s. length (rs_payload s)) segments))"
proof (induction segments arbitrary: p)
  case (Cons s segments)
  have "check_segments sha256 first p (s # segments) = check_segments sha256 first (p + length (rs_payload s)) segments"
    using Cons.prems by (intro check_segments_Cons) simp_all
  also have "\<dots> = Inr (p + length (rs_payload s) + sum_list (map (\<lambda>s. length (rs_payload s)) segments))"
    using Cons.prems by (intro Cons.IH) simp_all
  finally show ?case by (simp del: check_segments.simps)
qed simp

lemma check_order_upto:
  "map (\<lambda>s. unat (rs_segment_index s)) segments = [k..<k + length segments] \<Longrightarrow>
   (\<forall>i. previous = Some i \<longrightarrow> unat i < k) \<Longrightarrow> check_order k previous segments = Inr ()"
proof (induction segments arbitrary: k previous)
  case (Cons s segments)
  have u: "unat (rs_segment_index s) = k" and r: "map (\<lambda>s. unat (rs_segment_index s)) segments = [k + 1..<k + 1 + length segments]"
    using Cons.prems(1) by (simp_all add: upt_conv_Cons del: upt_Suc)
  have "check_order (k + 1) (Some (rs_segment_index s)) segments = Inr ()"
    using Cons.IH [OF r] u by simp
  then show ?case using u Cons.prems(2) by auto
qed simp

lemma filter_distinct_key: "distinct (map f xs) \<Longrightarrow> x \<in> set xs \<Longrightarrow> filter (\<lambda>y. f x = f y) xs = [x]"
  by (induction xs) (auto simp: filter_empty_conv image_iff)

lemma segment_order_permuted:
  assumes "mset arrived = mset segments" and "map (\<lambda>s. unat (rs_segment_index s)) segments = [0..<n]"
  shows "segment_order arrived = segments"
  unfolding segment_order_def
proof (rule properties_for_sort_key)
  let ?k = "\<lambda>s. unat (rs_segment_index s)"
  show "mset segments = mset arrived" using assms(1) by simp
  show "sorted (map ?k segments)" unfolding assms(2) by simp
  have d: "distinct (map ?k segments)" unfolding assms(2) by simp
  moreover have "mset (map ?k arrived) = mset (map ?k segments)" using assms(1) by simp
  ultimately have d': "distinct (map ?k arrived)" using mset_eq_imp_distinct_iff by blast
  fix s assume s: "s \<in> set segments"
  then have "s \<in> set arrived" using mset_eq_setD [OF assms(1)] by simp
  then show "filter (\<lambda>x. ?k s = ?k x) segments = filter (\<lambda>x. ?k s = ?k x) arrived"
    using filter_distinct_key [OF d s] filter_distinct_key [OF d'] by simp
qed

lemma segment_at_ok:
  assumes "length block_hash = 32" and "\<And>bs. length (sha256 bs) = 32" and "b < 2 ^ 32" and "i < n" and "n \<le> 65535"
  shows "segment_ok sha256 (segment_at sha256 block_hash raw b (of_nat n) i)"
    and "length (encode_segment (segment_at sha256 block_hash raw b (of_nat n) i)) \<le> SEGMENT_HEADER_LEN + b"
proof -
  define s where "s = segment_at sha256 block_hash raw b (of_nat n) i"
  have f: "rs_block_hash s = block_hash" "rs_segment_index s = of_nat i" "rs_segment_count s = of_nat n"
      "rs_raw_block_digest s = sha256 raw" "rs_payload_digest s = sha256 (rs_payload s)"
    by (simp_all add: s_def)
  have len: "length (rs_payload s) \<le> b" by (simp add: s_def byte_range_def)
  have "(of_nat i :: u16) < of_nat n" using assms(4,5) by (simp add: word_less_nat_alt unat_of_nat)
  moreover have "length (rs_payload s) < 2 ^ 32" using len assms(3) by linarith
  ultimately show "segment_ok sha256 s" unfolding segment_ok_def f using assms(1,2) by simp
  show "length (encode_segment s) \<le> SEGMENT_HEADER_LEN + b"
    using len assms(1,2) unfolding encode_segment_def f by (simp add: SEGMENT_HEADER_LEN_def)
qed

lemma permuted_segments_reassemble:
  assumes n: "0 < n" "n \<le> 65535" "length raw \<le> n * b" and "length raw \<le> USIZE_MAX"
    and segs: "segments = map (segment_at sha256 block_hash raw b (of_nat n)) [0..<n]"
    and "mset arrived = mset segments" and "\<And>site n. alloc site n"
  shows "reassemble_raw_block alloc sha256 arrived = Inr raw"
proof -
  have un: "unat (of_nat i :: u16) = i" if "i \<le> n" for i using that n(2) by (simp add: unat_of_nat)
  have keys: "map (\<lambda>s. unat (rs_segment_index s)) segments = [0..<n]"
    by (rule nth_equalityI) (simp_all add: segs un)
  have payloads: "concat (map rs_payload segments) = raw"
    using concat_ranges [of b raw n] n(3) by (simp add: segs comp_def)
  have order: "segment_order arrived = segments" by (rule segment_order_permuted [OF assms(6) keys])
  have set: "set arrived = set segments" and lena: "length arrived = n" and lens: "length segments = n"
    using mset_eq_setD [OF assms(6)] mset_eq_length [OF assms(6)] by (simp_all add: segs)
  then obtain first rest where arrived: "arrived = first # rest" using n(1) by (cases arrived) auto
  then obtain i where first: "first = segment_at sha256 block_hash raw b (of_nat n) i"
    using set by (auto simp: segs)
  have ne: "arrived \<noteq> []" "hd arrived = first" using arrived by simp_all
  have ff: "rs_segment_count first = of_nat n" "rs_raw_block_len first = of_nat (length raw)" "rs_raw_block_digest first = sha256 raw"
    by (simp_all add: first)
  have "sum_list (map (\<lambda>s. length (rs_payload s)) arrived) = sum_list (map (\<lambda>s. length (rs_payload s)) segments)"
    using assms(6) by (metis mset_map sum_mset_sum_list)
  also have "\<dots> = length raw" using payloads by (simp add: length_concat comp_def flip: payloads)
  finally have sum: "sum_list (map (\<lambda>s. length (rs_payload s)) arrived) = length raw" .
  have "\<forall>s \<in> set arrived. belongs sha256 first s"
    unfolding set segs by (auto simp: belongs_def first un)
  then have check: "check_segments sha256 first 0 arrived = Inr (length raw)"
    using check_segments_all [of arrived sha256 first 0] assms(4) by (simp add: sum)
  have upto: "check_order 0 None segments = Inr ()"
    by (rule check_order_upto) (simp_all add: keys lens)
  have u: "unat (of_nat (length raw) :: u64) = length raw"
    using assms(4) by (simp add: unat_of_nat USIZE_MAX_def)
  show ?thesis
    unfolding reassemble_raw_block_def list.case_eq_if
    using n(1) lena lens order payloads ff un u ne check upto by (simp add: Let_def assms(7))
qed

lemma check_segments_sum:
  "check_segments sha256 first p segments = Inr total_len \<Longrightarrow> total_len = p + sum_list (map (\<lambda>s. length (rs_payload s)) segments)"
proof (induction segments arbitrary: p)
  case (Cons s segments)
  then have "check_segments sha256 first (p + length (rs_payload s)) segments = Inr total_len" by (simp split: if_splits)
  from Cons.IH [OF this] show ?case by simp
qed simp

lemma reassembled_block_as_named:
  assumes "reassemble_raw_block alloc sha256 segments = Inr raw"
  shows "segments \<noteq> []" "length raw = unat (rs_raw_block_len (hd segments))" "sha256 raw = rs_raw_block_digest (hd segments)"
proof -
  obtain first rest where segs: "segments = first # rest"
    using assms by (cases segments) (simp_all add: reassemble_raw_block_def)
  then show "segments \<noteq> []" by simp
  obtain n where n: "check_segments sha256 first 0 segments = Inr n" "n = unat (rs_raw_block_len first)"
      and raw: "raw = concat (map rs_payload (segment_order segments))" "sha256 raw = rs_raw_block_digest first"
    using assms unfolding reassemble_raw_block_def segs
    by (auto simp: Let_def bindR_def simp del: check_segments.simps split: if_splits sum.splits)
  have "mset (segment_order segments) = mset segments" by (simp add: segment_order_def)
  then have "sum_list (map (\<lambda>s. length (rs_payload s)) (segment_order segments)) = sum_list (map (\<lambda>s. length (rs_payload s)) segments)"
    by (metis mset_map sum_mset_sum_list)
  then show "length raw = unat (rs_raw_block_len (hd segments))"
    using check_segments_sum [OF n(1)] n(2) segs by (simp add: raw(1) length_concat comp_def)
  show "sha256 raw = rs_raw_block_digest (hd segments)" using raw(2) segs by simp
qed

text \<open>
  C28.  A block that can be split comes back: every segment fits the frame length and is decoded from
  its frame, and the segments, in whatever order they arrive, are put together to the block.
\<close>

theorem split_block_roundtrip:
  assumes "split_raw_block sha256 block_hash raw max_frame_len = Inr segments"
    and "length block_hash = 32" and "\<And>bs. length (sha256 bs) = 32" and "max_frame_len < 2 ^ 32"
    and "length raw \<le> USIZE_MAX" and "mset arrived = mset segments" and "\<And>site n. alloc site n"
  shows "(\<forall>s \<in> set segments. length (encode_segment s) \<le> max_frame_len \<and> decode_segment sha256 (encode_segment s) = Inr s) \<and>
         reassemble_raw_block alloc sha256 arrived = Inr raw"
proof -
  obtain b n where b: "b = max_frame_len - SEGMENT_HEADER_LEN" "0 < b" and n: "0 < n" "n \<le> 65535" "length raw \<le> n * b"
    and segs: "segments = map (segment_at sha256 block_hash raw b (of_nat n)) [0..<n]"
    by (rule split_raw_blockE [OF assms(1)])
  have less: "b < 2 ^ 32" and max: "SEGMENT_HEADER_LEN + b = max_frame_len" using b assms(4) by linarith+
  have "length (encode_segment s) \<le> max_frame_len \<and> decode_segment sha256 (encode_segment s) = Inr s" if "s \<in> set segments" for s
  proof -
    from that obtain i where i: "i < n" "s = segment_at sha256 block_hash raw b (of_nat n) i" by (auto simp: segs)
    note ok = segment_at_ok [OF assms(2,3) less i(1) n(2), where raw = raw]
    show ?thesis using decode_encode_segment [OF ok(1)] ok(2) max i(2) by simp
  qed
  moreover have "reassemble_raw_block alloc sha256 arrived = Inr raw"
    by (rule permuted_segments_reassemble [OF n assms(5) segs assms(6)]) (rule assms(7))
  ultimately show ?thesis by blast
qed

definition flat_digest :: digest_fn where
  "flat_digest bs = replicate 32 (of_nat (length bs))"

theorem split_block_roundtrip_witness:
  "\<exists>first second. split_raw_block flat_digest (replicate 32 9) [1, 2, 3] 120 = Inr [first, second] \<and>
     rs_payload first = [1, 2] \<and> rs_payload second = [3] \<and>
     reassemble_raw_block (\<lambda>_ _. True) flat_digest [second, first] = Inr [1, 2, 3]"
proof -
  let ?s = "segment_at flat_digest (replicate 32 9) [1, 2, 3] 2 2"
  have s: "split_raw_block flat_digest (replicate 32 9) [1, 2, 3] 120 = Inr [?s 0, ?s 1]"
    by (simp add: split_raw_block_def SEGMENT_HEADER_LEN_def div_ceil_def Let_def)
  have "reassemble_raw_block (\<lambda>_ _. True) flat_digest [?s 1, ?s 0] = Inr [1, 2, 3]"
    using split_block_roundtrip [OF s, of "[?s 1, ?s 0]" "\<lambda>_ _. True"]
    by (simp add: flat_digest_def USIZE_MAX_def)
  then show ?thesis using s by (intro exI [of _ "?s 0"] exI [of _ "?s 1"]) (simp add: byte_range_def)
qed

end
