(* ===== verification/Raw_Segments.thy ===== *)
theory Raw_Segments
  imports Segmented_Block
begin

text \<open>
  The buffer of incomplete raw blocks in the relay sidecar, \<open>RawSegmentBuffer\<close> of
  \<open>crates/sovright-relay-sidecar/src/main.rs\<close>: segments arrive from untrusted senders and are
  kept until a set is complete, within limits on the number of blocks, the bytes and the age.

  The sizes of a slot and of an entry, the capacity of a payload vector and the success of a
  reservation are parameters.  Iteration of the hash map is in the order of the list.  Whatever
  arrives, the limits hold and the two byte counters are the sums they stand for; and a complete
  set is in order and consistent, so that its reassembly fails on a digest or a length only.
\<close>

record RawSegmentBufferConfig =
  rc_max_incomplete_blocks :: nat
  rc_max_total_payload_bytes :: nat
  rc_ttl :: duration

definition RawSegmentBufferConfig_new :: "nat \<Rightarrow> nat \<Rightarrow> duration \<Rightarrow> string + RawSegmentBufferConfig" where
  "RawSegmentBufferConfig_new max_incomplete_blocks max_total_payload_bytes ttl =
     (if max_incomplete_blocks = 0 then Inl ''raw_segment_max_incomplete_blocks must be > 0''
      else if max_total_payload_bytes = 0 then Inl ''raw_segment_max_payload_bytes must be > 0''
      else if ttl = 0 then Inl ''raw_segment_ttl_secs must be > 0''
      else Inr \<lparr>rc_max_incomplete_blocks = max_incomplete_blocks,
                rc_max_total_payload_bytes = max_total_payload_bytes, rc_ttl = ttl\<rparr>)"

definition raw_segment_cleanup_interval :: "duration \<Rightarrow> duration" where
  "raw_segment_cleanup_interval ttl = min ttl (from_secs 30)"

record RawSegmentEntry =
  re_first_seen :: instant
  re_bytes :: nat
  re_buffered_bytes :: nat
  re_segments :: "RawBlockSegment option list"

record RawSegmentBuffer =
  rb_config :: RawSegmentBufferConfig
  rb_entries :: "(bytes, RawSegmentEntry) hash_map"
  rb_total_payload_bytes :: nat
  rb_total_buffered_bytes :: nat

datatype RawSegmentInsert =
    SegmentPending
  | SegmentsComplete "RawBlockSegment list" instant
  | SegmentDropped string

record segment_env =
  se_slot_size :: nat
  se_entry_size :: nat
  se_alloc :: "nat \<Rightarrow> nat \<Rightarrow> bool"

definition usize_add :: "nat \<Rightarrow> nat \<Rightarrow> nat option" where
  "usize_add a b = (if a + b \<le> USIZE_MAX then Some (a + b) else None)"

definition usize_mul :: "nat \<Rightarrow> nat \<Rightarrow> nat option" where
  "usize_mul a b = (if a * b \<le> USIZE_MAX then Some (a * b) else None)"

definition RawSegmentBuffer_new :: "RawSegmentBufferConfig \<Rightarrow> RawSegmentBuffer" where
  "RawSegmentBuffer_new config =
     \<lparr>rb_config = config, rb_entries = [], rb_total_payload_bytes = 0, rb_total_buffered_bytes = 0\<rparr>"

definition remove_entry :: "bytes \<Rightarrow> RawSegmentBuffer \<Rightarrow> RawSegmentBuffer" where
  "remove_entry block_hash self =
     (case hm_get (rb_entries self) block_hash of
        None \<Rightarrow> self
      | Some entry \<Rightarrow>
          self\<lparr>rb_entries := hm_remove block_hash (rb_entries self),
               rb_total_payload_bytes := rb_total_payload_bytes self - re_bytes entry,
               rb_total_buffered_bytes := rb_total_buffered_bytes self - re_buffered_bytes entry\<rparr>)"

definition expired_entry :: "duration \<Rightarrow> instant \<Rightarrow> RawSegmentEntry \<Rightarrow> bool" where
  "expired_entry ttl now entry \<longleftrightarrow> re_first_seen entry \<le> now \<and> ttl \<le> nat (now - re_first_seen entry)"

definition expire_segments :: "instant \<Rightarrow> RawSegmentBuffer \<Rightarrow> nat \<times> RawSegmentBuffer" where
  "expire_segments now self =
     (let expired = map fst (filter (\<lambda>(_, entry). expired_entry (rc_ttl (rb_config self)) now entry) (rb_entries self))
      in (length expired, fold remove_entry expired self))"

text \<open>\<open>min_by_key\<close> returns the first of several least elements.\<close>

fun oldest_entry :: "(bytes, RawSegmentEntry) hash_map \<Rightarrow> (bytes \<times> instant) option" where
  "oldest_entry [] = None"
| "oldest_entry ((hash, entry) # entries) =
     (case oldest_entry entries of
        None \<Rightarrow> Some (hash, re_first_seen entry)
      | Some (hash', first_seen) \<Rightarrow>
          if re_first_seen entry \<le> first_seen then Some (hash, re_first_seen entry) else Some (hash', first_seen))"

lemma oldest_entry_in: "oldest_entry m = Some (hash, t) \<Longrightarrow> hash \<in> fst ` set m"
  by (induction m arbitrary: hash t rule: oldest_entry.induct) (auto split: option.splits prod.splits if_splits)

lemma length_hm_remove_less: "k \<in> fst ` set m \<Longrightarrow> length (hm_remove k m) < length m"
  by (induction m) (auto simp: hm_remove_def intro: le_imp_less_Suc length_delete_le less_SucI)

lemma length_remove_entry:
  "hash \<in> fst ` set (rb_entries self) \<Longrightarrow> length (rb_entries (remove_entry hash self)) < length (rb_entries self)"
  by (auto simp: remove_entry_def hm_get_def map_of_eq_None_iff length_hm_remove_less split: option.splits)

function evict_oldest_until_below_block_limit :: "RawSegmentBuffer \<Rightarrow> RawSegmentBuffer" where
  "evict_oldest_until_below_block_limit self =
     (if length (rb_entries self) \<ge> rc_max_incomplete_blocks (rb_config self)
      then case oldest_entry (rb_entries self) of
             None \<Rightarrow> self
           | Some (oldest, _) \<Rightarrow> evict_oldest_until_below_block_limit (remove_entry oldest self)
      else self)"
  by auto
termination
  by (relation "measure (\<lambda>self. length (rb_entries self))") (auto intro: length_remove_entry oldest_entry_in)

declare evict_oldest_until_below_block_limit.simps [simp del]

section \<open>Inserting a segment\<close>

text \<open>The checks of the declared sizes: the length of the block and the bytes of its slots.\<close>

definition check_declared ::
  "segment_env \<Rightarrow> RawSegmentBufferConfig \<Rightarrow> RawBlockSegment \<Rightarrow> nat \<Rightarrow> string + nat \<times> nat" where
  "check_declared env config segment capacity =
     (let segment_count = unat (rs_segment_count segment);
          segment_index = unat (rs_segment_index segment);
          raw_len = unat (rs_raw_block_len segment) in
      if segment_count = 0 \<or> segment_index \<ge> segment_count then Inl ''invalid segment metadata''
      else if \<not> raw_len \<le> rc_max_total_payload_bytes config
      then Inl ''raw block length exceeds raw segment byte limit''
      else if segment_count > max raw_len 1 \<or> length (rs_payload segment) > raw_len
      then Inl ''invalid raw block length or segment count''
      else case (case usize_mul segment_count (se_slot_size env) of
                   None \<Rightarrow> None | Some slots \<Rightarrow> usize_add slots (se_entry_size env)) of
        None \<Rightarrow> Inl ''raw segment metadata exceeds byte limit''
      | Some metadata_bytes \<Rightarrow>
          case usize_add metadata_bytes capacity of
            None \<Rightarrow> Inl ''raw segment metadata exceeds byte limit''
          | Some needed \<Rightarrow>
              if needed \<le> rc_max_total_payload_bytes config then Inr (raw_len, metadata_bytes)
              else Inl ''raw segment metadata exceeds byte limit'')"

definition needs_more :: "RawSegmentBuffer \<Rightarrow> nat \<Rightarrow> nat \<Rightarrow> bool" where
  "needs_more self metadata_bytes capacity =
     (case (case usize_add (rb_total_buffered_bytes self) metadata_bytes of
              None \<Rightarrow> None | Some b \<Rightarrow> usize_add b capacity) of
        None \<Rightarrow> True
      | Some b \<Rightarrow> b > rc_max_total_payload_bytes (rb_config self))"

definition open_entry ::
  "segment_env \<Rightarrow> instant \<Rightarrow> RawSegmentBuffer \<Rightarrow> RawBlockSegment \<Rightarrow> nat \<Rightarrow> nat \<Rightarrow>
   string option \<times> RawSegmentBuffer" where
  "open_entry env now self segment metadata_bytes capacity =
     (if hm_contains (rb_entries self) (rs_block_hash segment) then (None, self)
      else let self = evict_oldest_until_below_block_limit self;
               segment_count = unat (rs_segment_count segment) in
        if length (rb_entries self) \<ge> rc_max_incomplete_blocks (rb_config self)
        then (Some ''raw segment block limit exhausted'', self)
        else if needs_more self metadata_bytes capacity then (Some ''raw segment byte limit exhausted'', self)
        else if \<not> se_alloc env 0 segment_count \<or> \<not> se_alloc env 1 1
        then (Some ''raw segment allocation failed'', self)
        else (None, self\<lparr>rb_entries := hm_insert (rs_block_hash segment)
                           \<lparr>re_first_seen = now, re_bytes = 0, re_buffered_bytes = metadata_bytes,
                            re_segments = replicate segment_count None\<rparr> (rb_entries self),
                         rb_total_buffered_bytes := rb_total_buffered_bytes self + metadata_bytes\<rparr>))"

definition inconsistent :: "RawSegmentEntry \<Rightarrow> RawBlockSegment \<Rightarrow> bool" where
  "inconsistent entry segment \<longleftrightarrow>
     length (re_segments entry) \<noteq> unat (rs_segment_count segment) \<or>
     (case map the (filter (\<lambda>s. s \<noteq> None) (re_segments entry)) of
        [] \<Rightarrow> False
      | first # _ \<Rightarrow> rs_raw_block_len first \<noteq> rs_raw_block_len segment \<or>
                      rs_raw_block_digest first \<noteq> rs_raw_block_digest segment)"

definition store_segment :: "RawSegmentEntry \<Rightarrow> RawBlockSegment \<Rightarrow> nat \<Rightarrow> RawSegmentEntry" where
  "store_segment entry segment capacity =
     entry\<lparr>re_bytes := re_bytes entry + length (rs_payload segment),
           re_buffered_bytes := re_buffered_bytes entry + capacity,
           re_segments := (re_segments entry)[unat (rs_segment_index segment) := Some segment]\<rparr>"

definition add_to_entry ::
  "segment_env \<Rightarrow> RawSegmentBuffer \<Rightarrow> RawBlockSegment \<Rightarrow> nat \<Rightarrow> nat \<Rightarrow> RawSegmentInsert \<times> RawSegmentBuffer" where
  "add_to_entry env self segment raw_len capacity =
     (let block_hash = rs_block_hash segment in
      case hm_get (rb_entries self) block_hash of
        None \<Rightarrow> (SegmentDropped ''raw segment entry unavailable'', self)
      | Some entry \<Rightarrow>
          if inconsistent entry segment
          then (SegmentDropped ''inconsistent raw segment metadata'', remove_entry block_hash self)
          else if re_segments entry ! unat (rs_segment_index segment) \<noteq> None then (SegmentPending, self)
          else if needs_more self 0 capacity \<or>
                  (case usize_add (re_bytes entry) (length (rs_payload segment)) of None \<Rightarrow> True | Some b \<Rightarrow> b > raw_len)
          then (SegmentDropped ''raw segment byte limit exhausted'', remove_entry block_hash self)
          else let entry = store_segment entry segment capacity;
                   self = self\<lparr>rb_entries := hm_insert block_hash entry (rb_entries self),
                               rb_total_payload_bytes := rb_total_payload_bytes self + length (rs_payload segment),
                               rb_total_buffered_bytes := rb_total_buffered_bytes self + capacity\<rparr> in
            if \<forall>s \<in> set (re_segments entry). s \<noteq> None
            then let self = remove_entry block_hash self in
              if \<not> se_alloc env 2 (unat (rs_segment_count segment))
              then (SegmentDropped ''raw segment allocation failed'', self)
              else (SegmentsComplete (map the (filter (\<lambda>s. s \<noteq> None) (re_segments entry))) (re_first_seen entry), self)
            else (SegmentPending, self))"

text \<open>A payload vector has room for its payload and for \<open>spare\<close> more bytes.\<close>

definition insert_segment ::
  "segment_env \<Rightarrow> instant \<Rightarrow> RawBlockSegment \<Rightarrow> nat \<Rightarrow> RawSegmentBuffer \<Rightarrow> RawSegmentInsert \<times> RawSegmentBuffer" where
  "insert_segment env now segment spare self =
     (let self = snd (expire_segments now self);
          capacity = length (rs_payload segment) + spare in
      case check_declared env (rb_config self) segment capacity of
        Inl reason \<Rightarrow> (SegmentDropped reason, remove_entry (rs_block_hash segment) self)
      | Inr (raw_len, metadata_bytes) \<Rightarrow>
          case open_entry env now self segment metadata_bytes capacity of
            (Some reason, self) \<Rightarrow> (SegmentDropped reason, self)
          | (None, self) \<Rightarrow> add_to_entry env self segment raw_len capacity)"

datatype segment_op = Insert instant RawBlockSegment nat | Expire instant

fun segment_step :: "segment_env \<Rightarrow> segment_op \<Rightarrow> RawSegmentBuffer \<Rightarrow> RawSegmentBuffer" where
  "segment_step env (Insert now segment spare) self = snd (insert_segment env now segment spare self)"
| "segment_step env (Expire now) self = snd (expire_segments now self)"

definition segment_run :: "segment_env \<Rightarrow> segment_op list \<Rightarrow> RawSegmentBuffer \<Rightarrow> RawSegmentBuffer" where
  "segment_run env ops self = fold (segment_step env) ops self"

section \<open>The invariant of the buffer\<close>

definition entry_sum :: "(RawSegmentEntry \<Rightarrow> nat) \<Rightarrow> (bytes, RawSegmentEntry) hash_map \<Rightarrow> nat" where
  "entry_sum f entries = sum_list (map (\<lambda>(_, entry). f entry) entries)"

definition payload_sum :: "RawBlockSegment option list \<Rightarrow> nat" where
  "payload_sum slots = sum_list (map (\<lambda>s. case s of None \<Rightarrow> 0 | Some segment \<Rightarrow> length (rs_payload segment)) slots)"

definition slots_ok :: "bytes \<Rightarrow> RawBlockSegment option list \<Rightarrow> bool" where
  "slots_ok block_hash slots \<longleftrightarrow>
     (\<forall>i < length slots. \<forall>s. slots ! i = Some s \<longrightarrow>
        rs_block_hash s = block_hash \<and> unat (rs_segment_index s) = i \<and> unat (rs_segment_count s) = length slots) \<and>
     (\<forall>s s'. Some s \<in> set slots \<longrightarrow> Some s' \<in> set slots \<longrightarrow>
        rs_raw_block_len s = rs_raw_block_len s' \<and> rs_raw_block_digest s = rs_raw_block_digest s')"

definition entry_ok :: "bytes \<Rightarrow> RawSegmentEntry \<Rightarrow> bool" where
  "entry_ok block_hash entry \<longleftrightarrow> re_bytes entry = payload_sum (re_segments entry) \<and>
     re_bytes entry \<le> re_buffered_bytes entry \<and> slots_ok block_hash (re_segments entry)"

definition buffer_ok :: "RawSegmentBufferConfig \<Rightarrow> RawSegmentBuffer \<Rightarrow> bool" where
  "buffer_ok config self \<longleftrightarrow> rb_config self = config \<and> hm_wf (rb_entries self) \<and>
     length (rb_entries self) \<le> rc_max_incomplete_blocks config \<and>
     rb_total_buffered_bytes self \<le> rc_max_total_payload_bytes config \<and>
     rb_total_payload_bytes self = entry_sum re_bytes (rb_entries self) \<and>
     rb_total_buffered_bytes self = entry_sum re_buffered_bytes (rb_entries self) \<and>
     (\<forall>block_hash entry. hm_get (rb_entries self) block_hash = Some entry \<longrightarrow> entry_ok block_hash entry)"

lemma delete_absent: "k \<notin> fst ` set m \<Longrightarrow> AList.delete k m = m"
  by (induction m) auto

lemma entry_sum_remove:
  "hm_wf m \<Longrightarrow> hm_get m k = Some e \<Longrightarrow> entry_sum f (hm_remove k m) + f e = entry_sum f m"
proof (induction m)
  case (Cons p m)
  then show ?case
    by (cases p) (auto simp: hm_wf_def hm_get_def hm_remove_def entry_sum_def delete_absent split: if_splits)
qed simp

lemma entry_sum_replace:
  "hm_get m k = Some e \<Longrightarrow> entry_sum f (hm_insert k e' m) + f e = entry_sum f m + f e'"
  by (induction m) (auto simp: hm_get_def hm_insert_def entry_sum_def split: if_splits)

lemma entry_sum_fresh: "hm_get m k = None \<Longrightarrow> entry_sum f (hm_insert k e m) = entry_sum f m + f e"
  by (induction m) (auto simp: hm_get_def hm_insert_def entry_sum_def split: if_splits)

lemma buffer_ok_new: "buffer_ok config (RawSegmentBuffer_new config)"
  by (simp add: buffer_ok_def RawSegmentBuffer_new_def entry_sum_def)

lemma remove_entry_ok:
  assumes "buffer_ok config self"
  shows "buffer_ok config (remove_entry block_hash self)"
proof (cases "hm_get (rb_entries self) block_hash")
  case (Some e)
  have "entry_sum f (hm_remove block_hash (rb_entries self)) = entry_sum f (rb_entries self) - f e" for f
    using entry_sum_remove [of "rb_entries self" block_hash e f] assms Some by (simp add: buffer_ok_def)
  then show ?thesis
    using assms Some order_trans [OF length_hm_remove_le, of "rb_entries self" _ block_hash]
    by (auto simp: buffer_ok_def remove_entry_def split: if_splits)
qed (use assms in \<open>simp add: remove_entry_def\<close>)

lemma fold_remove_ok: "buffer_ok config self \<Longrightarrow> buffer_ok config (fold remove_entry hashes self)"
  by (induction hashes arbitrary: self) (simp_all add: remove_entry_ok)

lemma expire_ok: "buffer_ok config self \<Longrightarrow> buffer_ok config (snd (expire_segments now self))"
  by (simp add: expire_segments_def Let_def fold_remove_ok)

lemma evict_ok: "buffer_ok config self \<Longrightarrow> buffer_ok config (evict_oldest_until_below_block_limit self)"
proof (induction self rule: evict_oldest_until_below_block_limit.induct)
  case (1 self)
  show ?case
    using 1 by (subst evict_oldest_until_below_block_limit.simps) (auto simp: remove_entry_ok split: option.splits)
qed

lemma get_remove_entry: "hm_get (rb_entries self) k = None \<Longrightarrow> hm_get (rb_entries (remove_entry h self)) k = None"
  by (auto simp: remove_entry_def split: option.splits)

lemma evict_keeps_absent:
  "hm_get (rb_entries self) k = None \<Longrightarrow> hm_get (rb_entries (evict_oldest_until_below_block_limit self)) k = None"
proof (induction self rule: evict_oldest_until_below_block_limit.induct)
  case (1 self)
  show ?case
    using 1 by (subst evict_oldest_until_below_block_limit.simps) (auto simp: get_remove_entry split: option.splits)
qed

lemma not_needs_more:
  "\<not> needs_more self m c \<Longrightarrow> rb_total_buffered_bytes self + m + c \<le> rc_max_total_payload_bytes (rb_config self)"
  by (auto simp: needs_more_def usize_add_def split: if_splits option.splits)

lemma fresh_entry_ok: "entry_ok h \<lparr>re_first_seen = t, re_bytes = 0, re_buffered_bytes = m, re_segments = replicate n None\<rparr>"
  by (auto simp: entry_ok_def payload_sum_def slots_ok_def sum_list_replicate)

lemma open_entry_ok:
  assumes "buffer_ok config self"
  shows "buffer_ok config (snd (open_entry env now self segment m c))"
proof (cases "hm_get (rb_entries self) (rs_block_hash segment)")
  case None
  define s where "s = evict_oldest_until_below_block_limit self"
  have s: "buffer_ok config s" and get: "hm_get (rb_entries s) (rs_block_hash segment) = None"
    using evict_ok [OF assms] evict_keeps_absent [OF None] by (simp_all add: s_def)
  show ?thesis
    using s get not_needs_more [of s m c] None
    by (auto simp: open_entry_def hm_contains_def s_def [symmetric] Let_def buffer_ok_def fresh_entry_ok
        entry_sum_fresh length_hm_insert)
qed (use assms in \<open>simp add: open_entry_def hm_contains_def\<close>)

lemma present_slots: "Some s \<in> set slots \<Longrightarrow> s \<in> set (map the (filter (\<lambda>s. s \<noteq> None) slots))"
  by force

lemma consistentD:
  assumes "slots_ok h (re_segments entry)" and "\<not> inconsistent entry segment"
  shows "length (re_segments entry) = unat (rs_segment_count segment)"
    and "Some s \<in> set (re_segments entry) \<Longrightarrow>
         rs_raw_block_len s = rs_raw_block_len segment \<and> rs_raw_block_digest s = rs_raw_block_digest segment"
proof -
  let ?p = "map the (filter (\<lambda>s. s \<noteq> None) (re_segments entry))"
  show "length (re_segments entry) = unat (rs_segment_count segment)" using assms(2) by (simp add: inconsistent_def)
  assume s: "Some s \<in> set (re_segments entry)"
  have "?p \<noteq> []" using present_slots [OF s] by (metis empty_iff list.set(1))
  then obtain first rest where p: "?p = first # rest" unfolding neq_Nil_conv by (elim exE) (rule that)
  then have "first \<in> set ?p" by (metis list.set_intros(1))
  then have "Some first \<in> set (re_segments entry)" by auto
  then have "rs_raw_block_len s = rs_raw_block_len first \<and> rs_raw_block_digest s = rs_raw_block_digest first"
    using assms(1) s unfolding slots_ok_def by blast
  moreover have "rs_raw_block_len first = rs_raw_block_len segment \<and> rs_raw_block_digest first = rs_raw_block_digest segment"
    using assms(2) unfolding inconsistent_def p by simp
  ultimately show "rs_raw_block_len s = rs_raw_block_len segment \<and> rs_raw_block_digest s = rs_raw_block_digest segment" by simp
qed

lemma stored_slots_ok:
  assumes "slots_ok h (re_segments entry)" and "\<not> inconsistent entry segment"
    and "unat (rs_segment_index segment) < unat (rs_segment_count segment)" and "rs_block_hash segment = h"
  shows "slots_ok h ((re_segments entry)[unat (rs_segment_index segment) := Some segment])"
proof -
  note len = consistentD(1) [OF assms(1,2)] and same = consistentD(2) [OF assms(1,2)]
  have in_set: "Some s \<in> set ((re_segments entry)[unat (rs_segment_index segment) := Some segment]) \<Longrightarrow>
      rs_raw_block_len s = rs_raw_block_len segment \<and> rs_raw_block_digest s = rs_raw_block_digest segment" for s
    using same [of s] set_update_subset_insert [of "re_segments entry" "unat (rs_segment_index segment)" "Some segment"] by auto
  have "rs_block_hash s = h \<and> unat (rs_segment_index s) = i \<and> unat (rs_segment_count s) = length (re_segments entry)"
    if "i < length (re_segments entry)" "(re_segments entry)[unat (rs_segment_index segment) := Some segment] ! i = Some s" for i s
  proof (cases "i = unat (rs_segment_index segment)")
    case True
    then show ?thesis using that len assms(4) by simp
  next
    case False
    then have "re_segments entry ! i = Some s" using that by simp
    then show ?thesis using assms(1) that(1) unfolding slots_ok_def by blast
  qed
  moreover have "rs_raw_block_len s = rs_raw_block_len s' \<and> rs_raw_block_digest s = rs_raw_block_digest s'"
    if "Some s \<in> set ((re_segments entry)[unat (rs_segment_index segment) := Some segment])"
      "Some s' \<in> set ((re_segments entry)[unat (rs_segment_index segment) := Some segment])" for s s'
    using in_set [OF that(1)] in_set [OF that(2)] by simp
  ultimately show ?thesis unfolding slots_ok_def length_list_update by blast
qed

lemma payload_sum_store:
  assumes "i < length slots" and "slots ! i = None"
  shows "payload_sum (slots[i := Some s]) = payload_sum slots + length (rs_payload s)"
  using assms by (simp add: payload_sum_def map_update sum_list_update)

lemma stored_entry_ok:
  assumes "entry_ok h entry" and "\<not> inconsistent entry segment" and "rs_block_hash segment = h"
    and "unat (rs_segment_index segment) < unat (rs_segment_count segment)"
    and "re_segments entry ! unat (rs_segment_index segment) = None" and "length (rs_payload segment) \<le> c"
  shows "entry_ok h (store_segment entry segment c)"
proof -
  have s: "slots_ok h (re_segments entry)" using assms(1) by (simp add: entry_ok_def)
  then have "unat (rs_segment_index segment) < length (re_segments entry)"
    using consistentD(1) [OF s assms(2)] assms(4) by simp
  then show ?thesis
    using assms(1,5,6) stored_slots_ok [OF s assms(2,4,3)] by (simp add: entry_ok_def store_segment_def payload_sum_store)
qed

text \<open>The buffer after a segment went into its slot.\<close>

definition stored :: "RawSegmentBuffer \<Rightarrow> RawSegmentEntry \<Rightarrow> RawBlockSegment \<Rightarrow> nat \<Rightarrow> RawSegmentBuffer" where
  "stored self entry segment capacity =
     self\<lparr>rb_entries := hm_insert (rs_block_hash segment) (store_segment entry segment capacity) (rb_entries self),
          rb_total_payload_bytes := rb_total_payload_bytes self + length (rs_payload segment),
          rb_total_buffered_bytes := rb_total_buffered_bytes self + capacity\<rparr>"

lemma stored_ok:
  assumes ok: "buffer_ok config self" and get: "hm_get (rb_entries self) (rs_block_hash segment) = Some entry"
    and e: "\<not> inconsistent entry segment" "re_segments entry ! unat (rs_segment_index segment) = None"
      "unat (rs_segment_index segment) < unat (rs_segment_count segment)" "\<not> needs_more self 0 c"
      "length (rs_payload segment) \<le> c"
  shows "buffer_ok config (stored self entry segment c)"
proof -
  have "entry_ok (rs_block_hash segment) entry" using ok get by (simp add: buffer_ok_def)
  then have "entry_ok (rs_block_hash segment) (store_segment entry segment c)"
    by (rule stored_entry_ok) (use e in simp_all)
  moreover have "entry_sum f (hm_insert (rs_block_hash segment) (store_segment entry segment c) (rb_entries self)) + f entry =
      entry_sum f (rb_entries self) + f (store_segment entry segment c)" for f
    using entry_sum_replace [OF get] .
  from this [of re_bytes] this [of re_buffered_bytes]
  have "entry_sum re_bytes (hm_insert (rs_block_hash segment) (store_segment entry segment c) (rb_entries self)) =
      entry_sum re_bytes (rb_entries self) + length (rs_payload segment)"
    "entry_sum re_buffered_bytes (hm_insert (rs_block_hash segment) (store_segment entry segment c) (rb_entries self)) =
      entry_sum re_buffered_bytes (rb_entries self) + c"
    by (simp_all add: store_segment_def)
  ultimately show ?thesis
    using ok not_needs_more [OF e(4)] get
    by (auto simp: buffer_ok_def stored_def length_hm_insert hm_contains_def split: if_splits)
qed

lemma add_to_entry_ok:
  assumes "buffer_ok config self" and "unat (rs_segment_index segment) < unat (rs_segment_count segment)"
    and "length (rs_payload segment) \<le> c"
  shows "buffer_ok config (snd (add_to_entry env self segment raw_len c))"
  using assms stored_ok [OF assms(1) _ _ _ assms(2) _ assms(3)]
  by (auto simp: add_to_entry_def stored_def [symmetric] Let_def remove_entry_ok split: option.splits)

lemma check_declared_index:
  "check_declared env config segment c = Inr (raw_len, m) \<Longrightarrow>
   unat (rs_segment_index segment) < unat (rs_segment_count segment) \<and> raw_len = unat (rs_raw_block_len segment)"
  by (auto simp: check_declared_def Let_def split: if_splits option.splits)

lemma insert_segment_ok:
  assumes "buffer_ok config self"
  shows "buffer_ok config (snd (insert_segment env now segment spare self))"
proof -
  define s where "s = snd (expire_segments now self)"
  define c where "c = length (rs_payload segment) + spare"
  have s: "buffer_ok config s" unfolding s_def by (rule expire_ok [OF assms])
  have c: "length (rs_payload segment) \<le> c" by (simp add: c_def)
  show ?thesis
  proof (cases "check_declared env (rb_config s) segment c")
    case (Inl reason)
    then show ?thesis using s by (simp add: insert_segment_def s_def [symmetric] c_def [symmetric] remove_entry_ok)
  next
    case (Inr lens)
    then obtain raw_len m where lens: "check_declared env (rb_config s) segment c = Inr (raw_len, m)" by (cases lens) simp
    obtain r s' where o: "open_entry env now s segment m c = (r, s')" by (cases "open_entry env now s segment m c") simp
    have "buffer_ok config s'" using open_entry_ok [OF s, of env now segment m c] o by simp
    then show ?thesis
      using lens o check_declared_index [OF lens] c
      by (cases r) (simp_all add: insert_segment_def s_def [symmetric] c_def [symmetric] add_to_entry_ok)
  qed
qed

lemma segment_run_ok: "buffer_ok config (segment_run env ops (RawSegmentBuffer_new config))"
proof -
  have "buffer_ok config self \<Longrightarrow> buffer_ok config (fold (segment_step env) ops self)" for self
  proof (induction ops arbitrary: self)
    case (Cons op ops)
    then show ?case by (cases op) (simp_all add: insert_segment_ok expire_ok)
  qed simp
  then show ?thesis by (simp add: segment_run_def buffer_ok_new)
qed

text \<open>
  C27.  Whatever segments arrive, and whenever the buffer is swept, it holds no more blocks and no more
  bytes than configured, and its two counters are the sums over its entries; the payload count of
  an entry is the length of the payloads it stores, so that the payloads stored are within the limit.
\<close>

theorem segment_buffer_bounded:
  "let self = segment_run env ops (RawSegmentBuffer_new config) in
   length (rb_entries self) \<le> rc_max_incomplete_blocks config \<and>
   rb_total_buffered_bytes self \<le> rc_max_total_payload_bytes config \<and>
   rb_total_buffered_bytes self = sum_list (map (\<lambda>(_, entry). re_buffered_bytes entry) (rb_entries self)) \<and>
   rb_total_payload_bytes self = sum_list (map (\<lambda>(_, entry). payload_sum (re_segments entry)) (rb_entries self)) \<and>
   rb_total_payload_bytes self \<le> rc_max_total_payload_bytes config"
proof -
  let ?self = "segment_run env ops (RawSegmentBuffer_new config)"
  have ok: "buffer_ok config ?self" by (rule segment_run_ok)
  have "map (\<lambda>(_, entry). re_bytes entry) (rb_entries ?self) = map (\<lambda>(_, entry). payload_sum (re_segments entry)) (rb_entries ?self)"
    using ok by (auto simp: buffer_ok_def entry_ok_def dest!: hm_get_SomeI)
  from arg_cong [OF this, of sum_list] have sums: "entry_sum re_bytes (rb_entries ?self) = sum_list (map (\<lambda>(_, entry). payload_sum (re_segments entry)) (rb_entries ?self))"
    unfolding entry_sum_def .
  have limits: "length (rb_entries ?self) \<le> rc_max_incomplete_blocks config"
      "rb_total_buffered_bytes ?self \<le> rc_max_total_payload_bytes config"
      "rb_total_buffered_bytes ?self = entry_sum re_buffered_bytes (rb_entries ?self)"
      "rb_total_payload_bytes ?self = entry_sum re_bytes (rb_entries ?self)"
    using ok unfolding buffer_ok_def by blast+
  have "entry_sum re_bytes (rb_entries ?self) \<le> entry_sum re_buffered_bytes (rb_entries ?self)"
    unfolding entry_sum_def using ok
    by (intro sum_list_mono) (auto simp: buffer_ok_def entry_ok_def dest!: hm_get_SomeI)
  then have "rb_total_payload_bytes ?self \<le> rc_max_total_payload_bytes config" using limits by linarith
  then show ?thesis using limits unfolding sums unfolding entry_sum_def Let_def by blast
qed


section \<open>Complete sets\<close>

lemma complete_slots:
  assumes "slots_ok h slots" and "\<forall>s \<in> set slots. s \<noteq> None"
  defines "segments \<equiv> map the (filter (\<lambda>s. s \<noteq> None) slots)"
  shows "slots = map Some segments"
    and "map (\<lambda>s. unat (rs_segment_index s)) segments = [0..<length segments]"
    and "s \<in> set segments \<Longrightarrow> rs_block_hash s = h \<and> unat (rs_segment_count s) = length segments"
    and "payload_sum slots = sum_list (map (\<lambda>s. length (rs_payload s)) segments)"
proof -
  have "filter (\<lambda>s. s \<noteq> None) slots = slots" using assms(2) by (simp only: filter_id_conv)
  then have segs: "segments = map the slots" by (simp only: segments_def)
  have "map (\<lambda>s. Some (the s)) slots = map (\<lambda>s. s) slots" by (rule map_cong [OF refl]) (use assms(2) in auto)
  then show slots: "slots = map Some segments" by (simp add: segs comp_def)
  have nth: "rs_block_hash (segments ! i) = h \<and> unat (rs_segment_index (segments ! i)) = i \<and>
      unat (rs_segment_count (segments ! i)) = length segments" if "i < length segments" for i
  proof -
    have "slots ! i = Some (segments ! i)" "length slots = length segments" using that slots by simp_all
    then show ?thesis using assms(1) that unfolding slots_ok_def by metis
  qed
  then show "map (\<lambda>s. unat (rs_segment_index s)) segments = [0..<length segments]" by (intro nth_equalityI) simp_all
  show "s \<in> set segments \<Longrightarrow> rs_block_hash s = h \<and> unat (rs_segment_count s) = length segments"
    using nth by (auto simp: in_set_conv_nth)
  show "payload_sum slots = sum_list (map (\<lambda>s. length (rs_payload s)) segments)"
    by (subst slots) (simp add: payload_sum_def comp_def)
qed

text \<open>What is known of the entry of a segment that completes its set.\<close>

lemma add_to_entry_complete:
  assumes "buffer_ok config self" and "unat (rs_segment_index segment) < unat (rs_segment_count segment)"
    and "fst (add_to_entry env self segment raw_len c) = SegmentsComplete segments first_seen"
    and "length (rs_payload segment) \<le> c"
  obtains slots where "slots_ok (rs_block_hash segment) slots" "\<forall>s \<in> set slots. s \<noteq> None" "Some segment \<in> set slots"
    "segments = map the (filter (\<lambda>s. s \<noteq> None) slots)" "payload_sum slots \<le> raw_len"
proof -
  obtain entry where get: "hm_get (rb_entries self) (rs_block_hash segment) = Some entry"
    using assms(3) by (auto simp: add_to_entry_def Let_def split: option.splits)
  let ?e = "store_segment entry segment c"
  have e: "\<not> inconsistent entry segment" "re_segments entry ! unat (rs_segment_index segment) = None"
      "re_bytes entry + length (rs_payload segment) \<le> raw_len" "\<forall>s \<in> set (re_segments ?e). s \<noteq> None"
      "segments = map the (filter (\<lambda>s. s \<noteq> None) (re_segments ?e))"
    using assms(3) get by (auto simp: add_to_entry_def Let_def usize_add_def split: if_splits option.splits)
  have ok: "entry_ok (rs_block_hash segment) entry" using assms(1) get by (simp add: buffer_ok_def)
  have ok': "entry_ok (rs_block_hash segment) ?e" by (rule stored_entry_ok [OF ok e(1) refl assms(2) e(2) assms(4)])
  have s: "slots_ok (rs_block_hash segment) (re_segments entry)" using ok by (simp add: entry_ok_def)
  have "unat (rs_segment_index segment) < length (re_segments entry)" using consistentD(1) [OF s e(1)] assms(2) by simp
  then have mem: "Some segment \<in> set (re_segments ?e)" by (simp add: store_segment_def set_update_memI)
  have "payload_sum (re_segments ?e) = re_bytes ?e" using ok' by (simp add: entry_ok_def)
  also have "\<dots> \<le> raw_len" using e(3) by (simp add: store_segment_def)
  finally have le: "payload_sum (re_segments ?e) \<le> raw_len" .
  have "slots_ok (rs_block_hash segment) (re_segments ?e)" using ok' by (simp add: entry_ok_def)
  then show ?thesis by (rule that [OF _ e(4) mem e(5) le])
qed

lemma insert_complete:
  assumes "fst (insert_segment env now segment spare (segment_run env ops (RawSegmentBuffer_new config))) =
           SegmentsComplete segments first_seen"
  obtains self raw_len c where "buffer_ok config self" "unat (rs_segment_index segment) < unat (rs_segment_count segment)"
    "raw_len = unat (rs_raw_block_len segment)" "length (rs_payload segment) \<le> c"
    "fst (add_to_entry env self segment raw_len c) = SegmentsComplete segments first_seen"
proof -
  define s where "s = snd (expire_segments now (segment_run env ops (RawSegmentBuffer_new config)))"
  define c where "c = length (rs_payload segment) + spare"
  have s: "buffer_ok config s" unfolding s_def by (rule expire_ok [OF segment_run_ok])
  obtain raw_len m where lens: "check_declared env (rb_config s) segment c = Inr (raw_len, m)"
    using assms by (auto simp: insert_segment_def s_def [symmetric] c_def [symmetric] Let_def split: sum.splits)
  obtain r s' where o: "open_entry env now s segment m c = (r, s')" by (cases "open_entry env now s segment m c") simp
  have "buffer_ok config s'" using open_entry_ok [OF s, of env now segment m c] o by simp
  moreover have "fst (add_to_entry env s' segment raw_len c) = SegmentsComplete segments first_seen"
    using assms lens o by (cases r) (simp_all add: insert_segment_def s_def [symmetric] c_def [symmetric])
  moreover have "length (rs_payload segment) \<le> c" by (simp add: c_def)
  ultimately show ?thesis using check_declared_index [OF lens] that by blast
qed

text \<open>A set in order and of one block fails to reassemble on its length or its digest only.\<close>

definition reassembled :: "digest_fn \<Rightarrow> RawBlockSegment \<Rightarrow> RawBlockSegment list \<Rightarrow> SegmentedBlockError + bytes" where
  "reassembled sha256 segment segments =
     (let raw_block = concat (map rs_payload segments) in
      if length raw_block \<noteq> unat (rs_raw_block_len segment) then Inl LengthMismatch
      else if sha256 raw_block \<noteq> rs_raw_block_digest segment then Inl DigestMismatch
      else Inr raw_block)"

lemma ordered_reassemble:
  assumes keys: "map (\<lambda>s. unat (rs_segment_index s)) segments = [0..<length segments]"
    and all: "\<And>s. s \<in> set segments \<Longrightarrow> belongs sha256 segment s" and mem: "segment \<in> set segments"
    and len: "unat (rs_segment_count segment) = length segments"
    and sum: "sum_list (map (\<lambda>s. length (rs_payload s)) segments) \<le> USIZE_MAX"
  shows "reassemble_raw_block (\<lambda>_ _. True) sha256 segments = reassembled sha256 segment segments"
proof -
  have ne: "segments \<noteq> []" "hd segments \<in> set segments" using mem by (auto intro: hd_in_set)
  have hd: "belongs sha256 segment (hd segments)" by (rule all [OF ne(2)])
  then have f: "rs_segment_count (hd segments) = rs_segment_count segment" "rs_raw_block_len (hd segments) = rs_raw_block_len segment"
      "rs_raw_block_digest (hd segments) = rs_raw_block_digest segment"
    unfolding belongs_def by blast+
  have "belongs sha256 (hd segments) s" if "s \<in> set segments" for s
    using all [OF that] hd unfolding belongs_def by metis
  then have check: "check_segments sha256 (hd segments) 0 segments = Inr (sum_list (map (\<lambda>s. length (rs_payload s)) segments))"
    using check_segments_all [of segments sha256 "hd segments" 0] sum by simp
  have order: "segment_order segments = segments" by (rule segment_order_permuted [OF refl keys])
  have upto: "check_order 0 None segments = Inr ()" by (rule check_order_upto) (simp_all add: keys)
  have raw: "length (concat (map rs_payload segments)) = sum_list (map (\<lambda>s. length (rs_payload s)) segments)"
    by (simp add: length_concat comp_def)
  show ?thesis
    unfolding reassemble_raw_block_def list.case_eq_if reassembled_def raw Let_def
    using ne f len check order upto by (simp del: map_map)
qed

text \<open>
  C26.  When a segment completes its set, after whatever arrived before, the set returned is that of its
  block, in order and without gaps; with payloads that have their digests, as decoded segments do,
  it reassembles to the concatenation of the payloads, unless the length or the digest of the block
  is not the declared one.
\<close>

theorem complete_set_reassembles:
  assumes "fst (insert_segment env now segment spare (segment_run env ops (RawSegmentBuffer_new config))) =
           SegmentsComplete segments first_seen"
    and "\<forall>s \<in> set segments. sha256 (rs_payload s) = rs_payload_digest s"
  shows "segment \<in> set segments \<and> (\<forall>s \<in> set segments. rs_block_hash s = rs_block_hash segment) \<and>
         map (\<lambda>s. unat (rs_segment_index s)) segments = [0..<unat (rs_segment_count segment)] \<and>
         reassemble_raw_block (\<lambda>_ _. True) sha256 segments =
           (let raw_block = concat (map rs_payload segments) in
            if length raw_block \<noteq> unat (rs_raw_block_len segment) then Inl LengthMismatch
            else if sha256 raw_block \<noteq> rs_raw_block_digest segment then Inl DigestMismatch
            else Inr raw_block)"
proof -
  obtain self raw_len c where self: "buffer_ok config self" and index: "unat (rs_segment_index segment) < unat (rs_segment_count segment)"
    and raw_len: "raw_len = unat (rs_raw_block_len segment)" and cap: "length (rs_payload segment) \<le> c"
    and complete: "fst (add_to_entry env self segment raw_len c) = SegmentsComplete segments first_seen"
    by (rule insert_complete [OF assms(1)])
  obtain slots where slots: "slots_ok (rs_block_hash segment) slots" "\<forall>s \<in> set slots. s \<noteq> None" and mem: "Some segment \<in> set slots"
    and segs: "segments = map the (filter (\<lambda>s. s \<noteq> None) slots)" and sum: "payload_sum slots \<le> raw_len"
    by (rule add_to_entry_complete [OF self index complete cap])
  note cs = complete_slots [OF slots, folded segs]
  have seg: "segment \<in> set segments" using mem cs(1) by auto
  then have len: "unat (rs_segment_count segment) = length segments" using cs(3) by simp
  have "raw_len \<le> USIZE_MAX" unfolding raw_len USIZE_MAX_def using unsigned_less [of "rs_raw_block_len segment", where 'a = nat] by simp
  then have total: "sum_list (map (\<lambda>s. length (rs_payload s)) segments) \<le> USIZE_MAX" using sum cs(4) by simp
  have "belongs sha256 segment s" if s: "s \<in> set segments" for s
  proof -
    have in_slots: "Some s \<in> set slots" using s cs(1) by simp
    have "rs_raw_block_len s = rs_raw_block_len segment \<and> rs_raw_block_digest s = rs_raw_block_digest segment"
      using slots(1) in_slots mem unfolding slots_ok_def by blast
    moreover have "unat (rs_segment_index s) \<in> set [0..<length segments]" unfolding cs(2) [symmetric] using s by simp
    then have "unat (rs_segment_index s) < unat (rs_segment_count segment)" by (simp add: len)
    moreover have "rs_segment_count s = rs_segment_count segment" using cs(3) [OF s] len by (simp add: word_unat_eq_iff)
    ultimately show ?thesis unfolding belongs_def using cs(3) [OF s] assms(2) s by blast
  qed
  from ordered_reassemble [OF cs(2) this seg len total]
  show ?thesis unfolding reassembled_def len using seg cs(2,3) by blast
qed

theorem complete_set_reassembles_witness:
  "\<exists>first second. split_raw_block flat_digest (replicate 32 9) [1, 2, 3] 120 = Inr [first, second] \<and>
     (let env = \<lparr>se_slot_size = 8, se_entry_size = 16, se_alloc = \<lambda>_ _. True\<rparr>;
          config = \<lparr>rc_max_incomplete_blocks = 1, rc_max_total_payload_bytes = 100, rc_ttl = 50\<rparr>;
          self = segment_run env [Insert 5 second 0] (RawSegmentBuffer_new config) in
      fst (insert_segment env 10 first 4 self) = SegmentsComplete [first, second] 5 \<and>
      reassemble_raw_block (\<lambda>_ _. True) flat_digest [first, second] = Inr [1, 2, 3])"
proof -
  let ?s = "segment_at flat_digest (replicate 32 9) [1, 2, 3] 2 2"
  let ?env = "\<lparr>se_slot_size = 8, se_entry_size = 16, se_alloc = \<lambda>_ _. True\<rparr>"
  let ?config = "\<lparr>rc_max_incomplete_blocks = 1, rc_max_total_payload_bytes = 100, rc_ttl = 50\<rparr>"
  have s: "split_raw_block flat_digest (replicate 32 9) [1, 2, 3] 120 = Inr [?s 0, ?s 1]"
    by (simp add: split_raw_block_def SEGMENT_HEADER_LEN_def div_ceil_def Let_def)
  note defs = segment_run_def insert_segment_def expire_segments_def check_declared_def open_entry_def add_to_entry_def
    RawSegmentBuffer_new_def inconsistent_def store_segment_def remove_entry_def needs_more_def usize_add_def usize_mul_def
    USIZE_MAX_def expired_entry_def hm_contains_def hm_insert_def hm_remove_def hm_get_def byte_range_def
    evict_oldest_until_below_block_limit.simps Let_def
  have two: "replicate 2 None = [None, None :: RawBlockSegment option]" by (simp add: numeral_2_eq_2)
  have c: "fst (insert_segment ?env 10 (?s 0) 4 (segment_run ?env [Insert 5 (?s 1) 0] (RawSegmentBuffer_new ?config))) =
      SegmentsComplete [?s 0, ?s 1] 5"
    by (simp add: defs two)
  have "reassemble_raw_block (\<lambda>_ _. True) flat_digest [?s 0, ?s 1] = Inr [1, 2, 3]"
    using complete_set_reassembles [OF c, of flat_digest] by (simp add: byte_range_def flat_digest_def)
  then show ?thesis using s c by (intro exI [of _ "?s 0"] exI [of _ "?s 1"]) (simp add: Let_def)
qed

end
