(* ===== verification/Spec2Isabelle.thy ===== *)
theory Spec2Isabelle
  imports Mining_Codec Cross_Credit Jd_Run Chain_View Raw_Segments
begin

text \<open>
  A verification of the mining infrastructure under \<open>src/crates\<close>: a Zcash mining pool, its
  job declaration server, and the parts of the relay sidecar that decide which relayed block reaches
  the local node.

  \<^bold>\<open>The program.\<close>  The template provider polls a node for block templates.  The pool server makes
  jobs of them, sends these to miners over a binary protocol, validates the shares that come back,
  credits them to the payout tracker and submits the blocks it finds.  The job declaration server
  lets miners declare jobs of their own; it shares the payout tracker and the chain tip with the
  pool.  Relayed blocks reach the sidecar whole or in segments; it puts segments together, looks up
  the parent at the node, and passes candidates through a gate before it submits them.

  \<^bold>\<open>Theories and sources.\<close>

  \<^item> \<open>Prelude\<close>, \<open>Bytes\<close>, \<open>F64\<close>, \<open>Once_Set\<close>: what the models share of Rust.  Machine integers are
    words, a \<open>usize\<close> that counts a collection is a \<open>nat\<close>, \<open>Result\<close> is a sum with the error on
    the left, a possible panic is the type \<open>outcome\<close>, an \<open>Instant\<close> is an \<open>int\<close> of nanoseconds, a
    \<open>HashMap\<close> an association list, an \<open>f64\<close> an exact model of binary64.  \<open>Once_Set\<close> is the contract
    of a set that admits a key once.
  \<^item> \<open>Compact_Size\<close>, \<open>Mining_Messages\<close>, \<open>Mining_Codec\<close>: \<open>zcash-pool-common/src/compact_size.rs\<close>
    and \<open>zcash-mining-protocol\<close>.  The locale \<open>message_codec\<close> is interpreted for every message, here
    and in \<open>Jd_Codec\<close>; the round trips follow from it.
  \<^item> \<open>Difficulty\<close>, \<open>Vardiff\<close>, \<open>Equihash_Validator\<close>: \<open>zcash-equihash-validator\<close> and
    \<open>block_hash.rs\<close>: targets as numbers, the difficulty controller that stays in its range, and
    exactly which shares verify.
  \<^item> \<open>Payout\<close>, \<open>Payout_Credit\<close>, \<open>Payout_Settlement\<close>, \<open>Payout_Durability\<close>:
    \<open>zcash-pool-common/src/payout.rs\<close>: no double credit, settlement and pruning, and that what is
    credited is on disk or marked dirty.  Settling and pruning, which release a lock between reading and
    writing, are split there and other calls interleave; recording, cleanup and flushing are one step.
  \<^item> \<open>Template\<close>, \<open>Duplicate\<close>, \<open>Rate_Limit\<close>, \<open>Id_Counter\<close>, \<open>Channel\<close>, \<open>Job\<close>, \<open>Share\<close>, \<open>Security\<close>,
    \<open>Pool_Config\<close>: \<open>zcash-template-provider\<close> and the files of \<open>zcash-pool-server\<close> of those names.
  \<^item> \<open>Pool_Server\<close>, \<open>Pool_Run\<close>: \<open>zcash-pool-server/src/server.rs\<close>.  Every handler is a function on
    the record \<open>PoolServer\<close>; \<open>Pool_Run\<close> has the step relation of the whole server.
  \<^item> \<open>Coinbase\<close>, \<open>Jd_Messages\<close>, \<open>Jd_Codec\<close>, \<open>Jd_Token\<close>, \<open>Jd_Validation\<close>, \<open>Jd_Server\<close>, \<open>Jd_Shares\<close>,
    \<open>Jd_Session\<close>, \<open>Jd_Run\<close>: \<open>zcash-coinbase\<close> and \<open>zcash-jd-server\<close>, from the transaction parser to
    the step relation of the server.
  \<^item> \<open>Cross_Credit\<close>: both servers beside each other, with \<open>handle_new_template\<close> in its parts.  A step is a
    handler of the models above: a part of a template's handling, a connection, the end of a session, or
    the credit of a share by either path.
  \<^item> \<open>Recent_Ring\<close>, \<open>Submit_Gate\<close>, \<open>Chain_View\<close>: the submission gate of \<open>sovright-relay-sidecar\<close>
    (\<open>submit_gate.rs\<close>, \<open>chain_view.rs\<close>, \<open>submit_through_gate\<close> of \<open>submit.rs\<close> up to the call to the
    node, the header lookup of \<open>rpc.rs\<close>, the hash ring of \<open>main.rs\<close>).  The locale \<open>recent_hashes\<close> is interpreted by both rings and \<open>chain_view\<close> by the view
    of the node.
  \<^item> \<open>Block_Body\<close>, \<open>Segmented_Block\<close>, \<open>Raw_Segments\<close>: \<open>merkle.rs\<close> and \<open>segmented_block.rs\<close> of
    \<open>sovright-relay\<close>, and the buffer of incomplete blocks in the sidecar's \<open>main.rs\<close>.

  \<^bold>\<open>What is shown.\<close>  The pool never panics in any run, credits a share exactly when it accepts it, and
  reports only valid blocks; a winning share that is admitted, new and still active when it is credited
  yields a block.  A solution is credited once per previous block across the pool and the job declaration
  server as long as tips do not come back, the cross-path filter has room, and nothing is credited for a
  new tip before the filter is cleared; the interleaving in which this fails is a theorem too.  Declared
  jobs pay the pool.  The gate answers like one that keeps the whole log of submissions, lets no
  candidate through whose parent the node did not confirm, and refuses repeated blocks.  The segment
  buffer stays in its limits, and its complete sets reassemble.  The remaining properties are the
  contracts of the single components.  Theorems of the kind \<open>error\<close> show defects of the code.

  \<^bold>\<open>Bounds and fuel.\<close>  Every function is total and none takes fuel.  Loops are recursions on the data
  or come with a termination measure: the length of the map for the eviction of segments, the number
  of tracked jobs for a channel, the unread bytes for a session.  The retries of a header lookup are
  bounded by the list of pauses in the source.

  \<^bold>\<open>Parameters.\<close>  SHA-256, BLAKE2b, SipHash, the Equihash verifier, the hex and JSON crates, the
  transaction reader, random bytes, clocks, the allocator, the file system and the node are arguments
  of the definitions.  What a proof needs of them is a hypothesis of its theorem.

  \<^bold>\<open>Not modelled.\<close>  Metrics and logging, sockets, the Noise and error correction wrappers, whose content
  is in other crates, and the test miner.  Of the pool server the accept loop, the session I/O, the
  control endpoint, reconnection and relay announcements.  Of the sidecar the task loops, the building of
  candidates, the submission calls with their answers, and the configuration.
  The relay's transport, nodes and compact blocks, the peer-to-peer ingress, the job declaration
  client and the Stratum V1 proxy are separate programs and outside this development.  Poisoned locks do not
  appear; the order in which a hash map is iterated is that of its list, or a parameter where it shows.
\<close>

end
